(* ===== verification/Prelude.thy ===== *)
theory Prelude
  imports Main "HOL-Library.Word"
begin

text \<open>
  Shared vocabulary of the development: the machine integers of the Rust sources with their
  checked, saturating and wrapping operations, the error-or-value results, finite
  key-value stores that stand for shared heap cells, and the lemmas about them that every
  component uses. The collection \<open>word_nat\<close> moves a word goal to natural numbers.
\<close>

section \<open>Machine integers\<close>

type_synonym u8 = "8 word"
type_synonym u16 = "16 word"
type_synonym u32 = "32 word"
type_synonym u64 = "64 word"

named_theorems word_nat \<open>facts that read a machine word as a natural number\<close>

text \<open>\<open>checked_add\<close>, \<open>checked_sub\<close>, \<open>saturating_add\<close> and \<open>saturating_sub\<close> of Rust's unsigned integers.\<close>

definition checked_add :: "'a::len word \<Rightarrow> 'a word \<Rightarrow> 'a word option" where
  "checked_add a b = (if unat a + unat b < 2 ^ LENGTH('a) then Some (a + b) else None)"

definition checked_sub :: "'a::len word \<Rightarrow> 'a word \<Rightarrow> 'a word option" where
  "checked_sub a b = (if b \<le> a then Some (a - b) else None)"

definition saturating_add :: "'a::len word \<Rightarrow> 'a word \<Rightarrow> 'a word" where
  "saturating_add a b = (if unat a + unat b < 2 ^ LENGTH('a) then a + b else - 1)"

definition saturating_sub :: "'a::len word \<Rightarrow> 'a word \<Rightarrow> 'a word" where
  "saturating_sub a b = (if b \<le> a then a - b else 0)"

lemma unat_less_2p [word_nat]: "unat (w::'a::len word) < 2 ^ LENGTH('a)"
  by (rule unsigned_less)

lemma checked_add_Some:
  "checked_add a b = Some c \<longleftrightarrow> unat a + unat b < 2 ^ LENGTH('a) \<and> c = (a::'a::len word) + b"
  by (auto simp: checked_add_def)

lemma unat_plus_small [word_nat]:
  "unat (a::'a::len word) + unat b < 2 ^ LENGTH('a) \<Longrightarrow> unat (a + b) = unat a + unat b"
  by (simp add: unat_add_lem)

lemma unat_minus_small [word_nat]:
  "b \<le> (a::'a::len word) \<Longrightarrow> unat (a - b) = unat a - unat b"
  by (simp add: unat_sub)

lemma checked_add_unat: "checked_add a b = Some c \<Longrightarrow> unat c = unat a + unat b"
  by (simp add: checked_add_Some unat_plus_small)

lemma checked_sub_Some: "checked_sub a b = Some c \<longleftrightarrow> b \<le> a \<and> c = a - b"
  by (auto simp: checked_sub_def)

lemma unat_saturating_add [word_nat]:
  "unat (saturating_add a b) = min (unat (a::'a::len word) + unat b) (2 ^ LENGTH('a) - 1)"
  by (auto simp: saturating_add_def unat_plus_small min_def unsigned_minus_1_eq_mask mask_eq_exp_minus_1)

lemma unat_saturating_sub [word_nat]:
  "unat (saturating_sub a b) = unat (a::'a::len word) - unat b"
  by (auto simp: saturating_sub_def unat_minus_small word_le_nat_alt)

lemma unat_of_nat_small [word_nat]: "n < 2 ^ LENGTH('a) \<Longrightarrow> unat (of_nat n :: 'a::len word) = n"
  by (simp add: unsigned_of_nat take_bit_nat_eq_self)

lemma unat_min [word_nat]: "unat (min (a::'a::len word) b) = min (unat a) (unat b)"
  by (simp add: min_def word_le_nat_alt)

lemma unat_max [word_nat]: "unat (max (a::'a::len word) b) = max (unat a) (unat b)"
  by (simp add: max_def word_le_nat_alt)

lemma unat_max_word: "unat (- 1 :: 'a::len word) = 2 ^ LENGTH('a) - 1"
  by (simp add: unsigned_minus_1_eq_mask mask_eq_exp_minus_1)

lemma unat_not_max: "(w :: 'a::len word) \<noteq> - 1 \<Longrightarrow> unat w + 1 < 2 ^ LENGTH('a)"
  using unat_less_2p [of w] unat_max_word [where 'a = 'a] word_unat_eq_iff [of w "- 1"]
  by linarith

section \<open>Results\<close>

text \<open>A Rust \<open>Result<T, E>\<close> is a sum, \<open>Inl\<close> the error; \<open>and_then\<close> is the \<open>?\<close> operator.\<close>

definition and_then :: "'e + 'a \<Rightarrow> ('a \<Rightarrow> 'e + 'b) \<Rightarrow> 'e + 'b" where
  "and_then r f = (case r of Inl e \<Rightarrow> Inl e | Inr v \<Rightarrow> f v)"

lemma and_then_simps [simp]:
  "and_then (Inl e) f = Inl e"
  "and_then (Inr v) f = f v"
  by (simp_all add: and_then_def)

lemma and_then_Inr: "and_then r f = Inr y \<longleftrightarrow> (\<exists>v. r = Inr v \<and> f v = Inr y)"
  by (cases r) auto

lemma and_then_Inl: "and_then r f = Inl e \<longleftrightarrow> r = Inl e \<or> (\<exists>v. r = Inr v \<and> f v = Inl e)"
  by (cases r) auto

section \<open>Key-value stores\<close>

text \<open>
  A store of shared cells (reference-counted allocations, open files, live guards) is a list
  of key-value pairs without duplicate keys; it evaluates, and a quantity summed over the
  live cells is a sum over the list.
\<close>

type_synonym ('k, 'v) kv = "('k \<times> 'v) list"

definition kv_get :: "('k, 'v) kv \<Rightarrow> 'k \<Rightarrow> 'v option" where
  "kv_get m k = map_of m k"

definition kv_del :: "'k \<Rightarrow> ('k, 'v) kv \<Rightarrow> ('k, 'v) kv" where
  "kv_del k m = filter (\<lambda>p. fst p \<noteq> k) m"

definition kv_put :: "'k \<Rightarrow> 'v \<Rightarrow> ('k, 'v) kv \<Rightarrow> ('k, 'v) kv" where
  "kv_put k v m = (k, v) # kv_del k m"

definition kv_sum :: "('v \<Rightarrow> nat) \<Rightarrow> ('k, 'v) kv \<Rightarrow> nat" where
  "kv_sum f m = sum_list (map (\<lambda>p. f (snd p)) m)"

definition kv_any :: "('v \<Rightarrow> bool) \<Rightarrow> ('k, 'v) kv \<Rightarrow> bool" where
  "kv_any P m = list_ex (\<lambda>p. P (snd p)) m"

definition kv_ok :: "('k, 'v) kv \<Rightarrow> bool" where
  "kv_ok m \<longleftrightarrow> distinct (map fst m)"

lemma kv_get_Nil [simp]: "kv_get [] k = None"
  by (simp add: kv_get_def)

lemma kv_get_del [simp]: "kv_get (kv_del k m) j = (if j = k then None else kv_get m j)"
  by (induction m) (auto simp: kv_get_def kv_del_def)

lemma kv_get_put [simp]: "kv_get (kv_put k v m) j = (if j = k then Some v else kv_get m j)"
  by (cases "j = k") (simp_all add: kv_put_def kv_get_def [of "_ # _"] kv_get_del [unfolded kv_get_def]
    flip: kv_get_def)

lemma kv_ok_Nil [simp]: "kv_ok []"
  by (simp add: kv_ok_def)

lemma kv_ok_del [simp, intro]: "kv_ok m \<Longrightarrow> kv_ok (kv_del k m)"
  by (simp add: kv_ok_def kv_del_def distinct_map inj_on_def)

lemma kv_ok_put [simp, intro]: "kv_ok m \<Longrightarrow> kv_ok (kv_put k v m)"
  by (auto simp: kv_ok_def kv_put_def kv_del_def distinct_map inj_on_def)

lemma kv_del_fresh: "kv_get m k = None \<Longrightarrow> kv_del k m = m"
  by (induction m) (auto simp: kv_get_def kv_del_def split: if_splits)

lemma kv_sum_Nil [simp]: "kv_sum f [] = 0"
  by (simp add: kv_sum_def)

lemma kv_sum_del:
  "kv_ok m \<Longrightarrow> kv_get m k = Some v \<Longrightarrow> kv_sum f m = f v + kv_sum f (kv_del k m)"
proof (induction m)
  case (Cons p m)
  show ?case
  proof (cases "fst p = k")
    case True
    with Cons.prems have "kv_get m k = None"
      by (auto simp: kv_ok_def kv_get_def map_of_eq_None_iff)
    then have "kv_del k m = m" by (rule kv_del_fresh)
    with True Cons.prems show ?thesis
      by (cases p) (simp add: kv_get_def kv_sum_def kv_del_def)
  next
    case False
    with Cons.prems Cons.IH show ?thesis
      by (cases p) (simp add: kv_ok_def kv_get_def kv_sum_def kv_del_def)
  qed
qed simp

lemma kv_sum_put: "kv_sum f (kv_put k v m) = f v + kv_sum f (kv_del k m)"
  by (simp add: kv_put_def kv_sum_def)

lemma kv_sum_put_fresh: "kv_get m k = None \<Longrightarrow> kv_sum f (kv_put k v m) = f v + kv_sum f m"
  by (simp add: kv_sum_put kv_del_fresh)

lemma kv_sum_put_upd:
  "kv_ok m \<Longrightarrow> kv_get m k = Some u \<Longrightarrow> kv_sum f (kv_put k v m) + f u = kv_sum f m + f v"
  by (simp add: kv_sum_put kv_sum_del)

lemma kv_sum_ge: "kv_ok m \<Longrightarrow> kv_get m k = Some v \<Longrightarrow> f v \<le> kv_sum f m"
  by (simp add: kv_sum_del)

lemma kv_get_in: "kv_ok m \<Longrightarrow> (k, v) \<in> set m \<longleftrightarrow> kv_get m k = Some v"
  by (simp add: kv_ok_def kv_get_def)

lemma kv_empty: "(\<And>k. kv_get m k = None) \<Longrightarrow> m = []"
  unfolding kv_get_def by (metis list.set_map map_of_eq_None_iff map_is_Nil_conv set_empty subsetI subset_empty)

lemma kv_any_iff: "kv_ok m \<Longrightarrow> kv_any P m \<longleftrightarrow> (\<exists>k v. kv_get m k = Some v \<and> P v)"
  by (simp add: kv_any_def list_ex_iff flip: kv_get_in) force

lemma kv_sum_cong:
  "kv_ok m \<Longrightarrow> (\<And>k v. kv_get m k = Some v \<Longrightarrow> f v = g v) \<Longrightarrow> kv_sum f m = kv_sum g m"
  unfolding kv_sum_def by (rule arg_cong [where f = sum_list]) (auto simp flip: kv_get_in)

lemma kv_sum_zero:
  "kv_ok m \<Longrightarrow> (\<And>k v. kv_get m k = Some v \<Longrightarrow> f v = 0) \<Longrightarrow> kv_sum f m = 0"
  using kv_sum_cong [where f = f and g = "\<lambda>_. 0" and m = m] by (simp add: kv_sum_def)

section \<open>Transition systems\<close>

text \<open>The contract of every component with steps: an invariant of the start that each step keeps holds after any run.\<close>

locale stepping =
  fixes start :: "'s \<Rightarrow> bool" and steps :: "'s \<Rightarrow> 's \<Rightarrow> bool" and inv :: "'s \<Rightarrow> bool"
  assumes start_inv: "start s \<Longrightarrow> inv s"
    and step_inv: "inv s \<Longrightarrow> steps s t \<Longrightarrow> inv t"
begin

lemma run_inv: "steps\<^sup>*\<^sup>* s t \<Longrightarrow> inv s \<Longrightarrow> inv t"
  by (induction rule: rtranclp_induct) (auto intro: step_inv)

lemma reachable_inv: "steps\<^sup>*\<^sup>* s t \<Longrightarrow> start s \<Longrightarrow> inv t"
  by (rule run_inv [OF _ start_inv])

end

text \<open>A preorder that every step respects is respected by every run.\<close>

locale monotone_stepping = stepping +
  fixes before :: "'s \<Rightarrow> 's \<Rightarrow> bool"
  assumes before_refl: "before s s"
    and before_trans: "before s t \<Longrightarrow> before t u \<Longrightarrow> before s u"
    and step_before: "steps s t \<Longrightarrow> before s t"
begin

lemma run_before: "steps\<^sup>*\<^sup>* s t \<Longrightarrow> before s t"
  by (induction rule: rtranclp_induct) (auto intro: before_refl before_trans step_before)

end

end
