(* ===== verification/Strings.thy ===== *)
theory Strings
  imports Prelude
begin

text \<open>
  Rust strings. A \<open>str\<close> is its UTF-8 byte sequence, a list of \<open>char\<close> (a \<open>char\<close> is a
  byte), so \<open>length\<close> is \<open>str::len\<close>. The operations below are those of the standard library
  the modelled code calls: ASCII classes and case mapping act on bytes, \<open>chars\<close> decodes the
  Unicode scalar values, and the trimming and white-space tests are over scalar values.
\<close>

section \<open>ASCII bytes\<close>

abbreviation byte :: "char \<Rightarrow> nat" where
  "byte c \<equiv> of_char c"

definition is_ascii_digit :: "char \<Rightarrow> bool" where
  "is_ascii_digit c \<longleftrightarrow> 48 \<le> byte c \<and> byte c \<le> 57"

definition is_ascii_uppercase :: "char \<Rightarrow> bool" where
  "is_ascii_uppercase c \<longleftrightarrow> 65 \<le> byte c \<and> byte c \<le> 90"

definition is_ascii_lowercase :: "char \<Rightarrow> bool" where
  "is_ascii_lowercase c \<longleftrightarrow> 97 \<le> byte c \<and> byte c \<le> 122"

definition is_ascii_alphabetic :: "char \<Rightarrow> bool" where
  "is_ascii_alphabetic c \<longleftrightarrow> is_ascii_uppercase c \<or> is_ascii_lowercase c"

definition is_ascii_alphanumeric :: "char \<Rightarrow> bool" where
  "is_ascii_alphanumeric c \<longleftrightarrow> is_ascii_alphabetic c \<or> is_ascii_digit c"

definition is_ascii_hexdigit :: "char \<Rightarrow> bool" where
  "is_ascii_hexdigit c \<longleftrightarrow> is_ascii_digit c \<or> (65 \<le> byte c \<and> byte c \<le> 70) \<or> (97 \<le> byte c \<and> byte c \<le> 102)"

definition is_ascii_control :: "char \<Rightarrow> bool" where
  "is_ascii_control c \<longleftrightarrow> byte c < 32 \<or> byte c = 127"

definition ascii_lower :: "char \<Rightarrow> char" where
  "ascii_lower c = (if is_ascii_uppercase c then char_of (byte c + 32) else c)"

definition ascii_upper :: "char \<Rightarrow> char" where
  "ascii_upper c = (if is_ascii_lowercase c then char_of (byte c - 32) else c)"

definition to_ascii_lowercase :: "string \<Rightarrow> string" where
  "to_ascii_lowercase s = map ascii_lower s"

definition to_ascii_uppercase :: "string \<Rightarrow> string" where
  "to_ascii_uppercase s = map ascii_upper s"

definition eq_ignore_ascii_case :: "string \<Rightarrow> string \<Rightarrow> bool" where
  "eq_ignore_ascii_case s t \<longleftrightarrow> to_ascii_lowercase s = to_ascii_lowercase t"

lemma char_eq_byte: "c = d \<longleftrightarrow> byte c = byte d"
  by simp

lemma byte_ascii_lower:
  "byte (ascii_lower c) = (if is_ascii_uppercase c then byte c + 32 else byte c)"
  by (simp add: ascii_lower_def is_ascii_uppercase_def)

lemma not_uppercase_ascii_lower [simp]: "\<not> is_ascii_uppercase (ascii_lower c)"
  using byte_ascii_lower [of c] by (auto simp: is_ascii_uppercase_def split: if_splits)

lemma ascii_lower_idem [simp]: "ascii_lower (ascii_lower c) = ascii_lower c"
  using not_uppercase_ascii_lower [of c] by (simp add: ascii_lower_def [of "ascii_lower c"])

lemma to_ascii_lowercase_idem [simp]: "to_ascii_lowercase (to_ascii_lowercase s) = to_ascii_lowercase s"
  by (simp add: to_ascii_lowercase_def)

lemma length_to_ascii_lowercase [simp]: "length (to_ascii_lowercase s) = length s"
  by (simp add: to_ascii_lowercase_def)

lemma eq_ignore_ascii_case_refl [simp]: "eq_ignore_ascii_case s s"
  by (simp add: eq_ignore_ascii_case_def)

section \<open>Decimal output\<close>

definition digit_char :: "nat \<Rightarrow> char" where
  "digit_char d = char_of (48 + d)"

fun show_nat :: "nat \<Rightarrow> string" where
  "show_nat n = (if n < 10 then [digit_char n] else show_nat (n div 10) @ [digit_char (n mod 10)])"

declare show_nat.simps [simp del]

definition show_word :: "'a::len word \<Rightarrow> string" where
  "show_word w = show_nat (unat w)"

lemma show_nat_digits: "c \<in> set (show_nat n) \<Longrightarrow> 48 \<le> byte c \<and> byte c \<le> 57"
proof (induction n rule: show_nat.induct)
  case (1 n)
  then show ?case by (subst (asm) show_nat.simps) (auto simp: digit_char_def split: if_split_asm)
qed

section \<open>Scalar values\<close>

text \<open>
  UTF-8 decoding of one scalar value: the value and the number of bytes it occupies. Overlong
  forms, surrogates, values above U+10FFFF and truncated sequences are rejected, as
  \<open>core::str::from_utf8\<close> rejects them.
\<close>

definition continuation :: "char \<Rightarrow> bool" where
  "continuation c \<longleftrightarrow> 128 \<le> byte c \<and> byte c < 192"

fun decode_scalar :: "string \<Rightarrow> (nat \<times> nat) option" where
  "decode_scalar [] = None"
| "decode_scalar (a # s) =
     (if byte a < 128 then Some (byte a, 1)
      else if 194 \<le> byte a \<and> byte a < 224 then
        (case s of b # _ \<Rightarrow>
           if continuation b then Some ((byte a - 192) * 64 + (byte b - 128), 2) else None
         | _ \<Rightarrow> None)
      else if 224 \<le> byte a \<and> byte a < 240 then
        (case s of b # c # _ \<Rightarrow>
           (let v = (byte a - 224) * 4096 + (byte b - 128) * 64 + (byte c - 128)
            in if continuation b \<and> continuation c \<and> 2048 \<le> v \<and> \<not> (55296 \<le> v \<and> v < 57344)
               then Some (v, 3) else None)
         | _ \<Rightarrow> None)
      else if 240 \<le> byte a \<and> byte a < 245 then
        (case s of b # c # d # _ \<Rightarrow>
           (let v = (byte a - 240) * 262144 + (byte b - 128) * 4096 + (byte c - 128) * 64 + (byte d - 128)
            in if continuation b \<and> continuation c \<and> continuation d \<and> 65536 \<le> v \<and> v < 1114112
               then Some (v, 4) else None)
         | _ \<Rightarrow> None)
      else None)"

lemma decode_scalar_length:
  "decode_scalar s = Some (v, n) \<Longrightarrow> 0 < n \<and> n \<le> length s"
  by (cases s) (auto simp: Let_def split: if_splits list.splits)

text \<open>
  The scalar values of a string with the byte offset of each; \<open>None\<close> when the bytes are not
  UTF-8. \<open>chars\<close> forgets the offsets.
\<close>

function char_indices_from :: "nat \<Rightarrow> string \<Rightarrow> (nat \<times> nat) list option" where
  "char_indices_from i s =
     (if s = [] then Some []
      else case decode_scalar s of
        None \<Rightarrow> None
      | Some (v, n) \<Rightarrow> map_option (\<lambda>r. (i, v) # r) (char_indices_from (i + n) (drop n s)))"
  by pat_completeness auto
termination
  by (relation "measure (\<lambda>(i, s). length s)") (auto dest: decode_scalar_length)

declare char_indices_from.simps [simp del]

definition from_utf8 :: "string \<Rightarrow> nat list option" where
  "from_utf8 s = map_option (map snd) (char_indices_from 0 s)"

definition valid_utf8 :: "string \<Rightarrow> bool" where
  "valid_utf8 s \<longleftrightarrow> from_utf8 s \<noteq> None"

definition chars :: "string \<Rightarrow> nat list" where
  "chars s = (case from_utf8 s of Some vs \<Rightarrow> vs | None \<Rightarrow> [])"

lemma char_indices_from_Nil [simp]: "char_indices_from i [] = Some []"
  by (simp add: char_indices_from.simps)

lemma char_indices_from_ascii [simp]:
  "byte c < 128 \<Longrightarrow> char_indices_from i (c # s) = map_option (\<lambda>r. (i, byte c) # r) (char_indices_from (Suc i) s)"
  by (simp add: char_indices_from.simps [of i "c # s"])

lemma char_indices_ascii:
  "\<forall>c \<in> set s. byte c < 128 \<Longrightarrow> \<exists>r. char_indices_from i s = Some r \<and> map snd r = map of_char s"
proof (induction s arbitrary: i)
  case (Cons c s)
  then obtain r where "char_indices_from (Suc i) s = Some r" "map snd r = map of_char s"
    by (meson list.set_intros(2))
  with Cons.prems show ?case by simp
qed simp

lemma chars_ascii: "\<forall>c \<in> set s. byte c < 128 \<Longrightarrow> chars s = map of_char s"
  using char_indices_ascii [of s 0] by (auto simp: chars_def from_utf8_def)

text \<open>\<open>char::is_whitespace\<close> (the Unicode White\_Space property) and \<open>char::is_control\<close> (category Cc).\<close>

definition is_whitespace :: "nat \<Rightarrow> bool" where
  "is_whitespace v \<longleftrightarrow> (9 \<le> v \<and> v \<le> 13) \<or> v = 32 \<or> v = 133 \<or> v = 160 \<or> v = 5760
     \<or> (8192 \<le> v \<and> v \<le> 8202) \<or> v = 8232 \<or> v = 8233 \<or> v = 8239 \<or> v = 8287 \<or> v = 12288"

definition is_control :: "nat \<Rightarrow> bool" where
  "is_control v \<longleftrightarrow> v < 32 \<or> (127 \<le> v \<and> v < 160)"

text \<open>\<open>str::trim().is_empty()\<close>: nothing but white space.\<close>

definition blank :: "string \<Rightarrow> bool" where
  "blank s \<longleftrightarrow> list_all is_whitespace (chars s)"

section \<open>Trimming\<close>

text \<open>A string as its scalar values, each with the bytes that encode it.\<close>

function scalar_pieces :: "string \<Rightarrow> (nat \<times> string) list" where
  "scalar_pieces s =
     (if s = [] then []
      else case decode_scalar s of None \<Rightarrow> [] | Some (v, n) \<Rightarrow> (v, take n s) # scalar_pieces (drop n s))"
  by pat_completeness auto
termination
  by (relation "measure length") (auto dest: decode_scalar_length)

declare scalar_pieces.simps [simp del]

definition trim :: "string \<Rightarrow> string" where
  "trim s =
     (let white = (\<lambda>p. is_whitespace (fst p)) in
      concat (map snd (rev (dropWhile white (rev (dropWhile white (scalar_pieces s)))))))"

lemma scalar_pieces_ascii [simp]:
  "scalar_pieces [] = []"
  "byte c < 128 \<Longrightarrow> scalar_pieces (c # s) = (byte c, [c]) # scalar_pieces s"
  by (simp_all add: scalar_pieces.simps [of "[]"] scalar_pieces.simps [of "c # s"])

section \<open>Splitting\<close>

text \<open>\<open>str::split\<close> on one ASCII character: always at least one piece.\<close>

fun split_on :: "char \<Rightarrow> string \<Rightarrow> string list" where
  "split_on d [] = [[]]"
| "split_on d (c # s) =
     (if c = d then [] # split_on d s
      else (case split_on d s of p # ps \<Rightarrow> (c # p) # ps | [] \<Rightarrow> [[c]]))"

lemma split_on_not_Nil [simp]: "split_on d s \<noteq> []"
  by (induction s) (auto split: list.splits)

text \<open>\<open>str::split_once\<close> on one ASCII character.\<close>

fun split_once :: "char \<Rightarrow> string \<Rightarrow> (string \<times> string) option" where
  "split_once d [] = None"
| "split_once d (c # s) =
     (if c = d then Some ([], s) else map_option (\<lambda>(a, b). (c # a, b)) (split_once d s))"

lemma split_once_Some: "split_once d s = Some (a, b) \<longleftrightarrow> s = a @ d # b \<and> d \<notin> set a"
proof (induction s arbitrary: a)
  case (Cons c s)
  then show ?case by (cases a) auto
qed simp

lemma split_once_None: "split_once d s = None \<longleftrightarrow> d \<notin> set s"
  by (induction s) auto

text \<open>\<open>strip_prefix\<close> and \<open>strip_suffix\<close>.\<close>

fun strip_prefix :: "string \<Rightarrow> string \<Rightarrow> string option" where
  "strip_prefix [] s = Some s"
| "strip_prefix (p # ps) [] = None"
| "strip_prefix (p # ps) (c # s) = (if p = c then strip_prefix ps s else None)"

definition strip_suffix :: "string \<Rightarrow> string \<Rightarrow> string option" where
  "strip_suffix p s = map_option rev (strip_prefix (rev p) (rev s))"

lemma strip_prefix_Some: "strip_prefix p s = Some r \<longleftrightarrow> s = p @ r"
  by (induction p s rule: strip_prefix.induct) auto

lemma strip_suffix_Some: "strip_suffix p s = Some r \<longleftrightarrow> s = r @ p"
proof -
  have "strip_suffix p s = Some r \<longleftrightarrow> strip_prefix (rev p) (rev s) = Some (rev r)"
    by (auto simp: strip_suffix_def)
  also have "\<dots> \<longleftrightarrow> s = r @ p"
    by (simp add: strip_prefix_Some) (metis rev_append rev_rev_ident)
  finally show ?thesis .
qed

end
