(* ===== verification/Conversion_Error.thy ===== *)
theory Conversion_Error
  imports Strings
begin

text \<open>
  \<open>crates/core/src/error.rs\<close>: the stable error categories and the failure type of every
  pipeline stage, with the accessors machine consumers branch on. The constructors keep the
  source's names; a name shared by both enums is written with its type.
\<close>

datatype ErrorCode =
    Unsupported | NoConverter | Malformed | Encrypted | ResourceLimit | Ocr | Ai | Network
  | Io | ComponentUnavailable | Cancelled | Timeout | Recovery | Internal

fun error_code_as_str :: "ErrorCode \<Rightarrow> string" where
  "error_code_as_str ErrorCode.Unsupported = ''unsupported''"
| "error_code_as_str ErrorCode.NoConverter = ''noConverter''"
| "error_code_as_str ErrorCode.Malformed = ''malformed''"
| "error_code_as_str ErrorCode.Encrypted = ''encrypted''"
| "error_code_as_str ErrorCode.ResourceLimit = ''resourceLimit''"
| "error_code_as_str ErrorCode.Ocr = ''ocr''"
| "error_code_as_str ErrorCode.Ai = ''ai''"
| "error_code_as_str ErrorCode.Network = ''network''"
| "error_code_as_str ErrorCode.Io = ''io''"
| "error_code_as_str ErrorCode.ComponentUnavailable = ''componentUnavailable''"
| "error_code_as_str ErrorCode.Cancelled = ''cancelled''"
| "error_code_as_str ErrorCode.Timeout = ''timeout''"
| "error_code_as_str ErrorCode.Recovery = ''recovery''"
| "error_code_as_str ErrorCode.Internal = ''internal''"

text \<open>
  The arguments are the source's fields in their order: \<open>Malformed part detail\<close>,
  \<open>ResourceLimit limit detail\<close>, \<open>Ocr provider detail\<close>, \<open>Recovery reason detail\<close>.
\<close>

datatype ConversionError =
    Unsupported string
  | ArchiveExtractionRequired string
  | NoConverter string
  | Malformed "string option" string
  | EmptyContent
  | Encrypted
  | ResourceLimit string string
  | OcrRecognitionMemory string string
  | ProviderProtocol string string
  | ProviderProcess string string
  | Ocr string string
  | Ai string string
  | Network string
  | Io string
  | ComponentUnavailable string string
  | Cancelled
  | Timeout
  | Recovery string string
  | Internal string

type_synonym 'a outcome = "ConversionError + 'a"

fun code :: "ConversionError \<Rightarrow> ErrorCode" where
  "code (Unsupported _) = ErrorCode.Unsupported"
| "code (ArchiveExtractionRequired _) = ErrorCode.Unsupported"
| "code (NoConverter _) = ErrorCode.NoConverter"
| "code (Malformed _ _) = ErrorCode.Malformed"
| "code EmptyContent = ErrorCode.Malformed"
| "code Encrypted = ErrorCode.Encrypted"
| "code (ResourceLimit _ _) = ErrorCode.ResourceLimit"
| "code (OcrRecognitionMemory _ _) = ErrorCode.ResourceLimit"
| "code (Ocr _ _) = ErrorCode.Ocr"
| "code (Ai _ _) = ErrorCode.Ai"
| "code (Network _) = ErrorCode.Network"
| "code (Io _) = ErrorCode.Io"
| "code (ComponentUnavailable _ _) = ErrorCode.ComponentUnavailable"
| "code Cancelled = ErrorCode.Cancelled"
| "code Timeout = ErrorCode.Timeout"
| "code (Recovery _ _) = ErrorCode.Recovery"
| "code (Internal _) = ErrorCode.Internal"
| "code (ProviderProtocol _ _) = ErrorCode.Internal"
| "code (ProviderProcess _ _) = ErrorCode.Internal"

fun reason_code :: "ConversionError \<Rightarrow> string" where
  "reason_code EmptyContent = ''emptyContent''"
| "reason_code (ArchiveExtractionRequired _) = ''archiveExtractionRequired''"
| "reason_code (Recovery reason _) = reason"
| "reason_code (ResourceLimit limit _) = limit"
| "reason_code (OcrRecognitionMemory _ _) = ''ocrRecognitionMemory''"
| "reason_code (ProviderProtocol _ _) = ''providerProtocol''"
| "reason_code (ProviderProcess _ _) = ''providerProcess''"
| "reason_code e = error_code_as_str (code e)"

fun component :: "ConversionError \<Rightarrow> string option" where
  "component (ComponentUnavailable c _) = Some c"
| "component (Ocr provider _) = Some provider"
| "component (Ai provider _) = Some provider"
| "component (OcrRecognitionMemory provider _) = Some provider"
| "component (ProviderProtocol provider _) = Some provider"
| "component (ProviderProcess provider _) = Some provider"
| "component _ = None"

fun error_part :: "ConversionError \<Rightarrow> string option" where
  "error_part (Malformed part _) = part"
| "error_part _ = None"

fun error_limit :: "ConversionError \<Rightarrow> (string \<times> string) option" where
  "error_limit (ResourceLimit limit detail) = Some (limit, detail)"
| "error_limit (OcrRecognitionMemory _ detail) = Some (''ocrRecognitionMemory'', detail)"
| "error_limit _ = None"

lemma error_code_as_str_inject [simp]:
  "error_code_as_str a = error_code_as_str b \<longleftrightarrow> a = b"
  by (cases a; cases b; simp)

lemma error_limit_iff_resource_limit:
  "error_limit e \<noteq> None \<longleftrightarrow> code e = ErrorCode.ResourceLimit"
  by (cases e) auto

text \<open>Machine consumers can branch on the stable strings: outside the caller-named reasons, equal
  reason strings mean equal categories.\<close>

lemma stable_error_strings:
  "(error_code_as_str (code e) = error_code_as_str (code f) \<longleftrightarrow> code e = code f)
   \<and> ((case e of Recovery _ _ \<Rightarrow> False | ResourceLimit _ _ \<Rightarrow> False | _ \<Rightarrow> True)
        \<and> (case f of Recovery _ _ \<Rightarrow> False | ResourceLimit _ _ \<Rightarrow> False | _ \<Rightarrow> True)
        \<and> reason_code e = reason_code f \<longrightarrow> code e = code f)
   \<and> (error_limit e \<noteq> None \<longleftrightarrow> code e = ErrorCode.ResourceLimit)
   \<and> (error_part e \<noteq> None \<longrightarrow> code e = ErrorCode.Malformed)"
  by (cases e; cases f; simp)

end
