(* ===== verification/Options.thy ===== *)
theory Options
  imports Conversion_Error
begin

text \<open>
  \<open>crates/core/src/options.rs\<close>: the policies and the fixed resource budgets of a conversion, as
  far as the modelled components read them.
\<close>

datatype ErrorPolicy = BestEffort | Strict

datatype TextDecodingMode = Strict | Replace

datatype TableHeaderMode = Auto | Always | Never

datatype RaggedRowsMode = Strict | Pad

record DelimitedTextOptions =
  header :: TableHeaderMode
  ragged_rows :: RaggedRowsMode

record ResourceLimits =
  max_input_bytes :: u64
  max_decompressed_bytes :: u64
  max_archive_entries :: u32
  max_archive_depth :: u16
  max_archive_entry_bytes :: u64
  max_archive_compression_ratio :: u32
  max_nesting_depth :: u16
  max_presentation_xml_events :: u64
  max_pages :: u32
  max_pdf_page_objects :: u32
  max_pdf_total_objects :: u64
  max_pdf_layout_comparisons :: u64
  max_asset_bytes :: u64
  max_total_asset_bytes :: u64
  max_memory_bytes :: u64
  max_temporary_bytes :: u64
  max_table_rows :: u64
  max_table_columns :: u64
  max_table_cells :: u64
  max_field_bytes :: u64
  max_feed_entries :: u32
  max_feed_text_bytes :: u64
  max_feed_html_bytes :: u64

definition default_limits :: ResourceLimits where
  "default_limits = \<lparr>
     max_input_bytes = 9007199254740991,
     max_decompressed_bytes = 9007199254740991,
     max_archive_entries = - 1,
     max_archive_depth = - 1,
     max_archive_entry_bytes = 9007199254740991,
     max_archive_compression_ratio = - 1,
     max_nesting_depth = - 1,
     max_presentation_xml_events = 9007199254740991,
     max_pages = - 1,
     max_pdf_page_objects = 2147483647,
     max_pdf_total_objects = 9007199254740991,
     max_pdf_layout_comparisons = 12000000,
     max_asset_bytes = 9007199254740991,
     max_total_asset_bytes = 9007199254740991,
     max_memory_bytes = 2 * 1024 * 1024 * 1024,
     max_temporary_bytes = 9007199254740991,
     max_table_rows = 9007199254740991,
     max_table_columns = 16384,
     max_table_cells = 9007199254740991,
     max_field_bytes = 9007199254740991,
     max_feed_entries = - 1,
     max_feed_text_bytes = 9007199254740991,
     max_feed_html_bytes = 9007199254740991\<rparr>"

definition validate_pdf :: "ResourceLimits \<Rightarrow> unit outcome" where
  "validate_pdf l =
     (if \<not> (1 \<le> max_pdf_page_objects l \<and> max_pdf_page_objects l \<le> 2147483647) then
        Inl (ResourceLimit ''max_pdf_page_objects''
          (show_word (max_pdf_page_objects l) @ '' must be within 1..='' @ show_nat 2147483647))
      else if max_pdf_layout_comparisons l = 0 then
        Inl (ResourceLimit ''max_pdf_layout_comparisons'' ''must be greater than zero'')
      else if max_pdf_total_objects l = 0 then
        Inl (ResourceLimit ''max_pdf_total_objects'' ''must be greater than zero'')
      else Inr ())"

lemma validate_pdf_default: "validate_pdf default_limits = Inr ()"
  by (simp add: validate_pdf_def default_limits_def word_le_nat_alt)

end
