(* ===== verification/Progress.thy ===== *)
theory Progress
  imports Strings
begin

text \<open>
  Progress notification, \<open>crates/core/src/execution.rs\<close>: the ordered stages, the monotone
  progress state that \<open>ExecutionContext::report\<close> updates under its mutex, and the bounded
  mailbox between the reporting thread and the listener thread (\<open>ProgressDispatcher\<close>,
  \<open>ProgressWorker\<close>). The two threads are interleaved as explicit steps.
\<close>

section \<open>Stages and events\<close>

datatype ExecutionStage =
    Resolving | Detecting | Probing | Converting | Ocr | Ai | Rendering | Completed

fun stage_rank :: "ExecutionStage \<Rightarrow> u16" where
  "stage_rank Resolving = 0"
| "stage_rank Detecting = 1"
| "stage_rank Probing = 2"
| "stage_rank Converting = 3"
| "stage_rank Ocr = 3"
| "stage_rank Ai = 3"
| "stage_rank Rendering = 4"
| "stage_rank Completed = 5"

fun base_basis_points :: "ExecutionStage \<Rightarrow> u16" where
  "base_basis_points Resolving = 0"
| "base_basis_points Detecting = 1500"
| "base_basis_points Probing = 3000"
| "base_basis_points Converting = 4500"
| "base_basis_points Ocr = 4500"
| "base_basis_points Ai = 4500"
| "base_basis_points Rendering = 8000"
| "base_basis_points Completed = 10000"

record ProgressEvent =
  ev_stage :: ExecutionStage
  ev_basis_points :: u16
  ev_completed_units :: "u64 option"
  ev_total_units :: "u64 option"
  ev_message :: "string option"

record ProgressState =
  rank :: u16
  stage :: "ExecutionStage option"
  basis_points :: u16
  started :: bool
  completed :: bool
  sequence :: u64
  completed_units :: "u64 option"
  total_units :: "u64 option"
  message :: "string option"

definition default_progress :: ProgressState where
  "default_progress = \<lparr>rank = 0, stage = None, basis_points = 0, started = False, completed = False,
     sequence = 0, completed_units = None, total_units = None, message = None\<rparr>"

section \<open>Reporting\<close>

text \<open>The product is computed in \<open>u128\<close>, where it cannot overflow; \<open>u16::try_from\<close> falls back to 1000.\<close>

definition fraction_units :: "u64 option \<Rightarrow> u64 option \<Rightarrow> nat" where
  "fraction_units cu tu =
     (case (cu, tu) of
        (Some c, Some t) \<Rightarrow> if 0 < t then min (unat c) (unat t) * 1000 div unat t else 0
      | _ \<Rightarrow> 0)"

definition stage_fraction :: "u64 option \<Rightarrow> u64 option \<Rightarrow> u16" where
  "stage_fraction cu tu =
     (if fraction_units cu tu < 2 ^ 16 then of_nat (fraction_units cu tu) else 1000)"

definition event_basis_points :: "ExecutionStage \<Rightarrow> u64 option \<Rightarrow> u64 option \<Rightarrow> u16" where
  "event_basis_points s cu tu =
     (if s = Completed then 10000
      else saturating_add (base_basis_points s) (min (stage_fraction cu tu) 999))"

text \<open>
  The critical section of \<open>report\<close>: the new progress state, and the sequence number and event
  handed to the dispatcher, if any.
\<close>

definition advance ::
  "ProgressState \<Rightarrow> ExecutionStage \<Rightarrow> u64 option \<Rightarrow> u64 option \<Rightarrow> string option
     \<Rightarrow> ProgressState \<times> (u64 \<times> ProgressEvent) option" where
  "advance p s cu tu msg =
     (if completed p \<or> (started p \<and> stage_rank s < rank p) then (p, None)
      else
        let bp = max (event_basis_points s cu tu) (basis_points p)
        in if started p \<and> stage p = Some s \<and> bp = basis_points p \<and> completed_units p = cu
              \<and> total_units p = tu \<and> message p = msg
           then (p, None)
           else
             let sq = saturating_add (sequence p) 1
             in (\<lparr>rank = stage_rank s, stage = Some s, basis_points = bp, started = True,
                  completed = (s = Completed), sequence = sq, completed_units = cu,
                  total_units = tu, message = msg\<rparr>,
                 Some (sq, \<lparr>ev_stage = s, ev_basis_points = bp, ev_completed_units = cu,
                            ev_total_units = tu, ev_message = msg\<rparr>)))"

section \<open>The mailbox\<close>

record mailbox =
  queue :: "ProgressEvent list"
  newest_sequence :: u64
  closed :: bool

definition new_mailbox :: mailbox where
  "new_mailbox = \<lparr>queue = [], newest_sequence = 0, closed = False\<rparr>"

text \<open>Coalesce with a queued event of the same stage, else append, else overwrite the newest of eight.\<close>

definition enqueue :: "ProgressEvent list \<Rightarrow> ProgressEvent \<Rightarrow> ProgressEvent list" where
  "enqueue q e =
     (if q \<noteq> [] \<and> ev_stage (last q) = ev_stage e then butlast q @ [e]
      else if length q < 8 then q @ [e]
      else butlast q @ [e])"

definition publish :: "mailbox \<Rightarrow> u64 \<Rightarrow> ProgressEvent \<Rightarrow> mailbox" where
  "publish m sq e =
     (if closed m \<or> sq \<le> newest_sequence m then m
      else m\<lparr>newest_sequence := sq, queue := enqueue (queue m) e, closed := (ev_stage e = Completed)\<rparr>)"

text \<open>
  One turn of the listener thread: \<open>Waits\<close> on the condition variable, \<open>Exits\<close> its loop, or
  \<open>Delivers\<close> the oldest event to the listener.
\<close>

datatype worker_turn = Waits | Exits | Delivers ProgressEvent mailbox

definition worker_next :: "mailbox \<Rightarrow> worker_turn" where
  "worker_next m =
     (case queue m of
        [] \<Rightarrow> if closed m then Exits else Waits
      | e # q \<Rightarrow> Delivers e (m\<lparr>queue := q\<rparr>))"

section \<open>The two threads\<close>

record progress_system =
  progress :: ProgressState
  box :: mailbox
  delivered :: "ProgressEvent list"
  dropped :: bool

definition init_system :: progress_system where
  "init_system = \<lparr>progress = default_progress, box = new_mailbox, delivered = [], dropped = False\<rparr>"

definition report_event ::
  "progress_system \<Rightarrow> ExecutionStage \<Rightarrow> u64 option \<Rightarrow> u64 option \<Rightarrow> string option \<Rightarrow> progress_system" where
  "report_event y s cu tu msg =
     (case advance (progress y) s cu tu msg of
        (p, None) \<Rightarrow> y\<lparr>progress := p\<rparr>
      | (p, Some (sq, e)) \<Rightarrow> y\<lparr>progress := p, box := publish (box y) sq e\<rparr>)"

definition drop_dispatcher :: "progress_system \<Rightarrow> progress_system" where
  "drop_dispatcher y = y\<lparr>box := (box y)\<lparr>closed := True\<rparr>, dropped := True\<rparr>"

inductive progress_step :: "progress_system \<Rightarrow> progress_system \<Rightarrow> bool" where
  report: "\<not> dropped y \<Longrightarrow> progress_step y (report_event y s cu tu msg)"
| deliver: "worker_next (box y) = Delivers e m \<Longrightarrow>
     progress_step y (y\<lparr>box := m, delivered := delivered y @ [e]\<rparr>)"
| drop: "progress_step y (drop_dispatcher y)"

inductive progress_reachable :: "progress_system \<Rightarrow> bool" where
  start: "progress_reachable init_system"
| step: "progress_reachable y \<Longrightarrow> progress_step y z \<Longrightarrow> progress_reachable z"

text \<open>The listener thread alone, until it waits or exits.\<close>

function worker_run :: "progress_system \<Rightarrow> progress_system" where
  "worker_run y =
     (case worker_next (box y) of
        Delivers e m \<Rightarrow> worker_run (y\<lparr>box := m, delivered := delivered y @ [e]\<rparr>)
      | _ \<Rightarrow> y)"
  by pat_completeness auto
termination
  by (relation "measure (\<lambda>y. length (queue (box y)))")
    (auto simp: worker_next_def split: list.splits if_splits)

declare worker_run.simps [simp del]

section \<open>Facts about single operations\<close>

lemma fraction_bound: "min (unat (c::u64)) (unat t) * 1000 div unat t \<le> 1000"
proof (cases "unat t = 0")
  case False
  have "min (unat c) (unat t) * 1000 \<le> unat t * 1000" by simp
  then have "min (unat c) (unat t) * 1000 div unat t \<le> unat t * 1000 div unat t"
    by (rule div_le_mono)
  with False show ?thesis by simp
qed simp

lemma stage_fraction_le: "unat (stage_fraction cu tu) \<le> 1000"
proof -
  have "fraction_units cu tu \<le> 1000"
    using fraction_bound by (auto simp: fraction_units_def split: option.splits)
  then show ?thesis
    by (simp add: stage_fraction_def unat_of_nat_small)
qed

lemma event_basis_points_le: "event_basis_points s cu tu \<le> 10000"
proof -
  have "unat (saturating_add (base_basis_points s) (min (stage_fraction cu tu) 999)) \<le> 8999"
    if "s \<noteq> Completed"
  proof -
    have "unat (min (stage_fraction cu tu) 999) \<le> 999"
      by (simp add: unat_min)
    with that show ?thesis
      by (cases s) (simp_all add: word_nat)
  qed
  then show ?thesis
    by (auto simp: event_basis_points_def word_le_nat_alt intro: le_trans)
qed

lemma enqueue_length: "length q \<le> 8 \<Longrightarrow> length (enqueue q e) \<le> 8"
  by (auto simp: enqueue_def)

lemma enqueue_last: "enqueue q e \<noteq> [] \<and> last (enqueue q e) = e"
  by (simp add: enqueue_def)

lemma enqueue_cases:
  obtains "enqueue q e = q @ [e]" | p where "q = p @ [last q]" "enqueue q e = p @ [e]"
proof (cases "enqueue q e = q @ [e]")
  case False
  then have "q \<noteq> []" "enqueue q e = butlast q @ [e]"
    by (auto simp: enqueue_def split: if_splits)
  then show ?thesis by (intro that(2) [of "butlast q"]) simp_all
qed (rule that(1))

text \<open>Whatever is monotone along the delivered and queued events stays so.\<close>

lemma enqueue_sorted:
  fixes f :: "ProgressEvent \<Rightarrow> 'a::linorder"
  assumes "sorted (map f (d @ q))" and "\<forall>x \<in> set (d @ q). f x \<le> f e"
  shows "sorted (map f (d @ enqueue q e))"
proof (cases q e rule: enqueue_cases)
  case 1
  with assms show ?thesis by (auto simp: sorted_append)
next
  case (2 p)
  have "sorted (map f (d @ p))"
    using assms(1) 2(1) by (metis append.assoc map_append sorted_append)
  moreover have "\<forall>x \<in> set (d @ p). f x \<le> f e"
    using assms(2) 2(1) by (metis Un_iff append_assoc set_append)
  ultimately show ?thesis
    using 2(2) by (auto simp: sorted_append)
qed

lemma set_enqueue: "set (enqueue q e) \<subseteq> insert e (set q)"
  by (auto simp: enqueue_def dest: in_set_butlastD)

lemma butlast_enqueue: "set (butlast (enqueue q e)) \<subseteq> set q"
  by (auto simp: enqueue_def butlast_append dest: in_set_butlastD)

lemma advance_None: "advance p s cu tu msg = (p', None) \<Longrightarrow> p' = p"
  by (auto simp: advance_def Let_def split: if_splits)

lemma advance_Some:
  assumes "advance p s cu tu msg = (p', Some (sq, e))"
  shows "\<not> completed p" "started p \<longrightarrow> rank p \<le> stage_rank s" "ev_stage e = s"
    "ev_basis_points e = basis_points p'" "basis_points p \<le> basis_points p'"
    "basis_points p' = max (event_basis_points s cu tu) (basis_points p)"
    "rank p' = stage_rank s" "started p'" "completed p' \<longleftrightarrow> s = Completed"
    "sequence p' = sq" "sq = saturating_add (sequence p) 1"
  using assms by (auto simp: advance_def Let_def split: if_splits)

section \<open>The invariant of the two threads\<close>

text \<open>
  \<open>trail\<close> is what the listener has seen and still will see. The last conjunct makes the
  terminal event safe: until the dispatcher is dropped, a completed state has its
  \<open>Completed\<close> event at the end of the trail, unless the sequence counter is exhausted.
\<close>

definition trail :: "progress_system \<Rightarrow> ProgressEvent list" where
  "trail y = delivered y @ queue (box y)"

definition trail_ordered :: "progress_system \<Rightarrow> bool" where
  "trail_ordered y \<longleftrightarrow>
     sorted (map ev_basis_points (trail y)) \<and> sorted (map (stage_rank \<circ> ev_stage) (trail y))
     \<and> (\<forall>e \<in> set (trail y). ev_basis_points e \<le> basis_points (progress y)
          \<and> stage_rank (ev_stage e) \<le> rank (progress y))"

definition mailbox_bounded :: "progress_system \<Rightarrow> bool" where
  "mailbox_bounded y \<longleftrightarrow> length (queue (box y)) \<le> 8 \<and> basis_points (progress y) \<le> 10000
     \<and> (started (progress y) \<or> trail y = [])"

definition terminal_kept :: "progress_system \<Rightarrow> bool" where
  "terminal_kept y \<longleftrightarrow>
     unat (newest_sequence (box y)) \<le> unat (sequence (progress y))
     \<and> (\<forall>x \<in> set (trail y). ev_stage x = Completed \<longrightarrow> completed (progress y))
     \<and> (\<forall>x \<in> set (butlast (trail y)). ev_stage x \<noteq> Completed)
     \<and> (\<not> dropped y \<longrightarrow>
          (closed (box y) \<longrightarrow> completed (progress y))
          \<and> (completed (progress y) \<and> sequence (progress y) \<noteq> - 1 \<longrightarrow>
               trail y \<noteq> [] \<and> ev_stage (last (trail y)) = Completed \<and> closed (box y)))"

definition progress_inv :: "progress_system \<Rightarrow> bool" where
  "progress_inv y \<longleftrightarrow> trail_ordered y \<and> mailbox_bounded y \<and> terminal_kept y"

lemmas progress_inv_defs = progress_inv_def trail_ordered_def mailbox_bounded_def terminal_kept_def

lemma progress_inv_init: "progress_inv init_system"
  by (simp add: progress_inv_defs init_system_def default_progress_def new_mailbox_def trail_def)

lemma progress_inv_drop: "progress_inv y \<Longrightarrow> progress_inv (drop_dispatcher y)"
  by (simp add: progress_inv_defs drop_dispatcher_def trail_def)

lemma progress_inv_deliver:
  assumes "progress_inv y" and "worker_next (box y) = Delivers e m"
  shows "progress_inv (y\<lparr>box := m, delivered := delivered y @ [e]\<rparr>)"
proof -
  have m: "queue (box y) = e # queue m" "newest_sequence m = newest_sequence (box y)"
    "closed m = closed (box y)"
    using assms(2) by (auto simp: worker_next_def split: list.splits if_splits)
  then have "trail (y\<lparr>box := m, delivered := delivered y @ [e]\<rparr>) = trail y"
    by (simp add: trail_def)
  with assms(1) m show ?thesis
    by (simp add: progress_inv_defs)
qed

lemma saturating_Suc_less:
  assumes "sq \<noteq> - 1" and "unat n \<le> unat sq"
  shows "\<not> saturating_add sq 1 \<le> (n::u64)"
proof -
  have "unat (saturating_add sq 1) = unat sq + 1"
    using unat_not_max [OF assms(1)] by (simp add: word_nat)
  with assms(2) show ?thesis by (simp add: word_le_nat_alt)
qed

text \<open>The reporting thread keeps the invariant.\<close>

lemma progress_inv_publish:
  assumes inv: "progress_inv y" and adv: "advance (progress y) s cu tu msg = (p, Some (sq, e))"
    and live: "\<not> dropped y"
  shows "progress_inv (y\<lparr>progress := p, box := publish (box y) sq e\<rparr>)"
proof -
  note a = advance_Some [OF adv]
  let ?z = "y\<lparr>progress := p, box := publish (box y) sq e\<rparr>"
  have le: "\<forall>x \<in> set (trail y). ev_basis_points x \<le> ev_basis_points e
      \<and> stage_rank (ev_stage x) \<le> stage_rank (ev_stage e)"
    using inv a(2-5) by (fastforce simp: progress_inv_defs intro: order_trans)
  have sub: "set (trail ?z) \<subseteq> insert e (set (trail y))"
    using set_enqueue [of "queue (box y)" e] by (auto simp: trail_def publish_def)
  have "trail_ordered ?z"
  proof (cases "publish (box y) sq e = box y")
    case True
    then have "trail ?z = trail y" by (simp add: trail_def)
    with inv le a(2,4,7) a(3) show ?thesis
      by (fastforce simp: progress_inv_defs intro: order_trans)
  next
    case False
    then have t: "trail ?z = delivered y @ enqueue (queue (box y)) e"
      by (auto simp: trail_def publish_def)
    have mono: "sorted (map f (trail ?z))"
      if "sorted (map f (trail y))" "\<forall>x \<in> set (trail y). f x \<le> f e" for f :: "ProgressEvent \<Rightarrow> u16"
      using that unfolding t trail_def [of y] by (rule enqueue_sorted)
    have "sorted (map ev_basis_points (trail ?z))"
      by (rule mono) (use inv le in \<open>simp_all add: progress_inv_def trail_ordered_def\<close>)
    moreover have "sorted (map (stage_rank \<circ> ev_stage) (trail ?z))"
      by (rule mono) (use inv le in \<open>simp_all add: progress_inv_def trail_ordered_def\<close>)
    ultimately show ?thesis
      using sub le a(3,4,7)
      by (fastforce simp: trail_ordered_def)
  qed
  moreover have "mailbox_bounded ?z"
    using inv a(6,8) event_basis_points_le enqueue_length
    by (auto simp: progress_inv_defs publish_def max_def)
  moreover have "terminal_kept ?z"
  proof -
    have nc: "\<not> closed (box y)" and n: "unat (newest_sequence (box y)) \<le> unat (sequence (progress y))"
      using inv live a(1) by (auto simp: progress_inv_defs)
    have "unat sq \<ge> unat (sequence (progress y))"
      using a(11) unat_less_2p [of "sequence (progress y)"] by (simp add: word_nat)
    moreover have "\<not> sq \<le> newest_sequence (box y)" if "sq \<noteq> - 1"
    proof -
      have "sequence (progress y) \<noteq> - 1"
        using that a(11) by (auto simp: saturating_add_def unat_max_word)
      then show ?thesis using saturating_Suc_less n a(11) by simp
    qed
    moreover have "\<forall>x \<in> set (trail y). ev_stage x \<noteq> Completed"
      using inv a(1) by (auto simp: progress_inv_defs)
    ultimately show ?thesis
      using n nc sub a(3,9,10) enqueue_last [of "queue (box y)" e] butlast_enqueue [of "queue (box y)" e]
      by (auto simp: terminal_kept_def publish_def trail_def butlast_append dest: in_set_butlastD)
  qed
  ultimately show ?thesis by (simp add: progress_inv_def)
qed

lemma progress_inv_report:
  "progress_inv y \<Longrightarrow> \<not> dropped y \<Longrightarrow> progress_inv (report_event y s cu tu msg)"
  using progress_inv_publish advance_None
  by (fastforce simp: report_event_def split: prod.splits option.splits)

lemma progress_inv_step: "progress_step y z \<Longrightarrow> progress_inv y \<Longrightarrow> progress_inv z"
  by (induction rule: progress_step.induct)
    (auto intro: progress_inv_report progress_inv_deliver progress_inv_drop)

lemma progress_reachable_inv: "progress_reachable y \<Longrightarrow> progress_inv y"
  by (induction rule: progress_reachable.induct) (auto intro: progress_inv_init progress_inv_step)

section \<open>The listener alone\<close>

lemma worker_run_drains:
  "delivered (worker_run y) = trail y \<and> queue (box (worker_run y)) = []
   \<and> closed (box (worker_run y)) = closed (box y) \<and> progress (worker_run y) = progress y"
proof (induction y rule: worker_run.induct)
  case (1 y)
  show ?case
  proof (cases "queue (box y)")
    case Nil
    then show ?thesis
      by (simp add: worker_run.simps [of y] worker_next_def trail_def)
  next
    case (Cons e q)
    then have "worker_next (box y) = Delivers e ((box y)\<lparr>queue := q\<rparr>)"
      by (simp add: worker_next_def)
    with 1 [OF this] Cons show ?thesis
      by (simp add: worker_run.simps [of y] trail_def)
  qed
qed

section \<open>Properties\<close>

text \<open>Claim C9: however the reporting thread, the listener thread and the drop of the dispatcher
  interleave, the listener sees stages in non-decreasing rank and completion in non-decreasing
  basis points, never above 10000, and the mailbox never holds more than eight events.\<close>

theorem progress_is_monotone_and_bounded:
  assumes "progress_reachable y"
  shows "sorted (map ev_basis_points (delivered y))
    \<and> sorted (map (stage_rank \<circ> ev_stage) (delivered y))
    \<and> (\<forall>e \<in> set (delivered y). ev_basis_points e \<le> 10000)
    \<and> length (queue (box y)) \<le> 8"
  using progress_reachable_inv [OF assms]
  by (auto simp: progress_inv_defs trail_def sorted_append intro: order_trans)

text \<open>Claim C10: once \<open>Completed\<close> was reported to a live dispatcher, it is delivered exactly once and
  last: the listener thread alone drains the mailbox, ends on the \<open>Completed\<close> event and exits,
  although full mailboxes overwrite events (unless \<open>2^64 - 1\<close> reports exhausted the sequence).\<close>

theorem completed_is_delivered_last:
  assumes "progress_reachable y" and "\<not> dropped y" and "completed (progress y)"
    and "sequence (progress y) \<noteq> - 1"
  shows "delivered (worker_run y) \<noteq> [] \<and> ev_stage (last (delivered (worker_run y))) = Completed
     \<and> (\<forall>e \<in> set (butlast (delivered (worker_run y))). ev_stage e \<noteq> Completed)
     \<and> worker_next (box (worker_run y)) = Exits"
  using progress_reachable_inv [OF assms(1)] assms(2-) worker_run_drains [of y]
  by (simp add: progress_inv_defs worker_next_def)

definition sample_run :: progress_system where
  "sample_run =
     report_event (report_event (report_event init_system Detecting None None None)
        Converting (Some 1) (Some 4) None) Completed None None None"

lemma sample_run_reachable: "progress_reachable sample_run"
  unfolding sample_run_def
  by (intro progress_reachable.step [OF _ progress_step.report] progress_reachable.start)
    (simp_all add: report_event_def init_system_def split: prod.splits option.splits)

lemma sample_run_state:
  "map ev_basis_points (trail sample_run) = [1500, 4750, 10000]"
  "\<not> dropped sample_run" "completed (progress sample_run)" "sequence (progress sample_run) = 3"
  by (simp_all add: sample_run_def report_event_def init_system_def default_progress_def new_mailbox_def
      advance_def Let_def event_basis_points_def stage_fraction_def fraction_units_def saturating_add_def
      publish_def enqueue_def trail_def word_le_nat_alt)

theorem progress_is_monotone_and_bounded_witness:
  "length (delivered (worker_run sample_run)) = 3 \<and> length (queue (box sample_run)) \<le> 8"
  using progress_is_monotone_and_bounded [OF sample_run_reachable] worker_run_drains [of sample_run]
    arg_cong [OF sample_run_state(1), of length]
  by simp

theorem completed_is_delivered_last_witness:
  "ev_stage (last (delivered (worker_run sample_run))) = Completed"
  using completed_is_delivered_last [OF sample_run_reachable] sample_run_state(2-) by simp

end
