(* ===== verification/Input_Format.thy ===== *)
theory Input_Format
  imports Strings
begin

text \<open>
  \<open>crates/core/src/format.rs\<close>: the input formats, their stable identifiers, the mapping from
  filename extensions, and the recognition of RAR headers.
\<close>

datatype InputFormat =
    Pdf | Doc | Docx | Ppt | Pptx | Xls | Xlsx | Odt | Ods | Odp
  | Rtf | Epub | Text | Markdown | Html | Csv | Tsv | Json | Xml | Drawio
  | Feed | Ipynb | Image | Audio | Video | Zip | Rar | OutlookMsg | YouTube | Wikipedia

fun format_as_str :: "InputFormat \<Rightarrow> string" where
  "format_as_str Pdf = ''pdf''"
| "format_as_str Doc = ''doc''"
| "format_as_str Docx = ''docx''"
| "format_as_str Ppt = ''ppt''"
| "format_as_str Pptx = ''pptx''"
| "format_as_str Xls = ''xls''"
| "format_as_str Xlsx = ''xlsx''"
| "format_as_str Odt = ''odt''"
| "format_as_str Ods = ''ods''"
| "format_as_str Odp = ''odp''"
| "format_as_str Rtf = ''rtf''"
| "format_as_str Epub = ''epub''"
| "format_as_str Text = ''text''"
| "format_as_str Markdown = ''markdown''"
| "format_as_str Html = ''html''"
| "format_as_str Csv = ''csv''"
| "format_as_str Tsv = ''tsv''"
| "format_as_str Json = ''json''"
| "format_as_str Xml = ''xml''"
| "format_as_str Drawio = ''drawio''"
| "format_as_str Feed = ''feed''"
| "format_as_str Ipynb = ''ipynb''"
| "format_as_str Image = ''image''"
| "format_as_str Audio = ''audio''"
| "format_as_str Video = ''video''"
| "format_as_str Zip = ''zip''"
| "format_as_str Rar = ''rar''"
| "format_as_str OutlookMsg = ''outlook-msg''"
| "format_as_str YouTube = ''youtube''"
| "format_as_str Wikipedia = ''wikipedia''"

text \<open>\<open>trim_start_matches('.')\<close>, then ASCII lower case, then the source's match arms in order.\<close>

definition extension_arm :: "string \<Rightarrow> InputFormat option" where
  "extension_arm e =
     (if e = ''pdf'' then Some Pdf
      else if e = ''doc'' then Some Doc
      else if e \<in> {''docx'', ''docm''} then Some Docx
      else if e \<in> {''ppt'', ''pps'', ''pot''} then Some Ppt
      else if e \<in> {''pptx'', ''pptm'', ''ppsx'', ''ppsm'', ''potx''} then Some Pptx
      else if e = ''xls'' then Some Xls
      else if e \<in> {''xlsx'', ''xlsm'', ''xlsb''} then Some Xlsx
      else if e = ''odt'' then Some Odt
      else if e = ''ods'' then Some Ods
      else if e = ''odp'' then Some Odp
      else if e = ''rtf'' then Some Rtf
      else if e = ''epub'' then Some Epub
      else if e \<in> {''txt'', ''text'', ''log''} then Some Text
      else if e \<in> {''md'', ''markdown'', ''mdown''} then Some Markdown
      else if e \<in> {''html'', ''htm''} then Some Html
      else if e = ''csv'' then Some Csv
      else if e = ''tsv'' then Some Tsv
      else if e = ''json'' then Some Json
      else if e = ''xml'' then Some Xml
      else if e = ''drawio'' then Some Drawio
      else if e \<in> {''rss'', ''atom''} then Some Feed
      else if e = ''ipynb'' then Some Ipynb
      else if e \<in> {''png'', ''jpg'', ''jpeg'', ''tif'', ''tiff'', ''webp'', ''bmp''} then Some Image
      else if e \<in> {''wav'', ''mp3'', ''m4a'', ''flac'', ''ogg''} then Some Audio
      else if e \<in> {''mp4'', ''mov'', ''mkv'', ''webm''} then Some Video
      else if e = ''zip'' then Some Zip
      else if e = ''rar'' then Some Rar
      else if e = ''msg'' then Some OutlookMsg
      else None)"

definition from_extension :: "string \<Rightarrow> InputFormat option" where
  "from_extension extension =
     extension_arm (to_ascii_lowercase (dropWhile (\<lambda>c. c = CHR ''.'') extension))"

section \<open>RAR headers\<close>

datatype RarSignature = Rar4 | Rar5 | Damaged

definition starts_with :: "u8 list \<Rightarrow> u8 list \<Rightarrow> bool" where
  "starts_with p bytes \<longleftrightarrow> take (length p) bytes = p"

definition rar_detect :: "u8 list \<Rightarrow> RarSignature option" where
  "rar_detect bytes =
     (if starts_with [0x52, 0x61, 0x72, 0x21, 0x1a, 0x07, 0x00] bytes then Some Rar4
      else if starts_with [0x52, 0x61, 0x72, 0x21, 0x1a, 0x07, 0x01, 0x00] bytes then Some Rar5
      else if starts_with [0x52, 0x61, 0x72, 0x21, 0x1a] bytes then Some Damaged
      else None)"

section \<open>Properties\<close>

lemma format_as_str_inject [simp]: "format_as_str f = format_as_str g \<longleftrightarrow> f = g"
  by (cases f; cases g; simp)

lemma format_as_str_lower [simp]: "to_ascii_lowercase (format_as_str f) = format_as_str f"
  by (cases f) (simp_all add: to_ascii_lowercase_def ascii_lower_def is_ascii_uppercase_def)

lemma format_as_str_no_dot [simp]: "dropWhile (\<lambda>c. c = CHR ''.'') (format_as_str f) = format_as_str f"
  by (cases f) simp_all

lemma extension_arm_as_str: "extension_arm (format_as_str f) \<in> {None, Some f}"
  by (cases f) (simp_all add: extension_arm_def)

lemma from_extension_dot [simp]: "from_extension (CHR ''.'' # e) = from_extension e"
  by (simp add: from_extension_def)

lemma dropWhile_dot_lower:
  "dropWhile (\<lambda>c. c = CHR ''.'') (to_ascii_lowercase e) = to_ascii_lowercase (dropWhile (\<lambda>c. c = CHR ''.'') e)"
proof -
  have "ascii_lower c = CHR ''.'' \<longleftrightarrow> c = CHR ''.''" for c
    by (simp add: char_eq_byte byte_ascii_lower is_ascii_uppercase_def)
  then show ?thesis
    by (simp add: to_ascii_lowercase_def dropWhile_map o_def)
qed

lemma from_extension_lower [simp]: "from_extension (to_ascii_lowercase e) = from_extension e"
  by (simp add: from_extension_def dropWhile_dot_lower)

text \<open>An extension is routed the same whatever its case and however many dots lead it, and
  a stable identifier used as an extension never names another format.\<close>

lemma from_extension_canonical:
  "from_extension (replicate n CHR ''.'' @ to_ascii_lowercase e) = from_extension e
   \<and> from_extension (format_as_str f) \<in> {None, Some f}"
proof -
  have "from_extension (replicate n CHR ''.'' @ e') = from_extension e'" for e'
    by (induction n) simp_all
  moreover have "from_extension (format_as_str f) = extension_arm (format_as_str f)"
    by (simp add: from_extension_def)
  ultimately show ?thesis
    using extension_arm_as_str [of f] by simp
qed

end
