(* ===== verification/Execution.thy ===== *)
theory Execution
  imports Options Progress Input_Format
begin

text \<open>
  Request-scoped execution contexts, \<open>crates/core/src/execution.rs\<close>: cancellation, deadline and
  the accounting of memory and temporary storage with its RAII guards.

  The heap of shared cells is a \<open>world\<close>. An \<open>Arc<ExecutionShared>\<close>, \<open>Arc<MemoryBacking>\<close>,
  \<open>Arc<MemoryCredit>\<close>, a live \<open>ResourceReservation\<close> and a live \<open>TemporaryFile\<close> are each an
  identifier into one of its stores. A context and every fork of it share one set of counters
  (\<open>SharedResourceAccounting\<close>) and the same limits. Strong counts are computed: a backing or a
  credit is released by the operation that removes its last holder. The atomics' read-modify-write
  operations are single steps; an operation of the model is one call of the source.
\<close>

section \<open>State\<close>

datatype ResourceKind = Memory | Temporary

record AdaptiveResourceState =
  implicit :: "string list"
  ceilings :: ResourceLimits
  enabled :: bool
  attempted :: "string list"
  raised :: "(string, u64) kv"

record ExecutionShared =
  token :: nat
  deadline :: "nat option"
  deadline_timer_available :: bool
  timed_out :: bool
  detected_format :: "InputFormat option"
  notifier :: progress_system
  has_dispatcher :: bool
  adaptation :: AdaptiveResourceState

record ExecutionContext =
  shared :: nat
  memory_credit :: "nat option"
  ignore_request_controls :: bool

record MemoryCredit =
  backing :: nat
  credit_bytes :: u64
  scope_live :: bool

record ResourceReservation =
  guard_context :: ExecutionContext
  kind :: ResourceKind
  bytes :: u64
  global_memory_backing :: "nat option"
  active_memory_credit :: "nat option"

record TemporaryFile =
  file_context :: ExecutionContext
  path :: string
  is_open :: bool
  charged :: u64

record world =
  now :: nat
  cancelled_tokens :: "nat list"
  limits :: ResourceLimits
  memory_bytes :: u64
  memory_peak_bytes :: u64
  temporary_bytes :: u64
  temporary_peak_bytes :: u64
  shareds :: "nat \<Rightarrow> ExecutionShared"
  backings :: "(nat, u64) kv"
  credits :: "(nat, MemoryCredit) kv"
  reservations :: "(nat, ResourceReservation) kv"
  files :: "(nat, TemporaryFile) kv"
  disk :: "string list"
  fresh :: nat

text \<open>A guard or a credit that was dropped cannot be named in Rust; the model answers with this error.\<close>

definition dangling :: "'a outcome" where
  "dangling = Inl (Internal ''use after drop'')"

section \<open>Request controls\<close>

definition is_cancelled :: "world \<Rightarrow> nat \<Rightarrow> bool" where
  "is_cancelled w t \<longleftrightarrow> t \<in> set (cancelled_tokens w)"

definition cancel :: "nat \<Rightarrow> world \<Rightarrow> world" where
  "cancel t w = (if is_cancelled w t then w else w\<lparr>cancelled_tokens := t # cancelled_tokens w\<rparr>)"

definition upd_shared :: "nat \<Rightarrow> (ExecutionShared \<Rightarrow> ExecutionShared) \<Rightarrow> world \<Rightarrow> world" where
  "upd_shared i f w = w\<lparr>shareds := (shareds w)(i := f (shareds w i))\<rparr>"

text \<open>
  \<open>new_with_timer_spawner_and_counters\<close>, also used by \<open>fork_with_shared_resources\<close>: the new
  shared cell joins the world's counters. \<open>checked_add\<close> on \<open>Instant\<close> fails above \<open>max_instant\<close>;
  \<open>timer_spawned\<close> and \<open>dispatcher_spawned\<close> say whether the operating system started the two threads.
\<close>

definition new_context ::
  "nat \<Rightarrow> bool \<Rightarrow> bool \<Rightarrow> nat \<Rightarrow> nat option \<Rightarrow> AdaptiveResourceState \<Rightarrow> world \<Rightarrow> ExecutionContext \<times> world" where
  "new_context max_instant timer_spawned dispatcher_spawned cancellation timeout adapt w =
     (let dl = (case timeout of None \<Rightarrow> None
                | Some d \<Rightarrow> if now w + d \<le> max_instant then Some (now w + d) else None);
          timer_deadline = (case dl of Some d \<Rightarrow> if now w < d then Some d else None | None \<Rightarrow> None);
          cell = \<lparr>token = cancellation, deadline = dl,
                  deadline_timer_available = (timer_deadline = None \<or> timer_spawned),
                  timed_out = False, detected_format = None, notifier = init_system,
                  has_dispatcher = dispatcher_spawned, adaptation = adapt\<rparr>
      in (\<lparr>shared = fresh w, memory_credit = None, ignore_request_controls = False\<rparr>,
          w\<lparr>shareds := (shareds w)(fresh w := cell), fresh := Suc (fresh w)\<rparr>))"

definition clone_context :: "ExecutionContext \<Rightarrow> ExecutionContext" where
  "clone_context c = c\<lparr>memory_credit := None\<rparr>"

definition cleanup_scope :: "ExecutionContext \<Rightarrow> ExecutionContext" where
  "cleanup_scope c = c\<lparr>memory_credit := None, ignore_request_controls := True\<rparr>"

text \<open>The body of the deadline thread after its wait.\<close>

definition deadline_fires :: "nat \<Rightarrow> world \<Rightarrow> world" where
  "deadline_fires i w =
     (case deadline (shareds w i) of
        Some d \<Rightarrow> if d \<le> now w \<and> \<not> is_cancelled w (token (shareds w i))
                  then upd_shared i (timed_out_update (\<lambda>_. True)) w else w
      | None \<Rightarrow> w)"

definition checkpoint :: "ExecutionContext \<Rightarrow> world \<Rightarrow> unit outcome \<times> world" where
  "checkpoint c w =
     (let s = shareds w (shared c) in
      if ignore_request_controls c then (Inr (), w)
      else if \<not> deadline_timer_available s then
        (Inl (ComponentUnavailable ''deadline-timer'' ''deadline timer could not be started''), w)
      else if is_cancelled w (token s) then (Inl Cancelled, w)
      else if timed_out s \<or> (case deadline s of Some d \<Rightarrow> d \<le> now w | None \<Rightarrow> False) then
        (Inl Timeout, upd_shared (shared c) (timed_out_update (\<lambda>_. True)) w)
      else (Inr (), w))"

definition remaining_time :: "ExecutionContext \<Rightarrow> world \<Rightarrow> nat option" where
  "remaining_time c w = map_option (\<lambda>d. d - now w) (deadline (shareds w (shared c)))"

definition record_detected_format :: "ExecutionContext \<Rightarrow> InputFormat \<Rightarrow> world \<Rightarrow> world" where
  "record_detected_format c f = upd_shared (shared c) (detected_format_update (\<lambda>_. Some f))"

definition report :: "ExecutionContext \<Rightarrow> ExecutionStage \<Rightarrow> u64 option \<Rightarrow> u64 option \<Rightarrow> string option
    \<Rightarrow> world \<Rightarrow> unit outcome \<times> world" where
  "report c s cu tu msg w =
     (case checkpoint c w of
        (Inl e, w') \<Rightarrow> (Inl e, w')
      | (Inr _, w') \<Rightarrow>
          (Inr (), upd_shared (shared c)
             (\<lambda>x. x\<lparr>notifier :=
                  (if has_dispatcher x then report_event (notifier x) s cu tu msg
                   else (notifier x)\<lparr>progress := fst (advance (progress (notifier x)) s cu tu msg)\<rparr>)\<rparr>) w'))"

section \<open>Charging\<close>

definition checked_charge :: "u64 \<Rightarrow> u64 \<Rightarrow> u64 \<Rightarrow> string \<Rightarrow> u64 outcome" where
  "checked_charge current amount limit name =
     (case checked_add current amount of
        Some next \<Rightarrow>
          if next \<le> limit then Inr next
          else Inl (ResourceLimit name
            (show_word current @ '' + '' @ show_word amount @ '' exceeds '' @ show_word limit))
      | None \<Rightarrow> Inl (ResourceLimit name
            (show_word current @ '' + '' @ show_word amount @ '' exceeds '' @ show_word limit)))"

text \<open>The account a context charges: the enclosing credit, bounded by its backing, else the request's pool.\<close>

definition credit_of :: "world \<Rightarrow> nat \<Rightarrow> MemoryCredit" where
  "credit_of w k = (case kv_get (credits w) k of
     Some c \<Rightarrow> c | None \<Rightarrow> \<lparr>backing = 0, credit_bytes = 0, scope_live = False\<rparr>)"

definition backing_bytes :: "world \<Rightarrow> nat \<Rightarrow> u64" where
  "backing_bytes w b = (case kv_get (backings w) b of Some v \<Rightarrow> v | None \<Rightarrow> 0)"

definition set_credit_bytes :: "nat \<Rightarrow> u64 \<Rightarrow> world \<Rightarrow> world" where
  "set_credit_bytes k v w = w\<lparr>credits := kv_put k ((credit_of w k)\<lparr>credit_bytes := v\<rparr>) (credits w)\<rparr>"

definition charge :: "ResourceKind \<Rightarrow> ExecutionContext \<Rightarrow> u64 \<Rightarrow> world \<Rightarrow> unit outcome \<times> world" where
  "charge kd c amount w =
     (case kd of
        Memory \<Rightarrow>
          (case memory_credit c of
             Some k \<Rightarrow>
               (case checked_charge (credit_bytes (credit_of w k)) amount
                       (backing_bytes w (backing (credit_of w k))) ''max_memory_bytes'' of
                  Inl e \<Rightarrow> (Inl e, w)
                | Inr v \<Rightarrow> (Inr (), set_credit_bytes k v w))
           | None \<Rightarrow>
               (case checked_charge (memory_bytes w) amount (max_memory_bytes (limits w)) ''max_memory_bytes'' of
                  Inl e \<Rightarrow> (Inl e, w)
                | Inr v \<Rightarrow> (Inr (), w\<lparr>memory_bytes := v, memory_peak_bytes := max (memory_peak_bytes w) v\<rparr>)))
      | Temporary \<Rightarrow>
          (case checked_charge (temporary_bytes w) amount (max_temporary_bytes (limits w)) ''max_temporary_bytes'' of
             Inl e \<Rightarrow> (Inl e, w)
           | Inr v \<Rightarrow> (Inr (), w\<lparr>temporary_bytes := v, temporary_peak_bytes := max (temporary_peak_bytes w) v\<rparr>)))"

text \<open>\<open>fetch_sub\<close> on the account: it wraps, as the atomic does.\<close>

definition uncharge :: "ResourceKind \<Rightarrow> ExecutionContext \<Rightarrow> u64 \<Rightarrow> world \<Rightarrow> world" where
  "uncharge kd c amount w =
     (case kd of
        Memory \<Rightarrow>
          (case memory_credit c of
             Some k \<Rightarrow> set_credit_bytes k (credit_bytes (credit_of w k) - amount) w
           | None \<Rightarrow> w\<lparr>memory_bytes := memory_bytes w - amount\<rparr>)
      | Temporary \<Rightarrow> w\<lparr>temporary_bytes := temporary_bytes w - amount\<rparr>)"

section \<open>Reservations\<close>

definition reserve :: "ResourceKind \<Rightarrow> ExecutionContext \<Rightarrow> u64 \<Rightarrow> world \<Rightarrow> nat outcome \<times> world" where
  "reserve kd c n w =
     (case checkpoint c w of
        (Inl e, w1) \<Rightarrow> (Inl e, w1)
      | (Inr _, w1) \<Rightarrow>
        (case charge kd c n w1 of
           (Inl e, w2) \<Rightarrow> (Inl e, w2)
         | (Inr _, w2) \<Rightarrow>
             (let i = fresh w2;
                  owned = (kd = Memory \<and> memory_credit c = None);
                  r = \<lparr>guard_context = c, kind = kd, bytes = n,
                       global_memory_backing = (if owned then Some i else None),
                       active_memory_credit = None\<rparr>
              in (Inr i, w2\<lparr>reservations := kv_put i r (reservations w2),
                            backings := (if owned then kv_put i n (backings w2) else backings w2),
                            fresh := Suc i\<rparr>))))"

definition reserved_memory_bytes :: "ExecutionContext \<Rightarrow> world \<Rightarrow> u64" where
  "reserved_memory_bytes c w =
     (case memory_credit c of Some k \<Rightarrow> credit_bytes (credit_of w k) | None \<Rightarrow> memory_bytes w)"

definition available_memory_bytes :: "ExecutionContext \<Rightarrow> world \<Rightarrow> u64" where
  "available_memory_bytes c w =
     (case memory_credit c of
        Some k \<Rightarrow> saturating_sub (backing_bytes w (backing (credit_of w k))) (credit_bytes (credit_of w k))
      | None \<Rightarrow> saturating_sub (max_memory_bytes (limits w)) (memory_bytes w))"

definition available_temporary_bytes :: "world \<Rightarrow> u64" where
  "available_temporary_bytes w = saturating_sub (max_temporary_bytes (limits w)) (temporary_bytes w)"

definition belongs_to_memory_context :: "ResourceReservation \<Rightarrow> ExecutionContext \<Rightarrow> bool" where
  "belongs_to_memory_context r c \<longleftrightarrow>
     kind r = Memory \<and> shared (guard_context r) = shared c \<and> memory_credit (guard_context r) = memory_credit c"

definition accounts_memory_for :: "ResourceReservation \<Rightarrow> ExecutionContext \<Rightarrow> u64 \<Rightarrow> bool" where
  "accounts_memory_for r c n \<longleftrightarrow> belongs_to_memory_context r c \<and> bytes r = n"

text \<open>\<open>Weak::upgrade\<close>: the credit is live while the store holds it.\<close>

definition credit_active :: "world \<Rightarrow> ResourceReservation \<Rightarrow> bool" where
  "credit_active w r \<longleftrightarrow>
     (case active_memory_credit r of Some k \<Rightarrow> kv_get (credits w) k \<noteq> None | None \<Rightarrow> False)"

definition with_memory_credit :: "ExecutionContext \<Rightarrow> nat \<Rightarrow> world \<Rightarrow> ExecutionContext outcome \<times> world" where
  "with_memory_credit c i w =
     (case kv_get (reservations w) i of
        None \<Rightarrow> (dangling, w)
      | Some r \<Rightarrow>
          if \<not> belongs_to_memory_context r c then
            (Inl (Internal ''preflight credit requires an authentic same-context memory reservation''), w)
          else (case global_memory_backing r of
            None \<Rightarrow> (Inl (Internal ''preflight credit requires a globally charged memory reservation''), w)
          | Some b \<Rightarrow>
              if credit_active w r then
                (Inl (Internal ''preflight reservation already backs a live memory credit''), w)
              else
                (let k = fresh w
                 in (Inr (c\<lparr>memory_credit := Some k\<rparr>),
                     w\<lparr>credits := kv_put k \<lparr>backing = b, credit_bytes = 0, scope_live = True\<rparr> (credits w),
                       reservations := kv_put i (r\<lparr>active_memory_credit := Some k\<rparr>) (reservations w),
                       fresh := Suc k\<rparr>))))"

definition ensure_credit_inactive :: "world \<Rightarrow> ResourceReservation \<Rightarrow> unit outcome" where
  "ensure_credit_inactive w r =
     (if credit_active w r
      then Inl (Internal ''cannot resize a preflight reservation while credited children are live'')
      else Inr ())"

definition resource_name :: "ResourceKind \<Rightarrow> string" where
  "resource_name kd = (case kd of Memory \<Rightarrow> ''max_memory_bytes'' | Temporary \<Rightarrow> ''max_temporary_bytes'')"

text \<open>Write the new size into the guard and, for a globally charged one, its backing.\<close>

definition resize :: "nat \<Rightarrow> ResourceReservation \<Rightarrow> u64 \<Rightarrow> (u64 \<Rightarrow> u64) \<Rightarrow> world \<Rightarrow> world" where
  "resize i r next f w =
     w\<lparr>reservations := kv_put i (r\<lparr>bytes := next\<rparr>) (reservations w),
       backings := (case global_memory_backing r of
                      Some b \<Rightarrow> kv_put b (f (backing_bytes w b)) (backings w)
                    | None \<Rightarrow> backings w)\<rparr>"

definition grow :: "nat \<Rightarrow> u64 \<Rightarrow> world \<Rightarrow> unit outcome \<times> world" where
  "grow i n w =
     (case kv_get (reservations w) i of
        None \<Rightarrow> (dangling, w)
      | Some r \<Rightarrow>
        (case checkpoint (guard_context r) w of
           (Inl e, w1) \<Rightarrow> (Inl e, w1)
         | (Inr _, w1) \<Rightarrow>
           (case ensure_credit_inactive w1 r of
              Inl e \<Rightarrow> (Inl e, w1)
            | Inr _ \<Rightarrow>
              (case checked_add (bytes r) n of
                 None \<Rightarrow> (Inl (ResourceLimit (resource_name (kind r)) ''resource reservation overflowed''), w1)
               | Some next \<Rightarrow>
                 (case charge (kind r) (guard_context r) n w1 of
                    (Inl e, w2) \<Rightarrow> (Inl e, w2)
                  | (Inr _, w2) \<Rightarrow> (Inr (), resize i r next (\<lambda>v. v + n) w2))))))"

definition shrink :: "nat \<Rightarrow> u64 \<Rightarrow> world \<Rightarrow> unit outcome \<times> world" where
  "shrink i n w =
     (case kv_get (reservations w) i of
        None \<Rightarrow> (dangling, w)
      | Some r \<Rightarrow>
        (case ensure_credit_inactive w r of
           Inl e \<Rightarrow> (Inl e, w)
         | Inr _ \<Rightarrow>
           (case checked_sub (bytes r) n of
              None \<Rightarrow> (Inl (ResourceLimit (resource_name (kind r)) ''resource reservation underflowed''), w)
            | Some next \<Rightarrow>
                (Inr (), uncharge (kind r) (guard_context r) n (resize i r next (\<lambda>v. v - n) w)))))"

text \<open>Releasing the last \<open>Arc\<close> of a backing runs \<open>MemoryBacking::drop\<close>; the last of a credit drops its backing's.\<close>

definition release_backing :: "nat \<Rightarrow> world \<Rightarrow> world" where
  "release_backing b w =
     (if kv_any (\<lambda>r. global_memory_backing r = Some b) (reservations w)
         \<or> kv_any (\<lambda>k. backing k = b) (credits w) then w
      else w\<lparr>memory_bytes := memory_bytes w - backing_bytes w b, backings := kv_del b (backings w)\<rparr>)"

definition release_credit :: "nat \<Rightarrow> world \<Rightarrow> world" where
  "release_credit k w =
     (if scope_live (credit_of w k) \<or> kv_any (\<lambda>r. memory_credit (guard_context r) = Some k) (reservations w) then w
      else release_backing (backing (credit_of w k)) (w\<lparr>credits := kv_del k (credits w)\<rparr>))"

definition drop_reservation :: "nat \<Rightarrow> world \<Rightarrow> world" where
  "drop_reservation i w =
     (case kv_get (reservations w) i of
        None \<Rightarrow> w
      | Some r \<Rightarrow>
          (let w1 = (if global_memory_backing r = None then uncharge (kind r) (guard_context r) (bytes r) w else w);
               w2 = w1\<lparr>reservations := kv_del i (reservations w1)\<rparr>;
               w3 = (case memory_credit (guard_context r) of Some k \<Rightarrow> release_credit k w2 | None \<Rightarrow> w2)
           in (case global_memory_backing r of Some b \<Rightarrow> release_backing b w3 | None \<Rightarrow> w3)))"

text \<open>Dropping a \<open>PreflightMemoryCredit\<close> drops the scoped context and its \<open>Arc\<close> of the credit.\<close>

definition drop_credit_scope :: "nat \<Rightarrow> world \<Rightarrow> world" where
  "drop_credit_scope k w =
     (case kv_get (credits w) k of
        None \<Rightarrow> w
      | Some c \<Rightarrow> release_credit k (w\<lparr>credits := kv_put k (c\<lparr>scope_live := False\<rparr>) (credits w)\<rparr>))"

end
