(* ===== verification/Temporary_File.thy ===== *)
theory Temporary_File
  imports Execution
begin

text \<open>
  Accounted temporary files, \<open>crates/core/src/execution.rs\<close> (\<open>temporary_file\<close>,
  \<open>temporary_file_in\<close>, \<open>temporary_file_at\<close> and \<open>TemporaryFile\<close>): created with create-new
  semantics, charged as bytes are written, removed and released on drop, released but kept on
  \<open>persist\<close>. The operating system is explicit: \<open>io\<close> gives the failure of an \<open>open\<close>, the process
  id and clock feed the candidate names, and each \<open>write\<close> has an outcome.
\<close>

section \<open>Creation\<close>

text \<open>\<open>create_new\<close> on a path: the file store refuses an existing path, the system may refuse any other.\<close>

datatype open_result = Opened | AlreadyExists | Failed string

definition open_new :: "(string \<Rightarrow> string option) \<Rightarrow> string \<Rightarrow> world \<Rightarrow> open_result" where
  "open_new io p w =
     (if p \<in> set (disk w) then AlreadyExists
      else case io p of Some detail \<Rightarrow> Failed detail | None \<Rightarrow> Opened)"

definition add_file :: "ExecutionContext \<Rightarrow> string \<Rightarrow> world \<Rightarrow> nat \<times> world" where
  "add_file c p w =
     (fresh w,
      w\<lparr>files := kv_put (fresh w) \<lparr>file_context = clone_context c, path = p, is_open = True, charged = 0\<rparr> (files w),
        disk := p # disk w, fresh := Suc (fresh w)\<rparr>)"

definition safe_prefix :: "string \<Rightarrow> string" where
  "safe_prefix prefix =
     (let s = take 40 (filter (\<lambda>c. is_ascii_alphanumeric c \<or> c = CHR ''-'' \<or> c = CHR ''_'') prefix)
      in if s = [] then ''into-md'' else s)"

definition path_join :: "string \<Rightarrow> string \<Rightarrow> string" where
  "path_join dir name = (if dir = [] \<or> last dir = CHR ''/'' then dir @ name else dir @ ''/'' @ name)"

definition candidate_path :: "string \<Rightarrow> string \<Rightarrow> nat \<Rightarrow> (nat \<Rightarrow> nat) \<Rightarrow> nat \<Rightarrow> string" where
  "candidate_path dir prefix pid nonce attempt =
     path_join dir (safe_prefix prefix @ ''-'' @ show_nat pid @ ''-'' @ show_nat (nonce attempt)
       @ ''-'' @ show_nat attempt @ ''.tmp'')"

function try_paths ::
  "(string \<Rightarrow> string option) \<Rightarrow> (nat \<Rightarrow> string) \<Rightarrow> nat \<Rightarrow> ExecutionContext \<Rightarrow> world \<Rightarrow> nat outcome \<times> world" where
  "try_paths io candidate attempt c w =
     (if 128 \<le> attempt then (Inl (Io ''could not allocate a temporary file''), w)
      else case open_new io (candidate attempt) w of
        Opened \<Rightarrow> (case add_file c (candidate attempt) w of (i, w') \<Rightarrow> (Inr i, w'))
      | AlreadyExists \<Rightarrow> try_paths io candidate (Suc attempt) c w
      | Failed detail \<Rightarrow> (Inl (Io detail), w))"
  by pat_completeness auto
termination
  by (relation "measure (\<lambda>(io, candidate, attempt, c, w). 128 - attempt)") auto

declare try_paths.simps [simp del]

definition temporary_file_in ::
  "(string \<Rightarrow> string option) \<Rightarrow> nat \<Rightarrow> (nat \<Rightarrow> nat) \<Rightarrow> string \<Rightarrow> string \<Rightarrow> ExecutionContext \<Rightarrow> world
     \<Rightarrow> nat outcome \<times> world" where
  "temporary_file_in io pid nonce dir prefix c w =
     (case checkpoint c w of
        (Inl e, w1) \<Rightarrow> (Inl e, w1)
      | (Inr _, w1) \<Rightarrow> try_paths io (candidate_path dir prefix pid nonce) 0 c w1)"

text \<open>\<open>eexist\<close> is the system's text for an existing path.\<close>

definition temporary_file_at ::
  "(string \<Rightarrow> string option) \<Rightarrow> string \<Rightarrow> string \<Rightarrow> ExecutionContext \<Rightarrow> world \<Rightarrow> nat outcome \<times> world" where
  "temporary_file_at io eexist p c w =
     (case checkpoint c w of
        (Inl e, w1) \<Rightarrow> (Inl e, w1)
      | (Inr _, w1) \<Rightarrow>
          (case open_new io p w1 of
             Opened \<Rightarrow> (case add_file c p w1 of (i, w') \<Rightarrow> (Inr i, w'))
           | AlreadyExists \<Rightarrow> (Inl (Io eexist), w1)
           | Failed detail \<Rightarrow> (Inl (Io detail), w1)))"

section \<open>Writing\<close>

text \<open>
  The outcome of one \<open>File::write\<close>: an error, or the number of bytes taken, which the standard
  library bounds by the length of the buffer.
\<close>

datatype write_result = Wrote nat | WriteFailed string

definition put_file :: "nat \<Rightarrow> TemporaryFile \<Rightarrow> world \<Rightarrow> world" where
  "put_file i f w = w\<lparr>files := kv_put i f (files w)\<rparr>"

definition write_checked :: "nat \<Rightarrow> nat \<Rightarrow> write_result \<Rightarrow> world \<Rightarrow> nat outcome \<times> world" where
  "write_checked i len os w =
     (case kv_get (files w) i of
        None \<Rightarrow> (dangling, w)
      | Some f \<Rightarrow>
        (case checkpoint (file_context f) w of
           (Inl e, w1) \<Rightarrow> (Inl e, w1)
         | (Inr _, w1) \<Rightarrow>
           (if 2 ^ 64 \<le> len then
              (Inl (ResourceLimit ''max_temporary_bytes'' ''write size cannot be represented as u64''), w1)
            else
              let amount = of_nat len :: u64 in
              (case checked_add (charged f) amount of
                 None \<Rightarrow> (Inl (ResourceLimit ''max_temporary_bytes'' ''temporary byte accounting overflowed''), w1)
               | Some next_charged \<Rightarrow>
                 (case charge Temporary (file_context f) amount w1 of
                    (Inl e, w2) \<Rightarrow> (Inl e, w2)
                  | (Inr _, w2) \<Rightarrow>
                    (if \<not> is_open f then
                       (Inl (Internal ''temporary file is closed''), uncharge Temporary (file_context f) amount w2)
                     else case os of
                       WriteFailed detail \<Rightarrow>
                         (Inl (Io detail), uncharge Temporary (file_context f) amount w2)
                     | Wrote n \<Rightarrow>
                         (let taken = min n len; written = of_nat taken :: u64;
                              w3 = put_file i (f\<lparr>charged := next_charged - (amount - written)\<rparr>) w2
                          in (Inr taken,
                              if written < amount
                              then uncharge Temporary (file_context f) (amount - written) w3
                              else w3))))))))"

text \<open>\<open>write_all_checked\<close>: \<open>outs n\<close> is the outcome of the n-th system call.\<close>

function write_all_checked :: "nat \<Rightarrow> nat \<Rightarrow> (nat \<Rightarrow> write_result) \<Rightarrow> nat \<Rightarrow> world \<Rightarrow> unit outcome \<times> world" where
  "write_all_checked i remaining outs n w =
     (if remaining = 0 then (Inr (), w)
      else case write_checked i remaining (outs n) w of
        (Inl e, w') \<Rightarrow> (Inl e, w')
      | (Inr written, w') \<Rightarrow>
          if written = 0 then (Inl (Io ''temporary file write made no progress''), w')
          else write_all_checked i (remaining - written) outs (Suc n) w')"
  by pat_completeness auto
termination
  by (relation "measure (\<lambda>(i, remaining, outs, n, w). remaining)") auto

declare write_all_checked.simps [simp del]

section \<open>Flush, persist, drop\<close>

text \<open>\<open>flush\<close> and \<open>sync_all\<close>; \<open>io\<close> is the failure the system reports, if any.\<close>

definition flush :: "nat \<Rightarrow> string option \<Rightarrow> world \<Rightarrow> unit outcome \<times> world" where
  "flush i io w =
     (case kv_get (files w) i of
        None \<Rightarrow> (dangling, w)
      | Some f \<Rightarrow>
        (case checkpoint (file_context f) w of
           (Inl e, w1) \<Rightarrow> (Inl e, w1)
         | (Inr _, w1) \<Rightarrow>
           (if \<not> is_open f then (Inl (Internal ''temporary file is closed''), w1)
            else case io of Some detail \<Rightarrow> (Inl (Io detail), w1) | None \<Rightarrow> (Inr (), w1))))"

definition drop_file :: "nat \<Rightarrow> world \<Rightarrow> world" where
  "drop_file i w =
     (case kv_get (files w) i of
        None \<Rightarrow> w
      | Some f \<Rightarrow>
          (let w1 = w\<lparr>disk := (if path f = [] then disk w else filter (\<lambda>p. p \<noteq> path f) (disk w)),
                      files := kv_del i (files w)\<rparr>
           in uncharge Temporary (file_context f) (charged f) w1))"

text \<open>\<open>persist\<close> consumes the file: it releases the charge, empties the path, and is then dropped.\<close>

definition persist :: "nat \<Rightarrow> world \<Rightarrow> string option \<times> world" where
  "persist i w =
     (case kv_get (files w) i of
        None \<Rightarrow> (None, w)
      | Some f \<Rightarrow>
          (Some (path f),
           drop_file i (put_file i (f\<lparr>is_open := False, charged := 0, path := []\<rparr>)
             (uncharge Temporary (file_context f) (charged f) w))))"

end
