(* ===== verification/Accounting.thy ===== *)
theory Accounting
  imports Temporary_File
begin

text \<open>
  The accounting invariant of an execution context and every fork of it: the two pools are the
  exact sums of what the live guards hold, a credit is the exact sum of its children and stays
  within its backing, nothing is released twice and nothing leaks. Preservation is proved per
  operation and lifted to every interleaving of calls by the step relation.
\<close>

section \<open>The invariant\<close>

definition temp_share :: "ResourceReservation \<Rightarrow> nat" where
  "temp_share r = (if kind r = Temporary then unat (bytes r) else 0)"

definition credit_share :: "nat \<Rightarrow> ResourceReservation \<Rightarrow> nat" where
  "credit_share k r = (if kind r = Memory \<and> memory_credit (guard_context r) = Some k then unat (bytes r) else 0)"

definition stores_ok :: "world \<Rightarrow> bool" where
  "stores_ok w \<longleftrightarrow> kv_ok (backings w) \<and> kv_ok (credits w) \<and> kv_ok (reservations w) \<and> kv_ok (files w)"

definition pools_ok :: "world \<Rightarrow> bool" where
  "pools_ok w \<longleftrightarrow>
     unat (memory_bytes w) = kv_sum unat (backings w)
     \<and> unat (temporary_bytes w) = kv_sum temp_share (reservations w) + kv_sum (\<lambda>f. unat (charged f)) (files w)
     \<and> memory_bytes w \<le> memory_peak_bytes w \<and> memory_peak_bytes w \<le> max_memory_bytes (limits w)
     \<and> temporary_bytes w \<le> temporary_peak_bytes w \<and> temporary_peak_bytes w \<le> max_temporary_bytes (limits w)"

definition guard_ok :: "world \<Rightarrow> ResourceReservation \<Rightarrow> bool" where
  "guard_ok w r \<longleftrightarrow>
     (if kind r = Memory \<and> memory_credit (guard_context r) = None
      then \<exists>b. global_memory_backing r = Some b \<and> kv_get (backings w) b = Some (bytes r)
      else global_memory_backing r = None)
     \<and> (\<forall>k. memory_credit (guard_context r) = Some k \<longrightarrow> kv_get (credits w) k \<noteq> None)"

definition guards_ok :: "world \<Rightarrow> bool" where
  "guards_ok w \<longleftrightarrow>
     (\<forall>i r. kv_get (reservations w) i = Some r \<longrightarrow> guard_ok w r)
     \<and> (\<forall>i j r s b. kv_get (reservations w) i = Some r \<and> kv_get (reservations w) j = Some s
          \<and> global_memory_backing r = Some b \<and> global_memory_backing s = Some b \<longrightarrow> i = j)"

definition credits_ok :: "world \<Rightarrow> bool" where
  "credits_ok w \<longleftrightarrow>
     (\<forall>k c. kv_get (credits w) k = Some c \<longrightarrow>
        (\<exists>v. kv_get (backings w) (backing c) = Some v \<and> credit_bytes c \<le> v)
        \<and> unat (credit_bytes c) = kv_sum (credit_share k) (reservations w)
        \<and> (\<forall>i r. kv_get (reservations w) i = Some r \<and> global_memory_backing r = Some (backing c)
             \<longrightarrow> active_memory_credit r = Some k))"

definition fresh_ok :: "world \<Rightarrow> bool" where
  "fresh_ok w \<longleftrightarrow>
     (\<forall>n \<ge> fresh w. kv_get (backings w) n = None \<and> kv_get (credits w) n = None
        \<and> kv_get (reservations w) n = None \<and> kv_get (files w) n = None)"

definition accounts_ok :: "world \<Rightarrow> bool" where
  "accounts_ok w \<longleftrightarrow> stores_ok w \<and> pools_ok w \<and> guards_ok w \<and> credits_ok w \<and> fresh_ok w"

text \<open>No leaks: every backing and every credit outside the excepted ones has a holder.\<close>

definition held_except :: "nat set \<Rightarrow> nat set \<Rightarrow> world \<Rightarrow> bool" where
  "held_except B K w \<longleftrightarrow>
     (\<forall>b v. kv_get (backings w) b = Some v \<and> b \<notin> B \<longrightarrow>
        (\<exists>i r. kv_get (reservations w) i = Some r \<and> global_memory_backing r = Some b)
        \<or> (\<exists>k c. kv_get (credits w) k = Some c \<and> backing c = b))
     \<and> (\<forall>k c. kv_get (credits w) k = Some c \<and> k \<notin> K \<longrightarrow>
        scope_live c
        \<or> (\<exists>i r. kv_get (reservations w) i = Some r \<and> memory_credit (guard_context r) = Some k))"

definition world_inv :: "world \<Rightarrow> bool" where
  "world_inv w \<longleftrightarrow> accounts_ok w \<and> held_except {} {} w"

lemmas accounts_defs =
  accounts_ok_def stores_ok_def pools_ok_def guards_ok_def guard_ok_def credits_ok_def fresh_ok_def

lemma guards_ok_cong:
  assumes "guards_ok w" and "reservations w' = reservations w" and "backings w' = backings w"
    and "\<And>i r k. kv_get (reservations w) i = Some r \<Longrightarrow> memory_credit (guard_context r) = Some k
      \<Longrightarrow> kv_get (credits w) k \<noteq> None \<Longrightarrow> kv_get (credits w') k \<noteq> None"
  shows "guards_ok w'"
proof -
  have "guard_ok w' r" if "kv_get (reservations w) i = Some r" for i r
  proof -
    have "guard_ok w r" using assms(1) that unfolding guards_ok_def by blast
    with assms(3) assms(4) [OF that] show ?thesis unfolding guard_ok_def by simp
  qed
  with assms(1) show ?thesis unfolding guards_ok_def assms(2) by blast
qed

lemma guards_ok_del:
  assumes "guards_ok w" and "reservations w' = kv_del i (reservations w)" and "backings w' = backings w"
    and "\<And>k. kv_get (credits w) k \<noteq> None \<Longrightarrow> kv_get (credits w') k \<noteq> None"
  shows "guards_ok w'"
proof -
  have old: "kv_get (reservations w) j = Some r" if "kv_get (reservations w') j = Some r" for j r
    using that assms(2) by (auto split: if_splits)
  have "guard_ok w' r" if "kv_get (reservations w') j = Some r" for j r
  proof -
    have "guard_ok w r" using assms(1) old [OF that] unfolding guards_ok_def by blast
    with assms(3,4) show ?thesis unfolding guard_ok_def by simp
  qed
  with assms(1) old show ?thesis unfolding guards_ok_def by blast
qed

lemma credits_okD:
  assumes "credits_ok w" and "kv_get (credits w) k = Some c"
  shows "\<exists>v. kv_get (backings w) (backing c) = Some v \<and> credit_bytes c \<le> v"
    and "unat (credit_bytes c) = kv_sum (credit_share k) (reservations w)"
    and "kv_get (reservations w) i = Some r \<Longrightarrow> global_memory_backing r = Some (backing c)
      \<Longrightarrow> active_memory_credit r = Some k"
  using assms by (simp_all add: credits_ok_def)

lemma credits_okI:
  assumes "\<And>k c. kv_get (credits w) k = Some c \<Longrightarrow>
      \<exists>v. kv_get (backings w) (backing c) = Some v \<and> credit_bytes c \<le> v"
    and "\<And>k c. kv_get (credits w) k = Some c \<Longrightarrow>
      unat (credit_bytes c) = kv_sum (credit_share k) (reservations w)"
    and "\<And>k c i r. kv_get (credits w) k = Some c \<Longrightarrow> kv_get (reservations w) i = Some r \<Longrightarrow>
      global_memory_backing r = Some (backing c) \<Longrightarrow> active_memory_credit r = Some k"
  shows "credits_ok w"
  unfolding credits_ok_def using assms by blast

text \<open>Stores that only grow, guard for guard, keep every cell held.\<close>

lemma held_except_grow:
  assumes held: "held_except B K w"
    and b: "\<And>b v. kv_get (backings w') b = Some v \<Longrightarrow> kv_get (backings w) b = None \<Longrightarrow>
      \<exists>i r. kv_get (reservations w') i = Some r \<and> global_memory_backing r = Some b"
    and r: "\<And>i r. kv_get (reservations w) i = Some r \<Longrightarrow> \<exists>r'. kv_get (reservations w') i = Some r'
      \<and> global_memory_backing r' = global_memory_backing r
      \<and> memory_credit (guard_context r') = memory_credit (guard_context r)"
    and c: "\<And>k c. kv_get (credits w) k = Some c \<Longrightarrow>
      \<exists>c'. kv_get (credits w') k = Some c' \<and> backing c' = backing c"
    and l: "\<And>k c. kv_get (credits w') k = Some c \<Longrightarrow> \<not> scope_live c \<Longrightarrow>
      \<exists>c0. kv_get (credits w) k = Some c0 \<and> \<not> scope_live c0"
  shows "held_except B K w'"
  unfolding held_except_def
proof (intro conjI allI impI)
  fix x v
  assume x: "kv_get (backings w') x = Some v \<and> x \<notin> B"
  show "(\<exists>i r. kv_get (reservations w') i = Some r \<and> global_memory_backing r = Some x)
     \<or> (\<exists>k c. kv_get (credits w') k = Some c \<and> backing c = x)"
  proof (cases "kv_get (backings w) x")
    case None
    with x b show ?thesis by blast
  next
    case (Some u)
    with held x consider i g where "kv_get (reservations w) i = Some g" "global_memory_backing g = Some x"
      | k m where "kv_get (credits w) k = Some m" "backing m = x"
      unfolding held_except_def by blast
    then show ?thesis
      by cases (metis r, metis c)
  qed
next
  fix k m
  assume m: "kv_get (credits w') k = Some m \<and> k \<notin> K"
  show "scope_live m
     \<or> (\<exists>i g. kv_get (reservations w') i = Some g \<and> memory_credit (guard_context g) = Some k)"
  proof (cases "scope_live m")
    case False
    with m l obtain m0 where "kv_get (credits w) k = Some m0" "\<not> scope_live m0" by blast
    with held m obtain i g where "kv_get (reservations w) i = Some g" "memory_credit (guard_context g) = Some k"
      unfolding held_except_def by blast
    with r show ?thesis by metis
  qed simp
qed

lemma held_backing:
  "held_except B K w \<Longrightarrow> kv_get (backings w) b = Some v \<Longrightarrow> b \<notin> B \<Longrightarrow>
     (\<exists>i r. kv_get (reservations w) i = Some r \<and> global_memory_backing r = Some b)
     \<or> (\<exists>k c. kv_get (credits w) k = Some c \<and> backing c = b)"
  and held_credit:
  "held_except B K w \<Longrightarrow> kv_get (credits w) k = Some c \<Longrightarrow> k \<notin> K \<Longrightarrow>
     scope_live c \<or> (\<exists>i r. kv_get (reservations w) i = Some r \<and> memory_credit (guard_context r) = Some k)"
  unfolding held_except_def by blast+

lemma held_except_mono:
  assumes "held_except B K w" and "backings w' = backings w" and "reservations w' = reservations w"
    and "\<And>k c. kv_get (credits w) k = Some c \<Longrightarrow>
      \<exists>c'. kv_get (credits w') k = Some c' \<and> backing c' = backing c"
    and "\<And>k c. kv_get (credits w') k = Some c \<Longrightarrow> k \<notin> K \<Longrightarrow> kv_get (credits w) k = Some c"
  shows "held_except B K w'"
  using assms(1) unfolding held_except_def assms(2,3)
proof (elim conjE, intro conjI allI impI)
  fix b v
  assume h: "\<forall>b v. kv_get (backings w) b = Some v \<and> b \<notin> B \<longrightarrow>
      (\<exists>i r. kv_get (reservations w) i = Some r \<and> global_memory_backing r = Some b)
      \<or> (\<exists>k c. kv_get (credits w) k = Some c \<and> backing c = b)"
    and "kv_get (backings w) b = Some v \<and> b \<notin> B"
  then consider "\<exists>i r. kv_get (reservations w) i = Some r \<and> global_memory_backing r = Some b"
    | k c where "kv_get (credits w) k = Some c" "backing c = b" by blast
  then show "(\<exists>i r. kv_get (reservations w) i = Some r \<and> global_memory_backing r = Some b)
      \<or> (\<exists>k c. kv_get (credits w') k = Some c \<and> backing c = b)"
    by cases (use assms(4) in blast)+
qed (use assms(5) in blast)

lemma held_except_close:
  "held_except B {k} w \<Longrightarrow>
   (\<And>c. kv_get (credits w) k = Some c \<Longrightarrow>
      scope_live c \<or> (\<exists>i r. kv_get (reservations w) i = Some r \<and> memory_credit (guard_context r) = Some k))
   \<Longrightarrow> held_except B {} w"
  unfolding held_except_def by blast

lemma held_except_del_credit:
  assumes held: "held_except {} {k} w" and c: "kv_get (credits w) k = Some c"
  shows "held_except {backing c} {} (w\<lparr>credits := kv_del k (credits w)\<rparr>)" (is "held_except _ _ ?w")
  unfolding held_except_def
proof (intro conjI allI impI)
  fix b v
  assume b: "kv_get (backings ?w) b = Some v \<and> b \<notin> {backing c}"
  then consider "\<exists>i r. kv_get (reservations w) i = Some r \<and> global_memory_backing r = Some b"
    | j d where "kv_get (credits w) j = Some d" "backing d = b"
    using held_backing [OF held, of b v] by auto
  then show "(\<exists>i r. kv_get (reservations ?w) i = Some r \<and> global_memory_backing r = Some b)
      \<or> (\<exists>k c. kv_get (credits ?w) k = Some c \<and> backing c = b)"
  proof cases
    case (2 j d)
    with b c have "j \<noteq> k" by auto
    with 2 show ?thesis by auto
  qed auto
next
  fix j d
  assume "kv_get (credits ?w) j = Some d \<and> j \<notin> {}"
  then have "kv_get (credits w) j = Some d \<and> j \<notin> {k}" by (auto split: if_splits)
  with held show "scope_live d
      \<or> (\<exists>i r. kv_get (reservations ?w) i = Some r \<and> memory_credit (guard_context r) = Some j)"
    unfolding held_except_def by auto
qed

lemma held_except_del_guard:
  assumes held: "held_except {} {} w" and r: "kv_get (reservations w) i = Some r"
  shows "held_except (set_option (global_memory_backing r)) (set_option (memory_credit (guard_context r)))
    (w\<lparr>reservations := kv_del i (reservations w)\<rparr>)" (is "held_except ?B ?K ?w")
  unfolding held_except_def
proof (intro conjI allI impI)
  fix b v
  assume b: "kv_get (backings ?w) b = Some v \<and> b \<notin> ?B"
  then consider j g where "kv_get (reservations w) j = Some g" "global_memory_backing g = Some b"
    | "\<exists>k c. kv_get (credits w) k = Some c \<and> backing c = b"
    using held_backing [OF held, of b v] by auto
  then show "(\<exists>i r. kv_get (reservations ?w) i = Some r \<and> global_memory_backing r = Some b)
      \<or> (\<exists>k c. kv_get (credits ?w) k = Some c \<and> backing c = b)"
  proof cases
    case (1 j g)
    with b r have "j \<noteq> i" by auto
    with 1 show ?thesis by auto
  qed auto
next
  fix k c
  assume k: "kv_get (credits ?w) k = Some c \<and> k \<notin> ?K"
  then consider "scope_live c" | j g where "kv_get (reservations w) j = Some g"
      "memory_credit (guard_context g) = Some k"
    using held_credit [OF held, of k c] by auto
  then show "scope_live c
      \<or> (\<exists>i r. kv_get (reservations ?w) i = Some r \<and> memory_credit (guard_context r) = Some k)"
  proof cases
    case (2 j g)
    with k r have "j \<noteq> i" by auto
    with 2 show ?thesis by auto
  qed simp
qed

section \<open>Operations that touch no account\<close>

lemma world_inv_cong:
  assumes "memory_bytes w' = memory_bytes w" "memory_peak_bytes w' = memory_peak_bytes w"
    "temporary_bytes w' = temporary_bytes w" "temporary_peak_bytes w' = temporary_peak_bytes w"
    "limits w' = limits w" "backings w' = backings w" "credits w' = credits w"
    "reservations w' = reservations w" "files w' = files w" "fresh w \<le> fresh w'"
  shows "world_inv w \<Longrightarrow> world_inv w'"
  using assms by (auto simp: world_inv_def accounts_defs held_except_def)

lemma world_inv_upd_shared [simp]: "world_inv (upd_shared i f w) = world_inv w"
  by (auto simp: upd_shared_def intro: world_inv_cong [rotated -1])

lemma checkpoint_world: "snd (checkpoint c w) = w \<or> (\<exists>f. snd (checkpoint c w) = upd_shared (shared c) f w)"
  by (auto simp: checkpoint_def Let_def)

lemma world_inv_checkpoint: "checkpoint c w = (r, w') \<Longrightarrow> world_inv w \<Longrightarrow> world_inv w'"
  using checkpoint_world [of c w] by auto

lemma checkpoint_stores:
  assumes "checkpoint c w = (r, w')"
  shows "reservations w' = reservations w" "credits w' = credits w" "backings w' = backings w"
    "files w' = files w" "memory_bytes w' = memory_bytes w" "temporary_bytes w' = temporary_bytes w"
    "limits w' = limits w" "disk w' = disk w" "fresh w' = fresh w"
    "memory_peak_bytes w' = memory_peak_bytes w" "temporary_peak_bytes w' = temporary_peak_bytes w"
  using checkpoint_world [of c w] assms by (auto simp: upd_shared_def)

lemma checkpoint_Ok: "checkpoint c w = (Inr u, w') \<Longrightarrow> w' = w"
  by (auto simp: checkpoint_def Let_def split: if_splits)

lemma charge_Err: "charge kd c n w = (Inl e, w') \<Longrightarrow> w' = w"
  by (auto simp: charge_def split: ResourceKind.splits option.splits sum.splits)

lemma checked_charge_Inr:
  "checked_charge cur n lim nm = Inr v \<longleftrightarrow> unat cur + unat n < 2 ^ 64 \<and> v = cur + n \<and> v \<le> lim"
  by (auto simp: checked_charge_def checked_add_def split: option.splits if_splits)

lemma checked_charge_InrD:
  "checked_charge cur n lim nm = Inr v \<Longrightarrow> unat v = unat cur + unat n \<and> v \<le> lim"
  by (auto simp: checked_charge_Inr unat_plus_small)

lemma charge_None_cases:
  "charge Memory c n w = (Inr u, w') \<Longrightarrow> memory_credit c = None \<Longrightarrow>
     \<exists>v. unat v = unat (memory_bytes w) + unat n \<and> v \<le> max_memory_bytes (limits w)
       \<and> w' = w\<lparr>memory_bytes := v, memory_peak_bytes := max (memory_peak_bytes w) v\<rparr>"
  by (auto simp: charge_def split: sum.splits dest!: checked_charge_InrD)

lemma charge_Some_cases:
  "charge Memory c n w = (Inr u, w') \<Longrightarrow> memory_credit c = Some k \<Longrightarrow>
     \<exists>v. unat v = unat (credit_bytes (credit_of w k)) + unat n
       \<and> v \<le> backing_bytes w (backing (credit_of w k)) \<and> w' = set_credit_bytes k v w"
  by (auto simp: charge_def split: sum.splits dest!: checked_charge_InrD)

lemma charge_Temporary_cases:
  "charge Temporary c n w = (Inr u, w') \<Longrightarrow>
     \<exists>v. unat v = unat (temporary_bytes w) + unat n \<and> v \<le> max_temporary_bytes (limits w)
       \<and> w' = w\<lparr>temporary_bytes := v, temporary_peak_bytes := max (temporary_peak_bytes w) v\<rparr>"
  by (auto simp: charge_def split: sum.splits dest!: checked_charge_InrD)

section \<open>Reserving\<close>

definition context_live :: "world \<Rightarrow> ExecutionContext \<Rightarrow> bool" where
  "context_live w c \<longleftrightarrow> (\<forall>k. memory_credit c = Some k \<longrightarrow> kv_get (credits w) k \<noteq> None)"

lemma reserve_cases:
  assumes "reserve kd c n w = (x, w')"
  obtains e where "x = Inl e" "w' = w \<or> (\<exists>f. w' = upd_shared (shared c) f w)"
  | w2 where "charge kd c n w = (Inr (), w2)" "x = Inr (fresh w2)"
      "checkpoint c w = (Inr (), w)"
      "w' = w2\<lparr>reservations := kv_put (fresh w2) \<lparr>guard_context = c, kind = kd, bytes = n,
              global_memory_backing = (if kd = Memory \<and> memory_credit c = None then Some (fresh w2) else None),
              active_memory_credit = None\<rparr> (reservations w2),
            backings := (if kd = Memory \<and> memory_credit c = None then kv_put (fresh w2) n (backings w2)
                         else backings w2),
            fresh := Suc (fresh w2)\<rparr>"
proof (cases "checkpoint c w")
  case (Pair a w1)
  show ?thesis
  proof (cases a)
    case (Inl e)
    with Pair assms checkpoint_world [of c w] show ?thesis
      by (intro that(1) [of e]) (auto simp: reserve_def)
  next
    case (Inr u)
    with Pair have w1: "w1 = w" and ck: "checkpoint c w = (Inr (), w)"
      using checkpoint_Ok by auto
    show ?thesis
    proof (cases "charge kd c n w")
      case ch: (Pair b w2)
      show ?thesis
      proof (cases b)
        case Inl': (Inl e)
        with Pair Inr ch w1 assms charge_Err show ?thesis
          by (intro that(1) [of e]) (auto simp: reserve_def)
      next
        case (Inr u')
        with Pair \<open>a = Inr u\<close> ch w1 ck assms show ?thesis
          by (intro that(2) [of w2]) (auto simp: reserve_def Let_def)
      qed
    qed
  qed
qed

lemma kv_get_fresh:
  assumes "fresh_ok w"
  shows "kv_get (backings w) (fresh w) = None" "kv_get (credits w) (fresh w) = None"
    "kv_get (reservations w) (fresh w) = None" "kv_get (files w) (fresh w) = None"
  using assms by (simp_all add: fresh_ok_def)

lemma reserve_memory_inv:
  assumes inv: "world_inv w" and nocr: "memory_credit c = None"
    and v: "unat v = unat (memory_bytes w) + unat n" "v \<le> max_memory_bytes (limits w)"
    and r: "r = \<lparr>guard_context = c, kind = Memory, bytes = n, global_memory_backing = Some (fresh w),
              active_memory_credit = None\<rparr>"
    and w': "w' = w\<lparr>memory_bytes := v, memory_peak_bytes := max (memory_peak_bytes w) v,
              reservations := kv_put (fresh w) r (reservations w),
              backings := kv_put (fresh w) n (backings w), fresh := Suc (fresh w)\<rparr>"
  shows "world_inv w'"
proof -
  have fr: "fresh_ok w" using inv by (simp add: world_inv_def accounts_ok_def)
  note f = kv_get_fresh [OF fr]
  have nb: "backing k \<noteq> fresh w" if "kv_get (credits w) j = Some k" for j k
    using inv that f(1) by (fastforce simp: world_inv_def accounts_ok_def credits_ok_def)
  have no: "global_memory_backing g \<noteq> Some (fresh w)" if "kv_get (reservations w) j = Some g" for j g
    using inv that f(1) by (fastforce simp: world_inv_def accounts_ok_def guards_ok_def guard_ok_def split: if_splits)
  have "stores_ok w'" using inv by (simp add: w' world_inv_def accounts_ok_def stores_ok_def)
  moreover have "pools_ok w'"
    using inv v f by (auto simp: w' r world_inv_def accounts_ok_def pools_ok_def kv_sum_put_fresh temp_share_def
        max_def)
  moreover have "guards_ok w'"
    using inv f no nocr by (fastforce simp: w' r world_inv_def accounts_ok_def guards_ok_def guard_ok_def)
  moreover have "credits_ok w'"
    using inv f by (auto simp: w' r nocr world_inv_def accounts_ok_def credits_ok_def kv_sum_put_fresh
        credit_share_def dest: nb nb [symmetric])
  moreover have "fresh_ok w'"
    using fr by (simp add: w' fresh_ok_def)
  moreover have "held_except {} {} w'"
    by (rule held_except_grow [of _ _ w])
      (use inv f in \<open>auto simp: w' r world_inv_def split: if_splits intro: exI [of _ "fresh w"]\<close>)
  ultimately show ?thesis by (simp add: world_inv_def accounts_ok_def)
qed

lemma reserve_credit_inv:
  assumes inv: "world_inv w" and cr: "memory_credit c = Some k" and k: "kv_get (credits w) k = Some m"
    and v: "unat v = unat (credit_bytes m) + unat n" "v \<le> backing_bytes w (backing m)"
    and r: "r = \<lparr>guard_context = c, kind = Memory, bytes = n, global_memory_backing = None,
              active_memory_credit = None\<rparr>"
    and w': "w' = w\<lparr>credits := kv_put k (m\<lparr>credit_bytes := v\<rparr>) (credits w),
              reservations := kv_put (fresh w) r (reservations w), fresh := Suc (fresh w)\<rparr>"
  shows "world_inv w'"
proof -
  have fr: "fresh_ok w" using inv by (simp add: world_inv_def accounts_ok_def)
  note f = kv_get_fresh [OF fr]
  have share: "kv_sum (credit_share j) (reservations w') =
      (if j = k then unat n else 0) + kv_sum (credit_share j) (reservations w)" for j
    using f by (simp add: w' r kv_sum_put_fresh credit_share_def cr)
  have "stores_ok w'" using inv by (simp add: w' world_inv_def accounts_ok_def stores_ok_def)
  moreover have "pools_ok w'"
    using inv f by (simp add: w' r world_inv_def accounts_ok_def pools_ok_def kv_sum_put_fresh temp_share_def)
  moreover have "guards_ok w'"
    using inv f cr k by (fastforce simp: w' r world_inv_def accounts_ok_def guards_ok_def guard_ok_def)
  moreover have "credits_ok w'"
    unfolding credits_ok_def
  proof (intro allI impI)
    fix j d
    assume j: "kv_get (credits w') j = Some d"
    then obtain d0 where d0: "kv_get (credits w) j = Some d0" "backing d = backing d0"
      "j \<noteq> k \<Longrightarrow> d = d0" "j = k \<Longrightarrow> d = m\<lparr>credit_bytes := v\<rparr> \<and> d0 = m"
      using k by (auto simp: w' split: if_splits)
    have cok: "credits_ok w" using inv by (simp add: world_inv_def accounts_ok_def)
    obtain x where x: "kv_get (backings w) (backing d0) = Some x" "credit_bytes d0 \<le> x"
      "unat (credit_bytes d0) = kv_sum (credit_share j) (reservations w)"
      using credits_okD [OF cok d0(1)] by blast
    have "credit_bytes d \<le> x \<and> unat (credit_bytes d) = kv_sum (credit_share j) (reservations w')"
      using x v d0 share [of j] by (cases "j = k") (auto simp: backing_bytes_def)
    then show "(\<exists>y. kv_get (backings w') (backing d) = Some y \<and> credit_bytes d \<le> y)
       \<and> unat (credit_bytes d) = kv_sum (credit_share j) (reservations w')
       \<and> (\<forall>i s. kv_get (reservations w') i = Some s \<and> global_memory_backing s = Some (backing d)
            \<longrightarrow> active_memory_credit s = Some j)"
      using inv d0(1,2) x(1) by (auto simp: w' r world_inv_def accounts_ok_def credits_ok_def split: if_splits)
  qed
  moreover have "fresh_ok w'" using fr k by (auto simp: w' fresh_ok_def)
  moreover have "held_except {} {} w'"
    by (rule held_except_grow [of _ _ w]) (use inv f k in \<open>auto simp: w' r world_inv_def split: if_splits\<close>)
  ultimately show ?thesis by (simp add: world_inv_def accounts_ok_def)
qed

lemma reserve_temporary_inv:
  assumes inv: "world_inv w" and live: "context_live w c"
    and v: "unat v = unat (temporary_bytes w) + unat n" "v \<le> max_temporary_bytes (limits w)"
    and r: "r = \<lparr>guard_context = c, kind = Temporary, bytes = n, global_memory_backing = None,
              active_memory_credit = None\<rparr>"
    and w': "w' = w\<lparr>temporary_bytes := v, temporary_peak_bytes := max (temporary_peak_bytes w) v,
              reservations := kv_put (fresh w) r (reservations w), fresh := Suc (fresh w)\<rparr>"
  shows "world_inv w'"
proof -
  have fr: "fresh_ok w" using inv by (simp add: world_inv_def accounts_ok_def)
  note f = kv_get_fresh [OF fr]
  have "stores_ok w'" using inv by (simp add: w' world_inv_def accounts_ok_def stores_ok_def)
  moreover have "pools_ok w'"
    using inv v f by (auto simp: w' r world_inv_def accounts_ok_def pools_ok_def kv_sum_put_fresh temp_share_def
        max_def)
  moreover have "guards_ok w'"
    using inv f live by (fastforce simp: w' r world_inv_def accounts_ok_def guards_ok_def guard_ok_def context_live_def)
  moreover have "credits_ok w'"
    using inv f by (auto simp: w' r world_inv_def accounts_ok_def credits_ok_def kv_sum_put_fresh
        credit_share_def)
  moreover have "fresh_ok w'" using fr by (simp add: w' fresh_ok_def)
  moreover have "held_except {} {} w'"
    by (rule held_except_grow [of _ _ w])
      (use inv f in \<open>auto simp: w' r world_inv_def split: if_splits intro: exI [of _ "fresh w"]\<close>)
  ultimately show ?thesis by (simp add: world_inv_def accounts_ok_def)
qed

lemma reserve_inv:
  assumes inv: "world_inv w" and live: "context_live w c" and res: "reserve kd c n w = (x, w')"
  shows "world_inv w'"
  using res
proof (cases rule: reserve_cases)
  case (1 e)
  with inv show ?thesis by auto
next
  case (2 w2)
  show ?thesis
  proof (cases kd)
    case Temporary
    with 2(1) charge_Temporary_cases obtain v where
      "unat v = unat (temporary_bytes w) + unat n" "v \<le> max_temporary_bytes (limits w)"
      "w2 = w\<lparr>temporary_bytes := v, temporary_peak_bytes := max (temporary_peak_bytes w) v\<rparr>" by blast
    with 2(4) Temporary show ?thesis
      by (intro reserve_temporary_inv [OF inv live _ _ refl]) auto
  next
    case Memory
    show ?thesis
    proof (cases "memory_credit c")
      case None
      with 2(1) Memory charge_None_cases obtain v where
        "unat v = unat (memory_bytes w) + unat n" "v \<le> max_memory_bytes (limits w)"
        "w2 = w\<lparr>memory_bytes := v, memory_peak_bytes := max (memory_peak_bytes w) v\<rparr>" by blast
      with 2(4) Memory None show ?thesis
        by (intro reserve_memory_inv [OF inv None _ _ refl]) auto
    next
      case (Some k)
      with live obtain m where m: "kv_get (credits w) k = Some m" by (auto simp: context_live_def)
      from Some 2(1) Memory charge_Some_cases obtain v where
        "unat v = unat (credit_bytes (credit_of w k)) + unat n"
        "v \<le> backing_bytes w (backing (credit_of w k))" "w2 = set_credit_bytes k v w" by blast
      with 2(4) Memory Some m show ?thesis
        by (intro reserve_credit_inv [OF inv Some m _ _ refl]) (auto simp: set_credit_bytes_def credit_of_def)
    qed
  qed
qed

section \<open>Resizing\<close>

lemma accounts_parts:
  assumes "world_inv w"
  shows "stores_ok w" "pools_ok w" "guards_ok w" "credits_ok w" "fresh_ok w" "held_except {} {} w"
    "kv_ok (reservations w)" "kv_ok (backings w)" "kv_ok (credits w)" "kv_ok (files w)"
  using assms by (simp_all add: world_inv_def accounts_ok_def stores_ok_def)

lemma guard_okD:
  assumes "guards_ok w" and "kv_get (reservations w) i = Some r"
  shows "kind r = Memory \<Longrightarrow> memory_credit (guard_context r) = None \<Longrightarrow>
      \<exists>b. global_memory_backing r = Some b \<and> kv_get (backings w) b = Some (bytes r)"
    and "\<not> (kind r = Memory \<and> memory_credit (guard_context r) = None) \<Longrightarrow> global_memory_backing r = None"
    and "memory_credit (guard_context r) = Some k \<Longrightarrow> kv_get (credits w) k \<noteq> None"
  using assms by (auto simp: guards_ok_def guard_ok_def split: if_splits)

lemma inactive_no_credit:
  assumes "credits_ok w" and "kv_get (reservations w) i = Some r" and "global_memory_backing r = Some b"
    and "\<not> credit_active w r" and "kv_get (credits w) k = Some c"
  shows "backing c \<noteq> b"
  using credits_okD(3) [OF assms(1,5,2)] assms by (auto simp: credit_active_def)

lemma resize_memory_inv:
  assumes inv: "world_inv w" and i: "kv_get (reservations w) i = Some r"
    and m: "kind r = Memory" "memory_credit (guard_context r) = None" and b: "global_memory_backing r = Some b"
    and idle: "\<not> credit_active w r"
    and v: "unat v + unat (bytes r) = unat (memory_bytes w) + unat sz" "v \<le> pk" "pk \<le> max_memory_bytes (limits w)"
    and w': "w' = w\<lparr>memory_bytes := v, memory_peak_bytes := pk,
       reservations := kv_put i (r\<lparr>bytes := sz\<rparr>) (reservations w),
       backings := kv_put b sz (backings w)\<rparr>"
  shows "world_inv w'"
proof -
  note P = accounts_parts [OF inv]
  have bb: "kv_get (backings w) b = Some (bytes r)"
    using guard_okD(1) [OF P(3) i m] b by auto
  have uniq: "global_memory_backing g \<noteq> Some b" if "kv_get (reservations w) j = Some g" "j \<noteq> i" for j g
    using P(3) that i b unfolding guards_ok_def by blast
  have nc: "backing c \<noteq> b" if "kv_get (credits w) k = Some c" for k c
    using inactive_no_credit [OF P(4) i b idle that] .
  have "stores_ok w'" using P by (simp add: w' stores_ok_def)
  moreover have "pools_ok w'"
    using P(2) v kv_sum_put_upd [OF P(8) bb, of unat sz] kv_sum_put_upd [OF P(7) i, of temp_share "r\<lparr>bytes := sz\<rparr>"] m
    by (simp add: w' pools_ok_def temp_share_def)
  moreover have "guards_ok w'"
  proof -
    have "guard_ok w' g" if g: "kv_get (reservations w') j = Some g" for j g
    proof (cases "j = i")
      case True
      with g m b show ?thesis by (auto simp: guard_ok_def w')
    next
      case False
      with g have g0: "kv_get (reservations w) j = Some g" by (simp add: w')
      then have "guard_ok w g" using P(3) by (simp add: guards_ok_def)
      with uniq [OF g0 False] show ?thesis by (fastforce simp: guard_ok_def w' split: if_splits)
    qed
    moreover have "j = j'" if "kv_get (reservations w') j = Some g" "kv_get (reservations w') j' = Some g'"
      "global_memory_backing g = Some x" "global_memory_backing g' = Some x" for j j' g g' x
    proof -
      have "\<exists>h. kv_get (reservations w) l = Some h \<and> global_memory_backing h = global_memory_backing f"
        if "kv_get (reservations w') l = Some f" for l f
        using that i by (auto simp: w' split: if_splits)
      with that P(3) show ?thesis unfolding guards_ok_def by metis
    qed
    ultimately show ?thesis unfolding guards_ok_def by blast
  qed
  moreover have "credits_ok w'"
  proof (rule credits_okI)
    fix k c assume k: "kv_get (credits w') k = Some c"
    then have k0: "kv_get (credits w) k = Some c" by (simp add: w')
    show "\<exists>v. kv_get (backings w') (backing c) = Some v \<and> credit_bytes c \<le> v"
      using credits_okD(1) [OF P(4) k0] nc [OF k0] by (simp add: w')
    show "unat (credit_bytes c) = kv_sum (credit_share k) (reservations w')"
      using credits_okD(2) [OF P(4) k0] kv_sum_put_upd [OF P(7) i, of "credit_share k" "r\<lparr>bytes := sz\<rparr>"] m
      by (simp add: w' credit_share_def)
    fix j g assume "kv_get (reservations w') j = Some g" "global_memory_backing g = Some (backing c)"
    then show "active_memory_credit g = Some k"
      using credits_okD(3) [OF P(4) k0] i by (auto simp: w' split: if_splits)
  qed
  moreover have "fresh_ok w'" using P(5) i bb by (auto simp: w' fresh_ok_def)
  moreover have "held_except {} {} w'"
    by (rule held_except_grow [OF P(6)]) (use i bb b in \<open>auto simp: w' split: if_splits\<close>)
  ultimately show ?thesis by (simp add: world_inv_def accounts_ok_def)
qed

lemma resize_credit_inv:
  assumes inv: "world_inv w" and i: "kv_get (reservations w) i = Some r"
    and m: "kind r = Memory" "memory_credit (guard_context r) = Some k" and k: "kv_get (credits w) k = Some m"
    and v: "unat v + unat (bytes r) = unat (credit_bytes m) + unat sz" "v \<le> backing_bytes w (backing m)"
    and w': "w' = w\<lparr>credits := kv_put k (m\<lparr>credit_bytes := v\<rparr>) (credits w),
       reservations := kv_put i (r\<lparr>bytes := sz\<rparr>) (reservations w)\<rparr>"
  shows "world_inv w'"
proof -
  note P = accounts_parts [OF inv]
  have share: "kv_sum (credit_share j) (reservations w') + (if j = k then unat (bytes r) else 0)
      = kv_sum (credit_share j) (reservations w) + (if j = k then unat sz else 0)" for j
    using kv_sum_put_upd [OF P(7) i, of "credit_share j" "r\<lparr>bytes := sz\<rparr>"] m
    by (simp add: w' credit_share_def split: if_splits)
  have "stores_ok w'" using P by (simp add: w' stores_ok_def)
  moreover have "pools_ok w'"
    using P(2) kv_sum_put_upd [OF P(7) i, of temp_share "r\<lparr>bytes := sz\<rparr>"] m
    by (simp add: w' pools_ok_def temp_share_def)
  moreover have "guards_ok w'"
    using P(3) i m k by (auto simp: w' guards_ok_def guard_ok_def split: if_splits)
  moreover have "credits_ok w'"
  proof (rule credits_okI)
    fix j d assume j: "kv_get (credits w') j = Some d"
    then obtain d0 where d0: "kv_get (credits w) j = Some d0" "backing d = backing d0"
      "j \<noteq> k \<Longrightarrow> d = d0" "j = k \<Longrightarrow> d = m\<lparr>credit_bytes := v\<rparr> \<and> d0 = m"
      using k by (auto simp: w' split: if_splits)
    note c0 = credits_okD [OF P(4) d0(1)]
    show "\<exists>v. kv_get (backings w') (backing d) = Some v \<and> credit_bytes d \<le> v"
      using c0(1) v(2) d0 by (cases "j = k") (auto simp: w' backing_bytes_def)
    show "unat (credit_bytes d) = kv_sum (credit_share j) (reservations w')"
      using c0(2) v(1) d0 share [of j] by (cases "j = k") auto
    fix x g assume "kv_get (reservations w') x = Some g" "global_memory_backing g = Some (backing d)"
    then show "active_memory_credit g = Some j"
      using c0(3) i d0(2) by (auto simp: w' split: if_splits)
  qed
  moreover have "fresh_ok w'" using P(5) i k by (auto simp: w' fresh_ok_def)
  moreover have "held_except {} {} w'"
    by (rule held_except_grow [OF P(6)]) (use i k in \<open>auto simp: w' split: if_splits\<close>)
  ultimately show ?thesis by (simp add: world_inv_def accounts_ok_def)
qed

lemma resize_temporary_inv:
  assumes inv: "world_inv w" and i: "kv_get (reservations w) i = Some r" and m: "kind r = Temporary"
    and v: "unat v + unat (bytes r) = unat (temporary_bytes w) + unat sz" "v \<le> pk"
      "pk \<le> max_temporary_bytes (limits w)"
    and w': "w' = w\<lparr>temporary_bytes := v, temporary_peak_bytes := pk,
       reservations := kv_put i (r\<lparr>bytes := sz\<rparr>) (reservations w)\<rparr>"
  shows "world_inv w'"
proof -
  note P = accounts_parts [OF inv]
  have "stores_ok w'" using P by (simp add: w' stores_ok_def)
  moreover have "pools_ok w'"
    using P(2) v kv_sum_put_upd [OF P(7) i, of temp_share "r\<lparr>bytes := sz\<rparr>"] m
    by (simp add: w' pools_ok_def temp_share_def)
  moreover have "guards_ok w'"
    using P(3) i m by (auto simp: w' guards_ok_def guard_ok_def split: if_splits)
  moreover have "credits_ok w'"
  proof (rule credits_okI)
    fix k c assume "kv_get (credits w') k = Some c"
    then have k0: "kv_get (credits w) k = Some c" by (simp add: w')
    show "\<exists>v. kv_get (backings w') (backing c) = Some v \<and> credit_bytes c \<le> v"
      using credits_okD(1) [OF P(4) k0] by (simp add: w')
    show "unat (credit_bytes c) = kv_sum (credit_share k) (reservations w')"
      using credits_okD(2) [OF P(4) k0] kv_sum_put_upd [OF P(7) i, of "credit_share k" "r\<lparr>bytes := sz\<rparr>"] m
      by (simp add: w' credit_share_def)
    fix j g assume "kv_get (reservations w') j = Some g" "global_memory_backing g = Some (backing c)"
    then show "active_memory_credit g = Some k"
      using credits_okD(3) [OF P(4) k0] i by (auto simp: w' split: if_splits)
  qed
  moreover have "fresh_ok w'" using P(5) i by (auto simp: w' fresh_ok_def)
  moreover have "held_except {} {} w'"
    by (rule held_except_grow [OF P(6)]) (use i in \<open>auto simp: w' split: if_splits\<close>)
  ultimately show ?thesis by (simp add: world_inv_def accounts_ok_def)
qed

lemma grow_cases:
  assumes "grow i n w = (x, w')"
  shows "(isl x \<and> (w' = w \<or> (\<exists>c f. w' = upd_shared c f w)))
    \<or> (\<exists>r sz w2. kv_get (reservations w) i = Some r \<and> \<not> credit_active w r
         \<and> checked_add (bytes r) n = Some sz \<and> charge (kind r) (guard_context r) n w = (Inr (), w2)
         \<and> w' = resize i r sz (\<lambda>v. v + n) w2 \<and> x = Inr ())"
proof (cases "kv_get (reservations w) i")
  case None
  with assms show ?thesis by (auto simp: grow_def dangling_def)
next
  case r: (Some r)
  show ?thesis
  proof (cases "checkpoint (guard_context r) w")
    case ck: (Pair a w1)
    show ?thesis
    proof (cases a)
      case (Inl e)
      with r ck assms checkpoint_world [of "guard_context r" w] show ?thesis by (auto simp: grow_def)
    next
      case (Inr u)
      then have "w1 = w" using ck checkpoint_Ok by auto
      with Inr ck r assms charge_Err show ?thesis
        by (auto simp: grow_def ensure_credit_inactive_def split: if_splits option.splits prod.splits sum.splits)
    qed
  qed
qed

lemma resize_fields [simp]:
  "memory_bytes (resize i r sz f w) = memory_bytes w" "credits (resize i r sz f w) = credits w"
  by (simp_all add: resize_def)

lemma grow_inv:
  assumes inv: "world_inv w" and g: "grow i n w = (x, w')"
  shows "world_inv w'"
  using grow_cases [OF g]
proof (elim disjE conjE exE)
  fix r sz w2
  assume i: "kv_get (reservations w) i = Some r" and idle: "\<not> credit_active w r"
    and nx: "checked_add (bytes r) n = Some sz"
    and ch: "charge (kind r) (guard_context r) n w = (Inr (), w2)"
    and w': "w' = resize i r sz (\<lambda>v. v + n) w2"
  note P = accounts_parts [OF inv]
  have nxu: "unat sz = unat (bytes r) + unat n" "sz = bytes r + n"
    using checked_add_unat [OF nx] nx by (auto simp: checked_add_Some)
  show ?thesis
  proof (cases "kind r")
    case Temporary
    with ch charge_Temporary_cases obtain v where v: "unat v = unat (temporary_bytes w) + unat n"
      "v \<le> max_temporary_bytes (limits w)"
      "w2 = w\<lparr>temporary_bytes := v, temporary_peak_bytes := max (temporary_peak_bytes w) v\<rparr>" by metis
    have nb: "global_memory_backing r = None" using guard_okD(2) [OF P(3) i] Temporary by simp
    show ?thesis
      by (rule resize_temporary_inv [OF inv i Temporary, where v = v and pk = "max (temporary_peak_bytes w) v"
            and sz = sz])
        (use v nxu P(2) nb in \<open>auto simp: w' resize_def pools_ok_def\<close>)
  next
    case Memory
    show ?thesis
    proof (cases "memory_credit (guard_context r)")
      case None
      with ch Memory charge_None_cases obtain v where v: "unat v = unat (memory_bytes w) + unat n"
        "v \<le> max_memory_bytes (limits w)"
        "w2 = w\<lparr>memory_bytes := v, memory_peak_bytes := max (memory_peak_bytes w) v\<rparr>" by metis
      obtain b where b: "global_memory_backing r = Some b" "kv_get (backings w) b = Some (bytes r)"
        using guard_okD(1) [OF P(3) i Memory None] by blast
      show ?thesis
        by (rule resize_memory_inv [OF inv i Memory None b(1) idle, where v = v
              and pk = "max (memory_peak_bytes w) v" and sz = sz])
          (use v nxu P(2) b in \<open>auto simp: w' resize_def pools_ok_def backing_bytes_def\<close>)
    next
      case (Some k)
      then obtain m where m: "kv_get (credits w) k = Some m" using guard_okD(3) [OF P(3) i] by blast
      with ch Memory Some charge_Some_cases obtain v where v: "unat v = unat (credit_bytes m) + unat n"
        "v \<le> backing_bytes w (backing m)" "w2 = set_credit_bytes k v w"
        by (metis credit_of_def option.simps(5))
      have nb: "global_memory_backing r = None" using guard_okD(2) [OF P(3) i] Some by simp
      show ?thesis
        by (rule resize_credit_inv [OF inv i Memory Some m, where v = v and sz = sz])
          (use v nxu nb m in \<open>auto simp: w' resize_def set_credit_bytes_def credit_of_def\<close>)
    qed
  qed
qed (use inv in auto)

lemma shrink_cases:
  assumes "shrink i n w = (x, w')"
  shows "(isl x \<and> w' = w)
    \<or> (\<exists>r. kv_get (reservations w) i = Some r \<and> \<not> credit_active w r \<and> n \<le> bytes r
         \<and> w' = uncharge (kind r) (guard_context r) n (resize i r (bytes r - n) (\<lambda>v. v - n) w) \<and> x = Inr ())"
  using assms by (auto simp: shrink_def dangling_def ensure_credit_inactive_def checked_sub_def
      split: option.splits if_splits)

lemma guard_charge_bound:
  assumes inv: "world_inv w" and i: "kv_get (reservations w) i = Some r"
  shows "kind r = Temporary \<Longrightarrow> unat (bytes r) \<le> unat (temporary_bytes w)"
    and "kind r = Memory \<Longrightarrow> memory_credit (guard_context r) = None \<Longrightarrow> unat (bytes r) \<le> unat (memory_bytes w)"
    and "kind r = Memory \<Longrightarrow> memory_credit (guard_context r) = Some k \<Longrightarrow> kv_get (credits w) k = Some m \<Longrightarrow>
      unat (bytes r) \<le> unat (credit_bytes m)"
proof -
  note P = accounts_parts [OF inv]
  show "unat (bytes r) \<le> unat (temporary_bytes w)" if "kind r = Temporary"
    using kv_sum_ge [OF P(7) i, of temp_share] P(2) that by (simp add: temp_share_def pools_ok_def)
  show "unat (bytes r) \<le> unat (memory_bytes w)" if "kind r = Memory" "memory_credit (guard_context r) = None"
    using guard_okD(1) [OF P(3) i that] kv_sum_ge [OF P(8), of _ _ unat] P(2) by (auto simp: pools_ok_def)
  show "unat (bytes r) \<le> unat (credit_bytes m)"
    if "kind r = Memory" "memory_credit (guard_context r) = Some k" "kv_get (credits w) k = Some m"
    using credits_okD(2) [OF P(4) that(3)] kv_sum_ge [OF P(7) i, of "credit_share k"] that
    by (simp add: credit_share_def)
qed

lemma shrink_inv:
  assumes inv: "world_inv w" and g: "shrink i n w = (x, w')"
  shows "world_inv w'"
  using shrink_cases [OF g]
proof (elim disjE conjE exE)
  fix r
  assume i: "kv_get (reservations w) i = Some r" and idle: "\<not> credit_active w r" and n: "n \<le> bytes r"
    and w': "w' = uncharge (kind r) (guard_context r) n (resize i r (bytes r - n) (\<lambda>v. v - n) w)"
  note P = accounts_parts [OF inv] and B = guard_charge_bound [OF inv i]
  have nu: "unat n \<le> unat (bytes r)" using n by (simp add: word_le_nat_alt)
  have sub: "unat (a - n) + unat (bytes r) = unat a + unat (bytes r - n) \<and> a - n \<le> a"
    if "unat (bytes r) \<le> unat a" for a :: u64
    using that nu n by (simp add: unat_minus_small word_le_nat_alt)
  show ?thesis
  proof (cases "kind r")
    case Temporary
    have nb: "global_memory_backing r = None" using guard_okD(2) [OF P(3) i] Temporary by simp
    show ?thesis
      by (rule resize_temporary_inv [OF inv i Temporary, where v = "temporary_bytes w - n"
            and pk = "temporary_peak_bytes w" and sz = "bytes r - n"])
        (use sub [OF B(1) [OF Temporary]] P(2) nb Temporary in
          \<open>auto simp: w' resize_def uncharge_def pools_ok_def intro: order_trans\<close>)
  next
    case Memory
    show ?thesis
    proof (cases "memory_credit (guard_context r)")
      case None
      obtain b where b: "global_memory_backing r = Some b" "kv_get (backings w) b = Some (bytes r)"
        using guard_okD(1) [OF P(3) i Memory None] by blast
      show ?thesis
        by (rule resize_memory_inv [OF inv i Memory None b(1) idle, where v = "memory_bytes w - n"
              and pk = "memory_peak_bytes w" and sz = "bytes r - n"])
          (use sub [OF B(2) [OF Memory None]] P(2) b Memory None in
            \<open>auto simp: w' resize_def uncharge_def pools_ok_def backing_bytes_def intro: order_trans\<close>)
    next
      case (Some k)
      then obtain m where m: "kv_get (credits w) k = Some m" using guard_okD(3) [OF P(3) i] by blast
      have nb: "global_memory_backing r = None" using guard_okD(2) [OF P(3) i] Some by simp
      have le: "credit_bytes m \<le> backing_bytes w (backing m)"
        using credits_okD(1) [OF P(4) m] by (auto simp: backing_bytes_def)
      show ?thesis
        by (rule resize_credit_inv [OF inv i Memory Some m, where v = "credit_bytes m - n"
              and sz = "bytes r - n"])
          (use sub [OF B(3) [OF Memory Some m]] le nb m Memory Some in
            \<open>auto simp: w' resize_def uncharge_def set_credit_bytes_def credit_of_def intro: order_trans\<close>)
    qed
  qed
qed (use inv in auto)

section \<open>Credits\<close>

lemma with_memory_credit_cases:
  assumes "with_memory_credit c i w = (x, w')"
  shows "(isl x \<and> w' = w)
    \<or> (\<exists>r b. kv_get (reservations w) i = Some r \<and> kind r = Memory
         \<and> memory_credit (guard_context r) = memory_credit c
         \<and> global_memory_backing r = Some b \<and> \<not> credit_active w r
         \<and> x = Inr (c\<lparr>memory_credit := Some (fresh w)\<rparr>)
         \<and> w' = w\<lparr>credits := kv_put (fresh w) \<lparr>backing = b, credit_bytes = 0, scope_live = True\<rparr> (credits w),
                  reservations := kv_put i (r\<lparr>active_memory_credit := Some (fresh w)\<rparr>) (reservations w),
                  fresh := Suc (fresh w)\<rparr>)"
  using assms
  by (auto simp: with_memory_credit_def dangling_def Let_def belongs_to_memory_context_def
      split: option.splits if_splits)

lemma with_memory_credit_inv:
  assumes inv: "world_inv w" and op: "with_memory_credit c i w = (x, w')"
  shows "world_inv w'"
  using with_memory_credit_cases [OF op]
proof (elim disjE conjE exE)
  fix r b
  assume i: "kv_get (reservations w) i = Some r" and m: "kind r = Memory"
    and b: "global_memory_backing r = Some b" and idle: "\<not> credit_active w r"
    and w': "w' = w\<lparr>credits := kv_put (fresh w) \<lparr>backing = b, credit_bytes = 0, scope_live = True\<rparr> (credits w),
                  reservations := kv_put i (r\<lparr>active_memory_credit := Some (fresh w)\<rparr>) (reservations w),
                  fresh := Suc (fresh w)\<rparr>"
  note P = accounts_parts [OF inv]
  note f = kv_get_fresh [OF P(5)]
  have i': "i \<noteq> fresh w" using i f by auto
  have mb: "memory_credit (guard_context r) = None"
    using guard_okD(2) [OF P(3) i] b by (cases "memory_credit (guard_context r)") auto
  have bb: "kv_get (backings w) b = Some (bytes r)" using guard_okD(1) [OF P(3) i m mb] b by auto
  have uniq: "j = i" if "kv_get (reservations w) j = Some g" "global_memory_backing g = Some b" for j g
    using P(3) that i b unfolding guards_ok_def by blast
  have share: "kv_sum (credit_share k) (reservations w') = kv_sum (credit_share k) (reservations w)" for k
    using kv_sum_put_upd [OF P(7) i, of "credit_share k" "r\<lparr>active_memory_credit := Some (fresh w)\<rparr>"]
    by (simp add: w' credit_share_def split: if_splits)
  have none: "kv_sum (credit_share (fresh w)) (reservations w) = 0"
  proof (rule kv_sum_zero [OF P(7)])
    show "credit_share (fresh w) g = 0" if "kv_get (reservations w) j = Some g" for j g
      using guard_okD(3) [OF P(3) that] f(2) by (auto simp: credit_share_def)
  qed
  have "stores_ok w'" using P by (simp add: w' stores_ok_def)
  moreover have "pools_ok w'"
    using P(2) kv_sum_put_upd [OF P(7) i, of temp_share "r\<lparr>active_memory_credit := Some (fresh w)\<rparr>"] m
    by (simp add: w' pools_ok_def temp_share_def)
  moreover have "guards_ok w'"
  proof -
    have old: "\<exists>h. kv_get (reservations w) l = Some h \<and> global_memory_backing h = global_memory_backing g
        \<and> kind h = kind g \<and> guard_context h = guard_context g \<and> bytes h = bytes g"
      if "kv_get (reservations w') l = Some g" for l g
      using that i by (auto simp: w' split: if_splits)
    have "guard_ok w' g" if "kv_get (reservations w') j = Some g" for j g
      using old [OF that] P(3) by (fastforce simp: guards_ok_def guard_ok_def w')
    moreover have "j = j'" if "kv_get (reservations w') j = Some g" "kv_get (reservations w') j' = Some g'"
      "global_memory_backing g = Some x" "global_memory_backing g' = Some x" for j j' g g' x
      using old [OF that(1)] old [OF that(2)] that(3,4) P(3) unfolding guards_ok_def by metis
    ultimately show ?thesis unfolding guards_ok_def by blast
  qed
  moreover have "credits_ok w'"
  proof (rule credits_okI)
    fix k d assume k: "kv_get (credits w') k = Some d"
    show "\<exists>v. kv_get (backings w') (backing d) = Some v \<and> credit_bytes d \<le> v"
      using k credits_okD(1) [OF P(4)] bb by (auto simp: w' split: if_splits)
    show "unat (credit_bytes d) = kv_sum (credit_share k) (reservations w')"
      unfolding share using k credits_okD(2) [OF P(4)] none by (auto simp: w' split: if_splits)
    fix j g assume g: "kv_get (reservations w') j = Some g" "global_memory_backing g = Some (backing d)"
    show "active_memory_credit g = Some k"
    proof (cases "k = fresh w")
      case True
      with k g uniq show ?thesis by (auto simp: w' split: if_splits)
    next
      case False
      with k have k0: "kv_get (credits w) k = Some d" by (simp add: w')
      with inactive_no_credit [OF P(4) i b idle] have "backing d \<noteq> b" by blast
      with g b credits_okD(3) [OF P(4) k0] show ?thesis by (auto simp: w' split: if_splits)
    qed
  qed
  moreover have "fresh_ok w'" using P(5) i' i by (auto simp: w' fresh_ok_def)
  moreover have "held_except {} {} w'"
    by (rule held_except_grow [OF P(6)]) (use i f in \<open>auto simp: w' split: if_splits\<close>)
  ultimately show ?thesis by (simp add: world_inv_def accounts_ok_def)
qed (use inv in auto)

section \<open>Releasing\<close>

lemma release_backing_inv:
  assumes acc: "accounts_ok w" and held: "held_except {b} {} w" and v: "kv_get (backings w) b = Some v"
  shows "world_inv (release_backing b w)"
proof -
  have P: "stores_ok w" "pools_ok w" "guards_ok w" "credits_ok w" "fresh_ok w"
    "kv_ok (reservations w)" "kv_ok (backings w)" "kv_ok (credits w)"
    using acc by (simp_all add: accounts_ok_def stores_ok_def)
  note any = kv_any_iff [OF P(6)] kv_any_iff [OF P(8)]
  let ?held = "(\<exists>i r. kv_get (reservations w) i = Some r \<and> global_memory_backing r = Some b)
    \<or> (\<exists>k c. kv_get (credits w) k = Some c \<and> backing c = b)"
  show ?thesis
  proof (cases ?held)
    case True
    then have "release_backing b w = w" by (auto simp: release_backing_def any)
    moreover have "held_except {} {} w" using True held unfolding held_except_def by blast
    ultimately show ?thesis using acc by (simp add: world_inv_def)
  next
    case False
    let ?w = "w\<lparr>memory_bytes := memory_bytes w - v, backings := kv_del b (backings w)\<rparr>"
    have eq: "release_backing b w = ?w"
      using False v by (auto simp: release_backing_def any backing_bytes_def)
    have nog: "global_memory_backing r \<noteq> Some b" if "kv_get (reservations w) i = Some r" for i r
      using False that by blast
    have noc: "backing c \<noteq> b" if "kv_get (credits w) k = Some c" for k c
      using False that by blast
    have sum: "kv_sum unat (backings w) = unat v + kv_sum unat (kv_del b (backings w))"
      by (rule kv_sum_del [OF P(7) v])
    then have vm: "v \<le> memory_bytes w" using P(2) by (simp add: pools_ok_def word_le_nat_alt)
    have "stores_ok ?w" using P by (simp add: stores_ok_def)
    moreover have "pools_ok ?w"
      using P(2) sum vm by (auto simp: pools_ok_def unat_minus_small word_le_nat_alt)
    moreover have "guards_ok ?w"
      using P(3) nog by (fastforce simp: guards_ok_def guard_ok_def split: if_splits)
    moreover have "credits_ok ?w"
      by (rule credits_okI) (use noc credits_okD [OF P(4)] in \<open>auto\<close>)
    moreover have "fresh_ok ?w" using P(5) by (simp add: fresh_ok_def)
    moreover have "held_except {} {} ?w"
      using held by (auto simp: held_except_def split: if_splits)
    ultimately show ?thesis by (simp add: eq world_inv_def accounts_ok_def)
  qed
qed

lemma release_credit_inv:
  assumes acc: "accounts_ok w" and held: "held_except {} {k} w" and c: "kv_get (credits w) k = Some c"
  shows "world_inv (release_credit k w)"
proof -
  have P: "stores_ok w" "pools_ok w" "guards_ok w" "credits_ok w" "fresh_ok w" "kv_ok (reservations w)"
    using acc by (simp_all add: accounts_ok_def stores_ok_def)
  note any = kv_any_iff [OF P(6)]
  have co: "credit_of w k = c" by (simp add: credit_of_def c)
  let ?held = "scope_live c \<or> (\<exists>i r. kv_get (reservations w) i = Some r \<and> memory_credit (guard_context r) = Some k)"
  show ?thesis
  proof (cases ?held)
    case True
    then have "release_credit k w = w" by (simp add: release_credit_def any co)
    moreover have "held_except {} {} w"
      by (rule held_except_close [OF held]) (use True c in auto)
    ultimately show ?thesis using acc by (simp add: world_inv_def)
  next
    case False
    let ?w = "w\<lparr>credits := kv_del k (credits w)\<rparr>"
    have eq: "release_credit k w = release_backing (backing c) ?w"
      using False by (auto simp: release_credit_def any co)
    have nog: "memory_credit (guard_context r) \<noteq> Some k" if "kv_get (reservations w) i = Some r" for i r
      using False that by blast
    have "guards_ok ?w"
      by (rule guards_ok_cong [OF P(3)]) (use nog in auto)
    moreover have "credits_ok ?w"
      by (rule credits_okI) (use credits_okD [OF P(4)] in \<open>auto split: if_splits\<close>)
    ultimately have "accounts_ok ?w"
      using P by (simp add: accounts_ok_def stores_ok_def pools_ok_def fresh_ok_def)
    moreover have "held_except {backing c} {} ?w"
      using held_except_del_credit [OF held c] .
    moreover obtain v where "kv_get (backings w) (backing c) = Some v"
      using credits_okD(1) [OF P(4) c] by blast
    ultimately show ?thesis unfolding eq by (intro release_backing_inv) auto
  qed
qed

lemma drop_credit_scope_inv:
  assumes inv: "world_inv w"
  shows "world_inv (drop_credit_scope k w)"
proof (cases "kv_get (credits w) k")
  case (Some c)
  note P = accounts_parts [OF inv]
  let ?w = "w\<lparr>credits := kv_put k (c\<lparr>scope_live := False\<rparr>) (credits w)\<rparr>"
  have "credits_ok ?w"
    by (rule credits_okI) (use credits_okD [OF P(4)] Some in \<open>auto split: if_splits\<close>)
  moreover have "guards_ok ?w" using P(3) Some by (fastforce simp: guards_ok_def guard_ok_def)
  ultimately have "accounts_ok ?w"
    using P Some by (auto simp: accounts_ok_def stores_ok_def pools_ok_def fresh_ok_def)
  moreover have "held_except {} {k} ?w"
  proof -
    have "held_except {} {k} w" using P(6) unfolding held_except_def by blast
    then show ?thesis
      by (rule held_except_mono) (use Some in \<open>auto split: if_splits\<close>)
  qed
  ultimately show ?thesis
    using Some by (simp add: drop_credit_scope_def release_credit_inv)
qed (use inv in \<open>simp add: drop_credit_scope_def\<close>)

lemma drop_memory_inv:
  assumes inv: "world_inv w" and i: "kv_get (reservations w) i = Some r"
    and m: "kind r = Memory" "memory_credit (guard_context r) = None" "global_memory_backing r = Some b"
  shows "world_inv (release_backing b (w\<lparr>reservations := kv_del i (reservations w)\<rparr>))"
proof -
  let ?w = "w\<lparr>reservations := kv_del i (reservations w)\<rparr>"
  note P = accounts_parts [OF inv]
  have share: "kv_sum (credit_share k) (kv_del i (reservations w)) = kv_sum (credit_share k) (reservations w)" for k
    using kv_sum_del [OF P(7) i, of "credit_share k"] m by (simp add: credit_share_def)
  have "pools_ok ?w"
    using P(2) kv_sum_del [OF P(7) i, of temp_share] m by (simp add: pools_ok_def temp_share_def)
  moreover have "guards_ok ?w" by (rule guards_ok_del [OF P(3)]) simp_all
  moreover have "credits_ok ?w"
    by (rule credits_okI) (use credits_okD [OF P(4)] share in \<open>auto split: if_splits\<close>)
  ultimately have "accounts_ok ?w"
    using P by (simp add: accounts_ok_def stores_ok_def fresh_ok_def)
  moreover have "held_except {b} {} ?w"
    using held_except_del_guard [OF P(6) i] m by simp
  moreover have "kv_get (backings ?w) b = Some (bytes r)"
    using guard_okD(1) [OF P(3) i m(1,2)] m(3) by auto
  ultimately show ?thesis by (rule release_backing_inv)
qed

end
