(* ===== verification/Guard_Lifecycle.thy ===== *)
theory Guard_Lifecycle
  imports Accounting
begin

text \<open>
  The other half of the accounting argument: dropping guards, writing, dropping and persisting
  temporary files, and the step relation that interleaves every call on an execution context.
\<close>

section \<open>Dropping a guard\<close>

lemma drop_temporary_accounts:
  assumes inv: "world_inv w" and i: "kv_get (reservations w) i = Some r" and m: "kind r = Temporary"
    and w': "w' = w\<lparr>temporary_bytes := temporary_bytes w - bytes r, reservations := kv_del i (reservations w)\<rparr>"
  shows "accounts_ok w' \<and> held_except {} (set_option (memory_credit (guard_context r))) w'"
proof -
  note P = accounts_parts [OF inv]
  have nb: "global_memory_backing r = None" using guard_okD(2) [OF P(3) i] m by simp
  have share: "kv_sum (credit_share k) (kv_del i (reservations w)) = kv_sum (credit_share k) (reservations w)" for k
    using kv_sum_del [OF P(7) i, of "credit_share k"] m by (simp add: credit_share_def)
  have le: "bytes r \<le> temporary_bytes w"
    using guard_charge_bound(1) [OF inv i m] by (simp add: word_le_nat_alt)
  have "pools_ok w'"
    using P(2) kv_sum_del [OF P(7) i, of temp_share] m le
    by (auto simp: w' pools_ok_def temp_share_def unat_minus_small word_le_nat_alt)
  moreover have "guards_ok w'" by (rule guards_ok_del [OF P(3)]) (simp_all add: w')
  moreover have "credits_ok w'"
    by (rule credits_okI) (use credits_okD [OF P(4)] share in \<open>auto simp: w' split: if_splits\<close>)
  ultimately have "accounts_ok w'"
    using P by (simp add: w' accounts_ok_def stores_ok_def fresh_ok_def)
  moreover have "held_except {} (set_option (memory_credit (guard_context r))) w'"
    using held_except_del_guard [OF P(6) i] nb by (simp add: w' held_except_def)
  ultimately show ?thesis by simp
qed

lemma drop_credited_accounts:
  assumes inv: "world_inv w" and i: "kv_get (reservations w) i = Some r"
    and m: "kind r = Memory" "memory_credit (guard_context r) = Some k" and k: "kv_get (credits w) k = Some c"
    and w': "w' = w\<lparr>credits := kv_put k (c\<lparr>credit_bytes := credit_bytes c - bytes r\<rparr>) (credits w),
       reservations := kv_del i (reservations w)\<rparr>"
  shows "accounts_ok w' \<and> held_except {} {k} w'"
proof -
  note P = accounts_parts [OF inv]
  have nb: "global_memory_backing r = None" using guard_okD(2) [OF P(3) i] m by simp
  have share: "kv_sum (credit_share j) (reservations w) =
      (if j = k then unat (bytes r) else 0) + kv_sum (credit_share j) (kv_del i (reservations w))" for j
    using kv_sum_del [OF P(7) i, of "credit_share j"] m by (auto simp: credit_share_def)
  have le: "bytes r \<le> credit_bytes c"
    using guard_charge_bound(3) [OF inv i m k] by (simp add: word_le_nat_alt)
  then have sub: "unat (credit_bytes c - bytes r) = unat (credit_bytes c) - unat (bytes r)"
    "credit_bytes c - bytes r \<le> credit_bytes c"
    by (simp_all add: unat_minus_small word_le_nat_alt)
  have "pools_ok w'"
    using P(2) kv_sum_del [OF P(7) i, of temp_share] m by (auto simp: w' pools_ok_def temp_share_def)
  moreover have "guards_ok w'" by (rule guards_ok_del [OF P(3)]) (simp_all add: w')
  moreover have "credits_ok w'"
  proof (rule credits_okI)
    fix j d assume j: "kv_get (credits w') j = Some d"
    then obtain d0 where d0: "kv_get (credits w) j = Some d0" "backing d = backing d0"
      "j \<noteq> k \<Longrightarrow> d = d0" "j = k \<Longrightarrow> d0 = c \<and> d = c\<lparr>credit_bytes := credit_bytes c - bytes r\<rparr>"
      using k by (auto simp: w' split: if_splits)
    show "\<exists>v. kv_get (backings w') (backing d) = Some v \<and> credit_bytes d \<le> v"
      using credits_okD(1) [OF P(4) d0(1)] sub(2) d0
      by (cases "j = k") (auto simp: w' intro: order_trans)
    show "unat (credit_bytes d) = kv_sum (credit_share j) (reservations w')"
      using credits_okD(2) [OF P(4) d0(1)] sub(1) d0 share [of j] by (cases "j = k") (auto simp: w')
    fix x g assume "kv_get (reservations w') x = Some g" "global_memory_backing g = Some (backing d)"
    then show "active_memory_credit g = Some j"
      using credits_okD(3) [OF P(4) d0(1)] d0(2) by (auto simp: w' split: if_splits)
  qed
  moreover have "fresh_ok w'" using P(5) k by (auto simp: w' fresh_ok_def)
  ultimately have "accounts_ok w'" using P by (simp add: w' accounts_ok_def stores_ok_def)
  moreover have "held_except {} {k} w'"
    by (rule held_except_grow [OF held_except_del_guard [OF P(6) i, unfolded nb m, simplified]])
      (use k in \<open>auto simp: w' split: if_splits\<close>)
  ultimately show ?thesis by simp
qed

lemma drop_reservation_inv:
  assumes inv: "world_inv w"
  shows "world_inv (drop_reservation i w)"
proof (cases "kv_get (reservations w) i")
  case (Some r)
  note P = accounts_parts [OF inv]
  show ?thesis
  proof (cases "global_memory_backing r")
    case b: (Some b)
    have mb: "kind r = Memory" "memory_credit (guard_context r) = None"
      using guard_okD(2) [OF P(3) Some] b
      by (cases "kind r"; cases "memory_credit (guard_context r)"; simp)+
    then show ?thesis
      using drop_memory_inv [OF inv Some mb b] b Some by (simp add: drop_reservation_def)
  next
    case nb: None
    let ?w = "(uncharge (kind r) (guard_context r) (bytes r) w)"
    let ?d = "?w\<lparr>reservations := kv_del i (reservations ?w)\<rparr>"
    have acc: "accounts_ok ?d \<and> held_except {} (set_option (memory_credit (guard_context r))) ?d"
    proof (cases "kind r")
      case Temporary
      show ?thesis
        by (rule drop_temporary_accounts [OF inv Some Temporary]) (simp add: uncharge_def Temporary)
    next
      case Memory
      with nb guard_okD(1) [OF P(3) Some] obtain k where k: "memory_credit (guard_context r) = Some k"
        by (cases "memory_credit (guard_context r)") auto
      then obtain c where c: "kv_get (credits w) k = Some c" using guard_okD(3) [OF P(3) Some] by blast
      show ?thesis unfolding k option.set
        by (rule drop_credited_accounts [OF inv Some Memory k c])
          (simp add: uncharge_def Memory k set_credit_bytes_def credit_of_def c)
    qed
    show ?thesis
    proof (cases "memory_credit (guard_context r)")
      case None
      with acc Some nb show ?thesis by (simp add: drop_reservation_def Let_def world_inv_def)
    next
      case (Some k)
      have "kv_get (credits ?d) k \<noteq> None"
        using guard_okD(3) [OF P(3) \<open>kv_get (reservations w) i = Some r\<close> Some]
        by (auto simp: uncharge_def set_credit_bytes_def Some split: ResourceKind.splits)
      then obtain c where "kv_get (credits ?d) k = Some c" by blast
      with acc Some nb \<open>kv_get (reservations w) i = Some r\<close> release_credit_inv [of ?d k c] show ?thesis
        by (simp add: drop_reservation_def Let_def)
    qed
  qed
qed (use inv in \<open>simp add: drop_reservation_def\<close>)

section \<open>Temporary files\<close>

lemma files_update_inv:
  assumes inv: "world_inv w"
    and t: "unat t = kv_sum temp_share (reservations w) + kv_sum (\<lambda>f. unat (charged f)) fs"
    and pk: "t \<le> pk" "pk \<le> max_temporary_bytes (limits w)"
    and fs: "kv_ok fs" "\<And>n. fr \<le> n \<Longrightarrow> kv_get fs n = None" "fresh w \<le> fr"
  shows "world_inv (w\<lparr>temporary_bytes := t, temporary_peak_bytes := pk, files := fs, disk := ds, fresh := fr\<rparr>)"
  using accounts_parts [OF inv] assms
  by (auto simp: world_inv_def accounts_defs held_except_def)

lemma add_file_inv: "world_inv w \<Longrightarrow> add_file c p w = (i, w') \<Longrightarrow> world_inv w'"
  using files_update_inv [of w "temporary_bytes w" "kv_put (fresh w) \<lparr>file_context = clone_context c, path = p,
      is_open = True, charged = 0\<rparr> (files w)" "temporary_peak_bytes w" "Suc (fresh w)" "p # disk w"]
    accounts_parts [of w] kv_get_fresh [of w]
  by (auto simp: add_file_def pools_ok_def kv_sum_put_fresh fresh_ok_def)

lemma try_paths_inv: "world_inv w \<Longrightarrow> try_paths io cand n c w = (x, w') \<Longrightarrow> world_inv w'"
proof (induction io cand n c w rule: try_paths.induct)
  case (1 io cand n c w)
  from "1.prems"(2) show ?case
    using "1.IH" "1.prems"(1) add_file_inv [OF "1.prems"(1)]
    by (subst (asm) try_paths.simps) (auto split: if_splits open_result.splits prod.splits)
qed

lemma temporary_file_in_inv:
  "world_inv w \<Longrightarrow> temporary_file_in io pid nonce d p c w = (x, w') \<Longrightarrow> world_inv w'"
  by (auto simp: temporary_file_in_def split: prod.splits sum.splits
      dest: world_inv_checkpoint try_paths_inv)

lemma temporary_file_at_inv:
  "world_inv w \<Longrightarrow> temporary_file_at io ee p c w = (x, w') \<Longrightarrow> world_inv w'"
  by (auto simp: temporary_file_at_def split: prod.splits sum.splits open_result.splits
      dest: world_inv_checkpoint add_file_inv)

lemma charge_uncharge_Temporary:
  "charge Temporary c n w = (Inr u, w') \<Longrightarrow>
     uncharge Temporary c n w' = w\<lparr>temporary_peak_bytes := temporary_peak_bytes w'\<rparr>
     \<and> temporary_peak_bytes w' = max (temporary_peak_bytes w) (temporary_bytes w + n)"
  by (auto simp: charge_def uncharge_def checked_charge_Inr split: sum.splits)

lemma partial_write_arith:
  fixes a :: u64
  assumes "len < 2 ^ 64" and "taken \<le> len" and "unat a + len < 2 ^ 64"
  shows "unat (a + of_nat len - (of_nat len - of_nat taken)) = unat a + taken"
proof -
  have l: "unat (of_nat len :: u64) = len" "unat (of_nat taken :: u64) = taken"
    using assms by (simp_all add: unat_of_nat_small)
  have "a + of_nat len - (of_nat len - of_nat taken) = a + of_nat taken" by simp
  then show ?thesis using assms l by (simp add: unat_plus_small)
qed

text \<open>A write fails and leaves the accounts (only the peak may rise), or takes \<open>taken\<close> bytes and charges them.\<close>

lemma write_checked_cases:
  assumes "write_checked i len os w = (x, w')"
  shows "(isl x \<and> (w' = w \<or> (\<exists>c f. w' = upd_shared c f w)
            \<or> (\<exists>pk. w' = w\<lparr>temporary_peak_bytes := max (temporary_peak_bytes w) pk\<rparr>
                 \<and> pk \<le> max_temporary_bytes (limits w))))
    \<or> (\<exists>f n t pk ch. kv_get (files w) i = Some f \<and> is_open f \<and> os = Wrote n \<and> x = Inr (min n len)
         \<and> checkpoint (file_context f) w = (Inr (), w)
         \<and> unat t = unat (temporary_bytes w) + min n len \<and> unat ch = unat (charged f) + min n len
         \<and> t \<le> pk \<and> pk \<le> max_temporary_bytes (limits w)
         \<and> w' = w\<lparr>temporary_bytes := t, temporary_peak_bytes := max (temporary_peak_bytes w) pk,
                  files := kv_put i (f\<lparr>charged := ch\<rparr>) (files w)\<rparr>)" (is "?fail \<or> ?ok")
proof (cases "\<exists>f. kv_get (files w) i = Some f \<and> checkpoint (file_context f) w = (Inr (), w) \<and> len < 2 ^ 64
    \<and> (\<exists>v. checked_add (charged f) (of_nat len) = Some v)
    \<and> (\<exists>w2. charge Temporary (file_context f) (of_nat len) w = (Inr (), w2))")
  case False
  then have ?fail using assms
  proof (cases "kv_get (files w) i")
    case (Some f)
    note f = this
    show ?thesis
    proof (cases "fst (checkpoint (file_context f) w)")
      case (Inl e)
      then have "x = Inl e" "w' = snd (checkpoint (file_context f) w)"
        using assms f by (auto simp: write_checked_def split: prod.splits)
      then show ?thesis using checkpoint_world [of "file_context f" w] by auto
    next
      case (Inr u)
      then have ck: "checkpoint (file_context f) w = (Inr (), w)"
        using checkpoint_Ok by (metis old.unit.exhaust prod.collapse)
      show ?thesis
      proof (cases "charge Temporary (file_context f) (of_nat len) w")
        case (Pair y w2)
        show ?thesis
        proof (cases y)
          case (Inl e)
          with Pair charge_Err have "w2 = w" by blast
          with Pair Inl f ck assms show ?thesis
            by (auto simp: write_checked_def Let_def split: if_splits option.splits)
        next
          case (Inr v)
          with False f ck Pair have "\<not> len < 2 ^ 64 \<or> checked_add (charged f) (of_nat len) = None" by auto
          with f ck assms show ?thesis
            by (auto simp: write_checked_def Let_def split: if_splits option.splits)
        qed
      qed
    qed
  qed (use assms in \<open>auto simp: write_checked_def dangling_def\<close>)
  then show ?thesis by blast
next
  case True
  then obtain f v w2 where f: "kv_get (files w) i = Some f" and ck: "checkpoint (file_context f) w = (Inr (), w)"
    and len: "len < 2 ^ 64" and v: "checked_add (charged f) (of_nat len) = Some v"
    and ch: "charge Temporary (file_context f) (of_nat len) w = (Inr (), w2)" by blast
  have l: "unat (of_nat len :: u64) = len" using len by (simp add: unat_of_nat_small)
  obtain t where t: "t = temporary_bytes w + of_nat len" "unat (temporary_bytes w) + len < 2 ^ 64"
    "t \<le> max_temporary_bytes (limits w)"
    "w2 = w\<lparr>temporary_bytes := t, temporary_peak_bytes := max (temporary_peak_bytes w) t\<rparr>"
    using ch l by (auto simp: charge_def checked_charge_Inr split: sum.splits)
  have vv: "v = charged f + of_nat len" "unat (charged f) + len < 2 ^ 64"
    using v l by (auto simp: checked_add_Some)
  show ?thesis
  proof (cases "is_open f \<and> (\<exists>n. os = Wrote n)")
    case False
    then have "isl x" "w' = uncharge Temporary (file_context f) (of_nat len) w2"
      using assms f ck len v ch
      by (auto simp: write_checked_def Let_def split: write_result.splits if_splits)
    then have ?fail using t by (auto simp: uncharge_def)
    then show ?thesis by blast
  next
    case True
    then obtain n where o: "is_open f" "os = Wrote n" by blast
    let ?n = "min n len"
    let ?t = "t - (of_nat len - of_nat ?n)"
    have tu: "unat ?t = unat (temporary_bytes w) + ?n" "unat (v - (of_nat len - of_nat ?n)) = unat (charged f) + ?n"
      unfolding t(1) vv(1) by (rule partial_write_arith [OF len _ t(2)], simp)
        (rule partial_write_arith [OF len _ vv(2)], simp)
    have "?t \<le> t" using tu(1) t(1,2) l by (simp add: word_le_nat_alt unat_plus_small)
    moreover have "of_nat len - of_nat ?n = (0 :: u64)" if "\<not> of_nat ?n < (of_nat len :: u64)"
      using that l unat_of_nat_small [of ?n, where 'a = 64] len
      by (auto simp: word_less_nat_alt min_def split: if_splits)
    ultimately have ?ok
      using assms f ck len v ch o t(3,4) tu
      by (intro exI [of _ f] exI [of _ n] exI [of _ ?t] exI [of _ t] exI [of _ "v - (of_nat len - of_nat ?n)"])
        (auto simp: write_checked_def Let_def put_file_def uncharge_def split: if_splits)
    then show ?thesis by blast
  qed
qed

lemma write_checked_inv:
  assumes inv: "world_inv w" and op: "write_checked i len os w = (x, w')"
  shows "world_inv w'"
  using write_checked_cases [OF op]
proof (elim disjE conjE exE)
  note P = accounts_parts [OF inv]
  fix pk
  assume "w' = w\<lparr>temporary_peak_bytes := max (temporary_peak_bytes w) pk\<rparr>" "pk \<le> max_temporary_bytes (limits w)"
  with P show "world_inv w'"
    by (auto simp: world_inv_def accounts_defs held_except_def max_def)
next
  note P = accounts_parts [OF inv]
  fix f n t pk ch
  assume f: "kv_get (files w) i = Some f" and t: "unat t = unat (temporary_bytes w) + min n len"
    and ch: "unat ch = unat (charged f) + min n len" and pk: "t \<le> pk" "pk \<le> max_temporary_bytes (limits w)"
    and w': "w' = w\<lparr>temporary_bytes := t, temporary_peak_bytes := max (temporary_peak_bytes w) pk,
                  files := kv_put i (f\<lparr>charged := ch\<rparr>) (files w)\<rparr>"
  have "world_inv (w\<lparr>temporary_bytes := t, temporary_peak_bytes := max (temporary_peak_bytes w) pk,
      files := kv_put i (f\<lparr>charged := ch\<rparr>) (files w), disk := disk w, fresh := fresh w\<rparr>)"
  proof (rule files_update_inv [OF inv])
    show "unat t = kv_sum temp_share (reservations w)
        + kv_sum (\<lambda>f. unat (charged f)) (kv_put i (f\<lparr>charged := ch\<rparr>) (files w))"
      using kv_sum_put_upd [OF P(10) f, of "\<lambda>f. unat (charged f)" "f\<lparr>charged := ch\<rparr>"] t ch P(2)
      by (simp add: pools_ok_def)
    show "kv_get (kv_put i (f\<lparr>charged := ch\<rparr>) (files w)) n = None" if "fresh w \<le> n" for n
      using that P(5) f by (auto simp: fresh_ok_def)
  qed (use pk P in \<open>auto simp: pools_ok_def max_def\<close>)
  then show "world_inv w'" by (simp add: w')
qed (use inv in auto)

lemma write_all_checked_inv:
  "world_inv w \<Longrightarrow> write_all_checked i m outs n w = (x, w') \<Longrightarrow> world_inv w'"
proof (induction i m outs n w rule: write_all_checked.induct)
  case (1 i m outs n w)
  from "1.prems"(2) show ?case
    using "1.IH" "1.prems"(1) write_checked_inv [OF "1.prems"(1)]
    by (subst (asm) write_all_checked.simps) (auto split: if_splits prod.splits sum.splits)
qed

lemma flush_world: "flush i io w = (x, w') \<Longrightarrow> w' = w \<or> (\<exists>c. w' = snd (checkpoint c w))"
  by (auto simp: flush_def dangling_def split: option.splits prod.splits sum.splits if_splits)
    (metis snd_conv)+

lemma flush_inv: "world_inv w \<Longrightarrow> flush i io w = (x, w') \<Longrightarrow> world_inv w'"
  by (metis flush_world prod.collapse world_inv_checkpoint)

lemma release_file_inv:
  assumes inv: "world_inv w" and f: "kv_get (files w) i = Some f"
  shows "world_inv (w\<lparr>temporary_bytes := temporary_bytes w - charged f, files := kv_del i (files w), disk := ds\<rparr>)"
proof -
  note P = accounts_parts [OF inv]
  have sum: "kv_sum (\<lambda>f. unat (charged f)) (files w)
      = unat (charged f) + kv_sum (\<lambda>f. unat (charged f)) (kv_del i (files w))"
    by (rule kv_sum_del [OF P(10) f])
  then have le: "charged f \<le> temporary_bytes w" using P(2) by (simp add: pools_ok_def word_le_nat_alt)
  have "world_inv (w\<lparr>temporary_bytes := temporary_bytes w - charged f,
      temporary_peak_bytes := temporary_peak_bytes w, files := kv_del i (files w), disk := ds, fresh := fresh w\<rparr>)"
    by (rule files_update_inv [OF inv])
      (use P sum le in \<open>auto simp: pools_ok_def unat_minus_small word_le_nat_alt fresh_ok_def\<close>)
  then show ?thesis by simp
qed

lemma drop_file_world:
  "kv_get (files w) i = Some f \<Longrightarrow> drop_file i w =
     w\<lparr>temporary_bytes := temporary_bytes w - charged f, files := kv_del i (files w),
       disk := (if path f = [] then disk w else filter (\<lambda>p. p \<noteq> path f) (disk w))\<rparr>"
  by (cases w) (simp add: drop_file_def uncharge_def)

lemma drop_file_inv: "world_inv w \<Longrightarrow> world_inv (drop_file i w)"
  by (cases "kv_get (files w) i") (simp_all only: drop_file_world release_file_inv, simp add: drop_file_def)

lemma kv_del_put [simp]: "kv_del k (kv_put k v m) = kv_del k m"
  by (simp add: kv_del_def kv_put_def)

lemma persist_world:
  "kv_get (files w) i = Some f \<Longrightarrow> persist i w =
     (Some (path f), w\<lparr>temporary_bytes := temporary_bytes w - charged f, files := kv_del i (files w)\<rparr>)"
  by (simp add: persist_def drop_file_def put_file_def uncharge_def)

lemma persist_inv: "world_inv w \<Longrightarrow> persist i w = (x, w') \<Longrightarrow> world_inv w'"
  using persist_world [of w i] release_file_inv [of w i _ "disk w"]
  by (cases "kv_get (files w) i") (auto simp: persist_def)

end
