(* ===== verification/Execution_Steps.thy ===== *)
theory Execution_Steps
  imports Guard_Lifecycle
begin

text \<open>
  Every interleaving of calls on the contexts that share one accounting cell: the step relation,
  its invariant (\<open>Accounting\<close>, \<open>Guard_Lifecycle\<close>) and its order, and the properties of the
  execution component.
\<close>

section \<open>Steps\<close>

text \<open>The world a fresh top-level context starts in: nothing charged, no guard, the given limits.\<close>

definition init_world :: "ResourceLimits \<Rightarrow> nat \<Rightarrow> string list \<Rightarrow> (nat \<Rightarrow> ExecutionShared) \<Rightarrow> world" where
  "init_world l t ds cells = \<lparr>now = t, cancelled_tokens = [], limits = l, memory_bytes = 0, memory_peak_bytes = 0,
     temporary_bytes = 0, temporary_peak_bytes = 0, shareds = cells, backings = [], credits = [],
     reservations = [], files = [], disk = ds, fresh = 0\<rparr>"

text \<open>
  One call on some context, guard or file, a step of the clock, or a change of the disk by another
  process. A context that carries a credit keeps it alive (\<open>context_live\<close>): Rust's borrow of the
  scope guarantees it. The other operations are total.
\<close>

inductive exec_step :: "world \<Rightarrow> world \<Rightarrow> bool" where
  tick: "exec_step w (w\<lparr>now := now w + d\<rparr>)"
| other_process: "exec_step w (w\<lparr>disk := ds\<rparr>)"
| cancelled: "exec_step w (cancel t w)"
| deadline_thread: "exec_step w (deadline_fires i w)"
| fork: "new_context mx ts dsp tok timeout adapt w = (c, w') \<Longrightarrow> exec_step w w'"
| poll: "checkpoint c w = (x, w') \<Longrightarrow> exec_step w w'"
| reported: "report c s cu tu msg w = (x, w') \<Longrightarrow> exec_step w w'"
| detected: "exec_step w (record_detected_format c f w)"
| reserved: "context_live w c \<Longrightarrow> reserve kd c n w = (x, w') \<Longrightarrow> exec_step w w'"
| credited: "with_memory_credit c i w = (x, w') \<Longrightarrow> exec_step w w'"
| credit_dropped: "exec_step w (drop_credit_scope k w)"
| grown: "grow i n w = (x, w') \<Longrightarrow> exec_step w w'"
| shrunk: "shrink i n w = (x, w') \<Longrightarrow> exec_step w w'"
| guard_dropped: "exec_step w (drop_reservation i w)"
| file_created: "temporary_file_in io pid nonce dir prefix c w = (x, w') \<Longrightarrow> exec_step w w'"
| file_created_at: "temporary_file_at io ee p c w = (x, w') \<Longrightarrow> exec_step w w'"
| written: "write_checked i len os w = (x, w') \<Longrightarrow> exec_step w w'"
| all_written: "write_all_checked i len outs n w = (x, w') \<Longrightarrow> exec_step w w'"
| flushed: "flush i err w = (x, w') \<Longrightarrow> exec_step w w'"
| persisted: "persist i w = (p, w') \<Longrightarrow> exec_step w w'"
| file_dropped: "exec_step w (drop_file i w)"

lemma world_inv_init: "world_inv (init_world l t ds cells)"
  by (simp add: init_world_def world_inv_def accounts_defs held_except_def)

lemma world_inv_calm:
  "world_inv w \<Longrightarrow> world_inv (w\<lparr>now := n\<rparr>)" "world_inv w \<Longrightarrow> world_inv (w\<lparr>disk := ds\<rparr>)"
  "world_inv w \<Longrightarrow> world_inv (cancel t w)" "world_inv w \<Longrightarrow> world_inv (deadline_fires i w)"
  "world_inv w \<Longrightarrow> world_inv (record_detected_format c f w)"
  "world_inv w \<Longrightarrow> new_context mx ts dsp tok timeout adapt w = (c', w') \<Longrightarrow> world_inv w'"
  by (auto simp: cancel_def deadline_fires_def record_detected_format_def new_context_def Let_def
      intro: world_inv_cong [rotated -1] split: option.splits)

lemma world_inv_report: "world_inv w \<Longrightarrow> report c s cu tu msg w = (x, w') \<Longrightarrow> world_inv w'"
  by (auto simp: report_def split: prod.splits sum.splits dest: world_inv_checkpoint)

lemma exec_step_inv: "exec_step w w' \<Longrightarrow> world_inv w \<Longrightarrow> world_inv w'"
  by (induction rule: exec_step.induct)
    (blast intro: world_inv_calm world_inv_checkpoint world_inv_report reserve_inv with_memory_credit_inv
       drop_credit_scope_inv grow_inv shrink_inv drop_reservation_inv temporary_file_in_inv
       temporary_file_at_inv write_checked_inv write_all_checked_inv flush_inv persist_inv drop_file_inv)+

section \<open>What only moves forward\<close>

definition same_controls :: "ExecutionShared \<Rightarrow> ExecutionShared \<Rightarrow> bool" where
  "same_controls s s' \<longleftrightarrow> token s' = token s \<and> deadline s' = deadline s
     \<and> deadline_timer_available s' = deadline_timer_available s \<and> (timed_out s \<longrightarrow> timed_out s')"

definition evolves :: "world \<Rightarrow> world \<Rightarrow> bool" where
  "evolves w w' \<longleftrightarrow> limits w' = limits w \<and> memory_peak_bytes w \<le> memory_peak_bytes w'
     \<and> temporary_peak_bytes w \<le> temporary_peak_bytes w' \<and> now w \<le> now w'
     \<and> set (cancelled_tokens w) \<subseteq> set (cancelled_tokens w') \<and> fresh w \<le> fresh w'
     \<and> (\<forall>i < fresh w. same_controls (shareds w i) (shareds w' i))"

lemma same_controls_refl [simp]: "same_controls s s"
  by (simp add: same_controls_def)

lemma evolves_refl [simp]: "evolves w w"
  by (simp add: evolves_def)

lemma evolves_trans: "evolves u v \<Longrightarrow> evolves v w \<Longrightarrow> evolves u w"
  by (fastforce simp: evolves_def same_controls_def)

text \<open>Steps that leave the clock, the limits, the tokens and the shared cells alone.\<close>

lemma evolves_accounts:
  assumes "limits w' = limits w" "memory_peak_bytes w \<le> memory_peak_bytes w'"
    "temporary_peak_bytes w \<le> temporary_peak_bytes w'" "now w' = now w"
    "cancelled_tokens w' = cancelled_tokens w" "fresh w \<le> fresh w'" "shareds w' = shareds w"
  shows "evolves w w'"
  using assms by (simp add: evolves_def)

lemma evolves_then:
  assumes "evolves w x" and "limits w' = limits x" "memory_peak_bytes x \<le> memory_peak_bytes w'"
    "temporary_peak_bytes x \<le> temporary_peak_bytes w'" "now w' = now x"
    "cancelled_tokens w' = cancelled_tokens x" "fresh x \<le> fresh w'" "shareds w' = shareds x"
  shows "evolves w w'"
  by (rule evolves_trans [OF assms(1) evolves_accounts [OF assms(2-)]])

lemma evolves_upd_shared:
  "(\<And>s. same_controls s (f s)) \<Longrightarrow> evolves w x \<Longrightarrow> evolves w (upd_shared i f x)"
  by (rule evolves_trans, assumption) (simp add: evolves_def upd_shared_def)

lemma evolves_timed_out [simp]: "evolves w (upd_shared i (timed_out_update (\<lambda>_. True)) w)"
  by (rule evolves_upd_shared) (simp_all add: same_controls_def)

lemma evolves_checkpoint: "checkpoint c w = (x, w') \<Longrightarrow> evolves w w'"
  by (auto simp: checkpoint_def Let_def split: if_splits)

lemma evolves_calm:
  "evolves w (w\<lparr>now := now w + d\<rparr>)" "evolves w (w\<lparr>disk := ds\<rparr>)" "evolves w (cancel t w)"
  "evolves w (deadline_fires i w)" "evolves w (record_detected_format c f w)"
  by (auto simp: evolves_def cancel_def deadline_fires_def record_detected_format_def upd_shared_def
      same_controls_def split: option.splits)

lemma evolves_fork: "new_context mx ts dsp tok timeout adapt w = (c', w') \<Longrightarrow> evolves w w'"
  by (auto simp: evolves_def new_context_def Let_def)

lemma evolves_report: "report c s cu tu msg w = (x, w') \<Longrightarrow> evolves w w'"
  by (auto simp: report_def split: prod.splits sum.splits dest!: evolves_checkpoint
      intro!: evolves_upd_shared simp: same_controls_def)

lemma evolves_charge: "charge kd c n w = (x, w') \<Longrightarrow> evolves w w'"
  by (auto simp: charge_def set_credit_bytes_def split: ResourceKind.splits option.splits sum.splits
      intro: evolves_accounts)

lemma evolves_uncharge: "evolves w x \<Longrightarrow> evolves w (uncharge kd c n x)"
  by (auto simp: uncharge_def set_credit_bytes_def split: ResourceKind.splits option.splits intro: evolves_then)

lemma evolves_resize: "evolves w x \<Longrightarrow> evolves w (resize i r n f x)"
  by (auto simp: resize_def intro: evolves_then)

lemma evolves_release:
  "evolves w x \<Longrightarrow> evolves w (release_backing b x)"
  by (auto simp: release_backing_def intro: evolves_then)

lemma evolves_release_credit: "evolves w x \<Longrightarrow> evolves w (release_credit k x)"
  by (auto simp: release_credit_def intro!: evolves_release intro: evolves_then)

lemma evolves_reserve: "reserve kd c n w = (x, w') \<Longrightarrow> evolves w w'"
  by (auto simp: reserve_def Let_def split: prod.splits sum.splits dest!: evolves_checkpoint evolves_charge
      intro: evolves_trans evolves_then [OF evolves_trans])

lemma evolves_grow: "grow i n w = (x, w') \<Longrightarrow> evolves w w'"
  by (auto simp: grow_def dangling_def split: prod.splits sum.splits option.splits
      dest!: evolves_checkpoint evolves_charge intro: evolves_trans intro!: evolves_resize)

lemma evolves_shrink: "shrink i n w = (x, w') \<Longrightarrow> evolves w w'"
  by (auto simp: shrink_def dangling_def split: sum.splits option.splits
      intro!: evolves_resize evolves_uncharge)

lemma evolves_credit: "with_memory_credit c i w = (x, w') \<Longrightarrow> evolves w w'"
  by (drule with_memory_credit_cases) (auto intro: evolves_accounts)

lemma evolves_drop_credit_scope: "evolves w (drop_credit_scope k w)"
  by (auto simp: drop_credit_scope_def split: option.splits intro!: evolves_release_credit intro: evolves_accounts)

lemma evolves_drop_reservation: "evolves w (drop_reservation i w)"
proof (cases "kv_get (reservations w) i")
  case (Some r)
  let ?w1 = "if global_memory_backing r = None then uncharge (kind r) (guard_context r) (bytes r) w else w"
  have "evolves w ?w1" by (simp add: evolves_uncharge)
  then have "evolves w (?w1\<lparr>reservations := kv_del i (reservations ?w1)\<rparr>)" by (rule evolves_then) simp_all
  with Some show ?thesis
    by (auto simp: drop_reservation_def Let_def split: option.splits
        intro!: evolves_release evolves_release_credit)
qed (simp add: drop_reservation_def)

lemma evolves_try_paths: "try_paths io cand n c w = (x, w') \<Longrightarrow> evolves w w'"
proof (induction io cand n c w rule: try_paths.induct)
  case (1 io cand n c w)
  from 1(2) show ?case
    using 1(1) by (subst (asm) try_paths.simps)
      (auto split: if_splits open_result.splits prod.splits simp: add_file_def intro: evolves_accounts)
qed

lemma evolves_temporary_file_in: "temporary_file_in io pid nonce d p c w = (x, w') \<Longrightarrow> evolves w w'"
  by (auto simp: temporary_file_in_def split: prod.splits sum.splits
      dest!: evolves_checkpoint evolves_try_paths intro: evolves_trans)

lemma evolves_temporary_file_at: "temporary_file_at io ee p c w = (x, w') \<Longrightarrow> evolves w w'"
  by (auto simp: temporary_file_at_def add_file_def split: prod.splits sum.splits open_result.splits
      dest!: evolves_checkpoint intro: evolves_then)

lemma evolves_write: "write_checked i len os w = (x, w') \<Longrightarrow> evolves w w'"
  by (auto simp: write_checked_def dangling_def Let_def put_file_def
      split: option.splits prod.splits sum.splits if_splits write_result.splits
      dest!: evolves_checkpoint evolves_charge intro!: evolves_uncharge intro: evolves_trans evolves_then)

lemma evolves_write_all: "write_all_checked i m outs n w = (x, w') \<Longrightarrow> evolves w w'"
proof (induction i m outs n w rule: write_all_checked.induct)
  case (1 i m outs n w)
  from 1(2) show ?case
    using 1(1) by (subst (asm) write_all_checked.simps)
      (auto split: if_splits prod.splits sum.splits dest!: evolves_write intro: evolves_trans)
qed

lemma evolves_flush: "flush i err w = (x, w') \<Longrightarrow> evolves w w'"
  by (metis flush_world evolves_refl evolves_checkpoint prod.collapse)

lemma evolves_drop_file: "evolves w x \<Longrightarrow> evolves w (drop_file i x)"
  by (auto simp: drop_file_def Let_def split: option.splits intro!: evolves_uncharge intro: evolves_then)

lemma evolves_persist: "persist i w = (p, w') \<Longrightarrow> evolves w w'"
  using persist_world [of w i] by (cases "kv_get (files w) i") (auto simp: persist_def intro: evolves_accounts)

lemma exec_step_evolves: "exec_step w w' \<Longrightarrow> evolves w w'"
  by (induction rule: exec_step.induct)
    (blast intro: evolves_calm evolves_fork evolves_checkpoint evolves_report evolves_reserve evolves_credit
       evolves_drop_credit_scope evolves_grow evolves_shrink evolves_drop_reservation
       evolves_temporary_file_in evolves_temporary_file_at evolves_write evolves_write_all
       evolves_flush evolves_persist evolves_drop_file evolves_refl)+

interpretation execution: monotone_stepping "\<lambda>w. \<exists>l t ds cells. w = init_world l t ds cells" exec_step world_inv evolves
  by unfold_locales
    (auto intro: world_inv_init exec_step_inv exec_step_evolves evolves_trans)

end
