(* ===== verification/Execution_Properties.thy ===== *)
theory Execution_Properties
  imports Execution_Steps
begin

text \<open>
  What the accounting of \<open>crates/core/src/execution.rs\<close> promises its callers, over every run of
  \<open>exec_step\<close>, with a concrete run for each promise.
\<close>

section \<open>A concrete run\<close>

definition demo_cell :: ExecutionShared where
  "demo_cell = \<lparr>token = 0, deadline = Some 10, deadline_timer_available = True, timed_out = False,
     detected_format = None, notifier = init_system, has_dispatcher = False,
     adaptation = \<lparr>implicit = [], ceilings = default_limits, enabled = False, attempted = [], raised = []\<rparr>\<rparr>"

definition demo_world :: world where
  "demo_world = (init_world default_limits 0 [''/tmp/old''] (\<lambda>_. demo_cell))"

definition demo_context :: ExecutionContext where
  "demo_context = \<lparr>shared = 0, memory_credit = None, ignore_request_controls = False\<rparr>"

lemmas demo_defs = demo_world_def demo_context_def demo_cell_def init_world_def default_limits_def

text \<open>A parent of 100 bytes (guard 0), a credit on it (1), a child of 40 bytes (guard 2).\<close>

definition demo_parent :: world where
  "demo_parent = snd (reserve Memory demo_context 100 demo_world)"

definition demo_credit :: world where
  "demo_credit = snd (with_memory_credit demo_context 0 demo_parent)"

definition demo_child :: world where
  "demo_child = snd (reserve Memory (demo_context\<lparr>memory_credit := Some 1\<rparr>) 40 demo_credit)"

lemma demo_start: "exec_step\<^sup>*\<^sup>* (init_world default_limits 0 [''/tmp/old''] (\<lambda>_. demo_cell)) demo_world"
  by (simp add: demo_world_def)

lemmas op_defs = reserve_def checkpoint_def charge_def checked_charge_def checked_add_def Let_def

lemma demo_parent_eq:
  "demo_parent = demo_world\<lparr>memory_bytes := 100, memory_peak_bytes := 100, fresh := 1,
     reservations := [(0, \<lparr>guard_context = demo_context, kind = Memory, bytes = 100,
        global_memory_backing = Some 0, active_memory_credit = None\<rparr>)], backings := [(0, 100)]\<rparr>"
  by (simp add: demo_parent_def op_defs demo_defs is_cancelled_def kv_put_def kv_del_def)

lemma demo_credit_eq:
  "demo_credit = demo_world\<lparr>memory_bytes := 100, memory_peak_bytes := 100, fresh := 2,
     reservations := [(0, \<lparr>guard_context = demo_context, kind = Memory, bytes = 100,
        global_memory_backing = Some 0, active_memory_credit = Some 1\<rparr>)], backings := [(0, 100)],
     credits := [(1, \<lparr>backing = 0, credit_bytes = 0, scope_live = True\<rparr>)]\<rparr>"
  by (simp add: demo_credit_def demo_parent_eq with_memory_credit_def belongs_to_memory_context_def
      credit_active_def demo_defs kv_get_def kv_put_def kv_del_def Let_def)

lemma demo_child_eq:
  "demo_child = demo_world\<lparr>memory_bytes := 100, memory_peak_bytes := 100, fresh := 3,
     reservations := [(2, \<lparr>guard_context = demo_context\<lparr>memory_credit := Some 1\<rparr>, kind = Memory, bytes = 40,
        global_memory_backing = None, active_memory_credit = None\<rparr>),
       (0, \<lparr>guard_context = demo_context, kind = Memory, bytes = 100,
        global_memory_backing = Some 0, active_memory_credit = Some 1\<rparr>)], backings := [(0, 100)],
     credits := [(1, \<lparr>backing = 0, credit_bytes = 40, scope_live = True\<rparr>)]\<rparr>"
  by (simp add: demo_child_def demo_credit_eq op_defs demo_defs is_cancelled_def set_credit_bytes_def
      credit_of_def backing_bytes_def kv_get_def kv_put_def kv_del_def)

lemma exec_run_reserve: "exec_step\<^sup>*\<^sup>* u w \<Longrightarrow> context_live w c \<Longrightarrow> exec_step\<^sup>*\<^sup>* u (snd (reserve kd c n w))"
  by (rule rtranclp.rtrancl_into_rtrancl, assumption)
    (cases "reserve kd c n w"; auto intro: exec_step.reserved)

lemma demo_runs:
  "exec_step\<^sup>*\<^sup>* demo_world demo_parent" "exec_step\<^sup>*\<^sup>* demo_world demo_credit" "exec_step\<^sup>*\<^sup>* demo_world demo_child"
proof -
  show p: "exec_step\<^sup>*\<^sup>* demo_world demo_parent"
    unfolding demo_parent_def by (rule exec_run_reserve) (simp_all add: context_live_def demo_context_def)
  have "exec_step demo_parent demo_credit"
    unfolding demo_credit_def by (rule exec_step.credited [OF surjective_pairing])
  with p show c: "exec_step\<^sup>*\<^sup>* demo_world demo_credit" by simp
  show "exec_step\<^sup>*\<^sup>* demo_world demo_child"
    unfolding demo_child_def using c
    by (rule exec_run_reserve) (simp add: context_live_def demo_credit_eq kv_get_def)
qed

section \<open>Exact accounts\<close>

text \<open>
  Claim C1: after any sequence of calls from a fresh world, the limits are the initial ones, the
  memory pool is exactly the sum of the globally charged sizes, the temporary pool exactly the sum
  of what temporary guards and files hold (so no counter ever wrapped), both pools stay below
  their peaks and the peaks below the limits.
\<close>

theorem accounts_are_exact:
  assumes "exec_step\<^sup>*\<^sup>* (init_world l t ds cells) w"
  shows "limits w = l
    \<and> unat (memory_bytes w) = kv_sum unat (backings w)
    \<and> unat (temporary_bytes w) = kv_sum temp_share (reservations w) + kv_sum (\<lambda>f. unat (charged f)) (files w)
    \<and> memory_bytes w \<le> memory_peak_bytes w \<and> memory_peak_bytes w \<le> max_memory_bytes l
    \<and> temporary_bytes w \<le> temporary_peak_bytes w \<and> temporary_peak_bytes w \<le> max_temporary_bytes l"
proof -
  have "pools_ok w" using execution.reachable_inv [OF assms] accounts_parts(2) by blast
  moreover have "limits w = l"
    using execution.run_before [OF assms] by (simp add: evolves_def init_world_def)
  ultimately show ?thesis by (simp add: pools_ok_def)
qed

theorem accounts_are_exact_witness:
  "unat (memory_bytes demo_child) = kv_sum unat (backings demo_child) \<and> kv_sum unat (backings demo_child) = 100"
  using accounts_are_exact [OF demo_runs(3) [unfolded demo_world_def]]
  by (simp add: demo_child_eq kv_sum_def)

text \<open>
  Claim C2: nothing leaks. Once every guard and file is dropped and no credit scope is open, both
  pools are back to zero and no backing or credit is left, whatever calls were made in whatever
  order.
\<close>

theorem dropping_everything_releases_everything:
  assumes run: "exec_step\<^sup>*\<^sup>* (init_world l t ds cells) w"
    and idle: "reservations w = []" "files w = []" "\<not> kv_any scope_live (credits w)"
  shows "memory_bytes w = 0 \<and> temporary_bytes w = 0 \<and> backings w = [] \<and> credits w = []"
proof -
  have inv: "world_inv w" using execution.reachable_inv [OF run] by blast
  note P = accounts_parts [OF inv]
  have "kv_get (credits w) k = None" for k
  proof (cases "kv_get (credits w) k")
    case (Some c)
    with held_credit [OF P(6) Some] idle have "scope_live c" by simp
    with Some idle(3) kv_any_iff [OF P(9)] show ?thesis by blast
  qed simp
  then have c: "credits w = []" by (rule kv_empty)
  have "kv_get (backings w) b = None" for b
    using held_backing [OF P(6)] c idle by (cases "kv_get (backings w) b") auto
  then have b: "backings w = []" by (rule kv_empty)
  have "unat (memory_bytes w) = 0" "unat (temporary_bytes w) = 0"
    using P(2) b idle by (simp_all add: pools_ok_def)
  with b c show ?thesis by (simp add: unat_eq_zero)
qed

theorem dropping_everything_releases_everything_witness:
  "memory_bytes (drop_reservation 0 demo_parent) = 0"
proof -
  have "exec_step\<^sup>*\<^sup>* demo_world (drop_reservation 0 demo_parent)"
    by (rule rtranclp.rtrancl_into_rtrancl [OF demo_runs(1) exec_step.guard_dropped])
  moreover have "reservations (drop_reservation 0 demo_parent) = [] \<and> files (drop_reservation 0 demo_parent) = []
      \<and> \<not> kv_any scope_live (credits (drop_reservation 0 demo_parent))"
    by (simp add: drop_reservation_def demo_parent_eq demo_defs release_backing_def kv_get_def kv_del_def kv_any_def)
  ultimately show ?thesis
    using dropping_everything_releases_everything [of default_limits 0 "[''/tmp/old'']" "\<lambda>_. demo_cell"]
    by (simp add: demo_world_def)
qed

section \<open>Reserving\<close>

lemma checked_charge_fits:
  assumes "cur \<le> lim"
  shows "checked_charge cur n lim nm =
    (if n \<le> saturating_sub lim cur then Inr (cur + n)
     else Inl (ResourceLimit nm (show_word cur @ '' + '' @ show_word n @ '' exceeds '' @ show_word lim)))"
proof -
  have l: "unat cur \<le> unat lim" "unat lim < 2 ^ 64"
    using assms unat_less_2p [of lim] by (simp_all add: word_le_nat_alt)
  have iff: "n \<le> saturating_sub lim cur \<longleftrightarrow> unat cur + unat n < 2 ^ 64 \<and> cur + n \<le> lim"
    using l by (auto simp: word_le_nat_alt unat_saturating_sub unat_plus_small)
  show ?thesis unfolding iff by (auto simp: checked_charge_def checked_add_def)
qed

lemma charge_exact:
  assumes inv: "world_inv w" and live: "context_live w c"
  shows "charge Memory c n w =
      (if n \<le> available_memory_bytes c w
       then (Inr (), case memory_credit c of
           Some k \<Rightarrow> set_credit_bytes k (credit_bytes (credit_of w k) + n) w
         | None \<Rightarrow> w\<lparr>memory_bytes := memory_bytes w + n,
             memory_peak_bytes := max (memory_peak_bytes w) (memory_bytes w + n)\<rparr>)
       else (Inl (ResourceLimit ''max_memory_bytes''
         (show_word (reserved_memory_bytes c w) @ '' + '' @ show_word n @ '' exceeds '' @
          show_word (case memory_credit c of Some k \<Rightarrow> backing_bytes w (backing (credit_of w k))
                     | None \<Rightarrow> max_memory_bytes (limits w)))), w))"
proof (cases "memory_credit c")
  case None
  have "memory_bytes w \<le> max_memory_bytes (limits w)"
    using accounts_parts(2) [OF inv] by (auto simp: pools_ok_def)
  with None show ?thesis
    by (simp add: charge_def checked_charge_fits available_memory_bytes_def reserved_memory_bytes_def)
next
  case (Some k)
  with live obtain m where m: "kv_get (credits w) k = Some m" by (auto simp: context_live_def)
  then have "credit_bytes m \<le> backing_bytes w (backing m)"
    using credits_okD(1) [OF accounts_parts(4) [OF inv] m] by (auto simp: backing_bytes_def)
  with Some m show ?thesis
    by (simp add: charge_def checked_charge_fits available_memory_bytes_def reserved_memory_bytes_def credit_of_def)
qed

text \<open>
  Claim C3: a memory reservation that passes its checkpoint succeeds exactly when the size is at
  most what \<open>available_memory_bytes\<close> reports for that context; otherwise the error is the memory
  limit and nothing changed. On success the account of the context grew by exactly the size.
\<close>

theorem reserve_succeeds_iff_available:
  assumes run: "exec_step\<^sup>*\<^sup>* (init_world l t ds cells) w"
    and live: "context_live w c" and ok: "checkpoint c w = (Inr (), w)"
  shows "if n \<le> available_memory_bytes c w
    then \<exists>i w'. reserve Memory c n w = (Inr i, w') \<and> kv_get (reservations w) i = None
      \<and> (\<exists>r. kv_get (reservations w') i = Some r \<and> accounts_memory_for r c n)
      \<and> unat (reserved_memory_bytes c w') = unat (reserved_memory_bytes c w) + unat n
    else \<exists>d. reserve Memory c n w = (Inl (ResourceLimit ''max_memory_bytes'' d), w)"
proof -
  have inv: "world_inv w" using execution.reachable_inv [OF run] by blast
  have none: "kv_get (reservations w) (fresh w) = None"
    using kv_get_fresh(3) [OF accounts_parts(5) [OF inv]] .
  note ch = charge_exact [OF inv live, of n]
  show ?thesis
  proof (cases "n \<le> available_memory_bytes c w")
    case False
    then show ?thesis by (simp add: reserve_def ok ch)
  next
    case True
    then have sum: "unat (reserved_memory_bytes c w) + unat n < 2 ^ 64"
      using unat_less_2p [of "backing_bytes w (backing (credit_of w (the (memory_credit c))))"]
        unat_less_2p [of "credit_bytes (credit_of w (the (memory_credit c)))"] unat_less_2p [of "memory_bytes w"]
        unat_less_2p [of "max_memory_bytes (limits w)"] accounts_parts(2) [OF inv]
      by (cases "memory_credit c")
        (auto simp: available_memory_bytes_def reserved_memory_bytes_def word_le_nat_alt unat_saturating_sub
          pools_ok_def)
    from True show ?thesis
      using sum none
      by (cases "memory_credit c")
        (simp_all add: reserve_def ok ch Let_def reserved_memory_bytes_def unat_plus_small set_credit_bytes_def
          credit_of_def accounts_memory_for_def belongs_to_memory_context_def)
  qed
qed

theorem reserve_succeeds_iff_available_witness:
  "(\<exists>i w'. reserve Memory demo_context 5 demo_world = (Inr i, w'))
   \<and> (\<exists>d. reserve Memory (demo_context\<lparr>memory_credit := Some 1\<rparr>) 61 demo_child
        = (Inl (ResourceLimit ''max_memory_bytes'' d), demo_child))"
proof
  show "\<exists>i w'. reserve Memory demo_context 5 demo_world = (Inr i, w')"
    using reserve_succeeds_iff_available [OF demo_start, of demo_context 5]
    by (simp add: context_live_def demo_defs checkpoint_def is_cancelled_def available_memory_bytes_def
        saturating_sub_def word_le_nat_alt) blast
  show "\<exists>d. reserve Memory (demo_context\<lparr>memory_credit := Some 1\<rparr>) 61 demo_child
        = (Inl (ResourceLimit ''max_memory_bytes'' d), demo_child)"
    using reserve_succeeds_iff_available [OF demo_runs(3) [unfolded demo_world_def],
        of "demo_context\<lparr>memory_credit := Some 1\<rparr>" 61]
    by (simp add: context_live_def demo_child_eq demo_defs checkpoint_def is_cancelled_def
        available_memory_bytes_def saturating_sub_def credit_of_def backing_bytes_def kv_get_def)
qed

text \<open>
  Claim C4: memory reserved under a preflight credit is not charged twice. The children of a live
  credit sum to exactly its counter and stay within the parent guard's bytes, and reserving one
  more leaves the request's pool, its peak and every backing as they were.
\<close>

theorem credited_children_stay_within_parent:
  assumes run: "exec_step\<^sup>*\<^sup>* (init_world l t ds cells) w"
    and k: "kv_get (credits w) k = Some m" and c: "memory_credit c = Some k"
    and res: "reserve Memory c n w = (x, w')"
  shows "memory_bytes w' = memory_bytes w \<and> memory_peak_bytes w' = memory_peak_bytes w
    \<and> backings w' = backings w
    \<and> kv_sum (credit_share k) (reservations w') \<le> unat (backing_bytes w' (backing m))
    \<and> reserved_memory_bytes c w' = of_nat (kv_sum (credit_share k) (reservations w'))"
proof -
  have inv: "world_inv w" using execution.reachable_inv [OF run] by blast
  have live: "context_live w c" using c k by (simp add: context_live_def)
  have inv': "world_inv w'" by (rule reserve_inv [OF inv live res])
  have same: "memory_bytes w' = memory_bytes w \<and> memory_peak_bytes w' = memory_peak_bytes w
      \<and> backings w' = backings w \<and> (\<exists>m'. kv_get (credits w') k = Some m' \<and> backing m' = backing m)"
    using res
  proof (cases rule: reserve_cases)
    case (1 e)
    with k show ?thesis by (auto simp: upd_shared_def)
  next
    case (2 w2)
    with charge_Some_cases [OF 2(1) c] k c show ?thesis by (auto simp: set_credit_bytes_def credit_of_def)
  qed
  then obtain m' where m': "kv_get (credits w') k = Some m'" "backing m' = backing m" by blast
  note C = credits_okD [OF accounts_parts(4) [OF inv'] m'(1)]
  have "unat (credit_bytes m') \<le> unat (backing_bytes w' (backing m))"
    using C(1) m'(2) by (auto simp: backing_bytes_def word_le_nat_alt)
  moreover have "reserved_memory_bytes c w' = of_nat (unat (credit_bytes m'))"
    using c m' by (simp add: reserved_memory_bytes_def credit_of_def)
  ultimately show ?thesis using same C(2) by simp
qed

theorem credited_children_stay_within_parent_witness:
  "memory_bytes demo_child = memory_bytes demo_credit"
  using credited_children_stay_within_parent [OF demo_runs(2) [unfolded demo_world_def],
      of 1 "\<lparr>backing = 0, credit_bytes = 0, scope_live = True\<rparr>" "demo_context\<lparr>memory_credit := Some 1\<rparr>" 40,
      OF _ _ surjective_pairing]
  by (simp add: demo_child_def demo_credit_eq kv_get_def)

end
