(* ===== verification/Execution_Controls.thy ===== *)
theory Execution_Controls
  imports Execution_Properties
begin

text \<open>
  More promises of the execution component: guards round-trip, a live credit pins its parent,
  failed calls change no account, cancellation and timeouts stick, and temporary files are
  created exclusively, charged for what is written and removed or kept as asked.
\<close>

section \<open>Guards\<close>

lemma kv_del_put_fresh: "kv_get m k = None \<Longrightarrow> kv_del k (kv_put k v m) = m"
  by (simp add: kv_del_fresh)

text \<open>
  Claim C5: a reservation that is dropped right away gives everything undo: the pools, the
  backings, the guards and every credit are as before.
\<close>

theorem reserve_then_drop_restores:
  assumes run: "exec_step\<^sup>*\<^sup>* (init_world l t ds cells) w" and live: "context_live w c"
    and res: "reserve kd c n w = (Inr i, w1)"
  shows "memory_bytes (drop_reservation i w1) = memory_bytes w
    \<and> temporary_bytes (drop_reservation i w1) = temporary_bytes w
    \<and> backings (drop_reservation i w1) = backings w \<and> reservations (drop_reservation i w1) = reservations w
    \<and> kv_get (credits (drop_reservation i w1)) = kv_get (credits w)"
proof -
  have inv: "world_inv w" using execution.reachable_inv [OF run] by blast
  note P = accounts_parts [OF inv] and f = kv_get_fresh [OF accounts_parts(5) [OF inv]]
  have held: "scope_live (credit_of w k)
      \<or> kv_any (\<lambda>r. memory_credit (guard_context r) = Some k) (reservations w)" if k: "memory_credit c = Some k" for k
  proof -
    obtain m where m: "kv_get (credits w) k = Some m" using live k by (auto simp: context_live_def)
    then have "credit_of w k = m" by (simp add: credit_of_def)
    with held_credit [OF P(6) m] show ?thesis by (auto simp: kv_any_iff [OF P(7)])
  qed
  have "global_memory_backing r \<noteq> Some (fresh w)" if r: "kv_get (reservations w) j = Some r" for j r
  proof -
    have "guard_ok w r" using P(3) r unfolding guards_ok_def by blast
    with f(1) show ?thesis by (auto simp: guard_ok_def split: if_splits)
  qed
  then have fb: "\<not> kv_any (\<lambda>r. global_memory_backing r = Some (fresh w)) (reservations w)"
    by (auto simp: kv_any_iff [OF P(7)])
  have fc: "\<not> kv_any (\<lambda>m. backing m = fresh w) (credits w)"
    using credits_okD(1) [OF P(4)] f(1) by (fastforce simp: kv_any_iff [OF P(9)])
  from res show ?thesis
  proof (cases rule: reserve_cases)
    case (2 w2)
    from 2(1) have w2: "fresh w2 = fresh w" "reservations w2 = reservations w" "backings w2 = backings w"
      by (auto simp: charge_def set_credit_bytes_def split: ResourceKind.splits option.splits sum.splits)
    show ?thesis
    proof (cases "kd = Memory \<and> memory_credit c = None")
      case True
      with 2(1) have "w2 = w\<lparr>memory_bytes := memory_bytes w + n,
          memory_peak_bytes := max (memory_peak_bytes w) (memory_bytes w + n)\<rparr>"
        by (auto simp: charge_def checked_charge_Inr split: sum.splits)
      with True 2 w2 f fb fc show ?thesis
        by (simp add: drop_reservation_def Let_def kv_del_fresh release_backing_def backing_bytes_def)
    next
      case False
      let ?u = "uncharge kd c n w1"
      let ?d = "?u\<lparr>reservations := kv_del i (reservations ?u)\<rparr>"
      have undo: "memory_bytes ?u = memory_bytes w \<and> temporary_bytes ?u = temporary_bytes w
          \<and> backings ?u = backings w \<and> kv_get (credits ?u) = kv_get (credits w)"
        using 2(1,4) False live w2
        by (auto simp: charge_def uncharge_def checked_charge_Inr set_credit_bytes_def credit_of_def context_live_def
            fun_eq_iff split: ResourceKind.splits option.splits sum.splits)
      have guards: "reservations ?d = reservations w"
        using 2 w2 f(3)
        by (auto simp: uncharge_def set_credit_bytes_def kv_del_fresh split: ResourceKind.splits option.splits)
      have "release_credit k ?d = ?d" if "memory_credit c = Some k" for k
      proof -
        have "credit_of ?d k = credit_of w k" using undo by (simp add: credit_of_def)
        with held [OF that] guards show ?thesis by (simp add: release_credit_def)
      qed
      then have "drop_reservation i w1 = ?d"
        using False 2 w2 by (auto simp: drop_reservation_def Let_def split: option.splits)
      then show ?thesis using undo guards by simp
    qed
  qed simp
qed

theorem reserve_then_drop_restores_witness:
  "memory_bytes (drop_reservation 0 demo_parent) = memory_bytes demo_world"
  using reserve_then_drop_restores [OF demo_start, of demo_context Memory 100 0 demo_parent]
  by (simp add: context_live_def demo_context_def demo_parent_def op_defs demo_defs is_cancelled_def)

text \<open>
  Claim C6: a live credit pins the reservation that backs it. While the credit lives, growing or
  shrinking the parent guard is refused as an internal error or by the checkpoint, and dropping
  the parent releases neither the pool nor the backing.
\<close>

theorem live_credit_pins_parent:
  assumes run: "exec_step\<^sup>*\<^sup>* (init_world l t ds cells) w"
    and i: "kv_get (reservations w) i = Some r" and k: "kv_get (credits w) k = Some m"
    and b: "global_memory_backing r = Some (backing m)"
  shows "fst (shrink i n w) = Inl (Internal ''cannot resize a preflight reservation while credited children are live'')
    \<and> isl (fst (grow i n w))
    \<and> memory_bytes (drop_reservation i w) = memory_bytes w
    \<and> kv_get (backings (drop_reservation i w)) (backing m) = Some (bytes r)"
proof -
  have inv: "world_inv w" using execution.reachable_inv [OF run] by blast
  note P = accounts_parts [OF inv]
  have "active_memory_credit r = Some k" using credits_okD(3) [OF P(4) k i b] .
  with k have act: "credit_active w r" by (simp add: credit_active_def)
  have gr: "isl (fst (grow i n w))"
  proof (cases "grow i n w")
    case (Pair x w')
    with grow_cases [OF Pair] i act show ?thesis by auto
  qed
  have mem: "kind r = Memory \<and> memory_credit (guard_context r) = None"
    using guard_okD(2) [OF P(3) i] b by (cases "kind r = Memory \<and> memory_credit (guard_context r) = None") simp_all
  have "kv_any (\<lambda>m'. backing m' = backing m) (credits w)"
    using k by (auto simp: kv_any_iff [OF P(9)])
  then have "drop_reservation i w = w\<lparr>reservations := kv_del i (reservations w)\<rparr>"
    using i b mem by (simp add: drop_reservation_def Let_def release_backing_def)
  moreover have "kv_get (backings w) (backing m) = Some (bytes r)"
    using guard_okD(1) [OF P(3) i] mem b by auto
  ultimately show ?thesis using gr i act by (simp add: shrink_def ensure_credit_inactive_def)
qed

theorem live_credit_pins_parent_witness:
  "memory_bytes (drop_reservation 0 demo_child) = memory_bytes demo_child \<and> memory_bytes demo_child = 100"
proof
  show "memory_bytes (drop_reservation 0 demo_child) = memory_bytes demo_child"
    using live_credit_pins_parent [OF demo_runs(3) [unfolded demo_world_def], of 0 _ 1 _]
    by (simp add: demo_child_eq kv_get_def)
qed (simp add: demo_child_eq)

text \<open>
  Claim C7: a failed \<open>reserve\<close>, \<open>grow\<close> or \<open>shrink\<close> is atomic: no counter, peak, guard, backing,
  credit or file differs afterwards (only a timeout may have been recorded).
\<close>

definition same_accounts :: "world \<Rightarrow> world \<Rightarrow> bool" where
  "same_accounts w w' \<longleftrightarrow> memory_bytes w' = memory_bytes w \<and> memory_peak_bytes w' = memory_peak_bytes w
     \<and> temporary_bytes w' = temporary_bytes w \<and> temporary_peak_bytes w' = temporary_peak_bytes w
     \<and> backings w' = backings w \<and> credits w' = credits w \<and> reservations w' = reservations w
     \<and> files w' = files w \<and> disk w' = disk w \<and> fresh w' = fresh w"

theorem failed_charges_change_no_account:
  "(case reserve kd c n w of (Inl e, w') \<Rightarrow> same_accounts w w' | _ \<Rightarrow> True)
   \<and> (case grow i n w of (Inl e, w') \<Rightarrow> same_accounts w w' | _ \<Rightarrow> True)
   \<and> (case shrink i n w of (Inl e, w') \<Rightarrow> same_accounts w w' | _ \<Rightarrow> True)"
proof (intro conjI)
  show "case reserve kd c n w of (Inl e, w') \<Rightarrow> same_accounts w w' | _ \<Rightarrow> True"
  proof (cases "reserve kd c n w")
    case (Pair x w')
    then have "isl x \<longrightarrow> same_accounts w w'"
      by (cases rule: reserve_cases) (auto simp: same_accounts_def upd_shared_def)
    with Pair show ?thesis by (auto split: sum.splits)
  qed
  show "case grow i n w of (Inl e, w') \<Rightarrow> same_accounts w w' | _ \<Rightarrow> True"
  proof (cases "grow i n w")
    case (Pair x w')
    with grow_cases [OF Pair] show ?thesis by (auto simp: same_accounts_def upd_shared_def split: sum.splits)
  qed
  show "case shrink i n w of (Inl e, w') \<Rightarrow> same_accounts w w' | _ \<Rightarrow> True"
  proof (cases "shrink i n w")
    case (Pair x w')
    with shrink_cases [OF Pair] show ?thesis by (auto simp: same_accounts_def split: sum.splits)
  qed
qed

section \<open>Cancellation and deadlines\<close>

text \<open>
  Claim C8: stopping is permanent. Once a checkpoint of a request's context failed, every later
  checkpoint of that context fails, whatever ran in between, and after a cancellation it keeps
  failing with \<open>Cancelled\<close>; the cleanup scope of the same request is never stopped.
\<close>

theorem failed_checkpoint_is_permanent:
  assumes fail: "checkpoint c w = (Inl e, w1)" and known: "shared c < fresh w"
    and run: "exec_step\<^sup>*\<^sup>* w1 w2"
  shows "isl (fst (checkpoint c w2)) \<and> (e = Cancelled \<longrightarrow> fst (checkpoint c w2) = Inl Cancelled)
    \<and> fst (checkpoint (cleanup_scope c) w2) = Inr ()"
proof -
  have "evolves w1 w2" by (rule execution.run_before [OF run])
  moreover have "fresh w1 = fresh w" using checkpoint_stores(9) [OF fail] .
  ultimately have ctl: "same_controls (shareds w1 (shared c)) (shareds w2 (shared c))"
    and mono: "set (cancelled_tokens w1) \<subseteq> set (cancelled_tokens w2)" "now w1 \<le> now w2"
    using known by (simp_all add: evolves_def)
  have "\<not> ignore_request_controls c
      \<and> (\<not> deadline_timer_available (shareds w1 (shared c)) \<and> e \<noteq> Cancelled
         \<or> e = Cancelled \<and> is_cancelled w1 (token (shareds w1 (shared c)))
             \<and> deadline_timer_available (shareds w1 (shared c))
         \<or> e = Timeout \<and> timed_out (shareds w1 (shared c)))"
    using fail by (auto simp: checkpoint_def Let_def upd_shared_def is_cancelled_def split: if_splits)
  with ctl mono show ?thesis
    by (auto simp: checkpoint_def cleanup_scope_def same_controls_def Let_def is_cancelled_def)
qed

theorem failed_checkpoint_is_permanent_witness:
  "isl (fst (checkpoint demo_context (cancel 7 (demo_parent\<lparr>now := 10\<rparr>))))"
proof -
  let ?w = "demo_parent\<lparr>now := 10\<rparr>"
  have "checkpoint demo_context ?w = (Inl Timeout, upd_shared 0 (timed_out_update (\<lambda>_. True)) ?w)"
    by (simp add: checkpoint_def demo_parent_eq demo_defs is_cancelled_def)
  moreover have "exec_step\<^sup>*\<^sup>* (upd_shared 0 (timed_out_update (\<lambda>_. True)) ?w)
      (cancel 7 (upd_shared 0 (timed_out_update (\<lambda>_. True)) ?w))"
    by (rule r_into_rtranclp [of exec_step]) (rule exec_step.cancelled)
  ultimately have "isl (fst (checkpoint demo_context (cancel 7 (upd_shared 0 (timed_out_update (\<lambda>_. True)) ?w))))"
    using failed_checkpoint_is_permanent [of demo_context ?w] by (simp add: demo_parent_eq demo_context_def)
  then show ?thesis
    by (simp add: checkpoint_def cancel_def is_cancelled_def upd_shared_def demo_parent_eq demo_defs)
qed

end
