(* ===== verification/File_Properties.thy ===== *)
theory File_Properties
  imports Execution_Controls
begin

text \<open>
  What \<open>TemporaryFile\<close> promises: exclusive creation, a charge equal to what was written on every
  path through \<open>write_all_checked\<close>, release with removal on drop, release without removal on
  \<open>persist\<close>.
\<close>

section \<open>Creation\<close>

definition file_added :: "ExecutionContext \<Rightarrow> string \<Rightarrow> nat \<Rightarrow> world \<Rightarrow> world \<Rightarrow> bool" where
  "file_added c p i w w' \<longleftrightarrow> p \<notin> set (disk w) \<and> disk w' = p # disk w
     \<and> kv_get (files w') i = Some \<lparr>file_context = clone_context c, path = p, is_open = True, charged = 0\<rparr>
     \<and> temporary_bytes w' = temporary_bytes w"

lemma try_paths_spec:
  assumes "\<And>p. io p = None" and "n \<le> 128"
  shows "if \<forall>m. n \<le> m \<and> m < 128 \<longrightarrow> cand m \<in> set (disk w)
    then try_paths io cand n c w = (Inl (Io ''could not allocate a temporary file''), w)
    else \<exists>m i w'. n \<le> m \<and> m < 128 \<and> (\<forall>j. n \<le> j \<and> j < m \<longrightarrow> cand j \<in> set (disk w))
      \<and> try_paths io cand n c w = (Inr i, w') \<and> file_added c (cand m) i w w'"
  using assms(2)
proof (induction "128 - n" arbitrary: n)
  case 0
  then show ?case by (subst try_paths.simps) auto
next
  case (Suc d)
  then have n: "n < 128" "Suc n \<le> 128" "d = 128 - Suc n" by simp_all
  show ?case
  proof (cases "cand n \<in> set (disk w)")
    case False
    then have "\<exists>i w'. try_paths io cand n c w = (Inr i, w') \<and> file_added c (cand n) i w w'"
      using n assms(1) by (subst try_paths.simps) (simp add: open_new_def add_file_def file_added_def)
    with False n(1) show ?thesis by (auto intro: exI [of _ n])
  next
    case True
    then have eq: "try_paths io cand n c w = try_paths io cand (Suc n) c w"
      using n by (subst try_paths.simps) (simp add: open_new_def)
    have split: "(\<forall>m. n \<le> m \<and> m < k \<longrightarrow> cand m \<in> set (disk w)) \<longleftrightarrow>
        (\<forall>m. Suc n \<le> m \<and> m < k \<longrightarrow> cand m \<in> set (disk w))" for k
      using True by (metis Suc_leD le_eq_less_or_eq Suc_leI)
    show ?thesis using Suc.hyps(1) [OF n(3,2)] unfolding eq split
      by (auto split: if_splits) (metis Suc_leD)+
  qed
qed

text \<open>
  Claim C12: temporary files are created exclusively. When the system opens every free path, the
  call takes the first of the 128 candidate names that is not on disk, adds exactly that path and
  charges nothing; it fails only when all 128 candidates exist, and then changes nothing.
\<close>

theorem temporary_file_takes_first_free_name:
  assumes io: "\<And>p. io p = None" and ok: "checkpoint c w = (Inr (), w)"
  shows "if \<forall>m. m < 128 \<longrightarrow> candidate_path dir prefix pid nonce m \<in> set (disk w)
    then temporary_file_in io pid nonce dir prefix c w
      = (Inl (Io ''could not allocate a temporary file''), w)
    else \<exists>m i w'. m < 128 \<and> (\<forall>j < m. candidate_path dir prefix pid nonce j \<in> set (disk w))
      \<and> temporary_file_in io pid nonce dir prefix c w = (Inr i, w')
      \<and> file_added c (candidate_path dir prefix pid nonce m) i w w'"
  using try_paths_spec [of io 0 "candidate_path dir prefix pid nonce" w c, OF io]
  by (simp add: temporary_file_in_def ok cong: if_cong)

theorem temporary_file_takes_first_free_name_witness:
  "\<exists>i w'. temporary_file_in (\<lambda>_. None) 1 (\<lambda>n. 5) ''/tmp'' ''a'' demo_context demo_world = (Inr i, w')
    \<and> ''/tmp/a-1-5-0.tmp'' \<in> set (disk w')"
proof -
  let ?cand = "candidate_path ''/tmp'' ''a'' 1 (\<lambda>n. 5)"
  have c0: "?cand 0 = ''/tmp/a-1-5-0.tmp''" by code_simp
  then have free: "?cand 0 \<notin> set (disk demo_world)" by (simp add: demo_defs)
  have ck: "checkpoint demo_context demo_world = (Inr (), demo_world)"
    by (simp add: checkpoint_def demo_defs is_cancelled_def)
  from free have "\<not> (\<forall>m. m < 128 \<longrightarrow> ?cand m \<in> set (disk demo_world))"
    using zero_less_numeral by blast
  with temporary_file_takes_first_free_name [of "\<lambda>_. None" demo_context demo_world "''/tmp''" "''a''" 1 "\<lambda>n. 5",
      OF refl ck]
  obtain m i w' where m: "\<forall>j < m. ?cand j \<in> set (disk demo_world)"
    and w': "temporary_file_in (\<lambda>_. None) 1 (\<lambda>n. 5) ''/tmp'' ''a'' demo_context demo_world = (Inr i, w')"
      "file_added demo_context (?cand m) i demo_world w'"
    by (metis (no_types, lifting))
  from m free have "m = 0" by (cases m) auto
  with w' c0 show ?thesis by (auto simp: file_added_def)
qed

section \<open>Writing\<close>

text \<open>The bytes that \<open>calls\<close> system calls take of a buffer of \<open>len\<close> bytes, from the \<open>n\<close>-th outcome on.\<close>

fun bytes_taken :: "(nat \<Rightarrow> write_result) \<Rightarrow> nat \<Rightarrow> nat \<Rightarrow> nat \<Rightarrow> nat" where
  "bytes_taken outs n 0 len = 0"
| "bytes_taken outs n (Suc calls) len =
     (case outs n of
        Wrote a \<Rightarrow> min a len + bytes_taken outs (Suc n) calls (len - min a len)
      | WriteFailed _ \<Rightarrow> 0)"

definition progresses :: "write_result \<Rightarrow> bool" where
  "progresses os \<longleftrightarrow> (\<exists>a > 0. os = Wrote a)"

text \<open>The errors of the checks made before the system is called.\<close>

fun stopped_before_call :: "ConversionError \<Rightarrow> bool" where
  "stopped_before_call ConversionError.Cancelled = True"
| "stopped_before_call ConversionError.Timeout = True"
| "stopped_before_call (ConversionError.ComponentUnavailable _ _) = True"
| "stopped_before_call (ConversionError.ResourceLimit _ _) = True"
| "stopped_before_call (ConversionError.Internal _) = True"
| "stopped_before_call _ = False"

text \<open>Why the loop stopped at the outcome \<open>os\<close> with the error \<open>e\<close>.\<close>

definition stops_with :: "write_result \<Rightarrow> ConversionError \<Rightarrow> bool" where
  "stops_with os e \<longleftrightarrow> (\<exists>d. os = WriteFailed d \<and> e = ConversionError.Io d)
     \<or> os = Wrote 0 \<and> e = ConversionError.Io ''temporary file write made no progress''
     \<or> stopped_before_call e"

lemma checkpoint_stops: "checkpoint c w = (Inl e, w') \<Longrightarrow> stopped_before_call e"
  by (auto simp: checkpoint_def Let_def split: if_splits)

lemma charge_stops: "charge Temporary c n w = (Inl e, w') \<Longrightarrow> stopped_before_call e"
  by (auto simp: charge_def checked_charge_def split: option.splits sum.splits if_splits)

lemma write_checked_stops: "write_checked i len os w = (Inl e, w') \<Longrightarrow> stops_with os e"
  by (auto simp: write_checked_def dangling_def stops_with_def Let_def
      split: option.splits prod.splits sum.splits if_splits write_result.splits
      dest: checkpoint_stops charge_stops)

text \<open>
  Claim C11: whatever the system answers, a file is charged for exactly the bytes the system took.
  \<open>write_all_checked\<close> makes a number of calls that each take something; the file's charge and
  the request's pool grow by the sum of what these calls took. On success that is the whole buffer;
  on failure it is less, and the next outcome explains the error: the system failed, took nothing,
  or was not called because a check before the call failed.
\<close>

theorem write_all_charges_what_was_written:
  assumes "kv_get (files w) i = Some f" and "write_all_checked i len outs n w = (x, w')"
  shows "\<exists>calls ch. (\<forall>j < calls. progresses (outs (n + j)))
    \<and> kv_get (files w') i = Some (f\<lparr>charged := ch\<rparr>)
    \<and> unat ch = unat (charged f) + bytes_taken outs n calls len
    \<and> unat (temporary_bytes w') = unat (temporary_bytes w) + bytes_taken outs n calls len
    \<and> (case x of Inr _ \<Rightarrow> bytes_taken outs n calls len = len
       | Inl e \<Rightarrow> bytes_taken outs n calls len < len \<and> stops_with (outs (n + calls)) e)"
  using assms
proof (induction i len outs n w arbitrary: f x w' rule: write_all_checked.induct)
  case (1 i len outs n w)
  note step = write_all_checked.simps [of i len outs n w]
  show ?case
  proof (cases "len = 0")
    case True
    with 1(2,3) show ?thesis unfolding step by (auto intro!: exI [of _ 0] exI [of _ "charged f"])
  next
    case False
    obtain y w1 where wr: "write_checked i len (outs n) w = (y, w1)" by fastforce
    from write_checked_cases [OF wr] show ?thesis
    proof (elim disjE)
      assume fail: "isl y \<and> (w1 = w \<or> (\<exists>c g. w1 = upd_shared c g w)
            \<or> (\<exists>pk. w1 = w\<lparr>temporary_peak_bytes := max (temporary_peak_bytes w) pk\<rparr>
                 \<and> pk \<le> max_temporary_bytes (limits w)))"
      then obtain e where e: "y = Inl e" by (auto simp: isl_def)
      with wr have "stops_with (outs n) e" by (auto dest: write_checked_stops)
      with 1(2,3) False wr fail e show ?thesis
        by (auto simp: step upd_shared_def intro!: exI [of _ 0] exI [of _ "charged f"])
    next
      assume "\<exists>f n' t pk ch. kv_get (files w) i = Some f \<and> is_open f \<and> outs n = Wrote n' \<and> y = Inr (min n' len)
         \<and> checkpoint (file_context f) w = (Inr (), w)
         \<and> unat t = unat (temporary_bytes w) + min n' len \<and> unat ch = unat (charged f) + min n' len
         \<and> t \<le> pk \<and> pk \<le> max_temporary_bytes (limits w)
         \<and> w1 = w\<lparr>temporary_bytes := t, temporary_peak_bytes := max (temporary_peak_bytes w) pk,
                  files := kv_put i (f\<lparr>charged := ch\<rparr>) (files w)\<rparr>"
      then obtain n' t ch where y: "y = Inr (min n' len)" and os: "outs n = Wrote n'"
        and t: "unat (temporary_bytes w1) = unat (temporary_bytes w) + min n' len"
        and ch: "unat ch = unat (charged f) + min n' len"
        and f1: "kv_get (files w1) i = Some (f\<lparr>charged := ch\<rparr>)"
        using 1(2) by auto
      show ?thesis
      proof (cases "min n' len = 0")
        case True
        with 1(3) False wr y have "x = Inl (ConversionError.Io ''temporary file write made no progress'')" "w' = w1"
          by (auto simp: step)
        with True False t ch f1 os show ?thesis
          by (intro exI [of _ 0] exI [of _ ch]) (simp add: stops_with_def min_def split: if_splits)
      next
        case nz: False
        with 1(3) False wr y have rest: "write_all_checked i (len - min n' len) outs (Suc n) w1 = (x, w')"
          by (simp add: step)
        from "1.IH" [OF False wr [symmetric] y nz f1 rest]
        obtain calls c where k: "\<forall>j < calls. progresses (outs (Suc n + j))"
          "kv_get (files w') i = Some (f\<lparr>charged := ch, charged := c\<rparr>)"
          "unat c = unat ch + bytes_taken outs (Suc n) calls (len - min n' len)"
          "unat (temporary_bytes w') = unat (temporary_bytes w1) + bytes_taken outs (Suc n) calls (len - min n' len)"
          "case x of Inr _ \<Rightarrow> bytes_taken outs (Suc n) calls (len - min n' len) = len - min n' len
             | Inl e \<Rightarrow> bytes_taken outs (Suc n) calls (len - min n' len) < len - min n' len
                 \<and> stops_with (outs (Suc n + calls)) e" by auto
        have "\<forall>j < Suc calls. progresses (outs (n + j))"
          using k(1) os nz by (auto simp: less_Suc_eq_0_disj progresses_def)
        with k t ch os show ?thesis
          by (intro exI [of _ "Suc calls"] exI [of _ c])
            (cases x; force simp: min_absorb1 min_def split: if_splits)
      qed
    qed
  qed
qed

definition demo_file :: world where
  "demo_file = snd (add_file demo_context ''/tmp/x'' demo_world)"

lemma demo_file_eq:
  "demo_file = demo_world\<lparr>disk := [''/tmp/x'', ''/tmp/old''], fresh := 1,
     files := [(0, \<lparr>file_context = demo_context, path = ''/tmp/x'', is_open = True, charged = 0\<rparr>)]\<rparr>"
  by (simp add: demo_file_def add_file_def demo_defs clone_context_def kv_put_def kv_del_def)

text \<open>The system takes four bytes of nine and then fails: four are charged.\<close>

theorem write_all_charges_what_was_written_witness:
  "\<exists>ch. kv_get (files (snd (write_all_checked 0 9 (\<lambda>n. if n = 0 then Wrote 4 else WriteFailed ''full'') 0 demo_file))) 0
      = Some (\<lparr>file_context = demo_context, path = ''/tmp/x'', is_open = True, charged = ch\<rparr>) \<and> unat ch = 4"
proof -
  let ?outs = "\<lambda>n :: nat. if n = 0 then Wrote 4 else WriteFailed ''full''"
  let ?f = "\<lparr>file_context = demo_context, path = ''/tmp/x'', is_open = True, charged = 0\<rparr>"
  have run: "fst (write_all_checked 0 9 ?outs 0 demo_file) = Inl (ConversionError.Io ''full'')"
    by (simp add: write_all_checked.simps [of 0 9 _ 0] write_all_checked.simps [of 0 5 _ "Suc 0"] write_checked_def
        demo_file_eq kv_get_def kv_put_def kv_del_def demo_defs checkpoint_def is_cancelled_def Let_def put_file_def
        checked_add_def charge_def checked_charge_def uncharge_def)
  have "kv_get (files demo_file) 0 = Some ?f" by (simp add: demo_file_eq kv_get_def)
  from write_all_charges_what_was_written [OF this surjective_pairing, where len = 9 and outs = ?outs and n = 0]
  obtain calls ch where c: "\<forall>j < calls. progresses (?outs (0 + j))"
    "kv_get (files (snd (write_all_checked 0 9 ?outs 0 demo_file))) 0 = Some (?f\<lparr>charged := ch\<rparr>)"
    "unat ch = unat (charged ?f) + bytes_taken ?outs 0 calls 9"
    "stops_with (?outs (0 + calls)) (ConversionError.Io ''full'')"
    unfolding run by auto
  have "calls \<noteq> 0" using c(4) by (intro notI) (simp add: stops_with_def)
  moreover have "\<not> 1 < calls"
    using c(1) [rule_format, of 1] by (auto simp: progresses_def)
  ultimately have "calls = Suc 0" by simp
  with c(2,3) show ?thesis by auto
qed

section \<open>Drop and persist\<close>

text \<open>
  Dropping a temporary file removes its path and \<open>persist\<close> keeps it; both release
  exactly the file's charge, forget the file, and leave every other path of the disk.
\<close>

lemma drop_removes_and_persist_keeps:
  assumes run: "exec_step\<^sup>*\<^sup>* (init_world l t ds cells) w"
    and f: "kv_get (files w) i = Some f" and named: "path f \<noteq> []"
  shows "set (disk (drop_file i w)) = set (disk w) - {path f}
    \<and> fst (persist i w) = Some (path f) \<and> disk (snd (persist i w)) = disk w
    \<and> (\<forall>w' \<in> {drop_file i w, snd (persist i w)}.
         unat (temporary_bytes w') = unat (temporary_bytes w) - unat (charged f)
         \<and> kv_get (files w') i = None \<and> memory_bytes w' = memory_bytes w)"
proof -
  have inv: "world_inv w" using execution.reachable_inv [OF run] by blast
  note P = accounts_parts [OF inv]
  have "charged f \<le> temporary_bytes w"
    using kv_sum_ge [OF P(10) f, of "\<lambda>f. unat (charged f)"] P(2)
    by (simp add: pools_ok_def word_le_nat_alt)
  with named show ?thesis
    by (auto simp: drop_file_world [OF f] persist_world [OF f] unat_minus_small)
qed

lemma drop_removes_and_persist_keeps_example:
  "set (disk (drop_file 0 demo_file)) = {''/tmp/old''}"
proof -
  have "exec_step demo_world demo_file"
    by (rule exec_step.file_created_at [where x = "Inr 0" and io = "\<lambda>_. None" and ee = "''x''" and p = "''/tmp/x''"
          and c = demo_context])
      (simp add: temporary_file_at_def open_new_def demo_file_def add_file_def checkpoint_def demo_defs is_cancelled_def)
  then have "exec_step\<^sup>*\<^sup>* (init_world default_limits 0 [''/tmp/old''] (\<lambda>_. demo_cell)) demo_file"
    unfolding demo_world_def by (rule r_into_rtranclp [of exec_step])
  from drop_removes_and_persist_keeps [OF this, of 0] show ?thesis
    by (simp add: demo_file_eq kv_get_def)
qed

end
