(* ===== verification/Adaptation.thy ===== *)
theory Adaptation
  imports File_Properties
begin

text \<open>
  \<open>crates/core/src/execution/adaptation.rs\<close> (soft limits a local run may raise once, inside the
  memory envelope) and the OCR telemetry of \<open>execution.rs\<close>, \<open>execution/resource_usage.rs\<close> and
  \<open>resource_usage.rs\<close>.
\<close>

section \<open>Soft limits\<close>

definition ceiling_of :: "AdaptiveResourceState \<Rightarrow> string \<Rightarrow> u64 option" where
  "ceiling_of a lim =
     (if enabled a then Some
        (if lim = ''max_decompressed_bytes'' then max_decompressed_bytes (ceilings a)
         else if lim = ''max_archive_entries'' then ucast (max_archive_entries (ceilings a))
         else if lim = ''max_pages'' then ucast (max_pages (ceilings a))
         else if lim = ''max_asset_bytes'' then max_asset_bytes (ceilings a)
         else if lim = ''max_total_asset_bytes'' then max_total_asset_bytes (ceilings a)
         else if lim = ''max_temporary_bytes'' then max_temporary_bytes (ceilings a)
         else if lim = ''max_table_rows'' then max_table_rows (ceilings a)
         else if lim = ''max_table_columns'' then max_table_columns (ceilings a)
         else if lim = ''max_table_cells'' then max_table_cells (ceilings a)
         else 0)
      else None)"

definition effective_soft_limit :: "ExecutionContext \<Rightarrow> string \<Rightarrow> u64 \<Rightarrow> world \<Rightarrow> u64" where
  "effective_soft_limit c lim configured w =
     (case kv_get (raised (adaptation (shareds w (shared c)))) lim of Some v \<Rightarrow> v | None \<Rightarrow> configured)"

definition try_raise_soft_limit ::
  "ExecutionContext \<Rightarrow> string \<Rightarrow> u64 \<Rightarrow> u64 \<Rightarrow> u64 \<Rightarrow> world \<Rightarrow> u64 option outcome \<times> world" where
  "try_raise_soft_limit c lim configured required additional_memory_required w =
     (case checkpoint c w of
        (Inl e, w1) \<Rightarrow> (Inl e, w1)
      | (Inr _, w1) \<Rightarrow>
        (let a = adaptation (shareds w1 (shared c)) in
         if required \<le> configured \<or> lim \<notin> set (implicit a)
            \<or> available_memory_bytes c w1 < additional_memory_required
         then (Inr None, w1)
         else
           (let ceiling = (case ceiling_of a lim of Some v \<Rightarrow> v | None \<Rightarrow> 0) in
            if lim \<in> set (attempted a) \<or> ceiling < required \<or> ceiling = 0 then (Inr None, w1)
            else (Inr (Some required),
              upd_shared (shared c)
                (adaptation_update (\<lambda>a. a\<lparr>attempted := lim # attempted a, raised := kv_put lim required (raised a)\<rparr>))
                w1))))"

lemma try_raise_cases:
  assumes "try_raise_soft_limit c lim cf rq extra w = (x, w')"
  obtains (kept) "\<And>v. x \<noteq> Inr (Some v)"
      "\<And>j. adaptation (shareds w' j) = adaptation (shareds w j)"
  | (raise) "x = Inr (Some rq)" "cf < rq" "lim \<in> set (implicit (adaptation (shareds w (shared c))))"
      "rq \<le> (case ceiling_of (adaptation (shareds w (shared c))) lim of Some v \<Rightarrow> v | None \<Rightarrow> 0)"
      "extra \<le> available_memory_bytes c w"
      "lim \<notin> set (attempted (adaptation (shareds w (shared c))))"
      "w' = upd_shared (shared c)
         (adaptation_update (\<lambda>a. a\<lparr>attempted := lim # attempted a, raised := kv_put lim rq (raised a)\<rparr>)) w"
proof (cases "checkpoint c w")
  case (Pair a w1)
  have adapt: "adaptation (shareds w1 j) = adaptation (shareds w j)" for j
    using Pair by (auto simp: checkpoint_def Let_def upd_shared_def split: if_splits)
  show thesis
  proof (cases a)
    case (Inl e)
    with assms Pair have "x = Inl e" "w' = w1" by (auto simp: try_raise_soft_limit_def)
    with kept adapt show ?thesis by simp
  next
    case (Inr u)
    with Pair checkpoint_Ok have "w1 = w" by auto
    with assms Pair Inr show ?thesis
      by (auto simp: try_raise_soft_limit_def Let_def not_le not_less intro: kept raise split: if_splits)
  qed
qed

text \<open>The requests of one context, in order, with their answers.\<close>

type_synonym raise_request = "string \<times> u64 \<times> u64 \<times> u64"

primrec run_raises ::
  "ExecutionContext \<Rightarrow> raise_request list \<Rightarrow> world \<Rightarrow> (string \<times> u64 option outcome) list \<times> world" where
  "run_raises c [] w = ([], w)"
| "run_raises c (q # qs) w =
     (case q of (lim, cf, rq, extra) \<Rightarrow>
       (case try_raise_soft_limit c lim cf rq extra w of
          (x, w') \<Rightarrow> (case run_raises c qs w' of (xs, w'') \<Rightarrow> ((lim, x) # xs, w''))))"

definition successes :: "string \<Rightarrow> (string \<times> u64 option outcome) list \<Rightarrow> u64 list" where
  "successes lim rs = concat (map (\<lambda>(l, x). case x of Inr (Some v) \<Rightarrow> if l = lim then [v] else [] | _ \<Rightarrow> []) rs)"

definition raised_matches :: "AdaptiveResourceState \<Rightarrow> bool" where
  "raised_matches a \<longleftrightarrow> (\<forall>l. l \<in> set (attempted a) \<longleftrightarrow> kv_get (raised a) l \<noteq> None)"

abbreviation adapted :: "ExecutionContext \<Rightarrow> world \<Rightarrow> AdaptiveResourceState" where
  "adapted c w \<equiv> adaptation (shareds w (shared c))"

lemma try_raise_step:
  assumes "try_raise_soft_limit c lim cf rq extra w = (x, w')" and "raised_matches (adapted c w)"
  shows "raised_matches (adapted c w')"
    and "ceiling_of (adapted c w') = ceiling_of (adapted c w)"
    and "kv_get (raised (adapted c w')) l =
      (case successes l [(lim, x)] of v # _ \<Rightarrow> Some v | [] \<Rightarrow> kv_get (raised (adapted c w)) l)"
    and "successes l [(lim, x)] \<noteq> [] \<Longrightarrow> kv_get (raised (adapted c w)) l = None \<and> l = lim
      \<and> successes l [(lim, x)] = [rq] \<and> (\<exists>m. ceiling_of (adapted c w) l = Some m \<and> rq \<le> m)"
  using assms(1)
  by (cases rule: try_raise_cases;
      use assms(2) in \<open>auto simp: raised_matches_def successes_def upd_shared_def ceiling_of_def fun_eq_iff
        split: sum.splits option.splits if_splits\<close>)+

lemma successes_Cons: "successes l (r # rs) = successes l [r] @ successes l rs"
  by (simp add: successes_def)

lemma run_raises_once:
  assumes "run_raises c qs w = (rs, w')" and "raised_matches (adapted c w)"
  shows "length (successes l rs) \<le> (if kv_get (raised (adapted c w)) l = None then 1 else 0)
    \<and> kv_get (raised (adapted c w')) l =
      (case successes l rs of v # _ \<Rightarrow> Some v | [] \<Rightarrow> kv_get (raised (adapted c w)) l)
    \<and> list_all (\<lambda>v. \<exists>m. ceiling_of (adapted c w) l = Some m \<and> v \<le> m) (successes l rs)"
  using assms
proof (induction qs arbitrary: w rs)
  case Nil
  then show ?case by (simp add: successes_def)
next
  case (Cons q qs)
  obtain lim cf rq extra where q: "q = (lim, cf, rq, extra)" by (cases q)
  obtain x w1 where s: "try_raise_soft_limit c lim cf rq extra w = (x, w1)" by fastforce
  obtain rs1 where r: "run_raises c qs w1 = (rs1, w')" "rs = (lim, x) # rs1"
    using Cons.prems(1) q s by (auto split: prod.splits)
  note T = try_raise_step [OF s Cons.prems(2)]
  note IH = Cons.IH [OF r(1) T(1)]
  have split: "successes l rs = successes l [(lim, x)] @ successes l rs1"
    unfolding r(2) by (rule successes_Cons)
  show ?case
  proof (cases "successes l [(lim, x)]")
    case Nil
    then have "kv_get (raised (adapted c w1)) l = kv_get (raised (adapted c w)) l" using T(3) [of l] by simp
    with Nil IH T(2) show ?thesis unfolding split by (auto split: list.splits)
  next
    case (Cons v vs)
    with T(4) [of l] have one: "successes l [(lim, x)] = [rq]" "kv_get (raised (adapted c w)) l = None"
      "\<exists>m. ceiling_of (adapted c w) l = Some m \<and> rq \<le> m" by auto
    with IH T(3) have "successes l rs1 = []" by (auto split: list.splits if_splits)
    with one IH T(3) show ?thesis unfolding split by (simp add: one)
  qed
qed

text \<open>
  Claim C13: a soft limit is raised at most once per request and never above the machine's
  ceiling. Over any sequence of preflight requests on a new context, each limit has at most one
  successful raise, the effective limit afterwards is that value (or still the configured one),
  and the value is within the ceiling of an enabled policy.
\<close>

theorem soft_limit_raised_at_most_once:
  assumes "attempted (adapted c w) = []" and "raised (adapted c w) = []"
    and "run_raises c qs w = (rs, w')"
  shows "length (successes lim rs) \<le> 1
    \<and> effective_soft_limit c lim configured w' = (case successes lim rs of v # _ \<Rightarrow> v | [] \<Rightarrow> configured)
    \<and> list_all (\<lambda>v. \<exists>m. ceiling_of (adapted c w) lim = Some m \<and> v \<le> m) (successes lim rs)"
  using run_raises_once [OF assms(3), of lim] assms(1,2)
  by (simp add: raised_matches_def effective_soft_limit_def split: list.splits)

definition demo_adaptive :: world where
  "demo_adaptive = upd_shared 0 (adaptation_update (\<lambda>a. a\<lparr>implicit := [''max_pages''], enabled := True,
     ceilings := default_limits\<lparr>max_pages := 500\<rparr>\<rparr>)) demo_world"

theorem soft_limit_raised_at_most_once_witness:
  "effective_soft_limit demo_context ''max_pages'' 100
     (snd (run_raises demo_context [(''max_pages'', 100, 300, 0), (''max_pages'', 300, 400, 0)] demo_adaptive)) = 300
   \<and> length (successes ''max_pages''
     (fst (run_raises demo_context [(''max_pages'', 100, 300, 0), (''max_pages'', 300, 400, 0)] demo_adaptive))) \<le> 1"
proof
  let ?run = "run_raises demo_context [(''max_pages'', 100, 300, 0), (''max_pages'', 300, 400, 0)] demo_adaptive"
  have start: "attempted (adapted demo_context demo_adaptive) = []" "raised (adapted demo_context demo_adaptive) = []"
    by (simp_all add: demo_adaptive_def upd_shared_def demo_defs)
  show "effective_soft_limit demo_context ''max_pages'' 100 (snd ?run) = 300"
    by (simp add: demo_adaptive_def upd_shared_def demo_defs try_raise_soft_limit_def checkpoint_def is_cancelled_def
        Let_def ceiling_of_def available_memory_bytes_def effective_soft_limit_def)
  show "length (successes ''max_pages'' (fst ?run)) \<le> 1"
    using soft_limit_raised_at_most_once [OF start surjective_pairing, of "''max_pages''"] by blast
qed

section \<open>OCR telemetry\<close>

record OcrRuntimeUsageDto =
  image_sources :: u64
  images_attempted :: u64
  images_completed :: u64
  images_with_text :: u64
  images_failed :: u64
  images_skipped :: u64
  requests :: u64
  recognition_memory_refusals :: u64
  worker_budget_min_bytes :: u64
  worker_budget_max_bytes :: u64

record OcrAccounting =
  runtime :: OcrRuntimeUsageDto
  recognized_regions :: u64
  recognized_chars :: u64

definition default_ocr_accounting :: OcrAccounting where
  "default_ocr_accounting = \<lparr>runtime = \<lparr>image_sources = 0, images_attempted = 0, images_completed = 0,
     images_with_text = 0, images_failed = 0, images_skipped = 0, requests = 0, recognition_memory_refusals = 0,
     worker_budget_min_bytes = 0, worker_budget_max_bytes = 0\<rparr>, recognized_regions = 0, recognized_chars = 0\<rparr>"

definition record_ocr_images :: "u64 \<Rightarrow> u64 \<Rightarrow> u64 \<Rightarrow> u64 \<Rightarrow> OcrAccounting \<Rightarrow> OcrAccounting" where
  "record_ocr_images recognized with_text failed skipped o' =
     (let u = runtime o' in o'\<lparr>runtime := u\<lparr>
        image_sources := saturating_add (image_sources u) (saturating_add (saturating_add recognized failed) skipped),
        images_attempted := saturating_add (images_attempted u) (saturating_add recognized failed),
        images_completed := saturating_add (images_completed u) recognized,
        images_with_text := saturating_add (images_with_text u) (min with_text recognized),
        images_failed := saturating_add (images_failed u) failed,
        images_skipped := saturating_add (images_skipped u) skipped\<rparr>\<rparr>)"

definition record_ocr_request :: "u64 \<Rightarrow> OcrAccounting \<Rightarrow> OcrAccounting" where
  "record_ocr_request n o' =
     (let u = runtime o'; rq = saturating_add (requests u) 1 in o'\<lparr>runtime := u\<lparr>
        requests := rq,
        worker_budget_min_bytes := (if rq = 1 then n else min (worker_budget_min_bytes u) n),
        worker_budget_max_bytes := max (worker_budget_max_bytes u) n\<rparr>\<rparr>)"

definition record_ocr_memory_refusal :: "OcrAccounting \<Rightarrow> OcrAccounting" where
  "record_ocr_memory_refusal o' =
     (let u = runtime o' in o'\<lparr>runtime :=
        u\<lparr>recognition_memory_refusals := saturating_add (recognition_memory_refusals u) 1\<rparr>\<rparr>)"

definition record_ocr_contribution :: "u64 \<Rightarrow> u64 \<Rightarrow> OcrAccounting \<Rightarrow> unit outcome \<times> OcrAccounting" where
  "record_ocr_contribution regions characters o' =
     (if regions = 0 \<and> characters = 0 then (Inr (), o')
      else if regions = 0 \<or> characters = 0 then
        (Inl (Internal ''OCR contribution regions and characters must both be positive''), o')
      else case checked_add (recognized_regions o') regions of
        None \<Rightarrow> (Inl (ResourceLimit ''max_archive_entries'' ''OCR region telemetry overflow''), o')
      | Some rr \<Rightarrow>
        (case checked_add (recognized_chars o') characters of
           None \<Rightarrow> (Inl (ResourceLimit ''max_field_bytes'' ''OCR character telemetry overflow''), o')
         | Some rc \<Rightarrow> (Inr (), o'\<lparr>recognized_regions := rr, recognized_chars := rc\<rparr>)))"

datatype ocr_event =
  Images u64 u64 u64 u64 | Request u64 | MemoryRefusal | Contribution u64 u64

fun ocr_apply :: "OcrAccounting \<Rightarrow> ocr_event \<Rightarrow> OcrAccounting" where
  "ocr_apply o' (Images c t f s) = record_ocr_images c t f s o'"
| "ocr_apply o' (Request n) = record_ocr_request n o'"
| "ocr_apply o' MemoryRefusal = record_ocr_memory_refusal o'"
| "ocr_apply o' (Contribution r c) = snd (record_ocr_contribution r c o')"

text \<open>Saturated sums: the value a saturating counter holds is the true sum cut at the word's maximum.\<close>

fun images_in :: "(u64 \<Rightarrow> u64 \<Rightarrow> u64 \<Rightarrow> u64 \<Rightarrow> nat) \<Rightarrow> ocr_event \<Rightarrow> nat" where
  "images_in f (Images a b c d) = f a b c d"
| "images_in f _ = 0"

definition requests_of :: "ocr_event list \<Rightarrow> u64 list" where
  "requests_of es = concat (map (\<lambda>e. case e of Request n \<Rightarrow> [n] | _ \<Rightarrow> []) es)"

abbreviation saturated :: "nat \<Rightarrow> nat" where
  "saturated n \<equiv> min n (2 ^ 64 - 1)"

definition ocr_exact :: "ocr_event list \<Rightarrow> OcrAccounting \<Rightarrow> bool" where
  "ocr_exact es o' \<longleftrightarrow>
     (let u = runtime o'; total = (\<lambda>f. saturated (sum_list (map (images_in f) es))) in
      unat (image_sources u) = total (\<lambda>c t f s. unat c + unat f + unat s)
      \<and> unat (images_attempted u) = total (\<lambda>c t f s. unat c + unat f)
      \<and> unat (images_completed u) = total (\<lambda>c t f s. unat c)
      \<and> unat (images_with_text u) = total (\<lambda>c t f s. min (unat t) (unat c))
      \<and> unat (images_failed u) = total (\<lambda>c t f s. unat f)
      \<and> unat (images_skipped u) = total (\<lambda>c t f s. unat s)
      \<and> unat (requests u) = saturated (length (requests_of es))
      \<and> (requests_of es \<noteq> [] \<longrightarrow>
           worker_budget_min_bytes u = Min (set (requests_of es)) \<and> worker_budget_max_bytes u = Max (set (requests_of es)))
      \<and> (requests_of es = [] \<longrightarrow> worker_budget_min_bytes u = 0 \<and> worker_budget_max_bytes u = 0))"

lemma ocr_exact_start: "ocr_exact [] default_ocr_accounting"
  by (simp add: ocr_exact_def default_ocr_accounting_def requests_of_def)

lemma saturated_plus:
  "unat (x::u64) = saturated n \<Longrightarrow> unat y = saturated m \<Longrightarrow> unat (saturating_add x y) = saturated (n + m)"
  by (simp add: unat_saturating_add min_def split: if_splits)

lemma saturated_self: "unat (x::u64) = saturated (unat x)"
  using unat_less_2p [of x] by simp

lemma saturated_min: "unat (min (x::u64) y) = saturated (min (unat x) (unat y))"
  using saturated_self [of "min x y"] by (simp only: unat_min)

lemmas saturated_rules = saturated_plus saturated_min saturated_self

lemma images_in_snoc:
  "sum_list (map (images_in f) (es @ [Images a b c d])) = sum_list (map (images_in f) es) + f a b c d"
  by simp

lemma ocr_exact_step: "ocr_exact es o' \<Longrightarrow> ocr_exact (es @ [e]) (ocr_apply o' e)"
proof (cases e)
  case (Images c t f s)
  assume ok: "ocr_exact es o'"
  let ?u = "runtime o'"
  let ?S = "\<lambda>f. sum_list (map (images_in f) es)"
  have old: "unat (image_sources ?u) = saturated (?S (\<lambda>c t f s. unat c + unat f + unat s))"
    "unat (images_attempted ?u) = saturated (?S (\<lambda>c t f s. unat c + unat f))"
    "unat (images_completed ?u) = saturated (?S (\<lambda>c t f s. unat c))"
    "unat (images_with_text ?u) = saturated (?S (\<lambda>c t f s. min (unat t) (unat c)))"
    "unat (images_failed ?u) = saturated (?S (\<lambda>c t f s. unat f))"
    "unat (images_skipped ?u) = saturated (?S (\<lambda>c t f s. unat s))"
    using ok by (simp_all add: ocr_exact_def Let_def)
  have src: "unat (saturating_add (saturating_add c f) s) = saturated (unat c + unat f + unat s)"
    and att: "unat (saturating_add c f) = saturated (unat c + unat f)"
    by (intro saturated_plus saturated_self)+
  note new = saturated_plus [OF old(1) src] saturated_plus [OF old(2) att]
    saturated_plus [OF old(3) saturated_self [of c]] saturated_plus [OF old(4) saturated_min [of t c]]
    saturated_plus [OF old(5) saturated_self [of f]] saturated_plus [OF old(6) saturated_self [of s]]
  have rq: "requests_of (es @ [Images c t f s]) = requests_of es" by (simp add: requests_of_def)
  have fields: "runtime (ocr_apply o' (Images c t f s)) = ?u\<lparr>
      image_sources := saturating_add (image_sources ?u) (saturating_add (saturating_add c f) s),
      images_attempted := saturating_add (images_attempted ?u) (saturating_add c f),
      images_completed := saturating_add (images_completed ?u) c,
      images_with_text := saturating_add (images_with_text ?u) (min t c),
      images_failed := saturating_add (images_failed ?u) f,
      images_skipped := saturating_add (images_skipped ?u) s\<rparr>"
    by (simp add: record_ocr_images_def Let_def)
  show ?thesis
    using ok unfolding ocr_exact_def Let_def Images images_in_snoc rq fields
    by (simp add: new)
next
  case (Request n)
  assume ok: "ocr_exact es o'"
  let ?rs = "requests_of es"
  have rs: "requests_of (es @ [e]) = ?rs @ [n]" by (simp add: Request requests_of_def)
  have none: "sum_list (map (images_in g) (es @ [e])) = sum_list (map (images_in g) es)" for g
    by (simp add: Request)
  let ?rq = "saturating_add (requests (runtime o')) 1"
  have rq: "unat ?rq = saturated (length ?rs + 1)"
    using ok by (intro saturated_plus) (simp_all add: ocr_exact_def Let_def)
  then have one: "?rq = 1 \<longleftrightarrow> ?rs = []"
    by (auto simp: word_unat_eq_iff min_def split: if_splits)
  have "worker_budget_min_bytes (runtime (ocr_apply o' e)) = Min (set (?rs @ [n]))
      \<and> worker_budget_max_bytes (runtime (ocr_apply o' e)) = Max (set (?rs @ [n]))"
    using ok one by (cases "?rs = []")
      (auto simp: Request record_ocr_request_def Let_def ocr_exact_def min.commute max.commute)
  with ok rq show ?thesis
    unfolding ocr_exact_def Let_def none rs by (simp add: Request record_ocr_request_def Let_def)
next
  case MemoryRefusal
  assume "ocr_exact es o'"
  with MemoryRefusal show ?thesis
    by (simp add: ocr_exact_def Let_def record_ocr_memory_refusal_def requests_of_def)
next
  case (Contribution r c)
  assume "ocr_exact es o'"
  moreover have "runtime (snd (record_ocr_contribution r c o')) = runtime o'"
    by (simp add: record_ocr_contribution_def split: option.splits)
  ultimately show ?thesis using Contribution
    by (simp add: ocr_exact_def Let_def requests_of_def)
qed

definition ocr_run :: "ocr_event list \<Rightarrow> OcrAccounting" where
  "ocr_run es = fold (\<lambda>e o'. ocr_apply o' e) es default_ocr_accounting"

text \<open>
  The OCR telemetry is the exact account of the events recorded, cut at the word's
  maximum: after any sequence of recordings the counters are the saturated sums, no worker counter
  exceeds the counter it is part of, the worker allowances are the extremes of the requests, and
  a rejected contribution changes nothing.
\<close>

lemma ocr_telemetry_is_exact:
  "ocr_exact es (ocr_run es)
    \<and> images_with_text (runtime (ocr_run es)) \<le> images_completed (runtime (ocr_run es))
    \<and> images_completed (runtime (ocr_run es)) \<le> images_attempted (runtime (ocr_run es))
    \<and> images_attempted (runtime (ocr_run es)) \<le> image_sources (runtime (ocr_run es))
    \<and> worker_budget_min_bytes (runtime (ocr_run es)) \<le> worker_budget_max_bytes (runtime (ocr_run es))
    \<and> (case record_ocr_contribution r c o' of (Inl e, o'') \<Rightarrow> o'' = o' | _ \<Rightarrow> True)"
proof -
  have exact: "ocr_exact es (ocr_run es)"
  proof (induction es rule: rev_induct)
    case Nil
    show ?case using ocr_exact_start by (simp add: ocr_run_def)
  next
    case (snoc e es)
    then show ?case using ocr_exact_step by (simp add: ocr_run_def)
  qed
  have mono: "saturated (sum_list (map (images_in f) es)) \<le> saturated (sum_list (map (images_in g) es))"
    if le: "\<And>a b c d. f a b c d \<le> g a b c d" for f g
  proof -
    have "images_in f e \<le> images_in g e" for e by (cases e) (simp_all add: le)
    then have "sum_list (map (images_in f) es) \<le> sum_list (map (images_in g) es)"
      by (intro sum_list_mono)
    then show ?thesis by (rule min.mono) simp
  qed
  have "images_with_text (runtime (ocr_run es)) \<le> images_completed (runtime (ocr_run es))"
    "images_completed (runtime (ocr_run es)) \<le> images_attempted (runtime (ocr_run es))"
    "images_attempted (runtime (ocr_run es)) \<le> image_sources (runtime (ocr_run es))"
    using exact unfolding ocr_exact_def Let_def word_le_nat_alt by (metis (lifting) mono min.cobounded2 le_add1)+
  moreover have "worker_budget_min_bytes (runtime (ocr_run es)) \<le> worker_budget_max_bytes (runtime (ocr_run es))"
    using exact by (cases "requests_of es = []")
      (auto simp: ocr_exact_def Let_def Min_le_iff intro: order_trans [OF Min_le Max_ge] dest: hd_in_set)
  moreover have "case record_ocr_contribution r c o' of (Inl e, o'') \<Rightarrow> o'' = o' | _ \<Rightarrow> True"
    by (simp add: record_ocr_contribution_def split: option.splits)
  ultimately show ?thesis using exact by blast
qed

end
