(* ===== verification/Floats.thy ===== *)
theory Floats
  imports Prelude
begin

unbundle bit_operations_syntax

text \<open>
  Rust's \<open>f32\<close> as its 32 bits (\<open>to_bits\<close>) and the little of IEEE 754 that \<open>crates/core/src/ir.rs\<close>
  uses: classification, comparison, \<open>min\<close>/\<open>max\<close>, subtraction in \<open>f32\<close>, and products and sums
  in \<open>f64\<close> with rounding to nearest, ties to even. What Rust leaves to the platform, the sign of
  a NaN that an operation creates and which zero \<open>min\<close> and \<open>max\<close> return, is a parameter.
\<close>

type_synonym f32 = "32 word"

record platform =
  nan_negative :: bool
  min_tie_left :: bool
  max_tie_left :: bool

section \<open>Values\<close>

text \<open>A value is \<open>(-1)^s * m * 2^e\<close> exactly, an infinity or a NaN.\<close>

datatype fval = Fin bool nat int | Inf bool | NaN bool

definition f32_negative :: "f32 \<Rightarrow> bool" where
  "f32_negative x = bit x 31"

definition f32_magnitude :: "f32 \<Rightarrow> nat" where
  "f32_magnitude x = unat (x AND 0x7FFFFFFF)"

definition f32_exponent :: "f32 \<Rightarrow> nat" where
  "f32_exponent x = f32_magnitude x div 2 ^ 23"

definition is_finite :: "f32 \<Rightarrow> bool" where
  "is_finite x \<longleftrightarrow> f32_exponent x < 255"

definition is_nan :: "f32 \<Rightarrow> bool" where
  "is_nan x \<longleftrightarrow> 0x7F800000 < f32_magnitude x"

text \<open>The order of the finite values and the infinities is the order of the signed magnitudes.\<close>

definition f32_key :: "f32 \<Rightarrow> int" where
  "f32_key x = (if f32_negative x then - int (f32_magnitude x) else int (f32_magnitude x))"

definition f32_less :: "f32 \<Rightarrow> f32 \<Rightarrow> bool" where
  "f32_less x y \<longleftrightarrow> \<not> is_nan x \<and> \<not> is_nan y \<and> f32_key x < f32_key y"

definition f32_le :: "f32 \<Rightarrow> f32 \<Rightarrow> bool" where
  "f32_le x y \<longleftrightarrow> \<not> is_nan x \<and> \<not> is_nan y \<and> f32_key x \<le> f32_key y"

definition f32_zero :: f32 where "f32_zero = 0"

definition f32_one :: f32 where "f32_one = 0x3F800000"

definition f32_360 :: f32 where "f32_360 = 0x43B40000"

definition f32_infinity :: f32 where "f32_infinity = 0x7F800000"

definition f32_neg_infinity :: f32 where "f32_neg_infinity = 0xFF800000"

definition f32_min :: "platform \<Rightarrow> f32 \<Rightarrow> f32 \<Rightarrow> f32" where
  "f32_min pf x y =
     (if is_nan x then y else if is_nan y then x
      else if f32_key x < f32_key y then x else if f32_key y < f32_key x then y
      else if min_tie_left pf then x else y)"

definition f32_max :: "platform \<Rightarrow> f32 \<Rightarrow> f32 \<Rightarrow> f32" where
  "f32_max pf x y =
     (if is_nan x then y else if is_nan y then x
      else if f32_key y < f32_key x then x else if f32_key x < f32_key y then y
      else if max_tie_left pf then x else y)"

definition f32_value :: "f32 \<Rightarrow> fval" where
  "f32_value x =
     (let s = f32_negative x; e = f32_exponent x; m = f32_magnitude x mod 2 ^ 23 in
      if e = 255 then (if m = 0 then Inf s else NaN s)
      else if e = 0 then Fin s m (- 149)
      else Fin s (2 ^ 23 + m) (int e - 150))"

section \<open>Rounding\<close>

fun bit_length :: "nat \<Rightarrow> nat" where
  "bit_length n = (if n = 0 then 0 else Suc (bit_length (n div 2)))"

declare bit_length.simps [simp del]

text \<open>
  Round \<open>(-1)^s * m * 2^e\<close> to \<open>p\<close> bits with least exponent \<open>lo\<close>; a result of at least \<open>2^hi\<close>
  is infinite.
\<close>

definition round_value :: "nat \<Rightarrow> int \<Rightarrow> int \<Rightarrow> bool \<Rightarrow> nat \<Rightarrow> int \<Rightarrow> fval" where
  "round_value p lo hi s m e =
     (if m = 0 then Fin s 0 lo
      else
        let t = max (e + int (bit_length m) - int p) lo in
        let q = (if t \<le> e then m * 2 ^ nat (e - t)
                 else
                   let d = nat (t - e); q = m div 2 ^ d; r = m mod 2 ^ d; half = 2 ^ (d - 1) in
                   if half < r \<or> r = half \<and> odd q then Suc q else q)
        in if int (bit_length q) + t > hi then Inf s else Fin s q t)"

definition round_f32 :: "bool \<Rightarrow> nat \<Rightarrow> int \<Rightarrow> fval" where
  "round_f32 = round_value 24 (- 149) 128"

definition round_f64 :: "bool \<Rightarrow> nat \<Rightarrow> int \<Rightarrow> fval" where
  "round_f64 = round_value 53 (- 1074) 1024"

definition signed_value :: "bool \<Rightarrow> nat \<Rightarrow> int" where
  "signed_value s m = (if s then - int m else int m)"

text \<open>An exact zero sum is negative only when both terms are negative zeros.\<close>

fun add_value :: "platform \<Rightarrow> (bool \<Rightarrow> nat \<Rightarrow> int \<Rightarrow> fval) \<Rightarrow> fval \<Rightarrow> fval \<Rightarrow> fval" where
  "add_value pf rnd (NaN s) _ = NaN s"
| "add_value pf rnd _ (NaN s) = NaN s"
| "add_value pf rnd (Inf s) (Inf t) = (if s = t then Inf s else NaN (nan_negative pf))"
| "add_value pf rnd (Inf s) _ = Inf s"
| "add_value pf rnd _ (Inf s) = Inf s"
| "add_value pf rnd (Fin s m e) (Fin t n f) =
     (let g = min e f;
          v = signed_value s m * 2 ^ nat (e - g) + signed_value t n * 2 ^ nat (f - g)
      in rnd (if v = 0 then s \<and> t else v < 0) (nat \<bar>v\<bar>) g)"

fun negate_value :: "fval \<Rightarrow> fval" where
  "negate_value (Fin s m e) = Fin (\<not> s) m e"
| "negate_value (Inf s) = Inf (\<not> s)"
| "negate_value (NaN s) = NaN s"

fun mul_value :: "platform \<Rightarrow> (bool \<Rightarrow> nat \<Rightarrow> int \<Rightarrow> fval) \<Rightarrow> fval \<Rightarrow> fval \<Rightarrow> fval" where
  "mul_value pf rnd (NaN s) _ = NaN s"
| "mul_value pf rnd _ (NaN s) = NaN s"
| "mul_value pf rnd (Inf s) (Inf t) = Inf (s \<noteq> t)"
| "mul_value pf rnd (Inf s) (Fin t n f) = (if n = 0 then NaN (nan_negative pf) else Inf (s \<noteq> t))"
| "mul_value pf rnd (Fin s m e) (Inf t) = (if m = 0 then NaN (nan_negative pf) else Inf (s \<noteq> t))"
| "mul_value pf rnd (Fin s m e) (Fin t n f) = rnd (s \<noteq> t) (m * n) (e + f)"

definition sub_f32 :: "platform \<Rightarrow> f32 \<Rightarrow> f32 \<Rightarrow> fval" where
  "sub_f32 pf x y = add_value pf round_f32 (f32_value x) (negate_value (f32_value y))"

text \<open>\<open>abs() <= f64::EPSILON\<close> with \<open>EPSILON = 2^-52\<close>; false of a NaN.\<close>

fun tiny :: "fval \<Rightarrow> bool" where
  "tiny (Fin s m e) = (if - 52 \<le> e then m = 0 \<or> m * 2 ^ nat (e + 52) \<le> 1 else m \<le> 2 ^ nat (- 52 - e))"
| "tiny _ = False"

fun value_positive :: "fval \<Rightarrow> bool" where
  "value_positive (Fin s m e) = (\<not> s)"
| "value_positive (Inf s) = (\<not> s)"
| "value_positive (NaN s) = (\<not> s)"

fun value_finite :: "fval \<Rightarrow> bool" where
  "value_finite (Fin s m e) = True"
| "value_finite _ = False"

text \<open>The bits of a value that \<open>round_f32\<close> produced (its mantissa has at most 24 bits).\<close>

fun f32_bits :: "fval \<Rightarrow> f32" where
  "f32_bits (Fin s m e) =
     of_nat ((if s then 2 ^ 31 else 0) +
       (if m = 0 then 0
        else let k = 24 - bit_length m; n = m * 2 ^ k; x = e - int k + 150 in
          if x \<le> 0 then m * 2 ^ nat (e + 149) else nat x * 2 ^ 23 + (n - 2 ^ 23)))"
| "f32_bits (Inf s) = (if s then f32_neg_infinity else f32_infinity)"
| "f32_bits (NaN s) = (if s then 0xFFC00000 else 0x7FC00000)"

section \<open>Checks on constants\<close>

lemmas f32_defs = f32_value_def f32_negative_def f32_exponent_def f32_magnitude_def

lemma f32_constants:
  "f32_value f32_one = Fin False (2 ^ 23) (- 23)" "f32_value f32_360 = Fin False (2 ^ 23 + 3407872) (- 15)"
  by (simp_all add: f32_defs f32_one_def f32_360_def)

lemma f32_bits_samples:
  "f32_bits (f32_value 0x3F800000) = 0x3F800000" "f32_bits (f32_value 0x80000001) = 0x80000001"
  "f32_bits (f32_value 0x7F7FFFFF) = 0x7F7FFFFF" "f32_bits (f32_value 0x80000000) = 0x80000000"
  by (simp_all add: f32_defs bit_length.simps)

lemma sub_f32_samples:
  "f32_bits (sub_f32 pf 0x42C80000 0x41200000) = 0x42B40000"
  "f32_bits (sub_f32 pf 0x3F800000 0x3F800000) = 0"
  by (simp_all add: sub_f32_def f32_defs bit_length.simps round_f32_def round_value_def signed_value_def Let_def)

lemma f32_le_trans: "f32_le x y \<Longrightarrow> f32_le y z \<Longrightarrow> f32_le x z"
  by (auto simp: f32_le_def)

lemma f32_less_le: "f32_less x y \<Longrightarrow> f32_le x y"
  by (simp add: f32_less_def f32_le_def)

lemma f32_le_total: "\<not> is_nan x \<Longrightarrow> \<not> is_nan y \<Longrightarrow> f32_le x y \<or> f32_less y x"
  by (auto simp: f32_less_def f32_le_def)

end
