(* ===== verification/Document_IR.thy ===== *)
theory Document_IR
  imports Strings Floats
begin

text \<open>
  The document intermediate representation of \<open>crates/core/src/ir.rs\<close> and
  \<open>crates/core/src/ir/locator.rs\<close>: every node, inline and provenance type, with the source's
  constructors and fields. Serialization attributes are not modelled.
\<close>

section \<open>Errors and limits\<close>

text \<open>Counts are 64-bit \<open>usize\<close>; the node and inline maxima are \<open>isize::MAX\<close> over the size of a node.\<close>

record ValidationLimits =
  max_depth :: nat
  max_nodes :: u64
  max_inlines :: u64
  max_json_bytes :: u64
  limit_table_columns :: nat

definition default_validation_limits :: "u64 \<Rightarrow> u64 \<Rightarrow> ValidationLimits" where
  "default_validation_limits document_nodes document_inlines =
     \<lparr>max_depth = 16, max_nodes = document_nodes, max_inlines = document_inlines,
      max_json_bytes = 64 * 1024 * 1024, limit_table_columns = 16384\<rparr>"

datatype IrErrorCode =
  InvalidJson | UnsupportedSchemaVersion | InvalidNode | InvalidProvenance | InvalidLocator
  | DuplicateNodeId | ResourceLimit

fun ir_error_code_as_str :: "IrErrorCode \<Rightarrow> string" where
  "ir_error_code_as_str InvalidJson = ''invalidJson''"
| "ir_error_code_as_str UnsupportedSchemaVersion = ''unsupportedSchemaVersion''"
| "ir_error_code_as_str InvalidNode = ''invalidNode''"
| "ir_error_code_as_str InvalidProvenance = ''invalidProvenance''"
| "ir_error_code_as_str InvalidLocator = ''invalidLocator''"
| "ir_error_code_as_str DuplicateNodeId = ''duplicateNodeId''"
| "ir_error_code_as_str ResourceLimit = ''resourceLimit''"

record IrError =
  ir_code :: IrErrorCode
  ir_path :: string
  ir_detail :: string

definition ir_error :: "IrErrorCode \<Rightarrow> string \<Rightarrow> string \<Rightarrow> IrError" where
  "ir_error c p d = \<lparr>ir_code = c, ir_path = p, ir_detail = d\<rparr>"

section \<open>Provenance\<close>

record Rect =
  rect_x :: f32
  rect_y :: f32
  rect_width :: f32
  rect_height :: f32

record SourcePoint =
  point_x :: f32
  point_y :: f32

record OcrSourceRegion =
  source_index :: u32
  polygon :: "SourcePoint \<times> SourcePoint \<times> SourcePoint \<times> SourcePoint"
  detection_confidence :: f32
  recognition_confidence :: f32

datatype OcrEvidenceStage = Detection | Recognition | Merge

record OcrEvidenceStep =
  step_stage :: OcrEvidenceStage
  step_provider :: string
  step_model :: "string option"

record OcrEvidence =
  evidence_page :: u32
  regions :: "OcrSourceRegion list"
  chain :: "OcrEvidenceStep list"

record CellRef =
  cell_row :: u32
  cell_column :: u32

record TimeRange =
  start_ms :: u64
  end_ms :: u64

record SourceLocator =
  byte_start :: "u64 option"
  byte_end :: "u64 option"
  page :: "u32 option"
  slide :: "u32 option"
  sheet :: "string option"
  cell :: "CellRef option"
  bounds :: "Rect option"
  character_index :: "u32 option"
  font_name :: "string option"
  font_size :: "f32 option"
  text_baseline :: "f32 option"
  rotation_degrees :: "f32 option"
  page_width :: "f32 option"
  page_height :: "f32 option"
  time :: "TimeRange option"
  part :: "string option"

definition default_locator :: SourceLocator where
  "default_locator = \<lparr>byte_start = None, byte_end = None, page = None, slide = None, sheet = None, cell = None,
     bounds = None, character_index = None, font_name = None, font_size = None, text_baseline = None,
     rotation_degrees = None, page_width = None, page_height = None, time = None, part = None\<rparr>"

record TimedToken =
  token_range :: TimeRange
  token_text :: string
  token_confidence :: "f32 option"
  token_speaker :: "string option"
  token_speaker_confidence :: "f32 option"

datatype ProvenanceKind = NativeParser | LocalOcr | AiProvider | Metadata | Postprocessor

record Provenance =
  prov_kind :: ProvenanceKind
  provider :: string
  locator :: SourceLocator
  confidence :: "f32 option"

section \<open>Inlines and blocks\<close>

datatype InlineMark = Bold | Italic | Strikethrough | Underline | Superscript | Subscript

datatype Inline =
  Text string "InlineMark list"
| SourceText string "InlineMark list" Provenance
| OcrText string "InlineMark list" Provenance OcrEvidence
| Code string
| Link string "Inline list"
| Formula string
| FootnoteReference string
| LineBreak

datatype ListKind = Bullet | Ordered | Task

datatype TableAlignment = AlignNone | AlignLeft | AlignCenter | AlignRight

datatype
  BlockNode = BlockNode (node_id: string) (node_block: Block) (node_provenance: Provenance)
and ListItem = ListItem (checked: "bool option") (marker_label: "string option") (item_blocks: "BlockNode list")
and Cell = Cell (row_span: u32) (column_span: u32) (header_cell: bool) (cell_blocks: "BlockNode list")
and TableRow = TableRow (cells: "Cell list")
and Block =
  Paragraph "Inline list"
| Heading u8 "Inline list"
| BlockList ListKind u64 "ListItem list"
| Table "TableRow list" "TableAlignment list"
| CodeBlock "string option" string
| BlockFormula string
| Footnote string "BlockNode list"
| Image string "string option"
| Page u32 "BlockNode list"
| Slide u32 "string option" "BlockNode list"
| Sheet string "BlockNode list"
| TimedSegment TimeRange "string option" "f32 option" "TimedToken list" "Inline list"
| Rule

section \<open>Documents\<close>

record Asset =
  asset_id :: string
  filename :: "string option"
  media_type :: string
  asset_bytes :: "u8 list"
  external_uri :: "string option"

record DocumentMetadata =
  title :: "string option"
  authors :: "string list"
  properties :: "(string, string) kv"

record Document =
  schema_version :: u32
  metadata :: DocumentMetadata
  blocks :: "BlockNode list"

definition DOCUMENT_SCHEMA_VERSION :: u32 where
  "DOCUMENT_SCHEMA_VERSION = 1"

definition default_document :: Document where
  "default_document = \<lparr>schema_version = DOCUMENT_SCHEMA_VERSION,
     metadata = \<lparr>title = None, authors = [], properties = []\<rparr>, blocks = []\<rparr>"

datatype DiagnosticSeverity = Info | Warning | Error

record Diagnostic =
  diagnostic_code :: string
  severity :: DiagnosticSeverity
  message :: string
  diagnostic_locator :: "SourceLocator option"

end
