(* ===== verification/IR_Validation.thy ===== *)
theory IR_Validation
  imports Document_IR "HOL-Library.List_Lexorder" "HOL-Library.Char_ord"
begin

text \<open>
  The validator of \<open>crates/core/src/ir.rs\<close>: \<open>validate_with_limits\<close> and everything it calls, in
  the order of its checks. The mutable \<open>ValidationState\<close> is passed along the successful path; an
  error ends the run, so its state is not needed.
\<close>

section \<open>State and small checks\<close>

type_synonym 'a checked = "IrError + 'a"

record ValidationState =
  vlimits :: ValidationLimits
  node_count :: u64
  inline_count :: u64
  node_ids :: "string list"
  footnotes :: "string list"
  footnote_references :: "string list"

definition new_state :: "ValidationLimits \<Rightarrow> ValidationState" where
  "new_state l = \<lparr>vlimits = l, node_count = 0, inline_count = 0, node_ids = [], footnotes = [],
     footnote_references = []\<rparr>"

definition invalid_node :: "string \<Rightarrow> string \<Rightarrow> 'a checked" where
  "invalid_node p d = Inl (ir_error InvalidNode p d)"

definition invalid_locator :: "string \<Rightarrow> string \<Rightarrow> 'a checked" where
  "invalid_locator p d = Inl (ir_error InvalidLocator p d)"

definition resource_limit :: "string \<Rightarrow> string \<Rightarrow> nat \<Rightarrow> 'a checked" where
  "resource_limit p lim maximum =
     Inl (ir_error ResourceLimit p (lim @ '' limit exceeded (maximum '' @ show_nat maximum @ '')''))"

definition at_index :: "string \<Rightarrow> nat \<Rightarrow> string" where
  "at_index p i = p @ ''['' @ show_nat i @ '']''"

definition consume_structural_node :: "string \<Rightarrow> ValidationState \<Rightarrow> ValidationState checked" where
  "consume_structural_node p st =
     (let n = saturating_add (node_count st) 1 in
      if n > max_nodes (vlimits st) then resource_limit p ''documentNodes'' (unat (max_nodes (vlimits st)))
      else Inr (st\<lparr>node_count := n\<rparr>))"

definition consume_inlines :: "u64 \<Rightarrow> string \<Rightarrow> ValidationState \<Rightarrow> ValidationState checked" where
  "consume_inlines k p st =
     (let n = saturating_add (inline_count st) k in
      if n > max_inlines (vlimits st) then resource_limit p ''documentInlines'' (unat (max_inlines (vlimits st)))
      else Inr (st\<lparr>inline_count := n\<rparr>))"

definition positive :: "u32 \<Rightarrow> string \<Rightarrow> string \<Rightarrow> unit checked" where
  "positive v p lab = (if v = 0 then invalid_node p (lab @ '' must be positive'') else Inr ())"

definition nonempty :: "string \<Rightarrow> string \<Rightarrow> string \<Rightarrow> unit checked" where
  "nonempty v p lab = (if blank v then invalid_node p (lab @ '' must not be empty'') else Inr ())"

definition has_control :: "string \<Rightarrow> bool" where
  "has_control s = list_ex is_control (chars s)"

definition unit_interval :: "f32 \<Rightarrow> bool" where
  "unit_interval v \<longleftrightarrow> is_finite v \<and> f32_le f32_zero v \<and> f32_le v f32_one"

definition holds_some :: "('a \<Rightarrow> bool) \<Rightarrow> 'a option \<Rightarrow> bool" where
  "holds_some P x = (case x of Some v \<Rightarrow> P v | None \<Rightarrow> False)"

lemma holds_some_simps [simp]: "holds_some P None = False" "holds_some P (Some v) = P v"
  by (simp_all add: holds_some_def)

section \<open>Locators and provenance\<close>

definition is_safe_container_part_name :: "string \<Rightarrow> bool" where
  "is_safe_container_part_name s =
     (let has_drive_prefix = (case s of c # d # _ \<Rightarrow> d = CHR '':'' \<and> is_ascii_alphabetic c | _ \<Rightarrow> False) in
      \<not> (s = [] \<or> (case s of c # _ \<Rightarrow> c = CHR ''/'' | [] \<Rightarrow> False) \<or> has_drive_prefix
         \<or> CHR 0x5C \<in> set s \<or> has_control s
         \<or> list_ex (\<lambda>seg. seg = [] \<or> seg = ''.'' \<or> seg = ''..'') (split_on (CHR ''/'') s)))"

definition validate_part_name :: "string \<Rightarrow> string \<Rightarrow> unit checked" where
  "validate_part_name s p =
     (if \<not> is_safe_container_part_name s then invalid_locator p ''part must be a safe container-relative path''
      else Inr ())"

definition validate_geometry :: "SourceLocator \<Rightarrow> string \<Rightarrow> unit checked" where
  "validate_geometry l p =
     (case find (\<lambda>(field, v). holds_some (\<lambda>x. \<not> is_finite x) v)
        [(''fontSize'', font_size l), (''textBaseline'', text_baseline l), (''rotationDegrees'', rotation_degrees l),
         (''pageWidth'', page_width l), (''pageHeight'', page_height l)] of
        Some (field, _) \<Rightarrow> invalid_locator (p @ ''.'' @ field) ''source geometry must be finite''
      | None \<Rightarrow> Inr ())"

definition validate_locator :: "SourceLocator \<Rightarrow> string \<Rightarrow> unit checked" where
  "validate_locator l p =
     (if (byte_start l = None) \<noteq> (byte_end l = None)
         \<or> (case (byte_start l, byte_end l) of (Some s, Some e) \<Rightarrow> e < s | _ \<Rightarrow> False) then
        invalid_locator (p @ ''.byteStart'')
          ''byteStart and byteEnd must be present together and form an ordered half-open range''
      else if page l = Some 0 then invalid_locator (p @ ''.page'') ''page numbers are one-based''
      else if slide l = Some 0 then invalid_locator (p @ ''.slide'') ''slide numbers are one-based''
      else if holds_some blank (sheet l) then invalid_locator (p @ ''.sheet'') ''worksheet name must not be empty''
      else if cell l \<noteq> None \<and> sheet l = None then
        invalid_locator (p @ ''.cell'') ''cell coordinates require a worksheet name''
      else if holds_some (\<lambda>b. \<not> is_finite (rect_x b) \<or> \<not> is_finite (rect_y b) \<or> \<not> is_finite (rect_width b)
          \<or> \<not> is_finite (rect_height b) \<or> f32_less (rect_width b) f32_zero \<or> f32_less (rect_height b) f32_zero)
          (bounds l) then
        invalid_locator (p @ ''.bounds'') ''bounds must be finite with non-negative dimensions''
      else and_then (validate_geometry l p) (\<lambda>_.
        if holds_some (\<lambda>v. f32_less v f32_zero) (font_size l) \<or> holds_some (\<lambda>v. f32_le v f32_zero) (page_width l)
           \<or> holds_some (\<lambda>v. f32_le v f32_zero) (page_height l) then
          invalid_locator p ''font size must be non-negative and page dimensions must be positive''
        else if holds_some (\<lambda>v. \<not> (f32_le f32_zero v \<and> f32_less v f32_360)) (rotation_degrees l) then
          invalid_locator (p @ ''.rotationDegrees'') ''rotation must be in the half-open range 0..360 degrees''
        else if holds_some (\<lambda>v. blank v \<or> has_control v) (font_name l) then
          invalid_locator (p @ ''.fontName'') ''font name must be non-empty and contain no control characters''
        else if holds_some (\<lambda>r. end_ms r \<le> start_ms r) (time l) then
          invalid_locator (p @ ''.time'') ''time range start must precede end''
        else case part l of Some s \<Rightarrow> validate_part_name s (p @ ''.part'') | None \<Rightarrow> Inr ()))"

definition validate_provenance :: "Provenance \<Rightarrow> string \<Rightarrow> unit checked" where
  "validate_provenance v p =
     (if blank (provider v) then
        Inl (ir_error InvalidProvenance (p @ ''.provider'') ''provider ID must not be empty'')
      else if holds_some (\<lambda>c. \<not> unit_interval c) (confidence v) then
        Inl (ir_error InvalidProvenance (p @ ''.confidence'') ''confidence must be finite and in 0.0..=1.0'')
      else validate_locator (locator v) (p @ ''.locator''))"

section \<open>OCR evidence\<close>

definition polygon_points :: "SourcePoint \<times> SourcePoint \<times> SourcePoint \<times> SourcePoint \<Rightarrow> SourcePoint list" where
  "polygon_points q = (case q of (a, b, c, d) \<Rightarrow> [a, b, c, d])"

definition corner_triples ::
  "SourcePoint \<times> SourcePoint \<times> SourcePoint \<times> SourcePoint \<Rightarrow> (SourcePoint \<times> SourcePoint \<times> SourcePoint) list" where
  "corner_triples q = (case q of (a, b, c, d) \<Rightarrow> [(a, b, c), (b, c, d), (c, d, a), (d, a, b)])"

definition corner_area :: "platform \<Rightarrow> SourcePoint \<Rightarrow> SourcePoint \<Rightarrow> fval" where
  "corner_area pf a b =
     add_value pf round_f64
       (mul_value pf round_f64 (f32_value (point_x a)) (f32_value (point_y b)))
       (negate_value (mul_value pf round_f64 (f32_value (point_y a)) (f32_value (point_x b))))"

definition corner_cross :: "platform \<Rightarrow> SourcePoint \<Rightarrow> SourcePoint \<Rightarrow> SourcePoint \<Rightarrow> fval" where
  "corner_cross pf a b c =
     add_value pf round_f64
       (mul_value pf round_f64 (sub_f32 pf (point_x b) (point_x a)) (sub_f32 pf (point_y c) (point_y b)))
       (negate_value
         (mul_value pf round_f64 (sub_f32 pf (point_y b) (point_y a)) (sub_f32 pf (point_x c) (point_x b))))"

fun polygon_loop ::
  "platform \<Rightarrow> string \<Rightarrow> int \<Rightarrow> fval \<Rightarrow> (SourcePoint \<times> SourcePoint \<times> SourcePoint) list \<Rightarrow> unit checked" where
  "polygon_loop pf p sign twice_area [] =
     (if \<not> value_finite twice_area \<or> tiny twice_area then invalid_node p ''OCR polygon must have positive area''
      else Inr ())"
| "polygon_loop pf p sign twice_area ((a, b, c) # ts) =
     (let area = add_value pf round_f64 twice_area (corner_area pf a b);
          cross = corner_cross pf a b c;
          current = (if value_positive cross then 1 else - 1) in
      if tiny cross then invalid_node p ''OCR polygon must be strictly convex''
      else if sign \<noteq> 0 \<and> sign \<noteq> current then invalid_node p ''OCR polygon must be convex and non-self-intersecting''
      else polygon_loop pf p current area ts)"

definition validate_source_polygon ::
  "platform \<Rightarrow> SourcePoint \<times> SourcePoint \<times> SourcePoint \<times> SourcePoint \<Rightarrow> string \<Rightarrow> unit checked" where
  "validate_source_polygon pf q p =
     (if list_ex (\<lambda>v. \<not> is_finite (point_x v) \<or> \<not> is_finite (point_y v)) (polygon_points q) then
        invalid_node p ''OCR polygon coordinates must be finite''
      else polygon_loop pf p 0 (Fin False 0 (- 1074)) (corner_triples q))"

fun ocr_regions_loop ::
  "platform \<Rightarrow> f32 \<Rightarrow> f32 \<Rightarrow> string \<Rightarrow> nat \<Rightarrow> u32 list \<Rightarrow> OcrSourceRegion list \<Rightarrow> unit checked" where
  "ocr_regions_loop pf w h p i seen [] = Inr ()"
| "ocr_regions_loop pf w h p i seen (r # rs) =
     (let rp = at_index (p @ ''.regions'') i in
      if source_index r \<in> set seen then
        invalid_node (rp @ ''.sourceIndex'') ''OCR source indexes must be unique within one evidence record''
      else if \<not> unit_interval (detection_confidence r) then
        invalid_node (rp @ ''.detectionConfidence'') ''OCR confidence must be finite and in 0.0..=1.0''
      else if \<not> unit_interval (recognition_confidence r) then
        invalid_node (rp @ ''.recognitionConfidence'') ''OCR confidence must be finite and in 0.0..=1.0''
      else and_then (validate_source_polygon pf (polygon r) (rp @ ''.polygon'')) (\<lambda>_.
        if list_ex (\<lambda>v. f32_less (point_x v) f32_zero \<or> f32_less (point_y v) f32_zero
             \<or> f32_less w (point_x v) \<or> f32_less h (point_y v)) (polygon_points (polygon r)) then
          invalid_node (rp @ ''.polygon'') ''OCR polygon must remain inside declared page dimensions''
        else ocr_regions_loop pf w h p (Suc i) (source_index r # seen) rs))"

definition validate_ocr_summary :: "platform \<Rightarrow> OcrEvidence \<Rightarrow> Rect \<Rightarrow> f32 \<Rightarrow> string \<Rightarrow> unit checked" where
  "validate_ocr_summary pf ev b conf p =
     (let points = concat (map (\<lambda>r. polygon_points (polygon r)) (regions ev));
          minimum_confidence = fold (\<lambda>r m. f32_min pf (f32_min pf m (detection_confidence r)) (recognition_confidence r))
            (regions ev) f32_one;
          minimum_x = fold (\<lambda>v m. f32_min pf m (point_x v)) points f32_infinity;
          minimum_y = fold (\<lambda>v m. f32_min pf m (point_y v)) points f32_infinity;
          maximum_x = fold (\<lambda>v m. f32_max pf m (point_x v)) points f32_neg_infinity;
          maximum_y = fold (\<lambda>v m. f32_max pf m (point_y v)) points f32_neg_infinity in
      if conf \<noteq> minimum_confidence then
        invalid_node p ''OCR provenance confidence must summarize every source region''
      else if rect_x b \<noteq> minimum_x \<or> rect_y b \<noteq> minimum_y
         \<or> rect_width b \<noteq> f32_bits (sub_f32 pf maximum_x minimum_x)
         \<or> rect_height b \<noteq> f32_bits (sub_f32 pf maximum_y minimum_y) then
        invalid_node p ''OCR provenance bounds must summarize every source polygon''
      else Inr ())"

fun ocr_chain_loop :: "string \<Rightarrow> nat \<Rightarrow> (OcrEvidenceStep \<times> OcrEvidenceStage) list \<Rightarrow> unit checked" where
  "ocr_chain_loop p i [] = Inr ()"
| "ocr_chain_loop p i ((s, expected) # rest) =
     (let sp = at_index (p @ ''.chain'') i in
      if step_stage s \<noteq> expected then invalid_node (sp @ ''.stage'') ''OCR evidence stages are unordered''
      else and_then (nonempty (step_provider s) (sp @ ''.provider'') ''OCR provider'') (\<lambda>_.
        if has_control (step_provider s) then
          invalid_node (sp @ ''.provider'') ''OCR provider must not contain control characters''
        else (case step_stage s of
            Merge \<Rightarrow>
              if step_model s \<noteq> None then
                invalid_node (sp @ ''.model'') ''deterministic OCR merge must not claim a model identity''
              else ocr_chain_loop p (Suc i) rest
          | _ \<Rightarrow>
              (case step_model s of
                 None \<Rightarrow> invalid_node (sp @ ''.model'') ''model-backed OCR stages require a model identity''
               | Some m \<Rightarrow>
                   if blank m then
                     invalid_node (sp @ ''.model'') ''model-backed OCR stages require a model identity''
                   else if has_control m then
                     invalid_node (sp @ ''.model'') ''OCR model identity must not contain control characters''
                   else ocr_chain_loop p (Suc i) rest))))"

definition validate_ocr_chain :: "OcrEvidence \<Rightarrow> string \<Rightarrow> unit checked" where
  "validate_ocr_chain ev p =
     (let stages = [Detection, Recognition, Merge] in
      if length (chain ev) \<noteq> length stages then
        invalid_node (p @ ''.chain'') ''OCR evidence chain must have three stages''
      else ocr_chain_loop p 0 (zip (chain ev) stages))"

definition validate_ocr_evidence ::
  "platform \<Rightarrow> OcrEvidence \<Rightarrow> Provenance \<Rightarrow> string \<Rightarrow> ValidationState \<Rightarrow> ValidationState checked" where
  "validate_ocr_evidence pf ev v p st =
     and_then (positive (evidence_page ev) (p @ ''.page'') ''OCR page'') (\<lambda>_.
       if prov_kind v \<noteq> LocalOcr \<or> page (locator v) \<noteq> Some (evidence_page ev) then
         invalid_node p ''OCR evidence requires local-OCR provenance on the same page''
       else if regions ev = [] then invalid_node (p @ ''.regions'') ''OCR evidence requires source regions''
       else (case (page_width (locator v), page_height (locator v), bounds (locator v), confidence v) of
           (Some w, Some h, Some b, Some conf) \<Rightarrow>
             (if (case chain ev of _ # s # _ \<Rightarrow> Some (step_provider s) | _ \<Rightarrow> None) \<noteq> Some (provider v) then
                invalid_node p ''OCR provenance provider must match recognition evidence''
              else and_then
                (let n = saturating_add (saturating_add (inline_count st) (of_nat (length (regions ev))))
                           (of_nat (length (chain ev))) in
                 if n > max_inlines (vlimits st) then
                   resource_limit p ''documentInlines'' (unat (max_inlines (vlimits st)))
                 else Inr (st\<lparr>inline_count := n\<rparr>)) (\<lambda>st'.
                and_then (ocr_regions_loop pf w h p 0 [] (regions ev)) (\<lambda>_.
                and_then (validate_ocr_summary pf ev b conf p) (\<lambda>_.
                and_then (validate_ocr_chain ev p) (\<lambda>_. Inr st')))))
         | _ \<Rightarrow> invalid_node p ''OCR provenance requires page dimensions, bounds, and confidence''))"

end
