(* ===== verification/IR_Blocks.thy ===== *)
theory IR_Blocks
  imports IR_Validation
begin

text \<open>
  The recursive half of the validator of \<open>crates/core/src/ir.rs\<close>: inlines, timed tokens, lists,
  tables and nested blocks, and \<open>Document::validate_with_limits\<close>.
\<close>

section \<open>Inlines\<close>

definition validate_inline_marks :: "InlineMark list \<Rightarrow> string \<Rightarrow> unit checked" where
  "validate_inline_marks marks p =
     (if card (set marks) \<noteq> length marks then invalid_node (p @ ''.data.marks'') ''text marks must be unique''
      else if Superscript \<in> set marks \<and> Subscript \<in> set marks then
        invalid_node (p @ ''.data.marks'') ''text cannot be both superscript and subscript''
      else Inr ())"

function validate_inlines ::
  "platform \<Rightarrow> string \<Rightarrow> bool \<Rightarrow> nat \<Rightarrow> Inline list \<Rightarrow> ValidationState \<Rightarrow> ValidationState checked" where
  "validate_inlines pf p inside_link i [] st = Inr st"
| "validate_inlines pf p inside_link i (x # xs) st =
     (let ip = at_index p i in
      and_then (consume_inlines 1 ip st) (\<lambda>st.
      and_then
        (case x of
           Text v marks \<Rightarrow> and_then (validate_inline_marks marks ip) (\<lambda>_. Inr st)
         | SourceText v marks prov \<Rightarrow>
             if length (chars v) \<noteq> 1 then
               invalid_node (ip @ ''.data.value'') ''source text must contain exactly one Unicode scalar''
             else and_then (validate_inline_marks marks ip) (\<lambda>_.
                  and_then (validate_provenance prov (ip @ ''.data.provenance'')) (\<lambda>_. Inr st))
         | OcrText v marks prov ev \<Rightarrow>
             and_then (nonempty v (ip @ ''.data.value'') ''OCR text'') (\<lambda>_.
             and_then (validate_inline_marks marks ip) (\<lambda>_.
             and_then (validate_provenance prov (ip @ ''.data.provenance'')) (\<lambda>_.
             validate_ocr_evidence pf ev prov (ip @ ''.data.evidence'') st)))
         | Code _ \<Rightarrow> Inr st
         | LineBreak \<Rightarrow> Inr st
         | Link target content \<Rightarrow>
             and_then (nonempty target (ip @ ''.data.target'') ''link target'') (\<lambda>_.
             if inside_link then invalid_node ip ''links must not be nested''
             else validate_inlines pf (ip @ ''.data.content'') True 0 content st)
         | Formula v \<Rightarrow> and_then (nonempty v (ip @ ''.data'') ''formula'') (\<lambda>_. Inr st)
         | FootnoteReference lab \<Rightarrow>
             and_then (nonempty lab (ip @ ''.data'') ''footnote reference'') (\<lambda>_.
             Inr (st\<lparr>footnote_references := List.insert lab (footnote_references st)\<rparr>)))
        (validate_inlines pf p inside_link (Suc i) xs)))"
  by pat_completeness auto
termination
  by (relation "measure (\<lambda>(pf, p, k, i, xs, st). size_list size xs)") auto

section \<open>Timed tokens\<close>

definition bad_label :: "string \<Rightarrow> bool" where
  "bad_label v \<longleftrightarrow> v = [] \<or> length v > 128 \<or> has_control v"

definition bad_token :: "TimeRange \<Rightarrow> u64 \<Rightarrow> TimedToken \<Rightarrow> bool" where
  "bad_token r previous_end t \<longleftrightarrow>
     start_ms (token_range t) < start_ms r \<or> end_ms (token_range t) > end_ms r
     \<or> end_ms (token_range t) \<le> start_ms (token_range t) \<or> start_ms (token_range t) < previous_end
     \<or> token_text t = [] \<or> length (token_text t) > 16 * 1024 \<or> CHR 0x00 \<in> set (token_text t)
     \<or> holds_some (\<lambda>c. \<not> unit_interval c) (token_confidence t)
     \<or> holds_some bad_label (token_speaker t)
     \<or> holds_some (\<lambda>c. \<not> unit_interval c) (token_speaker_confidence t)
     \<or> token_speaker t = None \<and> token_speaker_confidence t \<noteq> None"

fun tokens_loop :: "TimeRange \<Rightarrow> string \<Rightarrow> nat \<Rightarrow> u64 \<Rightarrow> nat \<Rightarrow> TimedToken list \<Rightarrow> nat checked" where
  "tokens_loop r p i previous_end n [] = Inr n"
| "tokens_loop r p i previous_end n (t # ts) =
     (let tp = at_index (p @ ''.data.tokens'') i in
      if bad_token r previous_end t then invalid_node tp ''timed token evidence is invalid''
      else if 2 ^ 64 \<le> n + length (token_text t) then
        Inl (ir_error ResourceLimit tp ''timed token text length overflowed'')
      else tokens_loop r p (Suc i) (end_ms (token_range t)) (n + length (token_text t)) ts)"

text \<open>The slice pattern \<open>[Inline::Text { value, marks }]\<close>.\<close>

definition single_text :: "Inline list \<Rightarrow> (string \<times> InlineMark list) option" where
  "single_text content =
     (if length content = 1 then (case hd content of Text v marks \<Rightarrow> Some (v, marks) | _ \<Rightarrow> None) else None)"

definition validate_timed_segment ::
  "string \<Rightarrow> TimeRange \<Rightarrow> string option \<Rightarrow> f32 option \<Rightarrow> TimedToken list \<Rightarrow> Inline list
     \<Rightarrow> ValidationState \<Rightarrow> ValidationState checked" where
  "validate_timed_segment p r speaker speaker_confidence tokens content st =
     (if end_ms r \<le> start_ms r then invalid_node (p @ ''.data.range'') ''time range start must precede end''
      else if holds_some bad_label speaker then
        invalid_node (p @ ''.data.speaker'') ''speaker label must be a bounded nonempty single line''
      else if holds_some (\<lambda>c. \<not> unit_interval c) speaker_confidence
         \<or> speaker = None \<and> speaker_confidence \<noteq> None then
        invalid_node (p @ ''.data.speakerConfidence'') ''speaker confidence must be finite and between zero and one''
      else and_then (consume_inlines (of_nat (length tokens)) (p @ ''.data.tokens'') st) (\<lambda>st'.
        and_then (tokens_loop r p 0 (start_ms r) 0 tokens) (\<lambda>n.
        if tokens = [] then Inr st'
        else case single_text content of
            Some (v, marks) \<Rightarrow>
              if marks \<noteq> [] \<or> length v \<noteq> n \<or> concat (map token_text tokens) \<noteq> v then
                invalid_node (p @ ''.data.tokens'') ''timed token text must exactly reproduce segment content''
              else if holds_some (\<lambda>s. list_ex (\<lambda>t. token_speaker t \<noteq> Some s) tokens) speaker then
                invalid_node (p @ ''.data.speaker'') ''segment speaker must match all token speaker evidence''
              else Inr st'
          | None \<Rightarrow> invalid_node (p @ ''.data.content'') ''timed token evidence requires one plain text inline'')))"

section \<open>Table geometry\<close>

text \<open>
  \<open>occupancy\<close> holds, per logical column, how many more rows (the current one included) a cell
  covers. One cell: skip the covered columns, check, then cover its own.
\<close>

definition skip_covered :: "nat list \<Rightarrow> nat \<Rightarrow> nat" where
  "skip_covered occ column = column + length (takeWhile (\<lambda>x. x > 0) (drop column occ))"

definition pad_to :: "nat list \<Rightarrow> nat \<Rightarrow> nat list" where
  "pad_to occ n = (if length occ < n then occ @ replicate (n - length occ) 0 else occ)"

definition place_cell ::
  "nat \<Rightarrow> nat option \<Rightarrow> string \<Rightarrow> u32 \<Rightarrow> u32 \<Rightarrow> nat list \<Rightarrow> nat \<Rightarrow> (nat list \<times> nat) checked" where
  "place_cell max_columns table_width cp rows_spanned columns_spanned occ column =
     (if rows_spanned = 0 \<or> columns_spanned = 0 then invalid_node (cp @ ''.rowSpan'') ''table spans must be positive''
      else
        let e = column + unat columns_spanned in
        if 2 ^ 64 \<le> e then Inl (ir_error ResourceLimit (cp @ ''.columnSpan'') ''logical table width overflowed'')
        else if e > max_columns then resource_limit (cp @ ''.columnSpan'') ''tableColumns'' max_columns
        else if holds_some (\<lambda>w. e > w) table_width then
          invalid_node (cp @ ''.columnSpan'') ''cell extends beyond the table's logical width''
        else if e \<le> length occ \<and> list_ex (\<lambda>x. x > 0) (take (e - column) (drop column occ)) then
          invalid_node (cp @ ''.columnSpan'') ''cell overlaps a row-spanning cell''
        else
          let o' = pad_to occ e in
          Inr (take column o' @ replicate (e - column) (unat rows_spanned) @ drop e o', e))"

definition close_row :: "string \<Rightarrow> nat list \<Rightarrow> nat option \<Rightarrow> (nat list \<times> nat option) checked" where
  "close_row rp occ table_width =
     (let w = (case table_width of Some w \<Rightarrow> w | None \<Rightarrow> length occ) in
      if w = 0 then invalid_node (rp @ ''.cells'') ''table must have a logical column''
      else if length occ \<noteq> w \<or> 0 \<in> set occ then invalid_node rp ''table rows must have the same logical width''
      else Inr (map (\<lambda>x. x - 1) occ, Some w))"

definition close_table :: "string \<Rightarrow> TableAlignment list \<Rightarrow> nat list \<Rightarrow> nat option \<Rightarrow> unit checked" where
  "close_table p alignments occ table_width =
     (if list_ex (\<lambda>x. x > 0) occ then
        invalid_node (p @ ''.data.rows'') ''row span extends beyond the final table row''
      else if alignments \<noteq> [] \<and> Some (length alignments) \<noteq> table_width then
        invalid_node (p @ ''.data.alignments'') ''table alignments must be empty or match the logical column count''
      else Inr ())"

section \<open>Blocks\<close>

definition enter_nodes :: "BlockNode list \<Rightarrow> string \<Rightarrow> nat \<Rightarrow> ValidationState \<Rightarrow> unit checked" where
  "enter_nodes ns p depth st =
     (if ns \<noteq> [] \<and> depth > max_depth (vlimits st) then
        resource_limit p ''documentDepth'' (max_depth (vlimits st))
      else Inr ())"

definition enter_node :: "string \<Rightarrow> Provenance \<Rightarrow> string \<Rightarrow> ValidationState \<Rightarrow> ValidationState checked" where
  "enter_node i prov np st =
     and_then (consume_structural_node np st) (\<lambda>st.
     if blank i then Inl (ir_error InvalidNode (np @ ''.id'') ''node ID must not be empty'')
     else if i \<in> set (node_ids st) then
       Inl (ir_error DuplicateNodeId (np @ ''.id'') (''duplicate node ID '' @ i))
     else and_then (validate_provenance prov (np @ ''.provenance'')) (\<lambda>_.
       Inr (st\<lparr>node_ids := i # node_ids st\<rparr>)))"

definition enter_list :: "ListKind \<Rightarrow> u64 \<Rightarrow> ListItem list \<Rightarrow> string \<Rightarrow> unit checked" where
  "enter_list k start items p =
     (if items = [] then invalid_node (p @ ''.data.items'') ''list must contain an item''
      else if k = Ordered \<and> start = 0 then invalid_node (p @ ''.data.start'') ''ordered list start must be positive''
      else Inr ())"

definition enter_item :: "ListKind \<Rightarrow> bool option \<Rightarrow> string \<Rightarrow> ValidationState \<Rightarrow> ValidationState checked" where
  "enter_item k ch ip st =
     and_then (consume_structural_node ip st) (\<lambda>st.
     if (k = Task) \<noteq> (ch \<noteq> None) then
       invalid_node (ip @ ''.checked'') ''checked must be present only for task-list items''
     else Inr st)"

definition enter_footnote :: "string \<Rightarrow> string \<Rightarrow> ValidationState \<Rightarrow> ValidationState checked" where
  "enter_footnote lab p st =
     and_then (nonempty lab (p @ ''.data.label'') ''footnote label'') (\<lambda>_.
     if lab \<in> set (footnotes st) then
       invalid_node (p @ ''.data.label'') (''duplicate footnote label '' @ lab)
     else Inr (st\<lparr>footnotes := lab # footnotes st\<rparr>))"

function (sequential)
  validate_nodes :: "platform \<Rightarrow> string \<Rightarrow> nat \<Rightarrow> nat \<Rightarrow> BlockNode list \<Rightarrow> ValidationState \<Rightarrow> ValidationState checked"
and validate_block :: "platform \<Rightarrow> string \<Rightarrow> nat \<Rightarrow> Block \<Rightarrow> ValidationState \<Rightarrow> ValidationState checked"
and validate_items ::
  "platform \<Rightarrow> string \<Rightarrow> ListKind \<Rightarrow> nat \<Rightarrow> nat \<Rightarrow> ListItem list \<Rightarrow> ValidationState \<Rightarrow> ValidationState checked"
and validate_rows ::
  "platform \<Rightarrow> string \<Rightarrow> nat \<Rightarrow> nat \<Rightarrow> nat list \<Rightarrow> nat option \<Rightarrow> TableRow list \<Rightarrow> ValidationState
     \<Rightarrow> (nat list \<times> nat option \<times> ValidationState) checked"
and validate_cells ::
  "platform \<Rightarrow> string \<Rightarrow> nat \<Rightarrow> nat \<Rightarrow> nat option \<Rightarrow> nat list \<Rightarrow> nat \<Rightarrow> Cell list \<Rightarrow> ValidationState
     \<Rightarrow> (nat list \<times> ValidationState) checked"
where
  "validate_nodes pf p depth i [] st = Inr st"
| "validate_nodes pf p depth i (BlockNode nid blk prov # ns) st =
     (let np = at_index p i in
      and_then (enter_node nid prov np st) (\<lambda>st.
      and_then (validate_block pf (np @ ''.block'') depth blk st)
        (validate_nodes pf p depth (Suc i) ns)))"
| "validate_block pf p depth (Paragraph content) st = validate_inlines pf (p @ ''.data'') False 0 content st"
| "validate_block pf p depth (Heading level content) st =
     (if \<not> (1 \<le> level \<and> level \<le> 6) then invalid_node (p @ ''.data.level'') ''heading level must be 1..=6''
      else validate_inlines pf (p @ ''.data.content'') False 0 content st)"
| "validate_block pf p depth (BlockList k start items) st =
     and_then (enter_list k start items p) (\<lambda>_. validate_items pf p k depth 0 items st)"
| "validate_block pf p depth (Table rows alignments) st =
     (if rows = [] then invalid_node (p @ ''.data.rows'') ''table must contain a row''
      else and_then (validate_rows pf p depth 0 [] None rows st) (\<lambda>r. case r of (occ, w, st) \<Rightarrow>
        and_then (close_table p alignments occ w) (\<lambda>_. Inr st)))"
| "validate_block pf p depth (CodeBlock language _) st =
     (if holds_some blank language then invalid_node (p @ ''.data.language'') ''code language must not be empty''
      else Inr st)"
| "validate_block pf p depth (BlockFormula v) st = and_then (nonempty v (p @ ''.data'') ''formula'') (\<lambda>_. Inr st)"
| "validate_block pf p depth (Footnote lab bs) st =
     and_then (enter_footnote lab p st) (\<lambda>st.
     and_then (enter_nodes bs (p @ ''.data.blocks'') (Suc depth) st) (\<lambda>_.
     validate_nodes pf (p @ ''.data.blocks'') (Suc depth) 0 bs st))"
| "validate_block pf p depth (Image a _) st = and_then (nonempty a (p @ ''.data.asset'') ''asset ID'') (\<lambda>_. Inr st)"
| "validate_block pf p depth (Page n bs) st =
     and_then (positive n (p @ ''.data.number'') ''page number'') (\<lambda>_.
     and_then (enter_nodes bs (p @ ''.data.blocks'') (Suc depth) st) (\<lambda>_.
     validate_nodes pf (p @ ''.data.blocks'') (Suc depth) 0 bs st))"
| "validate_block pf p depth (Slide n _ bs) st =
     and_then (positive n (p @ ''.data.number'') ''slide number'') (\<lambda>_.
     and_then (enter_nodes bs (p @ ''.data.blocks'') (Suc depth) st) (\<lambda>_.
     validate_nodes pf (p @ ''.data.blocks'') (Suc depth) 0 bs st))"
| "validate_block pf p depth (Sheet n bs) st =
     and_then (nonempty n (p @ ''.data.name'') ''worksheet name'') (\<lambda>_.
     and_then (enter_nodes bs (p @ ''.data.blocks'') (Suc depth) st) (\<lambda>_.
     validate_nodes pf (p @ ''.data.blocks'') (Suc depth) 0 bs st))"
| "validate_block pf p depth (TimedSegment r speaker speaker_confidence tokens content) st =
     and_then (validate_timed_segment p r speaker speaker_confidence tokens content st) (\<lambda>st.
     validate_inlines pf (p @ ''.data.content'') False 0 content st)"
| "validate_block pf p depth Rule st = Inr st"
| "validate_items pf p k depth i [] st = Inr st"
| "validate_items pf p k depth i (ListItem ch lab bs # items) st =
     (let ip = at_index (p @ ''.data.items'') i in
      and_then (enter_item k ch ip st) (\<lambda>st.
      and_then (enter_nodes bs (ip @ ''.blocks'') (Suc depth) st) (\<lambda>_.
      and_then (validate_nodes pf (ip @ ''.blocks'') (Suc depth) 0 bs st)
        (validate_items pf p k depth (Suc i) items))))"
| "validate_rows pf p depth i occ w [] st = Inr (occ, w, st)"
| "validate_rows pf p depth i occ w (TableRow cs # rows) st =
     (let rp = at_index (p @ ''.data.rows'') i in
      and_then (consume_structural_node rp st) (\<lambda>st.
      and_then (validate_cells pf rp depth 0 w occ 0 cs st) (\<lambda>r. case r of (occ, st) \<Rightarrow>
      and_then (close_row rp occ w) (\<lambda>q. case q of (occ, w) \<Rightarrow>
      validate_rows pf p depth (Suc i) occ w rows st))))"
| "validate_cells pf rp depth i w occ column [] st = Inr (occ, st)"
| "validate_cells pf rp depth i w occ column (Cell rs cs _ bs # rest) st =
     (let cp = at_index (rp @ ''.cells'') i in
      and_then (consume_structural_node cp st) (\<lambda>st.
      and_then (place_cell (limit_table_columns (vlimits st)) w cp rs cs occ (skip_covered occ column))
        (\<lambda>r. case r of (occ, column) \<Rightarrow>
      and_then (enter_nodes bs (cp @ ''.blocks'') (Suc depth) st) (\<lambda>_.
      and_then (validate_nodes pf (cp @ ''.blocks'') (Suc depth) 0 bs st)
        (validate_cells pf rp depth (Suc i) w occ column rest)))))"
  by pat_completeness auto
termination
  by (relation "measure (case_sum
        (case_sum (\<lambda>(pf, p, depth, i, ns, st). size_list size ns) (\<lambda>(pf, p, depth, b, st). size b))
        (case_sum (\<lambda>(pf, p, k, depth, i, items, st). size_list size items)
          (case_sum (\<lambda>(pf, p, depth, i, occ, w, rows, st). size_list size rows)
            (\<lambda>(pf, rp, depth, i, w, occ, column, cls, st). size_list size cls))))") auto

text \<open>\<open>difference(..).next()\<close> of the two ordered sets is their least difference.\<close>

definition undefined_reference :: "ValidationState \<Rightarrow> string option" where
  "undefined_reference st =
     (case filter (\<lambda>l. l \<notin> set (footnotes st)) (footnote_references st) of
        [] \<Rightarrow> None
      | l # ls \<Rightarrow> Some (fold min ls l))"

definition validate_with_limits :: "platform \<Rightarrow> ValidationLimits \<Rightarrow> Document \<Rightarrow> unit checked" where
  "validate_with_limits pf l d =
     (if schema_version d \<noteq> DOCUMENT_SCHEMA_VERSION then
        Inl (ir_error UnsupportedSchemaVersion ''$.schemaVersion''
          (''expected '' @ show_word DOCUMENT_SCHEMA_VERSION @ '', got '' @ show_word (schema_version d)))
      else and_then (enter_nodes (blocks d) ''$.blocks'' 1 (new_state l)) (\<lambda>_.
        and_then (validate_nodes pf ''$.blocks'' 1 0 (blocks d) (new_state l)) (\<lambda>st.
        case undefined_reference st of
          Some lab \<Rightarrow> invalid_node ''$.blocks'' (''undefined footnote reference '' @ lab)
        | None \<Rightarrow> Inr ())))"

end
