(* ===== verification/IR_Tree.thy ===== *)
theory IR_Tree
  imports IR_Blocks
begin

text \<open>
  The tree of a document, read without the validator of \<open>crates/core/src/ir.rs\<close>: its nodes in
  reading order, their identifiers, labels, references, count and nesting; and the proof that the
  validator absorbs exactly this tree and bounds its depth.
\<close>

section \<open>The tree, read independently\<close>

fun child_lists :: "Block \<Rightarrow> BlockNode list list" where
  "child_lists (BlockList _ _ items) = map item_blocks items"
| "child_lists (Table rows _) = concat (map (\<lambda>r. map cell_blocks (cells r)) rows)"
| "child_lists (Footnote _ bs) = [bs]"
| "child_lists (Page _ bs) = [bs]"
| "child_lists (Slide _ _ bs) = [bs]"
| "child_lists (Sheet _ bs) = [bs]"
| "child_lists _ = []"

lemma item_blocks_size: "size_list size (item_blocks it) < size it"
  by (cases it) simp

lemma cell_blocks_size: "size_list size (cell_blocks c) < size c"
  by (cases c) simp

lemma cells_size: "size_list size (cells r) < size r"
  by (cases r) simp

lemma size_list_mem: "x \<in> set xs \<Longrightarrow> f x \<le> size_list f xs"
  by (induction xs) auto

lemma child_lists_size:
  assumes "cs \<in> set (child_lists b)"
  shows "size_list size cs < size b"
proof (cases b)
  case (BlockList k s items)
  with assms obtain it where "it \<in> set items" "cs = item_blocks it" by auto
  with BlockList item_blocks_size [of it] size_list_mem [of it items size] show ?thesis by simp
next
  case (Table rows al)
  with assms obtain r c where r: "r \<in> set rows" "c \<in> set (cells r)" "cs = cell_blocks c" by auto
  then have "size c < size r" using size_list_mem [of c "cells r" size] cells_size [of r] by simp
  with r Table cell_blocks_size [of c] size_list_mem [of r rows size] show ?thesis by simp
qed (use assms in auto)

lemma size_node_block: "size (node_block n) < size n"
  by (cases n) simp

function all_nodes :: "BlockNode list \<Rightarrow> BlockNode list" where
  "all_nodes [] = []"
| "all_nodes (n # ns) = n # concat (map all_nodes (child_lists (node_block n))) @ all_nodes ns"
  by pat_completeness auto
termination
proof (relation "measure (size_list size)", simp)
  fix n :: BlockNode and ns cs
  assume "cs \<in> set (child_lists (node_block n))"
  with child_lists_size size_node_block [of n] have "size_list size cs < size n" by fastforce
  then show "(cs, n # ns) \<in> measure (size_list size)" by simp
qed simp

function height :: "BlockNode list \<Rightarrow> nat" where
  "height [] = 0"
| "height (n # ns) = max (Suc (fold max (map height (child_lists (node_block n))) 0)) (height ns)"
  by pat_completeness auto
termination
proof (relation "measure (size_list size)", simp)
  fix n :: BlockNode and ns cs
  assume "cs \<in> set (child_lists (node_block n))"
  with child_lists_size size_node_block [of n] have "size_list size cs < size n" by fastforce
  then show "(cs, n # ns) \<in> measure (size_list size)" by simp
qed simp

fun own_label :: "Block \<Rightarrow> string list" where
  "own_label (Footnote lab _) = [lab]"
| "own_label _ = []"

fun parts_of :: "Block \<Rightarrow> nat" where
  "parts_of (BlockList _ _ items) = length items"
| "parts_of (Table rows _) = length rows + sum_list (map (\<lambda>r. length (cells r)) rows)"
| "parts_of _ = 0"

function inline_references :: "Inline list \<Rightarrow> string set" where
  "inline_references [] = {}"
| "inline_references (x # xs) =
     (case x of FootnoteReference lab \<Rightarrow> {lab} | Link _ c \<Rightarrow> inline_references c | _ \<Rightarrow> {}) \<union> inline_references xs"
  by pat_completeness auto
termination by (relation "measure (size_list size)") auto

fun own_inlines :: "Block \<Rightarrow> Inline list" where
  "own_inlines (Paragraph c) = c"
| "own_inlines (Heading _ c) = c"
| "own_inlines (TimedSegment _ _ _ _ c) = c"
| "own_inlines _ = []"

definition ids_in :: "BlockNode list \<Rightarrow> string list" where
  "ids_in ns = map node_id (all_nodes ns)"

definition labels_in :: "BlockNode list \<Rightarrow> string list" where
  "labels_in ns = concat (map (\<lambda>n. own_label (node_block n)) (all_nodes ns))"

definition references_in :: "BlockNode list \<Rightarrow> string set" where
  "references_in ns = (\<Union>n \<in> set (all_nodes ns). inline_references (own_inlines (node_block n)))"

definition count_in :: "BlockNode list \<Rightarrow> nat" where
  "count_in ns = sum_list (map (\<lambda>n. Suc (parts_of (node_block n))) (all_nodes ns))"

lemma concat_map_concats: "concat (map f (concat xss)) = concat (map (\<lambda>xs. concat (map f xs)) xss)"
  by (induction xss) auto

lemma sum_map_concat: "sum_list (map f (concat xss)) = sum_list (map (\<lambda>xs. sum_list (map f xs)) xss)"
  by (induction xss) auto

lemma in_Nil [simp]: "ids_in [] = []" "labels_in [] = []" "references_in [] = {}" "count_in [] = 0"
  by (simp_all add: ids_in_def labels_in_def references_in_def count_in_def)

lemma in_Cons:
  "ids_in (n # ns) = node_id n # concat (map ids_in (child_lists (node_block n))) @ ids_in ns"
  "labels_in (n # ns) = own_label (node_block n) @ concat (map labels_in (child_lists (node_block n))) @ labels_in ns"
  "references_in (n # ns) = inline_references (own_inlines (node_block n))
     \<union> \<Union> (set (map references_in (child_lists (node_block n)))) \<union> references_in ns"
  "count_in (n # ns) = Suc (parts_of (node_block n)) + sum_list (map count_in (child_lists (node_block n))) + count_in ns"
  by (simp_all add: ids_in_def [abs_def] labels_in_def [abs_def] count_in_def [abs_def] concat_map_concats
      sum_map_concat comp_def)
    (auto simp: ids_in_def [abs_def] map_concat comp_def references_in_def [abs_def])

text \<open>Accepting a part of the tree moves the state forward by exactly that part.\<close>

definition absorbs ::
  "string list \<Rightarrow> string list \<Rightarrow> string set \<Rightarrow> nat \<Rightarrow> ValidationState \<Rightarrow> ValidationState \<Rightarrow> bool" where
  "absorbs ids labels refs k st st' \<longleftrightarrow>
     vlimits st' = vlimits st \<and> node_ids st' = rev ids @ node_ids st \<and> footnotes st' = rev labels @ footnotes st
     \<and> set (footnote_references st') = set (footnote_references st) \<union> refs
     \<and> unat (node_count st') = min (unat (node_count st) + k) (2 ^ 64 - 1)
     \<and> (distinct (node_ids st) \<longrightarrow> distinct (node_ids st')) \<and> (distinct (footnotes st) \<longrightarrow> distinct (footnotes st'))
     \<and> list_all (\<lambda>i. \<not> blank i) ids
     \<and> (node_count st \<le> max_nodes (vlimits st) \<longrightarrow> node_count st' \<le> max_nodes (vlimits st'))
     \<and> (inline_count st \<le> max_inlines (vlimits st) \<longrightarrow> inline_count st' \<le> max_inlines (vlimits st'))"

lemma absorbs_refl [simp]: "absorbs [] [] {} 0 st st"
  using unat_less_2p [of "node_count st"] by (simp add: absorbs_def)

lemma absorbs_trans:
  "absorbs i l r k st st' \<Longrightarrow> absorbs i' l' r' k' st' st'' \<Longrightarrow> absorbs (i @ i') (l @ l') (r \<union> r') (k + k') st st''"
  unfolding absorbs_def
  by (elim conjE, intro conjI) (simp_all add: min_def Un_assoc)

lemma absorbs_vlimits: "absorbs i l r k st st' \<Longrightarrow> vlimits st' = vlimits st"
  by (simp add: absorbs_def)

lemma consume_node_absorbs: "consume_structural_node p st = Inr st' \<Longrightarrow> absorbs [] [] {} 1 st st'"
  by (auto simp: consume_structural_node_def resource_limit_def Let_def absorbs_def unat_saturating_add
      split: if_splits)

lemma consume_inlines_absorbs: "consume_inlines k p st = Inr st' \<Longrightarrow> absorbs [] [] {} 0 st st'"
  using unat_less_2p [of "node_count st"]
  by (auto simp: consume_inlines_def resource_limit_def Let_def absorbs_def split: if_splits)

lemma inline_count_absorbs:
  "n \<le> max_inlines (vlimits st) \<Longrightarrow> absorbs [] [] {} 0 st (st\<lparr>inline_count := n\<rparr>)"
  using unat_less_2p [of "node_count st"] by (simp add: absorbs_def)

lemma reference_absorbs:
  "absorbs [] [] {l} 0 st (st\<lparr>footnote_references := List.insert l (footnote_references st)\<rparr>)"
  using unat_less_2p [of "node_count st"] by (auto simp: absorbs_def)

lemma ocr_evidence_absorbs:
  assumes "validate_ocr_evidence pf ev v p st = Inr st'"
  shows "absorbs [] [] {} 0 st st'"
proof -
  obtain w h b c where "page_width (locator v) = Some w" "page_height (locator v) = Some h"
    "bounds (locator v) = Some b" "confidence v = Some c"
    using assms
    by (cases "page_width (locator v)"; cases "page_height (locator v)"; cases "bounds (locator v)"; cases "confidence v")
      (simp_all add: validate_ocr_evidence_def and_then_Inr invalid_node_def split: if_split_asm)
  with assms have "\<exists>n. n \<le> max_inlines (vlimits st) \<and> st' = st\<lparr>inline_count := n\<rparr>"
    by (simp add: validate_ocr_evidence_def and_then_Inr invalid_node_def resource_limit_def Let_def split: if_split_asm)
      (blast intro: leI)
  with inline_count_absorbs show ?thesis by blast
qed

lemma timed_segment_Inr:
  "validate_timed_segment p r sp sc ts c st = Inr st' \<Longrightarrow>
     consume_inlines (of_nat (length ts)) (p @ ''.data.tokens'') st = Inr st'"
  by (auto simp: validate_timed_segment_def and_then_Inr invalid_node_def split: if_split_asm option.split_asm)

lemmas timed_segment_absorbs = consume_inlines_absorbs [OF timed_segment_Inr]

lemma enter_node_absorbs: "enter_node i v p st = Inr st' \<Longrightarrow> absorbs [i] [] {} 1 st st'"
  by (auto simp: enter_node_def and_then_Inr dest!: consume_node_absorbs split: if_splits)
    (auto simp: absorbs_def)

lemma enter_item_absorbs: "enter_item k c p st = Inr st' \<Longrightarrow> absorbs [] [] {} 1 st st'"
  by (auto simp: enter_item_def and_then_Inr invalid_node_def dest: consume_node_absorbs split: if_splits)

lemma enter_footnote_absorbs: "enter_footnote l p st = Inr st' \<Longrightarrow> absorbs [] [l] {} 0 st st'"
  using unat_less_2p [of "node_count st"]
  by (auto simp: enter_footnote_def and_then_Inr invalid_node_def absorbs_def split: if_splits)

lemma inlines_absorb:
  "validate_inlines pf p k i xs st = Inr st' \<Longrightarrow> absorbs [] [] (inline_references xs) 0 st st'"
proof (induction pf p k i xs st arbitrary: st' rule: validate_inlines.induct)
  case (2 pf p k i x xs st)
  let ?here = "case x of FootnoteReference lab \<Rightarrow> {lab} | Link _ c \<Rightarrow> inline_references c | _ \<Rightarrow> {}"
  from "2.prems" obtain st1 st2 where c: "consume_inlines 1 (at_index p i) st = Inr st1"
    and rest: "validate_inlines pf p k (Suc i) xs st2 = Inr st'"
    and x: "(case x of
           Text v marks \<Rightarrow> and_then (validate_inline_marks marks (at_index p i)) (\<lambda>_. Inr st1)
         | SourceText v marks prov \<Rightarrow>
             if length (chars v) \<noteq> 1 then
               invalid_node (at_index p i @ ''.data.value'') ''source text must contain exactly one Unicode scalar''
             else and_then (validate_inline_marks marks (at_index p i)) (\<lambda>_.
                  and_then (validate_provenance prov (at_index p i @ ''.data.provenance'')) (\<lambda>_. Inr st1))
         | OcrText v marks prov ev \<Rightarrow>
             and_then (nonempty v (at_index p i @ ''.data.value'') ''OCR text'') (\<lambda>_.
             and_then (validate_inline_marks marks (at_index p i)) (\<lambda>_.
             and_then (validate_provenance prov (at_index p i @ ''.data.provenance'')) (\<lambda>_.
             validate_ocr_evidence pf ev prov (at_index p i @ ''.data.evidence'') st1)))
         | Code _ \<Rightarrow> Inr st1
         | LineBreak \<Rightarrow> Inr st1
         | Link target content \<Rightarrow>
             and_then (nonempty target (at_index p i @ ''.data.target'') ''link target'') (\<lambda>_.
             if k then invalid_node (at_index p i) ''links must not be nested''
             else validate_inlines pf (at_index p i @ ''.data.content'') True 0 content st1)
         | Formula v \<Rightarrow> and_then (nonempty v (at_index p i @ ''.data'') ''formula'') (\<lambda>_. Inr st1)
         | FootnoteReference lab \<Rightarrow>
             and_then (nonempty lab (at_index p i @ ''.data'') ''footnote reference'') (\<lambda>_.
             Inr (st1\<lparr>footnote_references := List.insert lab (footnote_references st1)\<rparr>))) = Inr st2"
    by (auto simp: and_then_Inr Let_def)
  have here: "absorbs [] [] ?here 0 st1 st2"
  proof (cases x)
    case (Link t c)
    with x have "\<not> k" "validate_inlines pf (at_index p i @ ''.data.content'') True 0 c st1 = Inr st2"
      by (auto simp: and_then_Inr invalid_node_def split: if_splits)
    with "2.IH"(1) [OF refl Link] Link show ?thesis by simp
  qed (use x in \<open>auto simp: and_then_Inr invalid_node_def reference_absorbs split: if_splits dest: ocr_evidence_absorbs\<close>)
  from absorbs_trans [OF absorbs_trans [OF consume_inlines_absorbs [OF c] here] "2.IH"(2) [OF refl rest]]
  show ?case by simp
qed simp

section \<open>The validator absorbs exactly the tree\<close>

definition absorbs_lists :: "nat \<Rightarrow> BlockNode list list \<Rightarrow> ValidationState \<Rightarrow> ValidationState \<Rightarrow> bool" where
  "absorbs_lists k css = absorbs (concat (map ids_in css)) (concat (map labels_in css))
     (\<Union> (set (map references_in css))) (k + sum_list (map count_in css))"

definition absorbs_block :: "Block \<Rightarrow> ValidationState \<Rightarrow> ValidationState \<Rightarrow> bool" where
  "absorbs_block b = absorbs (concat (map ids_in (child_lists b)))
     (own_label b @ concat (map labels_in (child_lists b)))
     (inline_references (own_inlines b) \<union> \<Union> (set (map references_in (child_lists b))))
     (parts_of b + sum_list (map count_in (child_lists b)))"

definition absorbs_nodes :: "BlockNode list \<Rightarrow> ValidationState \<Rightarrow> ValidationState \<Rightarrow> bool" where
  "absorbs_nodes ns = absorbs (ids_in ns) (labels_in ns) (references_in ns) (count_in ns)"

lemma absorbs_cong:
  "absorbs i l r k st st' \<Longrightarrow> i = i' \<Longrightarrow> l = l' \<Longrightarrow> r = r' \<Longrightarrow> k = k' \<Longrightarrow> absorbs i' l' r' k' st st'"
  by simp

lemma absorbs_nodes_Cons:
  assumes "absorbs [i] [] {} 1 st st1" and "absorbs_block b st1 st2" and "absorbs_nodes ns st2 st3"
  shows "absorbs_nodes (BlockNode i b v # ns) st st3"
  using absorbs_trans [OF assms(1) absorbs_trans [OF assms(2) [unfolded absorbs_block_def]
      assms(3) [unfolded absorbs_nodes_def]]]
  unfolding absorbs_nodes_def by (rule absorbs_cong) (simp_all add: in_Cons)

lemma absorbs_lists_Nil: "absorbs_lists 0 [] st st"
  by (simp add: absorbs_lists_def)

lemma absorbs_lists_Cons:
  assumes "absorbs [] [] {} k st st1" and "absorbs_nodes ns st1 st2" and "absorbs_lists m css st2 st3"
  shows "absorbs_lists (k + m) (ns # css) st st3"
  using absorbs_trans [OF assms(1) absorbs_trans [OF assms(2) [unfolded absorbs_nodes_def]
      assms(3) [unfolded absorbs_lists_def]]]
  unfolding absorbs_lists_def by (rule absorbs_cong) simp_all

lemma absorbs_lists_append:
  assumes "absorbs [] [] {} k st st1" and "absorbs_lists m css st1 st2" and "absorbs_lists n dss st2 st3"
  shows "absorbs_lists (k + m + n) (css @ dss) st st3"
  using absorbs_trans [OF assms(1) absorbs_trans [OF assms(2) [unfolded absorbs_lists_def]
      assms(3) [unfolded absorbs_lists_def]]]
  unfolding absorbs_lists_def by (rule absorbs_cong) simp_all

lemma absorbs_block_lists:
  "absorbs_lists (parts_of b) (child_lists b) st st' \<Longrightarrow> own_label b = [] \<Longrightarrow> own_inlines b = [] \<Longrightarrow> absorbs_block b st st'"
  by (simp add: absorbs_lists_def absorbs_block_def)

lemma absorbs_block_leaf:
  "absorbs [] [] (inline_references (own_inlines b)) 0 st st' \<Longrightarrow> child_lists b = [] \<Longrightarrow> own_label b = [] \<Longrightarrow>
     parts_of b = 0 \<Longrightarrow> absorbs_block b st st'"
  by (simp add: absorbs_block_def)

lemma absorbs_block_single:
  assumes "absorbs [] (own_label b) {} 0 st st1" and "absorbs_nodes ns st1 st2" and "child_lists b = [ns]"
    and "own_inlines b = []" and "parts_of b = 0"
  shows "absorbs_block b st st2"
  using absorbs_trans [OF assms(1) assms(2) [unfolded absorbs_nodes_def]]
  unfolding absorbs_block_def by (rule absorbs_cong) (simp_all add: assms)

lemmas enter_checks = enter_list_def enter_nodes_def positive_def nonempty_def invalid_node_def resource_limit_def

lemma validator_absorbs:
  "validate_nodes pf p d i ns st = Inr st' \<Longrightarrow> absorbs_nodes ns st st'"
  "validate_block pf p d b st = Inr st' \<Longrightarrow> absorbs_block b st st'"
  "validate_items pf p k d i items st = Inr st' \<Longrightarrow> absorbs_lists (length items) (map item_blocks items) st st'"
  "validate_rows pf p d i occ w rows st = Inr r \<Longrightarrow>
     absorbs_lists (length rows + sum_list (map (\<lambda>r. length (cells r)) rows))
       (concat (map (\<lambda>r. map cell_blocks (cells r)) rows)) st (snd (snd r))"
  "validate_cells pf p d i w occ c cs st = Inr q \<Longrightarrow> absorbs_lists (length cs) (map cell_blocks cs) st (snd q)"
proof (induction pf p d i ns st and pf p d b st and pf p k d i items st and pf p d i occ w rows st
    and pf p d i w occ c cs st arbitrary: st' and st' and st' and r and q
    rule: validate_nodes_validate_block_validate_items_validate_rows_validate_cells.induct)
  case (2 pf p d i nid blk prov ns st)
  then show ?case
    by (auto simp: and_then_Inr Let_def) (blast intro: absorbs_nodes_Cons dest: enter_node_absorbs)
next
  case (3 pf p d content st)
  then show ?case using absorbs_block_leaf [of "Paragraph content"] inlines_absorb by fastforce
next
  case (4 pf p d level content st)
  then show ?case
    using absorbs_block_leaf [of "Heading level content"] inlines_absorb
    by (fastforce simp: invalid_node_def split: if_splits)
next
  case (5 pf p d k start items st)
  then show ?case by (auto simp: and_then_Inr intro: absorbs_block_lists)
next
  case (6 pf p d rows al st)
  then show ?case
    using absorbs_block_lists [of "Table rows al"]
    by (fastforce simp: and_then_Inr invalid_node_def split: if_splits prod.splits)
next
  case (9 pf p d lab bs st)
  then show ?case
    using absorbs_block_single [of "Footnote lab bs"] enter_footnote_absorbs by (fastforce simp: and_then_Inr)
next
  case (14 pf p d r speaker sc tokens content st)
  then show ?case
    using absorbs_block_leaf [of "TimedSegment r speaker sc tokens content"]
    by (auto simp: and_then_Inr dest!: timed_segment_absorbs inlines_absorb dest: absorbs_trans)
next
  case (17 pf p k d i ch lab bs items st)
  then show ?case
    using absorbs_lists_Cons [of 1 st] by (fastforce simp: and_then_Inr Let_def dest!: enter_item_absorbs)
next
  case (19 pf p d i occ w cs rows st)
  from "19.prems" obtain st1 q occ2 w2 where s: "consume_structural_node (at_index (p @ ''.data.rows'') i) st = Inr st1"
    "validate_cells pf (at_index (p @ ''.data.rows'') i) d 0 w occ 0 cs st1 = Inr q"
    "close_row (at_index (p @ ''.data.rows'') i) (fst q) w = Inr (occ2, w2)"
    "validate_rows pf p d (Suc i) occ2 w2 rows (snd q) = Inr r"
    by (auto simp: and_then_Inr Let_def)
  have "absorbs_lists (1 + length cs + (length rows + sum_list (map (\<lambda>r. length (cells r)) rows)))
      (map cell_blocks cs @ concat (map (\<lambda>r. map cell_blocks (cells r)) rows)) st (snd (snd r))"
    by (rule absorbs_lists_append [OF consume_node_absorbs [OF s(1)] "19.IH"(1) [OF refl s(2)]])
      (rule "19.IH"(2) [OF refl s(4)])
  then show ?case by (simp add: ac_simps)
next
  case (21 pf rp d i w occ column rs cs hd bs rest st)
  from "21.prems" obtain st1 occ2 column2 st2 where s: "consume_structural_node (at_index (rp @ ''.cells'') i) st = Inr st1"
    "validate_nodes pf (at_index (rp @ ''.cells'') i @ ''.blocks'') (Suc d) 0 bs st1 = Inr st2"
    "validate_cells pf rp d (Suc i) w occ2 column2 rest st2 = Inr q"
    by (auto simp: and_then_Inr Let_def)
  from absorbs_lists_Cons [OF consume_node_absorbs [OF s(1)] "21.IH"(1) [OF refl s(2)] "21.IH"(2) [OF refl s(3)]]
  show ?case by simp
next
  case (11 pf p d n bs st)
  then show ?case using absorbs_block_single [of "Page n bs" st st bs st'] by (auto simp: and_then_Inr)
next
  case (12 pf p d n t bs st)
  then show ?case using absorbs_block_single [of "Slide n t bs" st st bs st'] by (auto simp: and_then_Inr)
next
  case (13 pf p d n bs st)
  then show ?case using absorbs_block_single [of "Sheet n bs" st st bs st'] by (auto simp: and_then_Inr)
qed (auto simp: and_then_Inr enter_checks absorbs_lists_Nil absorbs_nodes_def
    intro!: absorbs_block_leaf split: if_splits)

section \<open>Depth\<close>

definition within_depth :: "ValidationState \<Rightarrow> nat \<Rightarrow> BlockNode list list \<Rightarrow> bool" where
  "within_depth st d css \<longleftrightarrow> (\<forall>cs \<in> set css. cs = [] \<or> d + height cs \<le> max_depth (vlimits st))"

lemma within_depth_simps [simp]:
  "within_depth st d []"
  "within_depth st d (cs # css) \<longleftrightarrow> (cs = [] \<or> d + height cs \<le> max_depth (vlimits st)) \<and> within_depth st d css"
  "within_depth st d (css @ dss) \<longleftrightarrow> within_depth st d css \<and> within_depth st d dss"
  by (auto simp: within_depth_def)

lemma within_depth_cong: "vlimits st' = vlimits st \<Longrightarrow> within_depth st' d css = within_depth st d css"
  by (simp add: within_depth_def)

lemma fold_max_le: "fold max xs (a::nat) \<le> k \<longleftrightarrow> a \<le> k \<and> (\<forall>x \<in> set xs. x \<le> k)"
  by (induction xs arbitrary: a) auto

lemma height_le:
  "height ns \<le> k \<longleftrightarrow> (\<forall>n \<in> set ns. 0 < k \<and> (\<forall>cs \<in> set (child_lists (node_block n)). Suc (height cs) \<le> k))"
proof (induction ns)
  case (Cons n ns)
  then show ?case by (cases k) (auto simp: fold_max_le)
qed simp

lemma height_within:
  assumes "enter_nodes cs p (Suc d) st = Inr ()"
    and "\<forall>n \<in> set cs. within_depth st (Suc d) (child_lists (node_block n))"
  shows "cs = [] \<or> d + height cs \<le> max_depth (vlimits st)"
proof (cases "cs = []")
  case False
  with assms(1) have d: "Suc d \<le> max_depth (vlimits st)"
    by (auto simp: enter_nodes_def resource_limit_def split: if_splits)
  have "height cs \<le> max_depth (vlimits st) - d"
    unfolding height_le
  proof (intro ballI conjI)
    fix n bs
    assume "n \<in> set cs" "bs \<in> set (child_lists (node_block n))"
    with assms(2) have "bs = [] \<or> Suc d + height bs \<le> max_depth (vlimits st)" by (auto simp: within_depth_def)
    with d show "Suc (height bs) \<le> max_depth (vlimits st) - d" by auto
  qed (use d in simp)
  with d show ?thesis by linarith
qed simp

lemma validator_vlimits:
  "validate_nodes pf p d i ns st = Inr st' \<Longrightarrow> vlimits st' = vlimits st"
  "validate_block pf p d b st = Inr st' \<Longrightarrow> vlimits st' = vlimits st"
  "validate_cells pf p d i w occ c cs st = Inr q \<Longrightarrow> vlimits (snd q) = vlimits st"
  "consume_structural_node p st = Inr st' \<Longrightarrow> vlimits st' = vlimits st"
  "enter_node nid v p st = Inr st' \<Longrightarrow> vlimits st' = vlimits st"
  "enter_item k ch p st = Inr st' \<Longrightarrow> vlimits st' = vlimits st"
  "enter_footnote lab p st = Inr st' \<Longrightarrow> vlimits st' = vlimits st"
  by (auto dest!: validator_absorbs enter_node_absorbs enter_item_absorbs enter_footnote_absorbs consume_node_absorbs
      intro!: absorbs_vlimits simp: absorbs_nodes_def absorbs_block_def absorbs_lists_def)

lemma validator_depth:
  "validate_nodes pf p d i ns st = Inr st' \<Longrightarrow> \<forall>n \<in> set ns. within_depth st d (child_lists (node_block n))"
  "validate_block pf p d b st = Inr st' \<Longrightarrow> within_depth st d (child_lists b)"
  "validate_items pf p k d i items st = Inr st' \<Longrightarrow> within_depth st d (map item_blocks items)"
  "validate_rows pf p d i occ w rows st = Inr r \<Longrightarrow>
     within_depth st d (concat (map (\<lambda>r. map cell_blocks (cells r)) rows))"
  "validate_cells pf p d i w occ c cs st = Inr q \<Longrightarrow> within_depth st d (map cell_blocks cs)"
proof (induction pf p d i ns st and pf p d b st and pf p k d i items st and pf p d i occ w rows st
    and pf p d i w occ c cs st arbitrary: st' and st' and st' and r and q
    rule: validate_nodes_validate_block_validate_items_validate_rows_validate_cells.induct)
  case (2 pf p d i nid blk prov ns st)
  from "2.prems" obtain st1 st2 where s: "enter_node nid prov (at_index p i) st = Inr st1"
    "validate_block pf (at_index p i @ ''.block'') d blk st1 = Inr st2"
    "validate_nodes pf p d (Suc i) ns st2 = Inr st'"
    by (auto simp: and_then_Inr Let_def)
  note v = validator_vlimits(5) [OF s(1)] validator_vlimits(2) [OF s(2)]
  from "2.IH"(1) [OF refl s(2)] "2.IH"(2) [OF refl s(3)]
  show ?case using v within_depth_cong by (metis BlockNode.sel(2) set_ConsD)
next
  case (6 pf p d rows al st)
  then show ?case by (auto simp: and_then_Inr invalid_node_def split: if_splits)
next
  case (9 pf p d lab bs st)
  from "9.prems" obtain st1 where s: "enter_footnote lab p st = Inr st1"
    "enter_nodes bs (p @ ''.data.blocks'') (Suc d) st1 = Inr ()"
    "validate_nodes pf (p @ ''.data.blocks'') (Suc d) 0 bs st1 = Inr st'"
    by (auto simp: and_then_Inr)
  from height_within [OF s(2) "9.IH" [OF s(3)]] validator_vlimits(7) [OF s(1)] show ?case by simp
next
  case (17 pf p k d i ch lab bs items st)
  let ?ip = "at_index (p @ ''.data.items'') i"
  from "17.prems" obtain st1 st2 where s: "enter_item k ch ?ip st = Inr st1"
    "enter_nodes bs (?ip @ ''.blocks'') (Suc d) st1 = Inr ()"
    "validate_nodes pf (?ip @ ''.blocks'') (Suc d) 0 bs st1 = Inr st2"
    "validate_items pf p k d (Suc i) items st2 = Inr st'"
    by (auto simp: and_then_Inr Let_def)
  note v = validator_vlimits(6) [OF s(1)] validator_vlimits(1) [OF s(3)]
  from height_within [OF s(2) "17.IH"(1) [OF refl s(3)]] "17.IH"(2) [OF refl s(4)] show ?case
    using v within_depth_cong [of st2 st] by simp
next
  case (19 pf p d i occ w cs rows st)
  let ?rp = "at_index (p @ ''.data.rows'') i"
  from "19.prems" obtain st1 q occ2 w2 where s: "consume_structural_node ?rp st = Inr st1"
    "validate_cells pf ?rp d 0 w occ 0 cs st1 = Inr q" "validate_rows pf p d (Suc i) occ2 w2 rows (snd q) = Inr r"
    by (auto simp: and_then_Inr Let_def)
  note v = validator_vlimits(4) [OF s(1)] validator_vlimits(3) [OF s(2)]
  from "19.IH"(1) [OF refl s(2)] "19.IH"(2) [OF refl s(3)] show ?case
    using v within_depth_cong [of st1 st] within_depth_cong [of "snd q" st] by simp
next
  case (21 pf rp d i w occ column rs cs hd bs rest st)
  let ?cp = "at_index (rp @ ''.cells'') i"
  from "21.prems" obtain st1 occ2 column2 st2 where s: "consume_structural_node ?cp st = Inr st1"
    "enter_nodes bs (?cp @ ''.blocks'') (Suc d) st1 = Inr ()"
    "validate_nodes pf (?cp @ ''.blocks'') (Suc d) 0 bs st1 = Inr st2"
    "validate_cells pf rp d (Suc i) w occ2 column2 rest st2 = Inr q"
    by (auto simp: and_then_Inr Let_def)
  note v = validator_vlimits(4) [OF s(1)] validator_vlimits(1) [OF s(3)]
  from height_within [OF s(2) "21.IH"(1) [OF refl s(3)]] "21.IH"(2) [OF refl s(4)] show ?case
    using v within_depth_cong [of st2 st] by simp
qed (auto simp: and_then_Inr dest: height_within split: if_splits)

end
