(* ===== verification/IR_Local.thy ===== *)
theory IR_Local
  imports IR_Tree
begin

text \<open>
  What each node, inline and locator of a validated document satisfies by itself, and how many
  inlines the document holds, stated without the validator of \<open>crates/core/src/ir.rs\<close>; and the
  proofs that the validator checks the first at every node and counts the second.
\<close>

section \<open>Locators and inlines\<close>

definition location_ok :: "SourceLocator \<Rightarrow> bool" where
  "location_ok l \<longleftrightarrow>
     (case (byte_start l, byte_end l) of (None, None) \<Rightarrow> True | (Some s, Some e) \<Rightarrow> s \<le> e | _ \<Rightarrow> False)
     \<and> pred_option (\<lambda>n. 0 < n) (page l) \<and> pred_option (\<lambda>n. 0 < n) (slide l)
     \<and> pred_option (\<lambda>s. \<not> blank s) (sheet l) \<and> (cell l = None \<or> sheet l \<noteq> None)
     \<and> pred_option (\<lambda>s. \<not> blank s \<and> \<not> has_control s) (font_name l)
     \<and> pred_option (\<lambda>r. start_ms r < end_ms r) (time l)"

definition sourced :: "Provenance \<Rightarrow> bool" where
  "sourced v \<longleftrightarrow> \<not> blank (provider v) \<and> pred_option unit_interval (confidence v) \<and> location_ok (locator v)"

definition marks_ok :: "InlineMark list \<Rightarrow> bool" where
  "marks_ok ms \<longleftrightarrow> distinct ms \<and> \<not> {Superscript, Subscript} \<subseteq> set ms"

definition is_link :: "Inline \<Rightarrow> bool" where
  "is_link x = (case x of Link _ _ \<Rightarrow> True | _ \<Rightarrow> False)"

fun inline_ok :: "Inline \<Rightarrow> bool" where
  "inline_ok (Text _ ms) \<longleftrightarrow> marks_ok ms"
| "inline_ok (SourceText v ms prov) \<longleftrightarrow> length (chars v) = 1 \<and> marks_ok ms \<and> sourced prov"
| "inline_ok (OcrText v ms prov ev) \<longleftrightarrow> \<not> blank v \<and> marks_ok ms \<and> sourced prov
     \<and> 0 < evidence_page ev \<and> page (locator prov) = Some (evidence_page ev) \<and> regions ev \<noteq> []
     \<and> length (chain ev) = 3"
| "inline_ok (Code _) \<longleftrightarrow> True"
| "inline_ok LineBreak \<longleftrightarrow> True"
| "inline_ok (Link target content) \<longleftrightarrow>
     \<not> blank target \<and> list_all (\<lambda>x. inline_ok x \<and> \<not> is_link x) content"
| "inline_ok (Formula v) \<longleftrightarrow> \<not> blank v"
| "inline_ok (FootnoteReference lab) \<longleftrightarrow> \<not> blank lab"

lemma holds_some_not: "\<not> holds_some P x \<longleftrightarrow> pred_option (\<lambda>v. \<not> P v) x"
  by (cases x) simp_all

lemma locator_ok:
  assumes "validate_locator l p = Inr ()"
  shows "location_ok l"
proof -
  from assms have *: "(byte_start l = None) = (byte_end l = None)"
    "\<not> (case (byte_start l, byte_end l) of (Some s, Some e) \<Rightarrow> e < s | _ \<Rightarrow> False)"
    "page l \<noteq> Some 0" "slide l \<noteq> Some 0" "\<not> holds_some blank (sheet l)"
    "cell l = None \<or> sheet l \<noteq> None" "\<not> holds_some (\<lambda>s. blank s \<or> has_control s) (font_name l)"
    "\<not> holds_some (\<lambda>r. end_ms r \<le> start_ms r) (time l)"
    by (simp_all add: validate_locator_def invalid_locator_def and_then_Inr split: if_split_asm)
  from *(1,2) have "case (byte_start l, byte_end l) of (None, None) \<Rightarrow> True | (Some s, Some e) \<Rightarrow> s \<le> e | _ \<Rightarrow> False"
    by (cases "byte_start l"; cases "byte_end l") (simp_all add: not_less)
  moreover from *(3,4) have "pred_option (\<lambda>n. 0 < n) (page l)" "pred_option (\<lambda>n. 0 < n) (slide l)"
    by (cases "page l"; cases "slide l"; simp add: word_neq_0_conv)+
  ultimately show ?thesis using * by (simp add: location_ok_def holds_some_not not_le)
qed

lemma provenance_ok: "validate_provenance v p = Inr () \<Longrightarrow> sourced v"
  by (auto simp: validate_provenance_def sourced_def holds_some_not locator_ok split: if_splits)

lemma inline_marks_ok: "validate_inline_marks ms p = Inr () \<Longrightarrow> marks_ok ms"
  by (auto simp: validate_inline_marks_def marks_ok_def invalid_node_def distinct_card card_distinct split: if_splits)

lemma nonempty_ok: "nonempty v p s = Inr () \<longleftrightarrow> \<not> blank v"
  by (simp add: nonempty_def invalid_node_def)

lemma positive_ok: "positive v p s = Inr () \<longleftrightarrow> 0 < v"
  by (simp add: positive_def invalid_node_def word_neq_0_conv)

lemma ocr_chain_ok: "validate_ocr_chain ev p = Inr () \<Longrightarrow> length (chain ev) = 3"
  by (simp add: validate_ocr_chain_def invalid_node_def split: if_splits)

lemma ocr_evidence_Inr:
  assumes "validate_ocr_evidence pf ev v p st = Inr st'"
  shows "0 < evidence_page ev \<and> page (locator v) = Some (evidence_page ev) \<and> regions ev \<noteq> []
    \<and> length (chain ev) = 3
    \<and> st' = st\<lparr>inline_count := saturating_add (saturating_add (inline_count st) (of_nat (length (regions ev)))) 3\<rparr>"
proof -
  obtain w h b c where "page_width (locator v) = Some w" "page_height (locator v) = Some h"
    "bounds (locator v) = Some b" "confidence v = Some c"
    using assms
    by (cases "page_width (locator v)"; cases "page_height (locator v)"; cases "bounds (locator v)"; cases "confidence v")
      (simp_all add: validate_ocr_evidence_def and_then_Inr invalid_node_def split: if_split_asm)
  with assms have *: "0 < evidence_page ev" "page (locator v) = Some (evidence_page ev)" "regions ev \<noteq> []"
    "validate_ocr_chain ev p = Inr ()"
    "st' = st\<lparr>inline_count := saturating_add (saturating_add (inline_count st) (of_nat (length (regions ev))))
       (of_nat (length (chain ev)))\<rparr>"
    by (simp_all add: validate_ocr_evidence_def and_then_Inr invalid_node_def resource_limit_def Let_def positive_ok
        split: if_split_asm)
  from ocr_chain_ok [OF *(4)] * show ?thesis by simp
qed

lemma inlines_are_ok:
  "validate_inlines pf p k i xs st = Inr st' \<Longrightarrow> list_all (\<lambda>x. inline_ok x \<and> (k \<longrightarrow> \<not> is_link x)) xs"
proof (induction pf p k i xs st arbitrary: st' rule: validate_inlines.induct)
  case (2 pf p k i x xs st)
  have here: "inline_ok x \<and> (k \<longrightarrow> \<not> is_link x)"
  proof (cases x)
    case (Link t c)
    with "2.prems" obtain st1 st2 where "\<not> k" "\<not> blank t"
      "validate_inlines pf (at_index p i @ ''.data.content'') True 0 c st1 = Inr st2"
      by (auto simp: and_then_Inr Let_def invalid_node_def nonempty_ok split: if_splits)
    with "2.IH"(1) [OF refl Link] Link show ?thesis by (simp add: list_all_iff)
  qed (use "2.prems" in \<open>auto simp: and_then_Inr Let_def invalid_node_def nonempty_ok is_link_def
      inline_marks_ok provenance_ok split: if_splits dest: ocr_evidence_Inr\<close>)
  from "2.prems" obtain st2 where "validate_inlines pf p k (Suc i) xs st2 = Inr st'"
    by (auto simp: and_then_Inr Let_def)
  with "2.IH"(2) [OF refl] here show ?case by simp
qed simp

section \<open>Nodes\<close>

fun block_ok :: "Block \<Rightarrow> bool" where
  "block_ok (Heading level _) \<longleftrightarrow> 1 \<le> level \<and> level \<le> 6"
| "block_ok (BlockList k start items) \<longleftrightarrow> items \<noteq> [] \<and> (k = Ordered \<longrightarrow> 0 < start)
     \<and> list_all (\<lambda>it. (checked it \<noteq> None) = (k = Task)) items"
| "block_ok (Table rows _) \<longleftrightarrow> rows \<noteq> []
     \<and> list_all (\<lambda>r. list_all (\<lambda>c. 0 < row_span c \<and> 0 < column_span c) (cells r)) rows"
| "block_ok (CodeBlock language _) \<longleftrightarrow> pred_option (\<lambda>v. \<not> blank v) language"
| "block_ok (BlockFormula v) \<longleftrightarrow> \<not> blank v"
| "block_ok (Footnote lab _) \<longleftrightarrow> \<not> blank lab"
| "block_ok (Image asset _) \<longleftrightarrow> \<not> blank asset"
| "block_ok (Page n _) \<longleftrightarrow> 0 < n"
| "block_ok (Slide n _ _) \<longleftrightarrow> 0 < n"
| "block_ok (Sheet name _) \<longleftrightarrow> \<not> blank name"
| "block_ok (TimedSegment r speaker c _ _) \<longleftrightarrow>
     start_ms r < end_ms r \<and> (c = None \<or> speaker \<noteq> None) \<and> pred_option unit_interval c"
| "block_ok (Paragraph _) \<longleftrightarrow> True"
| "block_ok Rule \<longleftrightarrow> True"

definition node_ok :: "BlockNode \<Rightarrow> bool" where
  "node_ok n \<longleftrightarrow> \<not> blank (node_id n) \<and> sourced (node_provenance n) \<and> block_ok (node_block n)
     \<and> list_all inline_ok (own_inlines (node_block n))"

definition nodes_ok :: "BlockNode list \<Rightarrow> bool" where
  "nodes_ok ns \<longleftrightarrow> list_all node_ok (all_nodes ns)"

lemma nodes_ok_Nil [simp]: "nodes_ok []"
  by (simp add: nodes_ok_def)

lemma nodes_ok_Cons:
  "nodes_ok (n # ns) \<longleftrightarrow> node_ok n \<and> list_all nodes_ok (child_lists (node_block n)) \<and> nodes_ok ns"
  by (auto simp: nodes_ok_def list_all_iff)

definition block_and_below_ok :: "Block \<Rightarrow> bool" where
  "block_and_below_ok b \<longleftrightarrow> block_ok b \<and> list_all inline_ok (own_inlines b) \<and> list_all nodes_ok (child_lists b)"

lemma inlines_all_ok: "validate_inlines pf p k i xs st = Inr st' \<Longrightarrow> list_all inline_ok xs"
  using inlines_are_ok by (fastforce simp: list_all_iff)

lemma timed_segment_ok:
  "validate_timed_segment p r sp c ts xs st = Inr st' \<Longrightarrow> block_ok (TimedSegment r sp c ts xs)"
  by (auto simp: validate_timed_segment_def invalid_node_def holds_some_not split: if_split_asm)

lemma place_cell_spans: "place_cell m w p rs cs occ c = Inr q \<Longrightarrow> 0 < rs \<and> 0 < cs"
  by (auto simp: place_cell_def invalid_node_def word_neq_0_conv split: if_split_asm)

lemma enter_list_ok: "enter_list k start items p = Inr () \<Longrightarrow> items \<noteq> [] \<and> (k = Ordered \<longrightarrow> 0 < start)"
  by (auto simp: enter_list_def invalid_node_def word_neq_0_conv split: if_split_asm)

lemma enter_item_ok: "enter_item k ch p st = Inr st' \<Longrightarrow> (ch \<noteq> None) = (k = Task)"
  by (auto simp: enter_item_def and_then_Inr invalid_node_def split: if_split_asm)

lemma enter_node_ok: "enter_node i v p st = Inr st' \<Longrightarrow> \<not> blank i \<and> sourced v"
  by (auto simp: enter_node_def and_then_Inr provenance_ok split: if_split_asm)

lemma enter_footnote_ok: "enter_footnote lab p st = Inr st' \<Longrightarrow> \<not> blank lab"
  by (auto simp: enter_footnote_def and_then_Inr nonempty_ok)

lemma validator_local:
  "validate_nodes pf p d i ns st = Inr st' \<Longrightarrow> nodes_ok ns"
  "validate_block pf p d b st = Inr st' \<Longrightarrow> block_and_below_ok b"
  "validate_items pf p k d i items st = Inr st' \<Longrightarrow>
     list_all (\<lambda>it. (checked it \<noteq> None) = (k = Task) \<and> nodes_ok (item_blocks it)) items"
  "validate_rows pf p d i occ w rows st = Inr r \<Longrightarrow>
     list_all (\<lambda>r. list_all (\<lambda>c. 0 < row_span c \<and> 0 < column_span c \<and> nodes_ok (cell_blocks c)) (cells r)) rows"
  "validate_cells pf p d i w occ c cs st = Inr q \<Longrightarrow>
     list_all (\<lambda>c. 0 < row_span c \<and> 0 < column_span c \<and> nodes_ok (cell_blocks c)) cs"
proof (induction pf p d i ns st and pf p d b st and pf p k d i items st and pf p d i occ w rows st
    and pf p d i w occ c cs st arbitrary: st' and st' and st' and r and q
    rule: validate_nodes_validate_block_validate_items_validate_rows_validate_cells.induct)
  case (2 pf p d i nid blk prov ns st)
  then show ?case
    by (auto simp: and_then_Inr Let_def nodes_ok_Cons node_ok_def block_and_below_ok_def dest!: enter_node_ok)
next
  case (5 pf p d k start items st)
  then show ?case
    by (fastforce simp: and_then_Inr block_and_below_ok_def list_all_iff dest!: enter_list_ok)
next
  case (6 pf p d rows al st)
  then obtain r where "rows \<noteq> []" "validate_rows pf p d 0 [] None rows st = Inr r"
    by (auto simp: and_then_Inr invalid_node_def split: if_splits)
  with "6.IH" show ?case by (fastforce simp: block_and_below_ok_def list_all_iff)
next
  case (17 pf p k d i ch lab bs items st)
  then show ?case by (auto simp: and_then_Inr Let_def dest!: enter_item_ok)
next
  case (21 pf rp d i w occ column rs cs hd bs rest st)
  from "21.prems" obtain st1 occ2 column2 st2 where s: "place_cell (limit_table_columns (vlimits st1)) w
        (at_index (rp @ ''.cells'') i) rs cs occ (skip_covered occ column) = Inr (occ2, column2)"
    "validate_nodes pf (at_index (rp @ ''.cells'') i @ ''.blocks'') (Suc d) 0 bs st1 = Inr st2"
    "validate_cells pf rp d (Suc i) w occ2 column2 rest st2 = Inr q"
    by (auto simp: and_then_Inr Let_def)
  from place_cell_spans [OF s(1)] "21.IH"(1) [OF refl s(2)] "21.IH"(2) [OF refl s(3)] show ?case by simp
qed (auto simp: and_then_Inr Let_def block_and_below_ok_def invalid_node_def nonempty_ok positive_ok holds_some_not
    split: if_splits dest: inlines_all_ok timed_segment_ok enter_footnote_ok)

end
