(* ===== verification/IR_Inline_Count.thy ===== *)
theory IR_Inline_Count
  imports IR_Local
begin

text \<open>
  How many inlines a document holds, counted without the validator of \<open>crates/core/src/ir.rs\<close>:
  every inline at any depth of links, every region and evidence step of recognised text, every timed
  token. The validator's counter is this number, up to saturation at 64 bits.
\<close>

section \<open>The count\<close>

fun inline_weight :: "Inline \<Rightarrow> nat" where
  "inline_weight (Link _ content) = Suc (sum_list (map inline_weight content))"
| "inline_weight (OcrText _ _ _ ev) = Suc (length (regions ev) + length (chain ev))"
| "inline_weight _ = 1"

definition own_tokens :: "Block \<Rightarrow> TimedToken list" where
  "own_tokens b = (case b of TimedSegment _ _ _ tokens _ \<Rightarrow> tokens | _ \<Rightarrow> [])"

definition own_weight :: "Block \<Rightarrow> nat" where
  "own_weight b = length (own_tokens b) + sum_list (map inline_weight (own_inlines b))"

definition inlines_in :: "BlockNode list \<Rightarrow> nat" where
  "inlines_in ns = sum_list (map (\<lambda>n. own_weight (node_block n)) (all_nodes ns))"

text \<open>The vectors whose lengths the code adds in one step fit a 64-bit \<open>usize\<close>.\<close>

fun inline_addressable :: "Inline \<Rightarrow> bool" where
  "inline_addressable (Link _ content) \<longleftrightarrow> list_all inline_addressable content"
| "inline_addressable (OcrText _ _ _ ev) \<longleftrightarrow> length (regions ev) < 2 ^ 64"
| "inline_addressable _ \<longleftrightarrow> True"

definition block_addressable :: "Block \<Rightarrow> bool" where
  "block_addressable b \<longleftrightarrow> length (own_tokens b) < 2 ^ 64 \<and> list_all inline_addressable (own_inlines b)"

definition addressable :: "BlockNode list \<Rightarrow> bool" where
  "addressable ns \<longleftrightarrow> list_all (\<lambda>n. block_addressable (node_block n)) (all_nodes ns)"

lemma inlines_in_simps:
  "inlines_in [] = 0"
  "inlines_in (n # ns) = own_weight (node_block n) + sum_list (map inlines_in (child_lists (node_block n))) + inlines_in ns"
  by (simp_all add: inlines_in_def [abs_def] sum_map_concat comp_def)

lemma addressable_simps:
  "addressable []"
  "addressable (n # ns) \<longleftrightarrow>
     block_addressable (node_block n) \<and> list_all addressable (child_lists (node_block n)) \<and> addressable ns"
  by (auto simp: addressable_def [abs_def] list_all_iff)

section \<open>The counter\<close>

definition counts_inlines :: "nat \<Rightarrow> ValidationState \<Rightarrow> ValidationState \<Rightarrow> bool" where
  "counts_inlines k st st' \<longleftrightarrow> unat (inline_count st') = min (unat (inline_count st) + k) (2 ^ 64 - 1)"

lemma counts_inlines_refl [simp]: "counts_inlines 0 st st"
  using unat_less_2p [of "inline_count st"] by (simp add: counts_inlines_def)

lemma counts_inlines_trans: "counts_inlines k st st' \<Longrightarrow> counts_inlines m st' st'' \<Longrightarrow> counts_inlines (k + m) st st''"
  by (simp add: counts_inlines_def min_def)

lemma counts_inlines_same: "inline_count st' = inline_count st \<Longrightarrow> counts_inlines 0 st st'"
  using unat_less_2p [of "inline_count st"] by (simp add: counts_inlines_def)

lemma consume_inlines_counts:
  "consume_inlines k p st = Inr st' \<Longrightarrow> counts_inlines (unat k) st st'"
  by (auto simp: consume_inlines_def resource_limit_def Let_def counts_inlines_def unat_saturating_add split: if_splits)

lemma consume_node_same: "consume_structural_node p st = Inr st' \<Longrightarrow> inline_count st' = inline_count st"
  by (auto simp: consume_structural_node_def resource_limit_def Let_def split: if_splits)

lemma enter_node_same: "enter_node i v p st = Inr st' \<Longrightarrow> inline_count st' = inline_count st"
  by (auto simp: enter_node_def and_then_Inr dest: consume_node_same split: if_splits)

lemma enter_item_same: "enter_item k c p st = Inr st' \<Longrightarrow> inline_count st' = inline_count st"
  by (auto simp: enter_item_def and_then_Inr invalid_node_def dest: consume_node_same split: if_splits)

lemma enter_footnote_same: "enter_footnote l p st = Inr st' \<Longrightarrow> inline_count st' = inline_count st"
  by (auto simp: enter_footnote_def and_then_Inr invalid_node_def split: if_splits)

lemma ocr_evidence_counts:
  assumes "validate_ocr_evidence pf ev v p st = Inr st'" and "length (regions ev) < 2 ^ 64"
  shows "counts_inlines (length (regions ev) + length (chain ev)) st st'"
proof -
  from ocr_evidence_Inr [OF assms(1)] have c: "length (chain ev) = 3"
    and st: "inline_count st' = saturating_add (saturating_add (inline_count st) (of_nat (length (regions ev)))) 3"
    by auto
  from assms(2) have "unat (of_nat (length (regions ev)) :: u64) = length (regions ev)"
    by (simp add: unat_of_nat take_bit_nat_eq_self)
  then show ?thesis by (simp add: counts_inlines_def st c unat_saturating_add min_def)
qed

lemma inlines_count:
  "validate_inlines pf p k i xs st = Inr st' \<Longrightarrow> list_all inline_addressable xs \<Longrightarrow>
     counts_inlines (sum_list (map inline_weight xs)) st st'"
proof (induction pf p k i xs st arbitrary: st' rule: validate_inlines.induct)
  case (2 pf p k i x xs st)
  from "2.prems"(1) obtain st1 where c: "consume_inlines 1 (at_index p i) st = Inr st1"
    by (auto simp: and_then_Inr Let_def)
  have one: "counts_inlines 1 st st1" using consume_inlines_counts [OF c] by simp
  have "\<exists>m st2. counts_inlines m st1 st2 \<and> inline_weight x = 1 + m \<and> validate_inlines pf p k (Suc i) xs st2 = Inr st'"
  proof (cases x)
    case (Link t c')
    with "2.prems"(1) c obtain st2 where s: "validate_inlines pf (at_index p i @ ''.data.content'') True 0 c' st1 = Inr st2"
      "validate_inlines pf p k (Suc i) xs st2 = Inr st'" and k: "\<not> k"
      by (auto simp: and_then_Inr Let_def invalid_node_def split: if_splits)
    from "2.IH"(1) [OF refl Link k s(1)] "2.prems"(2) Link s(2) show ?thesis by auto
  next
    case (OcrText v ms prov ev)
    with "2.prems"(1) c obtain st2 where s:
      "validate_ocr_evidence pf ev prov (at_index p i @ ''.data.evidence'') st1 = Inr st2"
      "validate_inlines pf p k (Suc i) xs st2 = Inr st'"
      by (auto simp: and_then_Inr Let_def)
    from ocr_evidence_counts [OF s(1)] "2.prems"(2) OcrText s(2) show ?thesis by auto
  next
    case (FootnoteReference lab)
    with "2.prems"(1) c have "validate_inlines pf p k (Suc i) xs
        (st1\<lparr>footnote_references := List.insert lab (footnote_references st1)\<rparr>) = Inr st'"
      by (auto simp: and_then_Inr Let_def)
    then show ?thesis using FootnoteReference
      by (auto intro!: exI [of _ 0] exI [of _ "st1\<lparr>footnote_references := List.insert lab (footnote_references st1)\<rparr>"]
          counts_inlines_same)
  qed (use "2.prems"(1) c in \<open>auto simp: and_then_Inr Let_def invalid_node_def intro!: exI [of _ 0] exI [of _ st1]
      split: if_splits\<close>)
  then obtain m st2 where x: "counts_inlines m st1 st2" "inline_weight x = 1 + m"
    and rest: "validate_inlines pf p k (Suc i) xs st2 = Inr st'" by blast
  from "2.IH"(2) [OF refl rest] "2.prems"(2) have "counts_inlines (sum_list (map inline_weight xs)) st2 st'" by simp
  from counts_inlines_trans [OF counts_inlines_trans [OF one x(1)] this] x(2) show ?case by (simp add: add.assoc)
qed simp

section \<open>The validator counts exactly the tree\<close>

lemma timed_segment_counts:
  assumes "validate_timed_segment p r sp c ts xs st = Inr st'" and "length ts < 2 ^ 64"
  shows "counts_inlines (length ts) st st'"
proof -
  from assms(2) have "unat (of_nat (length ts) :: u64) = length ts"
    by (simp add: unat_of_nat take_bit_nat_eq_self)
  with consume_inlines_counts [OF timed_segment_Inr [OF assms(1)]] show ?thesis by simp
qed

definition block_counts :: "Block \<Rightarrow> ValidationState \<Rightarrow> ValidationState \<Rightarrow> bool" where
  "block_counts b st st' \<longleftrightarrow> block_addressable b \<and> list_all addressable (child_lists b) \<longrightarrow>
     counts_inlines (own_weight b + sum_list (map inlines_in (child_lists b))) st st'"

definition lists_count :: "BlockNode list list \<Rightarrow> ValidationState \<Rightarrow> ValidationState \<Rightarrow> bool" where
  "lists_count css st st' \<longleftrightarrow> list_all addressable css \<longrightarrow> counts_inlines (sum_list (map inlines_in css)) st st'"

lemma lists_count_Nil [simp]: "lists_count [] st st"
  by (simp add: lists_count_def)

lemma lists_count_Cons:
  assumes "inline_count st1 = inline_count st" and "addressable ns \<longrightarrow> counts_inlines (inlines_in ns) st1 st2"
    and "lists_count css st2 st3"
  shows "lists_count (ns # css) st st3"
  using counts_inlines_trans [OF counts_inlines_trans [OF counts_inlines_same [OF assms(1)]]] assms(2,3)
  by (fastforce simp: lists_count_def)

lemma lists_count_append:
  assumes "inline_count st1 = inline_count st" and "lists_count css st1 st2" and "lists_count dss st2 st3"
  shows "lists_count (css @ dss) st st3"
  using counts_inlines_trans [OF counts_inlines_trans [OF counts_inlines_same [OF assms(1)]]] assms(2,3)
  by (fastforce simp: lists_count_def)

lemma block_counts_lists: "lists_count (child_lists b) st st' \<Longrightarrow> own_weight b = 0 \<Longrightarrow> block_counts b st st'"
  by (simp add: block_counts_def lists_count_def)

lemma block_counts_single:
  assumes "inline_count st1 = inline_count st" and "addressable ns \<longrightarrow> counts_inlines (inlines_in ns) st1 st2"
    and "child_lists b = [ns]" and "own_weight b = 0"
  shows "block_counts b st st2"
  using lists_count_Cons [OF assms(1,2) lists_count_Nil] assms(3,4) by (simp add: block_counts_lists)

lemma block_counts_inlines:
  assumes "validate_inlines pf p k i xs st = Inr st'" and "own_inlines b = xs" "own_tokens b = []" "child_lists b = []"
  shows "block_counts b st st'"
  using inlines_count [OF assms(1)] assms(2-4)
  by (simp add: block_counts_def own_weight_def block_addressable_def)

lemmas own_weights = own_weight_def own_tokens_def

lemma validator_counts:
  "validate_nodes pf p d i ns st = Inr st' \<Longrightarrow> addressable ns \<longrightarrow> counts_inlines (inlines_in ns) st st'"
  "validate_block pf p d b st = Inr st' \<Longrightarrow> block_counts b st st'"
  "validate_items pf p k d i items st = Inr st' \<Longrightarrow> lists_count (map item_blocks items) st st'"
  "validate_rows pf p d i occ w rows st = Inr r \<Longrightarrow>
     lists_count (concat (map (\<lambda>r. map cell_blocks (cells r)) rows)) st (snd (snd r))"
  "validate_cells pf p d i w occ c cs st = Inr q \<Longrightarrow> lists_count (map cell_blocks cs) st (snd q)"
proof (induction pf p d i ns st and pf p d b st and pf p k d i items st and pf p d i occ w rows st
    and pf p d i w occ c cs st arbitrary: st' and st' and st' and r and q
    rule: validate_nodes_validate_block_validate_items_validate_rows_validate_cells.induct)
  case (1 pf p d i st)
  then show ?case by (simp add: inlines_in_simps)
next
  case (2 pf p d i nid blk prov ns st)
  from "2.prems" obtain st1 st2 where s: "enter_node nid prov (at_index p i) st = Inr st1"
    "validate_block pf (at_index p i @ ''.block'') d blk st1 = Inr st2"
    "validate_nodes pf p d (Suc i) ns st2 = Inr st'"
    by (auto simp: and_then_Inr Let_def)
  from counts_inlines_trans [OF counts_inlines_trans [OF counts_inlines_same [OF enter_node_same [OF s(1)]]]]
    "2.IH"(1) [OF refl s(2)] "2.IH"(2) [OF refl s(3)]
  show ?case by (fastforce simp: block_counts_def inlines_in_simps addressable_simps)
next
  case (3 pf p d content st)
  then show ?case by (auto simp: own_tokens_def intro: block_counts_inlines)
next
  case (4 pf p d level content st)
  then show ?case by (auto simp: own_tokens_def invalid_node_def intro: block_counts_inlines split: if_splits)
next
  case (5 pf p d k start items st)
  then show ?case by (auto simp: and_then_Inr own_weights intro: block_counts_lists)
next
  case (6 pf p d rows al st)
  from "6.prems" obtain r where r: "rows \<noteq> []" "validate_rows pf p d 0 [] None rows st = Inr r" "snd (snd r) = st'"
    by (auto simp: and_then_Inr invalid_node_def split: if_splits)
  with "6.IH" [OF r(1,2)] show ?case by (auto simp: own_weights intro: block_counts_lists)
next
  case (9 pf p d lab bs st)
  then show ?case
    using block_counts_single [of _ st bs st' "Footnote lab bs"] enter_footnote_same
    by (fastforce simp: and_then_Inr own_weights)
next
  case (11 pf p d n bs st)
  then show ?case using block_counts_single [of st st bs st' "Page n bs"] by (auto simp: and_then_Inr own_weights)
next
  case (12 pf p d n t bs st)
  then show ?case using block_counts_single [of st st bs st' "Slide n t bs"] by (auto simp: and_then_Inr own_weights)
next
  case (13 pf p d n bs st)
  then show ?case using block_counts_single [of st st bs st' "Sheet n bs"] by (auto simp: and_then_Inr own_weights)
next
  case (14 pf p d r speaker sc tokens content st)
  from "14.prems" obtain st1 where s: "validate_timed_segment p r speaker sc tokens content st = Inr st1"
    "validate_inlines pf (p @ ''.data.content'') False 0 content st1 = Inr st'"
    by (auto simp: and_then_Inr)
  from counts_inlines_trans [OF timed_segment_counts [OF s(1)] inlines_count [OF s(2)]] show ?case
    by (simp add: block_counts_def own_weights block_addressable_def)
next
  case (17 pf p k d i ch lab bs items st)
  let ?ip = "at_index (p @ ''.data.items'') i"
  from "17.prems" obtain st1 st2 where s: "enter_item k ch ?ip st = Inr st1"
    "enter_nodes bs (?ip @ ''.blocks'') (Suc d) st1 = Inr ()"
    "validate_nodes pf (?ip @ ''.blocks'') (Suc d) 0 bs st1 = Inr st2"
    "validate_items pf p k d (Suc i) items st2 = Inr st'"
    by (auto simp: and_then_Inr Let_def)
  from lists_count_Cons [OF enter_item_same [OF s(1)] "17.IH"(1) [OF refl s(3)] "17.IH"(2) [OF refl s(4)]]
  show ?case by simp
next
  case (19 pf p d i occ w cs rows st)
  let ?rp = "at_index (p @ ''.data.rows'') i"
  from "19.prems" obtain st1 q occ2 w2 where s: "consume_structural_node ?rp st = Inr st1"
    "validate_cells pf ?rp d 0 w occ 0 cs st1 = Inr q" "validate_rows pf p d (Suc i) occ2 w2 rows (snd q) = Inr r"
    by (auto simp: and_then_Inr Let_def)
  from lists_count_append [OF consume_node_same [OF s(1)] "19.IH"(1) [OF refl s(2)] "19.IH"(2) [OF refl s(3)]]
  show ?case by simp
next
  case (21 pf rp d i w occ column rs cs hd bs rest st)
  let ?cp = "at_index (rp @ ''.cells'') i"
  from "21.prems" obtain st1 occ2 column2 st2 where s: "consume_structural_node ?cp st = Inr st1"
    "validate_nodes pf (?cp @ ''.blocks'') (Suc d) 0 bs st1 = Inr st2"
    "validate_cells pf rp d (Suc i) w occ2 column2 rest st2 = Inr q"
    by (auto simp: and_then_Inr Let_def)
  from lists_count_Cons [OF consume_node_same [OF s(1)] "21.IH"(1) [OF refl s(2)] "21.IH"(2) [OF refl s(3)]]
  show ?case by simp
qed (auto simp: and_then_Inr invalid_node_def block_counts_def own_weights split: if_splits)

end
