(* ===== verification/IR_WellFormed.thy ===== *)
theory IR_WellFormed
  imports IR_Inline_Count
begin

text \<open>
  What a validated document is, stated without the validator: the identifiers, labels, references,
  count and nesting of its tree, what every node satisfies by itself and the number of its inlines;
  and the theorem that \<open>validate_with_limits\<close> of \<open>crates/core/src/ir.rs\<close> accepts no document that
  breaks them.
\<close>

section \<open>Well-formed documents\<close>

text \<open>
  Claim C14: a document the validator accepts is well formed. Its node identifiers are nonblank
  and distinct across the whole tree, it nests at most \<open>max_depth\<close> deep and has at most
  \<open>max_nodes\<close> structural nodes, every footnote reference anywhere in it (inside links too) names
  a footnote of the document, and no footnote is defined twice. Every node at any depth is well
  formed by itself (\<open>node_ok\<close>): heading levels are 1 to 6, lists and tables are not empty, the spans
  of every cell and every page, slide and start number are positive, names and labels are nonblank,
  exactly task items carry a check mark, marks are distinct, links do not nest, and provenance is
  attributed, ordered and one-based. Unless \<open>max_inlines\<close> is the largest word, the inlines of the
  whole tree (link contents, timed tokens, recognised regions and evidence steps counted) are at
  most \<open>max_inlines\<close>, for vectors whose length a \<open>usize\<close> can hold.
\<close>

theorem validated_documents_are_well_formed:
  assumes ok: "validate_with_limits pf l d = Inr ()" and finite: "max_nodes l \<noteq> - 1"
  shows "schema_version d = 1 \<and> distinct (ids_in (blocks d)) \<and> list_all (\<lambda>i. \<not> blank i) (ids_in (blocks d))
    \<and> height (blocks d) \<le> max_depth l \<and> count_in (blocks d) \<le> unat (max_nodes l)
    \<and> references_in (blocks d) \<subseteq> set (labels_in (blocks d)) \<and> distinct (labels_in (blocks d))
    \<and> list_all node_ok (all_nodes (blocks d))
    \<and> (max_inlines l \<noteq> - 1 \<and> addressable (blocks d) \<longrightarrow> inlines_in (blocks d) \<le> unat (max_inlines l))"
proof -
  let ?s = "new_state l"
  obtain st where e: "enter_nodes (blocks d) ''$.blocks'' 1 ?s = Inr ()"
    and v: "validate_nodes pf ''$.blocks'' 1 0 (blocks d) ?s = Inr st"
    and u: "undefined_reference st = None" and sv: "schema_version d = 1"
    using ok by (auto simp: validate_with_limits_def and_then_Inr invalid_node_def DOCUMENT_SCHEMA_VERSION_def
        split: if_splits option.splits)
  have ab: "absorbs (ids_in (blocks d)) (labels_in (blocks d)) (references_in (blocks d)) (count_in (blocks d)) ?s st"
    using validator_absorbs(1) [OF v] by (simp add: absorbs_nodes_def)
  then have f: "node_ids st = rev (ids_in (blocks d))" "footnotes st = rev (labels_in (blocks d))"
    "set (footnote_references st) = references_in (blocks d)"
    "unat (node_count st) = min (count_in (blocks d)) (2 ^ 64 - 1)"
    "distinct (node_ids st)" "distinct (footnotes st)" "list_all (\<lambda>i. \<not> blank i) (ids_in (blocks d))"
    "node_count st \<le> max_nodes l" "inline_count st \<le> max_inlines l"
    by (auto simp: absorbs_def new_state_def)
  have "set (footnote_references st) \<subseteq> set (footnotes st)"
    using u by (auto simp: undefined_reference_def filter_empty_conv split: list.splits)
  moreover have "count_in (blocks d) \<le> unat (max_nodes l)"
    using f(4,8) unat_not_max [OF finite] by (simp add: word_le_nat_alt min_def split: if_splits)
  moreover have "height (blocks d) \<le> max_depth l"
    using height_within [of "blocks d" "''$.blocks''" 0 ?s] e validator_depth(1) [OF v]
    by (cases "blocks d = []") (auto simp: new_state_def)
  moreover have "list_all node_ok (all_nodes (blocks d))"
    using validator_local(1) [OF v] by (simp add: nodes_ok_def)
  moreover have "inlines_in (blocks d) \<le> unat (max_inlines l)"
    if "max_inlines l \<noteq> - 1" "addressable (blocks d)"
    using validator_counts(1) [OF v] that(2) f(9) unat_not_max [OF that(1)]
    by (simp add: counts_inlines_def new_state_def word_le_nat_alt min_def split: if_splits)
  ultimately show ?thesis using f sv by simp
qed

definition demo_provenance :: Provenance where
  "demo_provenance = \<lparr>prov_kind = NativeParser, provider = ''p'', locator = default_locator, confidence = None\<rparr>"

definition demo_document :: Document where
  "demo_document = default_document\<lparr>blocks :=
     [BlockNode ''a'' (Paragraph [Text ''see'' [], FootnoteReference ''1'']) demo_provenance,
      BlockNode ''b'' (Footnote ''1'' [BlockNode ''c'' (Paragraph []) demo_provenance]) demo_provenance]\<rparr>"

abbreviation demo_limits :: ValidationLimits where
  "demo_limits \<equiv> default_validation_limits 1000 1000"

lemma blank_ascii: "\<forall>c \<in> set s. byte c < 128 \<Longrightarrow> blank s \<longleftrightarrow> list_all (\<lambda>c. is_whitespace (byte c)) s"
  by (simp add: blank_def chars_ascii list_all_iff)

lemma demo_document_ok: "validate_with_limits pf demo_limits demo_document = Inr ()"
  by (simp add: validate_with_limits_def demo_document_def default_document_def default_validation_limits_def
      DOCUMENT_SCHEMA_VERSION_def new_state_def enter_nodes_def enter_node_def consume_structural_node_def
      consume_inlines_def blank_ascii is_whitespace_def demo_provenance_def validate_provenance_def default_locator_def
      validate_locator_def validate_geometry_def validate_inline_marks_def nonempty_def enter_footnote_def
      undefined_reference_def saturating_add_def word_less_nat_alt Let_def)

theorem validated_documents_are_well_formed_witness:
  "distinct (ids_in (blocks demo_document)) \<and> references_in (blocks demo_document) \<subseteq> {''1''}
    \<and> list_all node_ok (all_nodes (blocks demo_document)) \<and> inlines_in (blocks demo_document) \<le> 1000"
  using validated_documents_are_well_formed [OF demo_document_ok [of undefined]]
  by (simp add: default_validation_limits_def labels_in_def demo_document_def addressable_def block_addressable_def
      own_tokens_def)

end
