(* ===== verification/IR_Tables.thy ===== *)
theory IR_Tables
  imports IR_WellFormed
begin

text \<open>
  Table geometry of \<open>crates/core/src/ir.rs\<close>: the occupancy algorithm of \<open>validate_table\<close> accepts a
  table only when its cells, spans included, tile a rectangle.
\<close>

section \<open>Tilings\<close>

text \<open>A placed cell: row, column, row span, column span.\<close>

type_synonym rect = "nat \<times> nat \<times> nat \<times> nat"

fun covers :: "rect \<Rightarrow> nat \<Rightarrow> nat \<Rightarrow> bool" where
  "covers (r0, c0, h, k) r c \<longleftrightarrow> r0 \<le> r \<and> r < r0 + h \<and> c0 \<le> c \<and> c < c0 + k"

definition cover_count :: "rect list \<Rightarrow> nat \<Rightarrow> nat \<Rightarrow> nat" where
  "cover_count rs r c = length (filter (\<lambda>x. covers x r c) rs)"

lemma cover_count_simps [simp]:
  "cover_count [] r c = 0"
  "cover_count (x # rs) r c = (if covers x r c then 1 else 0) + cover_count rs r c"
  "cover_count (rs @ qs) r c = cover_count rs r c + cover_count qs r c"
  by (simp_all add: cover_count_def)

text \<open>The shape a rectangle contributes: its row and spans, as the source cell gives them.\<close>

fun rect_shape :: "rect \<Rightarrow> nat \<times> nat \<times> nat" where
  "rect_shape (r, c, h, k) = (r, h, k)"

definition cell_shapes :: "nat \<Rightarrow> Cell list \<Rightarrow> (nat \<times> nat \<times> nat) list" where
  "cell_shapes i cs = map (\<lambda>c. (i, unat (row_span c), unat (column_span c))) cs"

fun table_shapes :: "nat \<Rightarrow> TableRow list \<Rightarrow> (nat \<times> nat \<times> nat) list" where
  "table_shapes i [] = []"
| "table_shapes i (r # rs) = cell_shapes i (cells r) @ table_shapes (Suc i) rs"

text \<open>Occupancy says how far down each column is covered, seen from row \<open>i\<close>.\<close>

definition occupied :: "(nat \<Rightarrow> nat \<Rightarrow> nat) \<Rightarrow> nat \<Rightarrow> nat list \<Rightarrow> bool" where
  "occupied f i occ \<longleftrightarrow> (\<forall>r c. f r c = (if c < length occ \<and> r < i + occ ! c then 1 else 0))"

definition row_state :: "nat \<Rightarrow> nat option \<Rightarrow> nat list \<Rightarrow> nat \<Rightarrow> bool" where
  "row_state i w occ column \<longleftrightarrow>
     (case w of None \<Rightarrow> i = 0 \<and> column = length occ | Some w \<Rightarrow> length occ = w)"

lemma place_cell_Inr:
  assumes ok: "place_cell m w cp rs cs occ (skip_covered occ column) = Inr (occ', e)"
    and st: "row_state i w occ column" and f: "occupied f i occ"
  shows "\<exists>c0. row_state i w occ' e
    \<and> occupied (\<lambda>r c. f r c + (if covers (i, c0, unat rs, unat cs) r c then 1 else 0)) i occ'"
proof -
  let ?c = "skip_covered occ column"
  have c: "e = ?c + unat cs" "0 < unat cs" "0 < unat rs"
    and w: "w = Some n \<Longrightarrow> e \<le> n" for n
    using ok by (auto simp: place_cell_def Let_def invalid_node_def resource_limit_def unat_gt_0 split: if_splits)
  have free: "?c \<le> j \<Longrightarrow> j < e \<Longrightarrow> j < length occ \<Longrightarrow> occ ! j = 0" for j
  proof -
    assume j: "?c \<le> j" "j < e" "j < length occ"
    show "occ ! j = 0"
    proof (cases w)
      case None
      with st j show ?thesis by (simp add: row_state_def skip_covered_def)
    next
      case (Some n)
      then have "e \<le> length occ" using w st by (simp add: row_state_def)
      with ok have "\<not> list_ex (\<lambda>x. x > 0) (take (e - ?c) (drop ?c occ))"
        by (auto simp: place_cell_def Let_def invalid_node_def resource_limit_def split: if_splits)
      moreover have "occ ! j \<in> set (take (e - ?c) (drop ?c occ))"
        using j by (auto simp: in_set_conv_nth intro!: exI [of _ "j - ?c"])
      ultimately show ?thesis by (auto simp: list_ex_iff)
    qed
  qed
  have occ': "occ' = take ?c (pad_to occ e) @ replicate (unat cs) (unat rs) @ drop e (pad_to occ e)"
    using ok c by (auto simp: place_cell_def Let_def invalid_node_def resource_limit_def split: if_splits)
  have lp: "length (pad_to occ e) = max (length occ) e" by (simp add: pad_to_def)
  have len: "length occ' = max (length occ) e"
    unfolding occ' length_append length_take length_drop length_replicate lp using c by (simp add: min_def max_def)
  have nth: "occ' ! j = (if ?c \<le> j \<and> j < e then unat rs else pad_to occ e ! j)" if "j < length occ'" for j
    using that c len unfolding occ' by (auto simp: nth_append lp)
  have old: "pad_to occ e ! j = (if j < length occ then occ ! j else 0)" if "j < max (length occ) e" for j
    using that by (auto simp: pad_to_def nth_append)
  have "row_state i w occ' e"
    using st w c by (auto simp: row_state_def len skip_covered_def split: option.splits)
  moreover have "occupied (\<lambda>r c. f r c + (if covers (i, ?c, unat rs, unat cs) r c then 1 else 0)) i occ'"
    unfolding occupied_def
  proof (intro allI)
    fix r j
    have fr: "f r j = (if j < length occ \<and> r < i + occ ! j then 1 else 0)"
      using f by (simp add: occupied_def)
    have gap: "length occ \<le> j \<Longrightarrow> j < e \<Longrightarrow> i = 0 \<and> ?c \<le> j"
      using st w by (cases w) (auto simp: row_state_def skip_covered_def)
    show "f r j + (if covers (i, ?c, unat rs, unat cs) r j then 1 else 0)
        = (if j < length occ' \<and> r < i + occ' ! j then 1 else 0)"
    proof (cases "?c \<le> j \<and> j < e")
      case True
      with len nth free [of j] gap c fr show ?thesis by (auto simp: not_less)
    next
      case False
      have "(j < length occ' \<and> r < i + occ' ! j) = (j < length occ \<and> r < i + occ ! j)"
        using False len nth [of j] old [of j] gap by (auto simp: not_less less_max_iff_disj split: if_splits)
      with False c fr show ?thesis by auto
    qed
  qed
  ultimately show ?thesis by blast
qed

lemma validate_cells_tile:
  assumes "validate_cells pf rp d n w occ column cs st = Inr (occ', st')"
    and "row_state i w occ column" and "occupied f i occ"
  shows "\<exists>rects e. map rect_shape rects = cell_shapes i cs \<and> row_state i w occ' e
    \<and> occupied (\<lambda>r c. f r c + cover_count rects r c) i occ'"
  using assms
proof (induction cs arbitrary: n occ column st f)
  case Nil
  then show ?case by (auto intro!: exI [of _ "[]"] simp: cell_shapes_def)
next
  case (Cons x cs)
  obtain rs ks hd bs where x: "x = Cell rs ks hd bs" by (cases x)
  from Cons.prems(1) obtain m cp occ1 e st1 st2 where
    p: "place_cell m w cp rs ks occ (skip_covered occ column) = Inr (occ1, e)"
    and rest: "validate_cells pf rp d (Suc n) w occ1 e cs st2 = Inr (occ', st')"
    by (auto simp: x and_then_Inr Let_def split: prod.splits)
  from place_cell_Inr [OF p Cons.prems(2,3)] obtain c0 where
    s: "row_state i w occ1 e"
       "occupied (\<lambda>r c. f r c + (if covers (i, c0, unat rs, unat ks) r c then 1 else 0)) i occ1" by blast
  from Cons.IH [OF rest s] obtain rects e' where
    "map rect_shape rects = cell_shapes i cs" "row_state i w occ' e'"
    "occupied (\<lambda>r c. f r c + (if covers (i, c0, unat rs, unat ks) r c then 1 else 0) + cover_count rects r c) i occ'"
    by blast
  then show ?case
    by (intro exI [of _ "(i, c0, unat rs, unat ks) # rects"] exI [of _ e'])
      (simp add: x cell_shapes_def add.assoc del: covers.simps)
qed

lemma close_row_Inr:
  assumes "close_row rp occ w = Inr (occ', w')" and "row_state i w occ column" and "occupied f i occ"
  shows "\<exists>n. w' = Some n \<and> 0 < n \<and> row_state (Suc i) w' occ' 0 \<and> occupied f (Suc i) occ'"
proof -
  have n: "w' = Some (length occ)" "0 < length occ" "0 \<notin> set occ" "occ' = map (\<lambda>x. x - 1) occ"
    using assms(1) by (auto simp: close_row_def Let_def invalid_node_def split: if_splits option.splits)
  have "occupied f (Suc i) occ'"
    unfolding occupied_def
  proof (intro allI)
    fix r c
    have "0 < occ ! c" if "c < length occ" using n(3) that by (metis gr0I nth_mem)
    then have "(c < length occ \<and> r < i + occ ! c) = (c < length occ' \<and> r < Suc i + occ' ! c)"
      by (auto simp: n(4))
    then show "f r c = (if c < length occ' \<and> r < Suc i + occ' ! c then 1 else 0)"
      using assms(3) by (simp add: occupied_def)
  qed
  with n show ?thesis by (simp add: row_state_def)
qed

lemma validate_rows_tile:
  assumes "validate_rows pf p d i occ w rows st = Inr (occ', w', st')"
    and "row_state i w occ 0" and "occupied f i occ"
  shows "\<exists>rects. map rect_shape rects = table_shapes i rows \<and> row_state (i + length rows) w' occ' 0
    \<and> (rows \<noteq> [] \<longrightarrow> (\<exists>n > 0. w' = Some n))
    \<and> occupied (\<lambda>r c. f r c + cover_count rects r c) (i + length rows) occ'"
  using assms
proof (induction rows arbitrary: i occ w st f)
  case Nil
  then show ?case by (auto intro!: exI [of _ "[]"])
next
  case (Cons row rows)
  obtain cs where row: "row = TableRow cs" by (cases row)
  from Cons.prems(1) obtain rp st1 occ1 st2 occ2 w2 where
    c: "validate_cells pf rp d 0 w occ 0 cs st1 = Inr (occ1, st2)" and r: "close_row rp occ1 w = Inr (occ2, w2)"
    and rest: "validate_rows pf p d (Suc i) occ2 w2 rows st2 = Inr (occ', w', st')"
    by (auto simp: row and_then_Inr Let_def split: prod.splits)
  from validate_cells_tile [OF c Cons.prems(2,3)] obtain rects e where
    a: "map rect_shape rects = cell_shapes i cs" "row_state i w occ1 e"
      "occupied (\<lambda>r c. f r c + cover_count rects r c) i occ1" by blast
  from close_row_Inr [OF r a(2,3)] obtain n where
    b: "w2 = Some n" "0 < n" "row_state (Suc i) w2 occ2 0"
      "occupied (\<lambda>r c. f r c + cover_count rects r c) (Suc i) occ2" by blast
  from Cons.IH [OF rest b(3,4)] obtain qs where
    q: "map rect_shape qs = table_shapes (Suc i) rows" "row_state (Suc i + length rows) w' occ' 0"
      "rows \<noteq> [] \<longrightarrow> (\<exists>n > 0. w' = Some n)"
      "occupied (\<lambda>r c. f r c + cover_count rects r c + cover_count qs r c) (Suc i + length rows) occ'" by blast
  have "\<exists>n > 0. w' = Some n"
    using q(3) b rest by (cases "rows = []") auto
  with a q show ?case
    by (intro exI [of _ "rects @ qs"]) (simp add: row add.assoc)
qed

text \<open>
  Claim C15: an accepted table is an exact tiling. There is a logical width and a position for
  every cell, in its own row and with its own spans, such that each logical slot of the
  rows-by-width rectangle is covered by exactly one cell and no cell reaches outside; explicit
  alignments number exactly the columns.
\<close>

theorem accepted_tables_tile_the_grid:
  assumes "validate_block pf p d (Table rows al) st = Inr st'"
  shows "\<exists>width rects. 0 < width \<and> map rect_shape rects = table_shapes 0 rows
    \<and> (\<forall>r c. cover_count rects r c = (if r < length rows \<and> c < width then 1 else 0))
    \<and> (al = [] \<or> length al = width)"
proof -
  obtain occ w where rows: "rows \<noteq> []"
    and v: "validate_rows pf p d 0 [] None rows st = Inr (occ, w, st')"
    and cl: "close_table p al occ w = Inr ()"
    using assms by (auto simp: invalid_node_def and_then_Inr split: if_splits)
  have "row_state 0 None [] 0" "occupied (\<lambda>r c. 0) 0 []"
    by (simp_all add: row_state_def occupied_def)
  from validate_rows_tile [OF v this] rows obtain rects n where
    t: "map rect_shape rects = table_shapes 0 rows" "row_state (length rows) w occ 0" "0 < n" "w = Some n"
      "occupied (\<lambda>r c. cover_count rects r c) (length rows) occ" by auto
  have "\<forall>x \<in> set occ. x = 0" "al = [] \<or> Some (length al) = w"
    using cl by (auto simp: close_table_def invalid_node_def list_ex_iff split: if_splits)
  then have zero: "c < length occ \<Longrightarrow> occ ! c = 0" for c by simp
  have "length occ = n" using t(2,4) by (simp add: row_state_def)
  with t(5) have "cover_count rects r c = (if r < length rows \<and> c < n then 1 else 0)" for r c
    using zero [of c] by (cases "c < n") (simp_all add: occupied_def)
  with t \<open>al = [] \<or> _ = w\<close> show ?thesis by (intro exI [of _ n] exI [of _ rects]) auto
qed

definition demo_rows :: "TableRow list" where
  "demo_rows = [TableRow [Cell 2 1 True [], Cell 1 2 True []], TableRow [Cell 1 1 False [], Cell 1 1 False []]]"

theorem accepted_tables_tile_the_grid_witness:
  "\<exists>(width::nat) rects. 0 < width \<and> map rect_shape rects = table_shapes 0 demo_rows \<and> cover_count rects 1 0 = 1"
proof -
  have "validate_block pf p 1 (Table demo_rows []) (new_state demo_limits)
      = Inr ((new_state demo_limits)\<lparr>node_count := 6\<rparr>)" for pf p
    by (simp add: demo_rows_def new_state_def default_validation_limits_def consume_structural_node_def Let_def
        saturating_add_def place_cell_def skip_covered_def pad_to_def close_row_def close_table_def enter_nodes_def
        word_less_nat_alt)
  from accepted_tables_tile_the_grid [OF this] obtain width rects where
    "0 < width" "map rect_shape rects = table_shapes 0 demo_rows"
    "\<forall>r c. cover_count rects r c = (if r < length demo_rows \<and> c < width then 1 else 0)" by blast
  then have "cover_count rects 1 0 = 1" by (simp add: demo_rows_def)
  with \<open>0 < width\<close> \<open>map rect_shape rects = _\<close> show ?thesis by blast
qed

end
