(* ===== verification/IR_Safety.thy ===== *)
theory IR_Safety
  imports IR_Tables
begin

text \<open>
  Two guarantees consumers of a validated document rely on: container part names cannot escape the
  container, and timed tokens reproduce their segment in order.
\<close>

section \<open>Part names\<close>

text \<open>How a file system walks a relative path: empty and \<open>.\<close> segments stay, \<open>..\<close> leaves a directory.\<close>

fun resolve :: "string list \<Rightarrow> string list \<Rightarrow> string list" where
  "resolve base [] = base"
| "resolve base (seg # segs) =
     resolve (if seg = [] \<or> seg = ''.'' then base else if seg = ''..'' then butlast base else base @ [seg]) segs"

lemma resolve_plain:
  "list_all (\<lambda>seg. seg \<noteq> [] \<and> seg \<noteq> ''.'' \<and> seg \<noteq> ''..'') segs \<Longrightarrow> resolve base segs = base @ segs"
  by (induction segs arbitrary: base) auto

lemma split_on_no_sep: "seg \<in> set (split_on c s) \<Longrightarrow> c \<notin> set seg"
proof (induction s arbitrary: seg)
  case (Cons d s)
  then show ?case by (cases "split_on c s") (auto split: if_splits)
qed simp

fun join_on :: "char \<Rightarrow> string list \<Rightarrow> string" where
  "join_on c [] = []"
| "join_on c [s] = s"
| "join_on c (s # ss) = s @ c # join_on c ss"

lemma join_on_Cons: "ss \<noteq> [] \<Longrightarrow> join_on c (s # ss) = s @ c # join_on c ss"
  by (cases ss) simp_all

lemma join_split: "join_on c (split_on c s) = s"
proof (induction s)
  case (Cons d s)
  show ?case
  proof (cases "split_on c s")
    case Nil
    then show ?thesis by simp
  next
    case (Cons p ps)
    with Cons.IH show ?thesis by (cases ps) auto
  qed
qed simp

text \<open>
  Claim C16: a container part name that passes the check stays inside its container. Walking it
  from any directory only descends, through exactly its own nonempty segments, none of which
  holds a separator; the name is relative and has no backslash, drive prefix or control
  character.
\<close>

theorem safe_part_names_stay_inside:
  assumes "is_safe_container_part_name s"
  shows "resolve base (split_on (CHR ''/'') s) = base @ split_on (CHR ''/'') s
    \<and> list_all (\<lambda>seg. seg \<noteq> [] \<and> CHR ''/'' \<notin> set seg \<and> CHR 0x5C \<notin> set seg) (split_on (CHR ''/'') s)
    \<and> \<not> has_control s \<and> hd s \<noteq> CHR ''/'' \<and> (\<forall>r. s \<noteq> CHR ''C'' # CHR '':'' # r)"
proof -
  note safe = assms [unfolded is_safe_container_part_name_def Let_def, simplified]
  have segs: "list_all (\<lambda>seg. seg \<noteq> [] \<and> seg \<noteq> ''.'' \<and> seg \<noteq> ''..'') (split_on (CHR ''/'') s)"
    using safe by (simp only: list_all_iff list_ex_iff) blast
  have s: "s \<noteq> []" "CHR 0x5C \<notin> set s" "\<not> has_control s"
    using safe by blast+
  have rel: "hd s \<noteq> CHR ''/''"
    using safe s(1) by (cases s) simp_all
  have drive: "\<not> (case s of c # d # _ \<Rightarrow> d = CHR '':'' \<and> is_ascii_alphabetic c | _ \<Rightarrow> False)"
    using safe by blast
  have sub: "set seg \<subseteq> set s" if "seg \<in> set (split_on (CHR ''/'') s)" for seg
  proof -
    have "set seg \<subseteq> set (join_on c ss)" if "seg \<in> set ss" for c ss
      using that by (induction c ss rule: join_on.induct) auto
    from this [OF that, of "CHR ''/''"] show ?thesis by (simp only: join_split)
  qed
  have "is_ascii_alphabetic (CHR ''C'')" by code_simp
  with drive have "s \<noteq> CHR ''C'' # CHR '':'' # r" for r by auto
  moreover have "list_all (\<lambda>seg. seg \<noteq> [] \<and> CHR ''/'' \<notin> set seg \<and> CHR 0x5C \<notin> set seg) (split_on (CHR ''/'') s)"
    unfolding list_all_iff
  proof (intro ballI conjI)
    fix seg assume seg: "seg \<in> set (split_on (CHR ''/'') s)"
    show "seg \<noteq> []" using segs seg by (auto simp only: list_all_iff)
    show "CHR ''/'' \<notin> set seg" using seg by (rule split_on_no_sep)
    show "CHR 0x5C \<notin> set seg" using sub [OF seg] s(2) by (rule contra_subsetD)
  qed
  ultimately show ?thesis using resolve_plain [OF segs] s rel by blast
qed

lemma has_control_ascii: "\<forall>c \<in> set s. byte c < 128 \<Longrightarrow> has_control s = list_ex (\<lambda>c. is_control (byte c)) s"
  by (simp add: has_control_def chars_ascii list_ex_iff)

theorem safe_part_names_stay_inside_witness:
  "resolve [''pkg''] (split_on (CHR ''/'') ''word/a..b.xml'') = [''pkg'', ''word'', ''a..b.xml'']"
proof -
  have "is_safe_container_part_name ''word/a..b.xml''"
    by (simp add: is_safe_container_part_name_def has_control_ascii is_control_def)
  from safe_part_names_stay_inside [OF this, of "[''pkg'']"] show ?thesis by simp
qed

section \<open>Timed tokens\<close>

definition tokens_in_order :: "u64 \<Rightarrow> TimedToken list \<Rightarrow> bool" where
  "tokens_in_order t ts \<longleftrightarrow>
     successively (\<lambda>a b. end_ms (token_range a) \<le> start_ms (token_range b)) ts
     \<and> (ts \<noteq> [] \<longrightarrow> t \<le> start_ms (token_range (hd ts)))"

lemma tokens_loop_Inr:
  "tokens_loop r p i t n ts = Inr m \<Longrightarrow>
     tokens_in_order t ts \<and> list_all (\<lambda>x. \<exists>e. \<not> bad_token r e x) ts \<and> m = n + length (concat (map token_text ts))"
proof (induction ts arbitrary: i t n)
  case (Cons x ts)
  from Cons.prems have ok: "\<not> bad_token r t x"
    "tokens_loop r p (Suc i) (end_ms (token_range x)) (n + length (token_text x)) ts = Inr m"
    by (auto simp: Let_def invalid_node_def split: if_splits)
  from Cons.IH [OF ok(2)] ok(1) show ?case
    by (cases ts) (auto simp: tokens_in_order_def bad_token_def not_less)
qed (simp add: tokens_in_order_def)

text \<open>
  Claim C17: token evidence is faithful. When a timed segment with tokens is accepted, its content
  is one unmarked text that is exactly the concatenation of the tokens, and the tokens are
  nonempty, nonoverlapping, in time order and inside the segment's range.
\<close>

theorem accepted_tokens_reproduce_segment:
  assumes "validate_timed_segment p r speaker conf tokens content st = Inr st'" and "tokens \<noteq> []"
  shows "content = [Text (concat (map token_text tokens)) []]
    \<and> successively (\<lambda>a b. end_ms (token_range a) \<le> start_ms (token_range b)) tokens
    \<and> list_all (\<lambda>t. token_text t \<noteq> [] \<and> start_ms r \<le> start_ms (token_range t)
         \<and> start_ms (token_range t) < end_ms (token_range t) \<and> end_ms (token_range t) \<le> end_ms r) tokens
    \<and> (\<forall>s. speaker = Some s \<longrightarrow> list_all (\<lambda>t. token_speaker t = Some s) tokens)"
proof -
  obtain n v marks where t: "tokens_loop r p 0 (start_ms r) 0 tokens = Inr n"
    and c: "single_text content = Some (v, marks)" "marks = []" "concat (map token_text tokens) = v"
    and sp: "\<not> holds_some (\<lambda>s. list_ex (\<lambda>t. token_speaker t \<noteq> Some s) tokens) speaker"
    using assms by (auto simp: validate_timed_segment_def and_then_Inr invalid_node_def
        split: if_split_asm option.split_asm)
  have "content = [Text v marks]"
    using c(1) by (auto simp: single_text_def length_Suc_conv split: if_splits Inline.splits)
  with tokens_loop_Inr [OF t] c sp show ?thesis
    by (auto simp: tokens_in_order_def list_all_iff list_ex_iff bad_token_def not_less not_le)
qed

theorem accepted_tokens_reproduce_segment_witness:
  "[Text ''hi yo'' []] = [Text (concat (map token_text
     [\<lparr>token_range = \<lparr>start_ms = 0, end_ms = 4\<rparr>, token_text = ''hi '', token_confidence = None, token_speaker = None,
       token_speaker_confidence = None\<rparr>,
      \<lparr>token_range = \<lparr>start_ms = 4, end_ms = 9\<rparr>, token_text = ''yo'', token_confidence = None, token_speaker = None,
       token_speaker_confidence = None\<rparr>])) []]"
proof -
  let ?ts = "[\<lparr>token_range = \<lparr>start_ms = 0, end_ms = 4\<rparr>, token_text = ''hi '', token_confidence = None,
      token_speaker = None, token_speaker_confidence = None\<rparr>,
    \<lparr>token_range = \<lparr>start_ms = 4, end_ms = 9\<rparr>, token_text = ''yo'', token_confidence = None, token_speaker = None,
      token_speaker_confidence = None\<rparr>]"
  have "validate_timed_segment ''p'' \<lparr>start_ms = 0, end_ms = 10\<rparr> None None ?ts [Text ''hi yo'' []] (new_state demo_limits)
      = Inr ((new_state demo_limits)\<lparr>inline_count := 2\<rparr>)"
    by (simp add: validate_timed_segment_def bad_token_def consume_inlines_def new_state_def
        default_validation_limits_def saturating_add_def single_text_def Let_def word_less_nat_alt word_le_nat_alt)
  from accepted_tokens_reproduce_segment [OF this] show ?thesis by simp
qed

end
