(* ===== verification/Json.thy ===== *)
theory Json
  imports Strings
begin

text \<open>
  \<open>serde_json::Value\<close> as the sources observe it: a tree with \<open>get\<close>, \<open>as_object\<close>, \<open>as_array\<close>,
  \<open>as_str\<close>, \<open>as_u64\<close> and the \<open>is_\<close> tests. A number is kept as what \<open>as_u64\<close> says of it, which
  is all that is read; parsing and typed decoding are not part of the sources.
\<close>

datatype json =
    JNull
  | JBool bool
  | JNumber "u64 option"
  | JString string
  | JArray "json list"
  | JObject "(string \<times> json) list"

fun as_object :: "json \<Rightarrow> (string \<times> json) list option" where
  "as_object (JObject kvs) = Some kvs"
| "as_object _ = None"

fun as_array :: "json \<Rightarrow> json list option" where
  "as_array (JArray vs) = Some vs"
| "as_array _ = None"

fun as_str :: "json \<Rightarrow> string option" where
  "as_str (JString s) = Some s"
| "as_str _ = None"

fun as_u64 :: "json \<Rightarrow> u64 option" where
  "as_u64 (JNumber n) = n"
| "as_u64 _ = None"

text \<open>\<open>Value::get\<close> with a string index, and the chain \<open>data.and_then(|d| d.get(k))\<close>.\<close>

definition field :: "json \<Rightarrow> string \<Rightarrow> json option" where
  "field v k = (case as_object v of Some kvs \<Rightarrow> map_of kvs k | None \<Rightarrow> None)"

definition field_array :: "json option \<Rightarrow> string \<Rightarrow> json list option" where
  "field_array d k = Option.bind (Option.bind d (\<lambda>v. field v k)) as_array"

text \<open>A vector's length as a \<open>usize\<close>; a Rust vector never holds more elements than that.\<close>

definition len_usize :: "'a list \<Rightarrow> u64" where
  "len_usize xs = of_nat (min (length xs) (2 ^ 64 - 1))"

lemma unat_len_usize [word_nat]: "unat (len_usize xs) = min (length xs) (2 ^ 64 - 1)"
  by (simp add: len_usize_def unat_of_nat_small)

section \<open>Sizes, for recursion into a value\<close>

lemma map_of_size: "map_of kvs k = Some v \<Longrightarrow> size v < size (JObject kvs)"
proof (induction kvs)
  case (Cons kv kvs)
  then show ?case by (cases kv) (auto split: if_splits)
qed simp

lemma field_size: "field v k = Some w \<Longrightarrow> size w < size v"
  unfolding field_def by (cases v) (use map_of_size in \<open>auto split: if_splits\<close>)

lemma as_array_size: "as_array v = Some vs \<Longrightarrow> size_list size vs < size v"
  by (cases v) auto

lemma field_array_size: "field_array (Some v) k = Some vs \<Longrightarrow> size_list size vs < size v"
  by (auto simp: field_array_def bind_eq_Some_conv dest!: field_size as_array_size)

end
