(* ===== verification/IR_Wire_Table.thy ===== *)
theory IR_Wire_Table
  imports IR_Blocks Json
begin

text \<open>
  The width check of \<open>preflight_table_width\<close> in \<open>crates/core/src/ir.rs\<close> on a parsed JSON table, and
  the layout it stands for: rectangles placed cell by cell, without the occupancy vector.
\<close>

section \<open>Table width\<close>

text \<open>\<open>None\<close> is the early \<open>return Ok(())\<close> on a malformed cell.\<close>

fun wire_cells :: "ValidationLimits \<Rightarrow> string \<Rightarrow> nat \<Rightarrow> nat list \<Rightarrow> nat \<Rightarrow> json list \<Rightarrow> nat list option checked" where
  "wire_cells l rp i occ column [] = Inr (Some occ)"
| "wire_cells l rp i occ column (c # cs) =
     (let column = skip_covered occ column in
      case Option.bind (field c ''rowSpan'') as_u64 of None \<Rightarrow> Inr None | Some rs \<Rightarrow>
      (case Option.bind (field c ''columnSpan'') as_u64 of None \<Rightarrow> Inr None | Some cspan \<Rightarrow>
        if rs = 0 \<or> cspan = 0 then Inr None
        else
          let cp = at_index (rp @ ''.cells'') i;
              e = column + unat cspan in
          if 2 ^ 64 \<le> e then resource_limit (cp @ ''.columnSpan'') ''tableColumns'' (limit_table_columns l)
          else if e > limit_table_columns l then
            resource_limit (cp @ ''.columnSpan'') ''tableColumns'' (limit_table_columns l)
          else
            let o' = pad_to occ e in
            wire_cells l rp (Suc i) (take column o' @ replicate (e - column) (unat rs) @ drop e o') e cs))"

fun wire_rows :: "ValidationLimits \<Rightarrow> string \<Rightarrow> nat \<Rightarrow> nat list \<Rightarrow> json list \<Rightarrow> unit checked" where
  "wire_rows l p i occ [] = Inr ()"
| "wire_rows l p i occ (row # rows) =
     (case Option.bind (field row ''cells'') as_array of None \<Rightarrow> Inr () | Some cs \<Rightarrow>
      (case wire_cells l (at_index (p @ ''.rows'') i) 0 occ 0 cs of
         Inl e \<Rightarrow> Inl e
       | Inr None \<Rightarrow> Inr ()
       | Inr (Some occ) \<Rightarrow> wire_rows l p (Suc i) (map (\<lambda>x. x - 1) occ) rows))"

definition preflight_table_width :: "json option \<Rightarrow> string \<Rightarrow> ValidationLimits \<Rightarrow> unit checked" where
  "preflight_table_width d p l =
     (case field_array d ''rows'' of None \<Rightarrow> Inr () | Some rows \<Rightarrow> wire_rows l p 0 [] rows)"

section \<open>The layout\<close>

text \<open>
  A placed cell: row, column, row span, column span; the newest first. A column is taken in a row
  when the newest cell that lies over the column reaches down to the row.
\<close>

type_synonym placed = "(nat \<times> nat \<times> nat \<times> nat) list"

definition over :: "nat \<Rightarrow> nat \<times> nat \<times> nat \<times> nat \<Rightarrow> bool" where
  "over c = (\<lambda>(r0, c0, h, k). c0 \<le> c \<and> c < c0 + k)"

definition taken :: "placed \<Rightarrow> nat \<Rightarrow> nat \<Rightarrow> bool" where
  "taken ps r c \<longleftrightarrow> (case find (over c) ps of None \<Rightarrow> False | Some (r0, c0, h, k) \<Rightarrow> r < r0 + h)"

definition first_free :: "placed \<Rightarrow> nat \<Rightarrow> nat \<Rightarrow> nat" where
  "first_free ps r c = (LEAST c'. c \<le> c' \<and> \<not> taken ps r c')"

definition wire_spans :: "json \<Rightarrow> (nat \<times> nat) option" where
  "wire_spans v =
     (case (Option.bind (field v ''rowSpan'') as_u64, Option.bind (field v ''columnSpan'') as_u64) of
        (Some h, Some k) \<Rightarrow> if 0 < h \<and> 0 < k then Some (unat h, unat k) else None
      | _ \<Rightarrow> None)"

text \<open>The cells of a row, placed up to the first malformed one; the flag says there was none.\<close>

fun row_layout :: "placed \<Rightarrow> nat \<Rightarrow> nat \<Rightarrow> json list \<Rightarrow> placed \<times> bool" where
  "row_layout ps r c [] = (ps, True)"
| "row_layout ps r c (v # vs) =
     (case wire_spans v of
        None \<Rightarrow> (ps, False)
      | Some (h, k) \<Rightarrow>
          let c0 = first_free ps r c in row_layout ((r, c0, h, k) # ps) r (c0 + k) vs)"

fun table_layout :: "placed \<Rightarrow> nat \<Rightarrow> json list \<Rightarrow> placed" where
  "table_layout ps r [] = ps"
| "table_layout ps r (row # rows) =
     (case Option.bind (field row ''cells'') as_array of
        None \<Rightarrow> ps
      | Some cs \<Rightarrow>
          let (qs, complete) = row_layout ps r 0 cs in
          if complete then table_layout qs (Suc r) rows else qs)"

definition ends_within :: "ValidationLimits \<Rightarrow> placed \<Rightarrow> bool" where
  "ends_within l ps \<longleftrightarrow> (\<forall>(r0, c0, h, k) \<in> set ps. c0 + k \<le> min (limit_table_columns l) (2 ^ 64 - 1))"

definition table_fits :: "ValidationLimits \<Rightarrow> json option \<Rightarrow> bool" where
  "table_fits l d \<longleftrightarrow>
     (case field_array d ''rows'' of None \<Rightarrow> True | Some rows \<Rightarrow> ends_within l (table_layout [] 0 rows))"

section \<open>The occupancy vector is the layout\<close>

definition remaining :: "placed \<Rightarrow> nat \<Rightarrow> nat \<Rightarrow> nat" where
  "remaining ps r c = (case find (over c) ps of None \<Rightarrow> 0 | Some (r0, c0, h, k) \<Rightarrow> r0 + h - r)"

definition entry :: "nat list \<Rightarrow> nat \<Rightarrow> nat" where
  "entry occ c = (if c < length occ then occ ! c else 0)"

definition mirrors :: "placed \<Rightarrow> nat \<Rightarrow> nat list \<Rightarrow> bool" where
  "mirrors ps r occ \<longleftrightarrow> (\<forall>c. entry occ c = remaining ps r c)"

lemma taken_remaining: "taken ps r c \<longleftrightarrow> 0 < remaining ps r c"
  by (auto simp: taken_def remaining_def split: option.splits)

lemma skip_covered_least: "skip_covered occ c = (LEAST c'. c \<le> c' \<and> entry occ c' = 0)"
proof (rule Least_equality [symmetric])
  let ?t = "takeWhile (\<lambda>x. x > 0) (drop c occ)"
  show "c \<le> skip_covered occ c \<and> entry occ (skip_covered occ c) = 0"
    using nth_length_takeWhile [of "\<lambda>x. x > 0" "drop c occ"]
    by (auto simp: skip_covered_def entry_def)
  fix c'
  assume c': "c \<le> c' \<and> entry occ c' = 0"
  show "skip_covered occ c \<le> c'"
  proof (rule ccontr)
    assume "\<not> skip_covered occ c \<le> c'"
    with c' have i: "c' - c < length ?t" unfolding skip_covered_def by linarith
    then have "0 < ?t ! (c' - c)" by (meson nth_mem set_takeWhileD)
    moreover have "?t ! (c' - c) = drop c occ ! (c' - c)" using i by (rule takeWhile_nth)
    moreover have "c' - c < length (drop c occ)" using i length_takeWhile_le order_less_le_trans by blast
    ultimately show False using c' by (auto simp: entry_def split: if_splits)
  qed
qed

lemma skip_covered_first_free: "mirrors ps r occ \<Longrightarrow> skip_covered occ c = first_free ps r c"
  by (simp add: skip_covered_least first_free_def mirrors_def taken_remaining)

lemma entry_pad_to: "entry (pad_to occ n) c = entry occ c"
  by (auto simp: entry_def pad_to_def nth_append)

lemma entry_place:
  "c0 + k \<le> length occ \<Longrightarrow> entry (take c0 occ @ replicate k h @ drop (c0 + k) occ) c
     = (if c0 \<le> c \<and> c < c0 + k then h else entry occ c)"
  by (auto simp: entry_def nth_append min_absorb1 min_absorb2)

lemma mirrors_place:
  assumes "mirrors ps r occ"
  shows "mirrors ((r, c0, h, k) # ps) r
    (take c0 (pad_to occ (c0 + k)) @ replicate k h @ drop (c0 + k) (pad_to occ (c0 + k)))"
proof -
  have "c0 + k \<le> length (pad_to occ (c0 + k))" by (simp add: pad_to_def)
  from entry_place [OF this, of h] assms show ?thesis
    by (simp add: mirrors_def remaining_def over_def entry_pad_to)
qed

lemma mirrors_row: "mirrors ps r occ \<Longrightarrow> mirrors ps (Suc r) (map (\<lambda>x. x - 1) occ)"
proof -
  assume m: "mirrors ps r occ"
  have "entry (map (\<lambda>x. x - 1) occ) c = entry occ c - 1" for c by (simp add: entry_def)
  moreover have "remaining ps (Suc r) c = remaining ps r c - 1" for c
    by (auto simp: remaining_def split: option.split)
  ultimately show ?thesis using m by (simp add: mirrors_def)
qed

lemma row_layout_keeps: "set ps \<subseteq> set (fst (row_layout ps r c vs))"
  by (induction ps r c vs rule: row_layout.induct) (auto simp: Let_def split: option.splits)

lemma table_layout_keeps: "set ps \<subseteq> set (table_layout ps r rows)"
proof (induction ps r rows rule: table_layout.induct)
  case (2 ps r row rows)
  show ?case
  proof (cases "Option.bind (field row ''cells'') as_array")
    case (Some cs)
    obtain qs complete where q: "row_layout ps r 0 cs = (qs, complete)" by fastforce
    with row_layout_keeps [of ps r 0 cs] have "set ps \<subseteq> set qs" by simp
    with "2.IH" [OF Some q [symmetric] refl] Some q show ?thesis by (cases complete) auto
  qed simp
qed simp

lemma ends_within_mono: "set ps \<subseteq> set qs \<Longrightarrow> ends_within l qs \<Longrightarrow> ends_within l ps"
  by (auto simp: ends_within_def)

lemma ends_within_Cons:
  "ends_within l ((r, c0, h, k) # ps) \<longleftrightarrow> c0 + k < 2 ^ 64 \<and> c0 + k \<le> limit_table_columns l \<and> ends_within l ps"
  by (auto simp: ends_within_def)

lemma wire_cells_layout:
  assumes "mirrors ps r occ" and "ends_within l ps"
  shows "case row_layout ps r c vs of (qs, complete) \<Rightarrow>
    if \<not> ends_within l qs then \<exists>e. wire_cells l rp i occ c vs = Inl e
    else if complete then \<exists>occ'. wire_cells l rp i occ c vs = Inr (Some occ') \<and> mirrors qs r occ'
    else wire_cells l rp i occ c vs = Inr None"
  using assms
proof (induction vs arbitrary: ps occ c i)
  case (Cons v vs)
  show ?case
  proof (cases "wire_spans v")
    case None
    then have "wire_cells l rp i occ c (v # vs) = Inr None"
      by (auto simp: wire_spans_def Let_def word_neq_0_conv split: option.splits if_splits)
    with None Cons.prems show ?thesis by simp
  next
    case (Some hk)
    then obtain h k where w: "Option.bind (field v ''rowSpan'') as_u64 = Some h"
      "Option.bind (field v ''columnSpan'') as_u64 = Some k" "h \<noteq> 0" "k \<noteq> 0" "hk = (unat h, unat k)"
      by (auto simp: wire_spans_def split: option.splits if_splits)
    let ?c0 = "first_free ps r c"
    let ?ps = "(r, ?c0, unat h, unat k) # ps"
    have lay: "row_layout ps r c (v # vs) = row_layout ?ps r (?c0 + unat k) vs"
      using Some w(5) by (simp add: Let_def)
    show ?thesis
    proof (cases "?c0 + unat k < 2 ^ 64 \<and> ?c0 + unat k \<le> limit_table_columns l")
      case True
      with Cons.prems have e: "ends_within l ?ps" by (simp add: ends_within_Cons)
      have step: "wire_cells l rp i occ c (v # vs) = wire_cells l rp (Suc i)
          (take ?c0 (pad_to occ (?c0 + unat k)) @ replicate (unat k) (unat h) @ drop (?c0 + unat k) (pad_to occ (?c0 + unat k)))
          (?c0 + unat k) vs"
        using w True by (simp add: Let_def skip_covered_first_free [OF Cons.prems(1)])
      show ?thesis unfolding lay step by (rule Cons.IH [OF mirrors_place [OF Cons.prems(1)] e])
    next
      case False
      then have "\<not> ends_within l (fst (row_layout ?ps r (?c0 + unat k) vs))"
        using ends_within_mono [OF row_layout_keeps] ends_within_Cons by blast
      moreover have "\<exists>e. wire_cells l rp i occ c (v # vs) = Inl e"
        using w False by (auto simp: Let_def skip_covered_first_free [OF Cons.prems(1)] resource_limit_def)
      ultimately show ?thesis unfolding lay by (simp add: case_prod_beta)
    qed
  qed
qed simp

lemma wire_rows_layout:
  assumes "mirrors ps r occ" and "ends_within l ps"
  shows "wire_rows l p i occ rows = Inr () \<longleftrightarrow> ends_within l (table_layout ps r rows)"
  using assms
proof (induction rows arbitrary: ps r occ i)
  case (Cons row rows)
  show ?case
  proof (cases "Option.bind (field row ''cells'') as_array")
    case None
    with Cons.prems show ?thesis by simp
  next
    case (Some cs)
    obtain qs complete where q: "row_layout ps r 0 cs = (qs, complete)" by fastforce
    note cells = wire_cells_layout [OF Cons.prems, where c = 0 and vs = cs and rp = "at_index (p @ ''.rows'') i" and i = 0, unfolded q]
    show ?thesis
    proof (cases "ends_within l qs \<and> complete")
      case True
      with cells Cons.IH [OF mirrors_row] Some q show ?thesis by auto
    next
      case False
      with cells Some q ends_within_mono [OF table_layout_keeps [of qs "Suc r" rows]] show ?thesis
        by (auto split: if_splits)
    qed
  qed
qed simp

lemma preflight_table_width_Inr: "preflight_table_width d p l = Inr () \<longleftrightarrow> table_fits l d"
proof -
  have "mirrors [] 0 []" "ends_within l []" by (simp_all add: mirrors_def remaining_def entry_def ends_within_def)
  with wire_rows_layout show ?thesis
    by (auto simp: preflight_table_width_def table_fits_def split: option.split)
qed

end
