(* ===== verification/IR_Preflight.thy ===== *)
theory IR_Preflight
  imports IR_Wire_Table
begin

text \<open>
  The wire preflight of \<open>crates/core/src/ir.rs\<close>: before a parsed JSON value becomes a typed document,
  \<open>preflight_document_value\<close> walks it with an explicit stack and rejects what exceeds the budgets.
  The stack is a list with its top first, so pushing children in reverse index order puts them
  in front in index order. Malformed shapes are skipped, not rejected.
\<close>

section \<open>Tasks\<close>

datatype PreflightTask =
    TaskBlock json string nat
  | TaskInline json string
  | TaskListItem json string nat
  | TaskTableRow json string nat
  | TaskTableCell json string nat

fun task_value :: "PreflightTask \<Rightarrow> json" where
  "task_value (TaskBlock v _ _) = v"
| "task_value (TaskInline v _) = v"
| "task_value (TaskListItem v _ _) = v"
| "task_value (TaskTableRow v _ _) = v"
| "task_value (TaskTableCell v _ _) = v"

definition block_tasks :: "json list \<Rightarrow> string \<Rightarrow> nat \<Rightarrow> PreflightTask list" where
  "block_tasks vs p depth = map (\<lambda>(i, v). TaskBlock v (at_index p i) depth) (enumerate 0 vs)"

definition inline_tasks :: "json list \<Rightarrow> string \<Rightarrow> PreflightTask list" where
  "inline_tasks vs p = map (\<lambda>(i, v). TaskInline v (at_index p i)) (enumerate 0 vs)"

definition push_block_property :: "json option \<Rightarrow> string \<Rightarrow> string \<Rightarrow> nat \<Rightarrow> PreflightTask list" where
  "push_block_property d property p depth =
     (case field_array d property of Some vs \<Rightarrow> block_tasks vs p depth | None \<Rightarrow> [])"

definition push_inline_property :: "json option \<Rightarrow> string \<Rightarrow> string \<Rightarrow> PreflightTask list" where
  "push_inline_property d property p =
     (case field_array d property of Some vs \<Rightarrow> inline_tasks vs p | None \<Rightarrow> [])"

definition list_item_tasks :: "json option \<Rightarrow> string \<Rightarrow> nat \<Rightarrow> PreflightTask list" where
  "list_item_tasks d p depth =
     (case field_array d ''items'' of
        Some vs \<Rightarrow> map (\<lambda>(i, v). TaskListItem v (at_index p i) depth) (enumerate 0 vs)
      | None \<Rightarrow> [])"

definition table_row_tasks :: "json option \<Rightarrow> string \<Rightarrow> nat \<Rightarrow> PreflightTask list" where
  "table_row_tasks d p depth =
     (case field_array d ''rows'' of
        Some vs \<Rightarrow> map (\<lambda>(i, v). TaskTableRow v (at_index p i) depth) (enumerate 0 vs)
      | None \<Rightarrow> [])"

section \<open>Shapes\<close>

definition valid_block_wire_shape :: "string \<Rightarrow> json option \<Rightarrow> bool" where
  "valid_block_wire_shape kind d =
     (if kind = ''paragraph'' then Option.bind d as_array \<noteq> None
      else if kind = ''formula'' then Option.bind d as_str \<noteq> None
      else if kind \<in> {''heading'', ''list'', ''table'', ''code'', ''footnote'', ''image'', ''page'', ''slide'',
        ''sheet'', ''timedSegment''} then Option.bind d as_object \<noteq> None
      else kind = ''rule'')"

definition valid_inline_wire_shape :: "string \<Rightarrow> json option \<Rightarrow> bool" where
  "valid_inline_wire_shape kind d =
     (if kind \<in> {''text'', ''sourceText'', ''ocrText'', ''link''} then Option.bind d as_object \<noteq> None
      else if kind \<in> {''code'', ''formula'', ''footnoteReference''} then Option.bind d as_str \<noteq> None
      else kind = ''lineBreak'')"

text \<open>The \<open>let else\<close> chain that opens the block arm: the kind and the data of a well-shaped block.\<close>

definition wire_block :: "json \<Rightarrow> (string \<times> json option) option" where
  "wire_block v =
     (case Option.bind (field v ''block'') as_object of
        None \<Rightarrow> None
      | Some block \<Rightarrow>
          if Option.bind (field v ''id'') as_str = None
            \<or> Option.bind (field v ''provenance'') as_object = None then None
          else case Option.bind (map_of block ''type'') as_str of
              None \<Rightarrow> None
            | Some kind \<Rightarrow>
                if valid_block_wire_shape kind (map_of block ''data'') then Some (kind, map_of block ''data'')
                else None)"

definition wire_inline :: "json \<Rightarrow> (string \<times> json option) option" where
  "wire_inline v =
     (case Option.bind (field v ''type'') as_str of
        None \<Rightarrow> None
      | Some kind \<Rightarrow>
          if valid_inline_wire_shape kind (field v ''data'') then Some (kind, field v ''data'') else None)"

section \<open>One task\<close>

text \<open>The two running counts: structural nodes and inlines.\<close>

type_synonym counts = "u64 \<times> u64"

definition consume_preflight_node :: "u64 \<Rightarrow> ValidationLimits \<Rightarrow> string \<Rightarrow> u64 checked" where
  "consume_preflight_node n l p =
     (let n = saturating_add n 1 in
      if n > max_nodes l then resource_limit p ''documentNodes'' (unat (max_nodes l)) else Inr n)"

definition consume_preflight_inlines :: "u64 \<Rightarrow> u64 \<Rightarrow> ValidationLimits \<Rightarrow> string \<Rightarrow> u64 checked" where
  "consume_preflight_inlines n k l p =
     (let n = saturating_add n k in
      if n > max_inlines l then resource_limit p ''documentInlines'' (unat (max_inlines l)) else Inr n)"

definition array_len :: "json option \<Rightarrow> string \<Rightarrow> u64" where
  "array_len d k = (case field_array d k of Some vs \<Rightarrow> len_usize vs | None \<Rightarrow> 0)"

definition preflight_block ::
  "ValidationLimits \<Rightarrow> json \<Rightarrow> string \<Rightarrow> nat \<Rightarrow> counts \<Rightarrow> (PreflightTask list \<times> counts) checked" where
  "preflight_block l v p depth = (\<lambda>(nodes, inlines).
     (case wire_block v of None \<Rightarrow> Inr ([], nodes, inlines) | Some (kind, d) \<Rightarrow>
        if depth > max_depth l then resource_limit p ''documentDepth'' (max_depth l)
        else and_then (consume_preflight_node nodes l p) (\<lambda>nodes.
          let dp = p @ ''.block.data'' in
          if kind = ''paragraph'' then
            Inr (case Option.bind d as_array of Some vs \<Rightarrow> inline_tasks vs dp | None \<Rightarrow> [], nodes, inlines)
          else if kind = ''heading'' then Inr (push_inline_property d ''content'' (dp @ ''.content''), nodes, inlines)
          else if kind = ''timedSegment'' then
            and_then (consume_preflight_inlines inlines (array_len d ''tokens'') l (dp @ ''.tokens'')) (\<lambda>inlines.
            Inr (push_inline_property d ''content'' (dp @ ''.content''), nodes, inlines))
          else if kind = ''list'' then Inr (list_item_tasks d (dp @ ''.items'') (depth + 1), nodes, inlines)
          else if kind = ''table'' then
            and_then (preflight_table_width d dp l) (\<lambda>_.
            Inr (table_row_tasks d (dp @ ''.rows'') (depth + 1), nodes, inlines))
          else if kind \<in> {''footnote'', ''page'', ''slide'', ''sheet''} then
            Inr (push_block_property d ''blocks'' (dp @ ''.blocks'') (depth + 1), nodes, inlines)
          else Inr ([], nodes, inlines))))"

text \<open>Text with an OCR sidecar also pays for its evidence, under either property name.\<close>

definition carries_evidence :: "string \<Rightarrow> json option \<Rightarrow> bool" where
  "carries_evidence kind d \<longleftrightarrow>
     kind = ''ocrText'' \<or> kind = ''text'' \<and> Option.bind d (\<lambda>d. field d ''ocrEvidence'') \<noteq> None"

definition wire_evidence :: "json option \<Rightarrow> json option" where
  "wire_evidence d =
     Option.bind d (\<lambda>d. case field d ''evidence'' of Some e \<Rightarrow> Some e | None \<Rightarrow> field d ''ocrEvidence'')"

definition preflight_inline :: "ValidationLimits \<Rightarrow> json \<Rightarrow> string \<Rightarrow> counts \<Rightarrow> (PreflightTask list \<times> counts) checked" where
  "preflight_inline l v p = (\<lambda>(nodes, inlines).
     (case wire_inline v of None \<Rightarrow> Inr ([], nodes, inlines) | Some (kind, d) \<Rightarrow>
        and_then (consume_preflight_inlines inlines 1 l p) (\<lambda>inlines.
        if kind = ''link'' then
          Inr (push_inline_property d ''content'' (p @ ''.data.content''), nodes, inlines)
        else if carries_evidence kind d then
          and_then (consume_preflight_inlines inlines (array_len (wire_evidence d) ''regions'') l
            (p @ ''.data.evidence.regions'')) (\<lambda>inlines.
          and_then (consume_preflight_inlines inlines (array_len (wire_evidence d) ''chain'') l
            (p @ ''.data.evidence.chain'')) (\<lambda>inlines.
          Inr ([], nodes, inlines)))
        else Inr ([], nodes, inlines))))"

fun preflight_task :: "ValidationLimits \<Rightarrow> PreflightTask \<Rightarrow> counts \<Rightarrow> (PreflightTask list \<times> counts) checked" where
  "preflight_task l (TaskBlock v p depth) c = preflight_block l v p depth c"
| "preflight_task l (TaskInline v p) c = preflight_inline l v p c"
| "preflight_task l (TaskListItem v p depth) c =
     (case field_array (Some v) ''blocks'' of None \<Rightarrow> Inr ([], c) | Some vs \<Rightarrow>
        and_then (consume_preflight_node (fst c) l p) (\<lambda>n. Inr (block_tasks vs (p @ ''.blocks'') depth, n, snd c)))"
| "preflight_task l (TaskTableRow v p depth) c =
     (case field_array (Some v) ''cells'' of None \<Rightarrow> Inr ([], c) | Some vs \<Rightarrow>
        and_then (consume_preflight_node (fst c) l p) (\<lambda>n.
        Inr (map (\<lambda>(i, v). TaskTableCell v (at_index (p @ ''.cells'') i) depth) (enumerate 0 vs), n, snd c)))"
| "preflight_task l (TaskTableCell v p depth) c =
     (case field_array (Some v) ''blocks'' of None \<Rightarrow> Inr ([], c) | Some vs \<Rightarrow>
        if Option.bind (field v ''rowSpan'') as_u64 = None \<or> Option.bind (field v ''columnSpan'') as_u64 = None then
          Inr ([], c)
        else and_then (consume_preflight_node (fst c) l p) (\<lambda>n.
          Inr (block_tasks vs (p @ ''.blocks'') depth, n, snd c)))"

section \<open>The loop\<close>

text \<open>Every task weighs more than the tasks it pushes, so the stack loop ends.\<close>

definition weight :: "PreflightTask list \<Rightarrow> nat" where
  "weight ts = (\<Sum>t \<leftarrow> ts. Suc (size (task_value t)))"

lemma weight_simps [simp]:
  "weight [] = 0" "weight (t # ts) = Suc (size (task_value t)) + weight ts" "weight (ts @ us) = weight ts + weight us"
  by (simp_all add: weight_def)

lemma weight_indexed:
  assumes "\<And>i v. task_value (f (i, v)) = v"
  shows "weight (map f (enumerate n vs)) = size_list size vs"
  by (induction vs arbitrary: n) (simp_all add: assms)

lemma weight_tasks [simp]:
  "weight (block_tasks vs p depth) = size_list size vs" "weight (inline_tasks vs p) = size_list size vs"
  "weight (map (\<lambda>(i, v). TaskTableCell v (q i) depth) (enumerate n vs)) = size_list size vs"
  "weight (map (\<lambda>(i, v). TaskTableRow v (q i) depth) (enumerate n vs)) = size_list size vs"
  "weight (map (\<lambda>(i, v). TaskListItem v (q i) depth) (enumerate n vs)) = size_list size vs"
  by (simp_all add: block_tasks_def inline_tasks_def weight_indexed)

lemma weight_pushed:
  "weight (push_block_property (Some d) k p depth) \<le> size d" "weight (push_inline_property (Some d) k p) \<le> size d"
  "weight (list_item_tasks (Some d) p depth) \<le> size d" "weight (table_row_tasks (Some d) p depth) \<le> size d"
  by (auto simp: push_block_property_def push_inline_property_def list_item_tasks_def table_row_tasks_def
      dest: field_array_size split: option.splits)

lemma weight_pushed_None [simp]:
  "push_block_property None k p depth = []" "push_inline_property None k p = []"
  "list_item_tasks None p depth = []" "table_row_tasks None p depth = []"
  by (simp_all add: push_block_property_def push_inline_property_def list_item_tasks_def table_row_tasks_def
      field_array_def)

lemma wire_block_size: "wire_block v = Some (k, Some d) \<Longrightarrow> size d < size v"
proof -
  assume "wire_block v = Some (k, Some d)"
  then obtain b kvs where "field v ''block'' = Some b" "as_object b = Some kvs" "map_of kvs ''data'' = Some d"
    by (auto simp: wire_block_def bind_eq_Some_conv split: option.splits if_splits)
  moreover have "field b ''data'' = map_of kvs ''data''" using \<open>as_object b = Some kvs\<close> by (simp add: field_def)
  ultimately show ?thesis using field_size [of v "''block''" b] field_size [of b "''data''" d] by simp
qed

lemma wire_inline_size: "wire_inline v = Some (k, Some d) \<Longrightarrow> size d < size v"
  by (auto simp: wire_inline_def bind_eq_Some_conv dest: field_size split: option.splits if_splits)

section \<open>What a task stands for\<close>

text \<open>The tasks below a task, and its own share of each budget, as a reader of the format would say.\<close>

definition block_children :: "string \<Rightarrow> json option \<Rightarrow> string \<Rightarrow> nat \<Rightarrow> PreflightTask list" where
  "block_children kind d p depth =
     (if kind = ''paragraph'' then (case Option.bind d as_array of Some vs \<Rightarrow> inline_tasks vs p | None \<Rightarrow> [])
      else if kind \<in> {''heading'', ''timedSegment''} then push_inline_property d ''content'' (p @ ''.content'')
      else if kind = ''list'' then list_item_tasks d (p @ ''.items'') (depth + 1)
      else if kind = ''table'' then table_row_tasks d (p @ ''.rows'') (depth + 1)
      else if kind \<in> {''footnote'', ''page'', ''slide'', ''sheet''} then
        push_block_property d ''blocks'' (p @ ''.blocks'') (depth + 1)
      else [])"

definition spans_present :: "json \<Rightarrow> bool" where
  "spans_present v \<longleftrightarrow> Option.bind (field v ''rowSpan'') as_u64 \<noteq> None \<and> Option.bind (field v ''columnSpan'') as_u64 \<noteq> None"

fun wire_children :: "PreflightTask \<Rightarrow> PreflightTask list" where
  "wire_children (TaskBlock v p depth) =
     (case wire_block v of None \<Rightarrow> [] | Some (kind, d) \<Rightarrow> block_children kind d (p @ ''.block.data'') depth)"
| "wire_children (TaskInline v p) =
     (case wire_inline v of None \<Rightarrow> [] | Some (kind, d) \<Rightarrow>
        if kind = ''link'' then push_inline_property d ''content'' (p @ ''.data.content'') else [])"
| "wire_children (TaskListItem v p depth) =
     (case field_array (Some v) ''blocks'' of None \<Rightarrow> [] | Some vs \<Rightarrow> block_tasks vs (p @ ''.blocks'') depth)"
| "wire_children (TaskTableRow v p depth) =
     (case field_array (Some v) ''cells'' of None \<Rightarrow> [] | Some vs \<Rightarrow>
        map (\<lambda>(i, v). TaskTableCell v (at_index (p @ ''.cells'') i) depth) (enumerate 0 vs))"
| "wire_children (TaskTableCell v p depth) =
     (case field_array (Some v) ''blocks'' of None \<Rightarrow> [] | Some vs \<Rightarrow>
        if spans_present v then block_tasks vs (p @ ''.blocks'') depth else [])"

fun node_cost :: "PreflightTask \<Rightarrow> nat" where
  "node_cost (TaskBlock v _ _) = (if wire_block v = None then 0 else 1)"
| "node_cost (TaskInline _ _) = 0"
| "node_cost (TaskListItem v _ _) = (if field_array (Some v) ''blocks'' = None then 0 else 1)"
| "node_cost (TaskTableRow v _ _) = (if field_array (Some v) ''cells'' = None then 0 else 1)"
| "node_cost (TaskTableCell v _ _) = (if field_array (Some v) ''blocks'' = None \<or> \<not> spans_present v then 0 else 1)"

fun inline_cost :: "PreflightTask \<Rightarrow> nat" where
  "inline_cost (TaskBlock v _ _) =
     (case wire_block v of Some (kind, d) \<Rightarrow> if kind = ''timedSegment'' then unat (array_len d ''tokens'') else 0 | None \<Rightarrow> 0)"
| "inline_cost (TaskInline v _) =
     (case wire_inline v of None \<Rightarrow> 0 | Some (kind, d) \<Rightarrow>
        if kind \<noteq> ''link'' \<and> carries_evidence kind d then
          1 + unat (array_len (wire_evidence d) ''regions'') + unat (array_len (wire_evidence d) ''chain'')
        else 1)"
| "inline_cost _ = 0"

fun fits :: "ValidationLimits \<Rightarrow> PreflightTask \<Rightarrow> bool" where
  "fits l (TaskBlock v p depth) =
     (case wire_block v of None \<Rightarrow> True | Some (kind, d) \<Rightarrow>
        depth \<le> max_depth l \<and> (kind = ''table'' \<longrightarrow> table_fits l d))"
| "fits l _ = True"

text \<open>The first arm of the \<open>match\<close> that applies.\<close>

lemma first_match:
  obtains A | "\<not> A" B | "\<not> A" "\<not> B" C | "\<not> A" "\<not> B" "\<not> C" D | "\<not> A" "\<not> B" "\<not> C" "\<not> D" E
    | "\<not> A" "\<not> B" "\<not> C" "\<not> D" "\<not> E" F | "\<not> A" "\<not> B" "\<not> C" "\<not> D" "\<not> E" "\<not> F"
  by blast

lemmas block_arms = first_match [where A = "k = ''paragraph''" and B = "k = ''heading''" and C = "k = ''timedSegment''"
    and D = "k = ''list''" and E = "k = ''table''" and F = "k \<in> {''footnote'', ''page'', ''slide'', ''sheet''}"] for k

lemma weight_children: "weight (wire_children t) < Suc (size (task_value t))"
proof (cases t)
  case (TaskBlock v p depth)
  have "weight (block_children kind d q depth) \<le> size v" if w: "wire_block v = Some (kind, d)" for kind d q
  proof (cases d)
    case None
    then show ?thesis by (simp add: block_children_def)
  next
    case (Some x)
    have "weight (block_children kind (Some x) q depth) \<le> size x"
      by (cases rule: block_arms [where k = kind])
        (use weight_pushed [of x] as_array_size [of x, THEN less_imp_le] in \<open>simp_all add: block_children_def split: option.split\<close>)
    with wire_block_size w Some show ?thesis by force
  qed
  with TaskBlock show ?thesis by (auto simp: less_Suc_eq_le split: option.split)
next
  case (TaskInline v p)
  have "weight (push_inline_property d k q) \<le> size v" if "wire_inline v = Some (kind, d)" for kind d k q
    using that weight_pushed(2) wire_inline_size by (cases d) (simp, fastforce intro: order_trans)
  with TaskInline show ?thesis by (auto simp: less_Suc_eq_le split: option.split)
qed (auto dest: field_array_size split: option.split)

text \<open>The tasks the walk visits, in the order it visits them.\<close>

function visited :: "PreflightTask list \<Rightarrow> PreflightTask list" where
  "visited [] = []"
| "visited (t # ts) = t # visited (wire_children t @ ts)"
  by pat_completeness auto
termination by (relation "measure weight") (use weight_children in auto)

section \<open>One task against its share\<close>

text \<open>Saturating counts compose: \<open>tally\<close> adds any number and stays at the largest \<open>usize\<close>.\<close>

definition tally :: "u64 \<Rightarrow> nat \<Rightarrow> u64" where
  "tally n k = of_nat (min (unat n + k) (2 ^ 64 - 1))"

lemma unat_tally [word_nat]: "unat (tally n k) = min (unat n + k) (2 ^ 64 - 1)"
  by (simp add: tally_def unat_of_nat_small)

lemma tally_0 [simp]: "tally n 0 = n"
  using unat_less_2p [of n] by (simp add: word_unat_eq_iff unat_tally)

lemma tally_tally [simp]: "tally (tally n j) k = tally n (j + k)"
  by (simp add: word_unat_eq_iff unat_tally)

lemma tally_ge: "n \<le> tally n k"
  using unat_less_2p [of n] by (simp add: word_le_nat_alt unat_tally)

lemma tally_mono: "j \<le> k \<Longrightarrow> tally n j \<le> tally n k"
  by (simp add: word_le_nat_alt unat_tally)

lemma saturating_add_tally: "saturating_add n k = tally n (unat k)"
  by (simp add: word_unat_eq_iff unat_tally unat_saturating_add)

lemma consume_preflight_inlines_Inr:
  "consume_preflight_inlines n k l p = Inr m \<longleftrightarrow> m = tally n (unat k) \<and> m \<le> max_inlines l"
  by (auto simp: consume_preflight_inlines_def saturating_add_tally Let_def resource_limit_def not_less)

lemma consume_preflight_node_Inr:
  "consume_preflight_node n l p = Inr m \<longleftrightarrow> m = tally n 1 \<and> m \<le> max_nodes l"
  by (auto simp: consume_preflight_node_def saturating_add_tally Let_def resource_limit_def not_less)

lemmas consume_Inr = consume_preflight_node_Inr consume_preflight_inlines_Inr preflight_table_width_Inr and_then_Inr

definition within :: "ValidationLimits \<Rightarrow> counts \<Rightarrow> bool" where
  "within l c \<longleftrightarrow> fst c \<le> max_nodes l \<and> snd c \<le> max_inlines l"

definition charged :: "counts \<Rightarrow> PreflightTask list \<Rightarrow> counts" where
  "charged c ts = (tally (fst c) (sum_list (map node_cost ts)), tally (snd c) (sum_list (map inline_cost ts)))"

lemma preflight_block_Inr:
  assumes "within l c"
  shows "preflight_block l v p depth c = Inr r \<longleftrightarrow>
    fits l (TaskBlock v p depth) \<and> within l (charged c [TaskBlock v p depth])
    \<and> r = (wire_children (TaskBlock v p depth), charged c [TaskBlock v p depth])"
proof (cases "wire_block v")
  case None
  with assms show ?thesis by (cases c) (auto simp: preflight_block_def charged_def)
next
  case (Some kd)
  then obtain kind d where w: "wire_block v = Some (kind, d)" by (cases kd) auto
  obtain n i where c: "c = (n, i)" by (cases c)
  show ?thesis
  proof (cases "depth > max_depth l")
    case True
    then show ?thesis using w c by (simp add: preflight_block_def resource_limit_def)
  next
    case False
    note arms = preflight_block_def block_children_def w c False False [unfolded not_less] consume_Inr charged_def within_def
    show ?thesis
      by (cases rule: block_arms [where k = kind]; use assms in \<open>simp add: arms\<close>; blast)
  qed
qed

lemma preflight_inline_Inr:
  assumes "within l c"
  shows "preflight_inline l v p c = Inr r \<longleftrightarrow>
    within l (charged c [TaskInline v p]) \<and> r = (wire_children (TaskInline v p), charged c [TaskInline v p])"
proof (cases "wire_inline v")
  case None
  with assms show ?thesis by (cases c) (auto simp: preflight_inline_def charged_def)
next
  case (Some kd)
  then obtain kind d where w: "wire_inline v = Some (kind, d)" by (cases kd) auto
  obtain n i where c: "c = (n, i)" by (cases c)
  let ?r = "unat (array_len (wire_evidence d) ''regions'')"
  have mono: "tally i j \<le> tally i k" if "j \<le> k" for j k using that by (rule tally_mono)
  show ?thesis
    using w c assms mono [of 1 "Suc (?r + unat (array_len (wire_evidence d) ''chain''))"]
      mono [of "Suc ?r" "Suc (?r + unat (array_len (wire_evidence d) ''chain''))"]
    by (cases "kind = ''link''"; cases "carries_evidence kind d")
      (auto simp: preflight_inline_def consume_Inr charged_def within_def intro: order_trans)
qed

lemma preflight_task_Inr:
  assumes "within l c"
  shows "preflight_task l t c = Inr r \<longleftrightarrow>
    fits l t \<and> within l (charged c [t]) \<and> r = (wire_children t, charged c [t])"
proof (cases t)
  case (TaskBlock v p depth)
  then show ?thesis using preflight_block_Inr [OF assms] by simp
next
  case (TaskInline v p)
  then show ?thesis using preflight_inline_Inr [OF assms] by simp
qed (use assms in \<open>auto simp: consume_Inr charged_def within_def spans_present_def split: option.splits\<close>)

lemma preflight_task_children: "preflight_task l t c = Inr (new, c') \<Longrightarrow> new = wire_children t"
proof (cases t)
  case (TaskBlock v p depth)
  assume run: "preflight_task l t c = Inr (new, c')"
  with TaskBlock show ?thesis
  proof (cases "wire_block v")
    case (Some kd)
    obtain kind d where "kd = (kind, d)" by fastforce
    with Some run TaskBlock have *: "preflight_block l v p depth c = Inr (new, c')" "wire_block v = Some (kind, d)" by auto
    show ?thesis
      by (cases rule: block_arms [where k = kind]; cases c)
        (use * TaskBlock in \<open>auto simp: preflight_block_def block_children_def and_then_Inr resource_limit_def Let_def split: if_split_asm\<close>)
  qed (use run in \<open>cases c; simp add: preflight_block_def\<close>)
next
  case (TaskInline v p)
  assume "preflight_task l t c = Inr (new, c')"
  with TaskInline show ?thesis
    by (cases c; cases "wire_inline v") (auto simp: preflight_inline_def and_then_Inr split: if_split_asm)
qed (auto simp: and_then_Inr spans_present_def split: option.splits if_splits)

section \<open>The walk and its specification\<close>

function preflight_loop :: "ValidationLimits \<Rightarrow> PreflightTask list \<Rightarrow> counts \<Rightarrow> counts checked" where
  "preflight_loop l [] c = Inr c"
| "preflight_loop l (t # ts) c =
     (case preflight_task l t c of Inl e \<Rightarrow> Inl e | Inr (new, c') \<Rightarrow> preflight_loop l (new @ ts) c')"
  by pat_completeness auto
termination
  by (relation "measure (\<lambda>(l, ts, c). weight ts)") (use weight_children in \<open>auto dest!: preflight_task_children\<close>)

definition preflight_document_value :: "json \<Rightarrow> ValidationLimits \<Rightarrow> unit checked" where
  "preflight_document_value v l =
     (case field_array (Some v) ''blocks'' of None \<Rightarrow> Inr () | Some vs \<Rightarrow>
        and_then (preflight_loop l (block_tasks vs ''$.blocks'' 1) (0, 0)) (\<lambda>_. Inr ()))"

lemma charged_simps: "charged (charged c ts) us = charged c (ts @ us)" "charged c [] = c"
  by (simp_all add: charged_def)

lemma within_charged: "within l (charged c (ts @ us)) \<Longrightarrow> within l (charged c ts)"
  using tally_mono [of "sum_list (map node_cost ts)" "sum_list (map node_cost (ts @ us))" "fst c"]
    tally_mono [of "sum_list (map inline_cost ts)" "sum_list (map inline_cost (ts @ us))" "snd c"]
  by (simp add: within_def charged_def) (meson order_trans)

lemma charged_Cons: "charged c (t # ts) = charged (charged c [t]) ts"
  by (simp add: charged_simps)

lemma preflight_loop_Inr:
  "within l c \<Longrightarrow> preflight_loop l ts c = Inr r \<longleftrightarrow>
     list_all (fits l) (visited ts) \<and> within l (charged c (visited ts)) \<and> r = charged c (visited ts)"
proof (induction ts arbitrary: c rule: visited.induct)
  case 1
  then show ?case by (auto simp: charged_simps)
next
  case (2 t ts)
  let ?rest = "visited (wire_children t @ ts)"
  show ?case
  proof (cases "fits l t \<and> within l (charged c [t])")
    case True
    then have "preflight_task l t c = Inr (wire_children t, charged c [t])"
      using preflight_task_Inr [OF 2(2), of t] by simp
    with 2(1) [of "charged c [t]"] True show ?thesis by (simp add: charged_Cons [of c t ?rest])
  next
    case False
    then have "\<exists>e. preflight_task l t c = Inl e"
      using preflight_task_Inr [OF 2(2), of t] by (cases "preflight_task l t c") auto
    with False within_charged [of l c "[t]" ?rest] show ?thesis by auto
  qed
qed

text \<open>The tasks a whole document gives rise to, and its demands on the budgets.\<close>

definition wire_tasks :: "json \<Rightarrow> PreflightTask list" where
  "wire_tasks v = (case field_array (Some v) ''blocks'' of None \<Rightarrow> [] | Some vs \<Rightarrow> visited (block_tasks vs ''$.blocks'' 1))"

definition wire_nodes :: "json \<Rightarrow> nat" where
  "wire_nodes v = (\<Sum>t \<leftarrow> wire_tasks v. node_cost t)"

definition wire_inlines :: "json \<Rightarrow> nat" where
  "wire_inlines v = (\<Sum>t \<leftarrow> wire_tasks v. inline_cost t)"

lemma within_wire:
  "within l (charged (0, 0) (wire_tasks v)) \<longleftrightarrow>
     min (wire_nodes v) (2 ^ 64 - 1) \<le> unat (max_nodes l) \<and> min (wire_inlines v) (2 ^ 64 - 1) \<le> unat (max_inlines l)"
  by (simp add: within_def charged_def wire_nodes_def wire_inlines_def word_le_nat_alt unat_tally)

text \<open>
  Claim C18: the iterative preflight computes a declarative check. It accepts a parsed value exactly
  when every well-shaped block is within the depth limit, every cell of every table ends within the
  column limit in the table's layout (\<open>table_fits\<close>: each cell at the first column of its row that the
  cells placed before it leave free, up to the first malformed cell), and the value's totals of structural nodes and of inlines are within their budgets
  (totals are read at the \<open>usize\<close> ceiling, where the counters saturate).
\<close>

theorem preflight_accepts_iff_within_budgets:
  "preflight_document_value v l = Inr () \<longleftrightarrow>
     list_all (fits l) (wire_tasks v)
     \<and> min (wire_nodes v) (2 ^ 64 - 1) \<le> unat (max_nodes l)
     \<and> min (wire_inlines v) (2 ^ 64 - 1) \<le> unat (max_inlines l)"
proof -
  have "within l (0, 0)" by (simp add: within_def)
  note loop = preflight_loop_Inr [OF this]
  show ?thesis
    unfolding within_wire [symmetric]
    by (auto simp: preflight_document_value_def wire_tasks_def and_then_Inr loop charged_simps within_def
        split: option.splits)
qed

section \<open>Decoding a document\<close>

text \<open>
  \<open>from_json_with_limits\<close>. JSON parsing and typed decoding are serde's, so they are parameters;
  their errors are messages. A version that is not an unsigned integer is a JSON error, another
  version is unsupported.
\<close>

definition from_json_with_limits ::
  "platform \<Rightarrow> (string \<Rightarrow> string + json) \<Rightarrow> (json \<Rightarrow> string + Document) \<Rightarrow> string \<Rightarrow> ValidationLimits \<Rightarrow> Document checked" where
  "from_json_with_limits pf parse decode s l =
     (if length s > unat (max_json_bytes l) then
        resource_limit ''$'' ''documentJsonBytes'' (unat (max_json_bytes l))
      else case parse s of
        Inl e \<Rightarrow> Inl (ir_error InvalidJson ''$'' (''decode document: '' @ e))
      | Inr v \<Rightarrow>
          (case Option.bind (field v ''schemaVersion'') as_u64 of
             None \<Rightarrow> Inl (ir_error InvalidJson ''$.schemaVersion'' ''schemaVersion must be an unsigned integer'')
           | Some version \<Rightarrow>
               if version \<noteq> ucast DOCUMENT_SCHEMA_VERSION then
                 Inl (ir_error UnsupportedSchemaVersion ''$.schemaVersion''
                   (''expected '' @ show_word DOCUMENT_SCHEMA_VERSION @ '', got '' @ show_word version))
               else and_then (preflight_document_value v l) (\<lambda>_.
                 case decode v of
                   Inl e \<Rightarrow> Inl (ir_error InvalidJson ''$'' (''decode document: '' @ e))
                 | Inr d \<Rightarrow> and_then (validate_with_limits pf l d) (\<lambda>_. Inr d))))"

definition validate_checkpoint_blocks :: "platform \<Rightarrow> u64 \<Rightarrow> u64 \<Rightarrow> BlockNode list \<Rightarrow> unit checked" where
  "validate_checkpoint_blocks pf a b bs =
     (let s = new_state (default_validation_limits a b) in
      and_then (enter_nodes bs ''$.blocks'' 1 s) (\<lambda>_.
      and_then (validate_nodes pf ''$.blocks'' 1 0 bs s) (\<lambda>st.
      case undefined_reference st of
        Some lab \<Rightarrow> invalid_node ''$.blocks'' (''undefined footnote reference '' @ lab)
      | None \<Rightarrow> Inr ())))"

text \<open>The typed decoder only sees values the budgets admit: past a failed gate its choice is irrelevant.\<close>

lemma decoder_sees_admitted_values:
  assumes "from_json_with_limits pf parse decode s l \<noteq> from_json_with_limits pf parse decode' s l"
  shows "length s \<le> unat (max_json_bytes l) \<and> (\<exists>v. parse s = Inr v \<and> preflight_document_value v l = Inr ())"
proof -
  obtain v where v: "length s \<le> unat (max_json_bytes l)" "parse s = Inr v"
    using assms by (cases "parse s") (auto simp: from_json_with_limits_def split: if_split_asm)
  moreover have "preflight_document_value v l = Inr ()"
    using assms v by (cases "preflight_document_value v l")
      (auto simp: from_json_with_limits_def split: option.splits if_split_asm)
  ultimately show ?thesis by blast
qed

end
