(* ===== verification/Http_Policy.thy ===== *)
theory Http_Policy
  imports Strings Conversion_Error "HOL-Library.Product_Lexorder" "HOL-Library.List_Lexorder" "HOL-Library.Char_ord"
begin

text \<open>
  The network policy of \<open>crates/http-transport\<close>: which addresses count as public, which hosts and
  addresses a request is authorized to reach (\<open>policy.rs\<close>, \<open>dns.rs\<close>,
  \<open>HttpClient::authorized_addresses\<close>). The \<open>url\<close> crate is not under src/: a URL is the record of
  what its accessors return, and parsing is a parameter. What the operating system does between
  two checks of the request is a list of events.
\<close>

section \<open>Errors\<close>

datatype TransportErrorKind =
    NetworkDenied | InvalidMessage | HostDenied | PrivateNetworkDenied | Dns | Connect | Tls | Http
  | ResourceLimit | Cancelled | Timeout | Unavailable

type_synonym 'a fetched = "TransportErrorKind + 'a"

fun map_context_error :: "ConversionError \<Rightarrow> TransportErrorKind" where
  "map_context_error ConversionError.Cancelled = Cancelled"
| "map_context_error ConversionError.Timeout = Timeout"
| "map_context_error (ConversionError.ResourceLimit _ _) = ResourceLimit"
| "map_context_error _ = Unavailable"

section \<open>Addresses\<close>

datatype IpAddr = V4 u32 | V6 "128 word"

datatype SocketAddr = SocketAddr (sock_ip: IpAddr) (sock_port: u16) (flowinfo: u32) (scope_id: u32)

text \<open>The derived \<open>Ord\<close>: V4 before V6, then by value; socket addresses by their fields in order.\<close>

instantiation IpAddr :: linorder
begin

fun less_eq_IpAddr :: "IpAddr \<Rightarrow> IpAddr \<Rightarrow> bool" where
  "less_eq_IpAddr (V4 a) (V4 b) = (a \<le> b)"
| "less_eq_IpAddr (V4 _) (V6 _) = True"
| "less_eq_IpAddr (V6 _) (V4 _) = False"
| "less_eq_IpAddr (V6 a) (V6 b) = (a \<le> b)"

definition less_IpAddr :: "IpAddr \<Rightarrow> IpAddr \<Rightarrow> bool" where
  "less_IpAddr a b \<longleftrightarrow> a \<le> b \<and> \<not> b \<le> a"

instance
proof
  fix x y z :: IpAddr
  show "x < y \<longleftrightarrow> x \<le> y \<and> \<not> y \<le> x" by (rule less_IpAddr_def)
  show "x \<le> x" by (cases x) auto
  show "x \<le> y \<Longrightarrow> y \<le> z \<Longrightarrow> x \<le> z" by (cases x; cases y; cases z) auto
  show "x \<le> y \<Longrightarrow> y \<le> x \<Longrightarrow> x = y" by (cases x; cases y) auto
  show "x \<le> y \<or> y \<le> x" by (cases x; cases y) auto
qed

end

definition socket_key :: "SocketAddr \<Rightarrow> IpAddr \<times> u16 \<times> u32 \<times> u32" where
  "socket_key a = (sock_ip a, sock_port a, flowinfo a, scope_id a)"

lemma socket_key_inject: "socket_key a = socket_key b \<Longrightarrow> a = b"
  by (cases a; cases b) (simp add: socket_key_def)

instantiation SocketAddr :: linorder
begin

definition less_eq_SocketAddr :: "SocketAddr \<Rightarrow> SocketAddr \<Rightarrow> bool" where
  "less_eq_SocketAddr a b \<longleftrightarrow> socket_key a \<le> socket_key b"

definition less_SocketAddr :: "SocketAddr \<Rightarrow> SocketAddr \<Rightarrow> bool" where
  "less_SocketAddr a b \<longleftrightarrow> socket_key a < socket_key b"

instance
  by standard (auto simp: less_eq_SocketAddr_def less_SocketAddr_def intro: socket_key_inject)

end

section \<open>Public addresses\<close>

definition in_v4 :: "u32 \<Rightarrow> u32 \<Rightarrow> nat \<Rightarrow> bool" where
  "in_v4 v network prefix =
     (let mask = (if prefix = 0 then 0 else push_bit (32 - prefix) (- 1)) in and v mask = and network mask)"

definition is_public_ipv4 :: "u32 \<Rightarrow> bool" where
  "is_public_ipv4 v \<longleftrightarrow>
     \<not> in_v4 v 0x00000000 8 \<and> \<not> in_v4 v 0x0a000000 8 \<and> \<not> in_v4 v 0x64400000 10 \<and> \<not> in_v4 v 0x7f000000 8
     \<and> \<not> in_v4 v 0xa9fe0000 16 \<and> \<not> in_v4 v 0xac100000 12 \<and> \<not> in_v4 v 0xc0000000 24 \<and> \<not> in_v4 v 0xc0000200 24
     \<and> \<not> in_v4 v 0xc0a80000 16 \<and> \<not> in_v4 v 0xc6120000 15 \<and> \<not> in_v4 v 0xc6336400 24 \<and> \<not> in_v4 v 0xcb007100 24
     \<and> \<not> in_v4 v 0xe0000000 4 \<and> \<not> in_v4 v 0xf0000000 4"

definition in_v6 :: "128 word \<Rightarrow> 128 word \<Rightarrow> nat \<Rightarrow> bool" where
  "in_v6 v network prefix =
     (let mask = (if prefix = 0 then 0 else push_bit (128 - prefix) (- 1)) in and v mask = and network mask)"

text \<open>\<open>Ipv6Addr::new\<close> on its eight segments.\<close>

definition ipv6 :: "u16 list \<Rightarrow> 128 word" where
  "ipv6 segs = foldl (\<lambda>v s. v * 0x10000 + ucast s) 0 segs"

definition is_public_ipv6 :: "128 word \<Rightarrow> bool" where
  "is_public_ipv6 v \<longleftrightarrow>
     in_v6 v (ipv6 [0x2000, 0, 0, 0, 0, 0, 0, 0]) 3
     \<and> \<not> in_v6 v (ipv6 [0x2001, 0, 0, 0, 0, 0, 0, 0]) 23
     \<and> \<not> in_v6 v (ipv6 [0x2001, 0x0db8, 0, 0, 0, 0, 0, 0]) 32
     \<and> \<not> in_v6 v (ipv6 [0x2002, 0, 0, 0, 0, 0, 0, 0]) 16
     \<and> \<not> in_v6 v (ipv6 [0x3fff, 0, 0, 0, 0, 0, 0, 0]) 20"

definition to_ipv4_mapped :: "128 word \<Rightarrow> u32 option" where
  "to_ipv4_mapped v = (if drop_bit 32 v = 0xffff then Some (ucast v) else None)"

fun is_public_ip :: "IpAddr \<Rightarrow> bool" where
  "is_public_ip (V4 a) = is_public_ipv4 a"
| "is_public_ip (V6 a) = (if to_ipv4_mapped a \<noteq> None then False else is_public_ipv6 a)"

text \<open>A prefix test is membership in the network's interval.\<close>

lemma masked_eq:
  fixes v n :: "'a::len word"
  shows "and v (push_bit k (- 1)) = and n (push_bit k (- 1)) \<longleftrightarrow> unat v div 2 ^ k = unat n div 2 ^ k"
proof -
  have mask: "and w (push_bit k (- 1)) = push_bit k (drop_bit k w)" for w :: "'a word"
    by (rule bit_word_eqI) (auto simp: bit_simps not_less)
  have inj: "push_bit k (drop_bit k v) = push_bit k (drop_bit k n) \<longleftrightarrow> drop_bit k v = drop_bit k n"
  proof -
    have "drop_bit k (push_bit k (drop_bit k w)) = drop_bit k w" for w :: "'a word"
      by (rule bit_word_eqI) (auto simp: bit_simps dest: bit_imp_le_length)
    then show ?thesis by metis
  qed
  show ?thesis
    unfolding mask unfolding inj unfolding word_unat_eq_iff unat_drop_bit_eq by (simp only: drop_bit_eq_div)
qed

lemma interval_div:
  fixes v :: nat
  assumes "n mod 2 ^ k = 0"
  shows "v div 2 ^ k = n div 2 ^ k \<longleftrightarrow> n \<le> v \<and> v < n + 2 ^ k"
proof -
  obtain m where n: "n = 2 ^ k * m" using assms by auto
  have "v div 2 ^ k = m \<longleftrightarrow> m * 2 ^ k \<le> v \<and> v < Suc m * 2 ^ k"
    using div_nat_eqI [of "2 ^ k" m v] div_times_less_eq_dividend [of v "2 ^ k"] dividend_less_div_times [of "2 ^ k" v]
    by (auto simp: mult.commute)
  then show ?thesis by (simp add: n mult.commute add.commute)
qed

definition block_of :: "'a::len word \<Rightarrow> nat \<Rightarrow> 'a word \<Rightarrow> bool" where
  "block_of lo count v \<longleftrightarrow> unat lo \<le> unat v \<and> unat v < unat lo + count"

lemma in_v4_block:
  "0 < p \<Longrightarrow> unat n mod 2 ^ (32 - p) = 0 \<Longrightarrow> in_v4 v n p \<longleftrightarrow> block_of n (2 ^ (32 - p)) v"
  by (simp only: in_v4_def Let_def masked_eq interval_div block_of_def neq0_conv [symmetric] if_False)

lemma in_v6_block:
  "0 < p \<Longrightarrow> unat n mod 2 ^ (128 - p) = 0 \<Longrightarrow> in_v6 v n p \<longleftrightarrow> block_of n (2 ^ (128 - p)) v"
  by (simp only: in_v6_def Let_def masked_eq interval_div block_of_def neq0_conv [symmetric] if_False)

text \<open>The ranges of the code's list as first and last address, independently of the masks.\<close>

definition dotted :: "nat \<Rightarrow> nat \<Rightarrow> nat \<Rightarrow> nat \<Rightarrow> nat" where
  "dotted a b c d = ((a * 256 + b) * 256 + c) * 256 + d"

definition reserved_v4 :: "(nat \<times> nat) list" where
  "reserved_v4 =
     [(dotted 0 0 0 0, dotted 0 255 255 255), (dotted 10 0 0 0, dotted 10 255 255 255),
      (dotted 100 64 0 0, dotted 100 127 255 255), (dotted 127 0 0 0, dotted 127 255 255 255),
      (dotted 169 254 0 0, dotted 169 254 255 255), (dotted 172 16 0 0, dotted 172 31 255 255),
      (dotted 192 0 0 0, dotted 192 0 0 255), (dotted 192 0 2 0, dotted 192 0 2 255),
      (dotted 192 168 0 0, dotted 192 168 255 255), (dotted 198 18 0 0, dotted 198 19 255 255),
      (dotted 198 51 100 0, dotted 198 51 100 255), (dotted 203 0 113 0, dotted 203 0 113 255),
      (dotted 224 0 0 0, dotted 239 255 255 255), (dotted 240 0 0 0, dotted 255 255 255 255)]"

lemma public_v4_outside:
  "is_public_ipv4 v \<longleftrightarrow> list_all (\<lambda>(lo, hi). \<not> (lo \<le> unat v \<and> unat v \<le> hi)) reserved_v4"
  by (simp add: is_public_ipv4_def in_v4_block block_of_def reserved_v4_def dotted_def flip: less_Suc_eq_le)

lemma segments:
  "ipv6 [0x2000, 0, 0, 0, 0, 0, 0, 0] = 0x20000000000000000000000000000000"
  "ipv6 [0x2001, 0, 0, 0, 0, 0, 0, 0] = 0x20010000000000000000000000000000"
  "ipv6 [0x2001, 0x0db8, 0, 0, 0, 0, 0, 0] = 0x20010db8000000000000000000000000"
  "ipv6 [0x2002, 0, 0, 0, 0, 0, 0, 0] = 0x20020000000000000000000000000000"
  "ipv6 [0x3fff, 0, 0, 0, 0, 0, 0, 0] = 0x3fff0000000000000000000000000000"
  by code_simp+

text \<open>\<open>v\<close> lies in the block of addresses that starts at \<open>seg1:seg2::\<close> and fixes \<open>p\<close> leading bits.\<close>

definition in_prefix :: "nat \<Rightarrow> nat \<Rightarrow> nat \<Rightarrow> nat \<Rightarrow> bool" where
  "in_prefix v seg1 seg2 p \<longleftrightarrow>
     (seg1 * 2 ^ 112 + seg2 * 2 ^ 96) \<le> v \<and> v < (seg1 * 2 ^ 112 + seg2 * 2 ^ 96) + 2 ^ (128 - p)"

lemma public_v6_inside:
  "is_public_ipv6 v \<longleftrightarrow> in_prefix (unat v) 0x2000 0 3
     \<and> \<not> in_prefix (unat v) 0x2001 0 23 \<and> \<not> in_prefix (unat v) 0x2001 0x0db8 32
     \<and> \<not> in_prefix (unat v) 0x2002 0 16 \<and> \<not> in_prefix (unat v) 0x3fff 0 20"
  by (simp add: is_public_ipv6_def segments in_v6_block block_of_def in_prefix_def)

lemma mapped_not_public: "to_ipv4_mapped v \<noteq> None \<Longrightarrow> \<not> is_public_ipv6 v"
proof -
  assume "to_ipv4_mapped v \<noteq> None"
  then have d: "drop_bit 32 v = 0xffff" by (simp add: to_ipv4_mapped_def split: if_splits)
  have "unat v div 2 ^ 32 = unat (drop_bit 32 v)"
    by (simp only: unat_drop_bit_eq) (simp only: drop_bit_eq_div)
  then have "unat v div 2 ^ 32 = 0xffff" unfolding d by simp
  then have "unat v < 2 ^ 48" by simp
  then show ?thesis by (simp add: public_v6_inside in_prefix_def)
qed

text \<open>
  First addresses of the 256-address special-purpose blocks that the code's list leaves out:
  6to4 relay anycast, AS112, AMT and the direct delegation of AS112.
\<close>

definition unlisted_v4 :: "nat list" where
  "unlisted_v4 = [dotted 192 88 99 0, dotted 192 31 196 0, dotted 192 52 193 0, dotted 192 175 48 0]"

lemma unlisted_v4_public:
  "list_all (\<lambda>lo. list_all (\<lambda>k. is_public_ipv4 (of_nat (lo + k))) [0..<256]) unlisted_v4"
proof -
  have "is_public_ipv4 (of_nat (lo + k))" if "lo \<in> set unlisted_v4" "k < 256" for lo k
  proof -
    have "lo + k < 2 ^ 32" using that by (auto simp: unlisted_v4_def dotted_def)
    then have "unat (of_nat (lo + k) :: u32) = lo + k" by (simp add: unat_of_nat_small del: of_nat_add)
    with that show ?thesis unfolding public_v4_outside reserved_v4_def
      by (auto simp: unlisted_v4_def dotted_def simp del: of_nat_add)
  qed
  then show ?thesis by (simp add: list_all_iff)
qed

text \<open>
  Claim C19: what the prefix tests call public. An IPv4 address is public exactly when it is in
  none of the fourteen dotted ranges of \<open>reserved_v4\<close>; an IPv6 address exactly when it is in
  2000::/3 and outside 2001::/23, 2001:db8::/32, 2002::/16 (6to4) and 3fff::/20, so no IPv4-mapped
  address is public. These ranges are the code's and not the whole IANA special-purpose registry:
  every address of 192.88.99.0/24 (6to4 relay), 192.31.196.0/24 and 192.175.48.0/24 (AS112) and
  192.52.193.0/24 (AMT) is public, and so is the start of 2620:4f:8000::/48 (AS112), although
  \<open>docs/configuration.md\<close> promises that every special-purpose range needs private authorization.
\<close>

theorem public_addresses_avoid_reserved_ranges:
  "(is_public_ip (V4 a) \<longleftrightarrow> list_all (\<lambda>(lo, hi). \<not> (lo \<le> unat a \<and> unat a \<le> hi)) reserved_v4)
   \<and> (is_public_ip (V6 b) \<longleftrightarrow> in_prefix (unat b) 0x2000 0 3 \<and> \<not> in_prefix (unat b) 0x2001 0 23
        \<and> \<not> in_prefix (unat b) 0x2001 0x0db8 32 \<and> \<not> in_prefix (unat b) 0x2002 0 16
        \<and> \<not> in_prefix (unat b) 0x3fff 0 20)
   \<and> list_all (\<lambda>lo. list_all (\<lambda>k. is_public_ip (V4 (of_nat (lo + k)))) [0..<256]) unlisted_v4
   \<and> is_public_ip (V6 (ipv6 [0x2620, 0x4f, 0x8000, 0, 0, 0, 0, 0]))"
proof -
  have "ipv6 [0x2620, 0x4f, 0x8000, 0, 0, 0, 0, 0] = 0x2620004f800000000000000000000000" by code_simp
  then have as112: "is_public_ipv6 (ipv6 [0x2620, 0x4f, 0x8000, 0, 0, 0, 0, 0])"
    by (simp add: public_v6_inside in_prefix_def)
  with mapped_not_public have "to_ipv4_mapped (ipv6 [0x2620, 0x4f, 0x8000, 0, 0, 0, 0, 0]) = None" by blast
  with as112 mapped_not_public [of b] unlisted_v4_public show ?thesis
    by (simp add: public_v4_outside public_v6_inside)
qed

section \<open>URLs and hosts\<close>

datatype Host = Domain string | HostV4 u32 | HostV6 "128 word"

record Url =
  scheme :: string
  username :: string
  password :: "string option"
  url_host :: "Host option"
  url_port :: "u16 option"
  url_path :: string
  query :: "string option"
  fragment :: "string option"

text \<open>The \<open>url\<close> crate and the address parser and printer of IPv6, which are parameters.\<close>

record url_crate =
  url_parse :: "string \<Rightarrow> Url option"
  url_join :: "Url \<Rightarrow> string \<Rightarrow> Url option"
  url_string :: "Url \<Rightarrow> string"
  host_parse :: "string \<Rightarrow> string option"
  ip_parse :: "string \<Rightarrow> IpAddr option"
  show_ipv6 :: "128 word \<Rightarrow> string"

definition MAX_URL_BYTES :: nat where "MAX_URL_BYTES = 8 * 1024"

definition MAX_HOST_BYTES :: nat where "MAX_HOST_BYTES = 253"

definition MAX_ALLOWED_HOSTS :: nat where "MAX_ALLOWED_HOSTS = 128"

definition MAX_DNS_ADDRESSES :: nat where "MAX_DNS_ADDRESSES = 16"

definition canonical_url :: "url_crate \<Rightarrow> string \<Rightarrow> Url fetched" where
  "canonical_url u value =
     (if length value > MAX_URL_BYTES \<or> list_ex is_ascii_control value then Inl InvalidMessage
      else case url_parse u value of
        None \<Rightarrow> Inl InvalidMessage
      | Some url \<Rightarrow>
          if scheme url \<notin> {''http'', ''https''} \<or> username url \<noteq> [] \<or> password url \<noteq> None \<or> url_host url = None then
            Inl InvalidMessage
          else Inr (url\<lparr>fragment := None\<rparr>))"

definition canonical_redirect :: "url_crate \<Rightarrow> Url \<Rightarrow> string \<Rightarrow> Url fetched" where
  "canonical_redirect u base location =
     (if length location > MAX_URL_BYTES \<or> list_ex is_ascii_control location then Inl InvalidMessage
      else case url_join u base location of
        None \<Rightarrow> Inl InvalidMessage
      | Some joined \<Rightarrow> canonical_url u (url_string u joined))"

text \<open>The setters for user information are without effect on a URL that has no host.\<close>

definition redacted_url :: "url_crate \<Rightarrow> Url \<Rightarrow> string" where
  "redacted_url u url =
     (let bare = (if url_host url = None then url else url\<lparr>username := [], password := None\<rparr>) in
      url_string u (bare\<lparr>query := None, fragment := None\<rparr>))"

definition show_ipv4 :: "u32 \<Rightarrow> string" where
  "show_ipv4 a =
     show_nat (unat a div 2 ^ 24) @ ''.'' @ show_nat (unat a div 2 ^ 16 mod 256) @ ''.''
       @ show_nat (unat a div 256 mod 256) @ ''.'' @ show_nat (unat a mod 256)"

definition trim_end_char :: "char \<Rightarrow> string \<Rightarrow> string" where
  "trim_end_char c s = rev (dropWhile (\<lambda>d. d = c) (rev s))"

definition canonical_host :: "url_crate \<Rightarrow> Url \<Rightarrow> string fetched" where
  "canonical_host u url =
     (case map_option (\<lambda>h. case h of
         Domain d \<Rightarrow> to_ascii_lowercase (trim_end_char (CHR ''.'') d)
       | HostV4 a \<Rightarrow> show_ipv4 a
       | HostV6 a \<Rightarrow> show_ipv6 u a) (url_host url) of
        Some h \<Rightarrow> if h = [] then Inl InvalidMessage else Inr h
      | None \<Rightarrow> Inl InvalidMessage)"

text \<open>\<open>value.trim() != value\<close>: white space at an end.\<close>

definition untrimmed :: "string \<Rightarrow> bool" where
  "untrimmed s \<longleftrightarrow> chars s \<noteq> [] \<and> (is_whitespace (hd (chars s)) \<or> is_whitespace (last (chars s)))"

definition normalize_host :: "url_crate \<Rightarrow> string \<Rightarrow> string fetched" where
  "normalize_host u value =
     (if value = [] \<or> length value > MAX_HOST_BYTES \<or> untrimmed value then Inl InvalidMessage
      else
        let value = (case strip_suffix ''.'' value of Some v \<Rightarrow> v | None \<Rightarrow> value) in
        if value = [] \<or> strip_suffix ''.'' value \<noteq> None then Inl InvalidMessage
        else case host_parse u value of
            Some h \<Rightarrow> Inr (to_ascii_lowercase h)
          | None \<Rightarrow> Inl InvalidMessage)"

fun collect_hosts :: "url_crate \<Rightarrow> string list \<Rightarrow> string list fetched" where
  "collect_hosts u [] = Inr []"
| "collect_hosts u (v # vs) =
     and_then (normalize_host u v) (\<lambda>h. and_then (collect_hosts u vs) (\<lambda>hs. Inr (h # hs)))"

definition normalize_allowlist :: "url_crate \<Rightarrow> string list \<Rightarrow> string list fetched" where
  "normalize_allowlist u values =
     (if length values > MAX_ALLOWED_HOSTS then Inl ResourceLimit else collect_hosts u values)"

definition is_localhost_name :: "string \<Rightarrow> bool" where
  "is_localhost_name h \<longleftrightarrow>
     eq_ignore_ascii_case h ''localhost'' \<or> strip_suffix ''.localhost'' (to_ascii_lowercase h) \<noteq> None"

text \<open>\<open>port_or_known_default\<close>: the explicit port or the scheme's.\<close>

definition port_or_known_default :: "Url \<Rightarrow> u16 option" where
  "port_or_known_default url =
     (case url_port url of
        Some p \<Rightarrow> Some p
      | None \<Rightarrow>
          if scheme url \<in> {''http'', ''ws''} then Some 80
          else if scheme url \<in> {''https'', ''wss''} then Some 443
          else if scheme url = ''ftp'' then Some 21
          else None)"

section \<open>Resolution\<close>

text \<open>
  What the request sees while it waits for the resolver pool: a check of the request that failed,
  a wait that timed out, an answer (with its vector's capacity and the check made after it), or
  a failure. The list ends when the deadline does.
\<close>

datatype dns_event =
    DnsHalt TransportErrorKind
  | DnsWait
  | DnsAnswer "SocketAddr list" nat "unit fetched"
  | DnsFailed

fun await_dns :: "u16 \<Rightarrow> dns_event list \<Rightarrow> SocketAddr list fetched" where
  "await_dns p [] = Inl Timeout"
| "await_dns p (DnsHalt e # _) = Inl e"
| "await_dns p (DnsWait # evs) = await_dns p evs"
| "await_dns p (DnsFailed # _) = Inl Dns"
| "await_dns p (DnsAnswer addrs capacity check # _) =
     and_then check (\<lambda>_.
       if addrs = [] \<or> length addrs > MAX_DNS_ADDRESSES \<or> capacity > MAX_DNS_ADDRESSES
          \<or> list_ex (\<lambda>a. sock_port a \<noteq> p) addrs then Inl Dns
       else Inr (remdups_adj (sort addrs)))"

text \<open>\<open>submitted\<close> says whether the bounded pool took the job.\<close>

definition resolve_checked :: "bool \<Rightarrow> u16 \<Rightarrow> dns_event list \<Rightarrow> SocketAddr list fetched" where
  "resolve_checked submitted p evs = (if \<not> submitted then Inl Dns else await_dns p evs)"

section \<open>Authorization\<close>

record NetworkPolicy =
  allow_network :: bool
  allow_private_network :: bool
  allowed_hosts :: "string list"
  max_redirects :: u8

definition default_policy :: NetworkPolicy where
  "default_policy = \<lparr>allow_network = False, allow_private_network = False, allowed_hosts = [], max_redirects = 3\<rparr>"

definition authorized_addresses ::
  "url_crate \<Rightarrow> Url \<Rightarrow> NetworkPolicy \<Rightarrow> unit fetched \<Rightarrow> bool \<Rightarrow> (string \<Rightarrow> u16 \<Rightarrow> dns_event list)
     \<Rightarrow> (string \<times> SocketAddr list) fetched" where
  "authorized_addresses u url policy check submitted dns =
     and_then check (\<lambda>_.
     if \<not> allow_network policy then Inl NetworkDenied
     else and_then (normalize_allowlist u (allowed_hosts policy)) (\<lambda>allowed.
       and_then (canonical_host u url) (\<lambda>host.
       if allowed \<noteq> [] \<and> host \<notin> set allowed then Inl HostDenied
       else if is_localhost_name host \<and> \<not> allow_private_network policy then Inl PrivateNetworkDenied
       else case port_or_known_default url of
         None \<Rightarrow> Inl InvalidMessage
       | Some p \<Rightarrow>
           if p = 0 then Inl InvalidMessage
           else and_then
             (case ip_parse u host of
                Some ip \<Rightarrow> Inr [SocketAddr ip p 0 0]
              | None \<Rightarrow> resolve_checked submitted p (dns host p))
             (\<lambda>addresses.
               let all_public = list_all (\<lambda>a. is_public_ip (sock_ip a)) addresses;
                   all_private = list_all (\<lambda>a. \<not> is_public_ip (sock_ip a)) addresses in
               if \<not> all_public \<and> \<not> allow_private_network policy then Inl PrivateNetworkDenied
               else if scheme url = ''http'' \<and> (\<not> allow_private_network policy \<or> \<not> all_private) then
                 Inl PrivateNetworkDenied
               else Inr (host, addresses)))))"

lemma strict_remdups_adj: "sorted xs \<Longrightarrow> sorted_wrt (<) (remdups_adj xs)"
  by (induction xs rule: remdups_adj.induct) (auto simp: le_less)

lemma await_dns_Inr:
  "await_dns p evs = Inr addrs \<Longrightarrow>
     addrs \<noteq> [] \<and> length addrs \<le> MAX_DNS_ADDRESSES \<and> list_all (\<lambda>a. sock_port a = p) addrs
     \<and> sorted_wrt (<) addrs"
proof (induction evs rule: await_dns.induct)
  case (5 p as capacity check evs)
  then have a: "as \<noteq> []" "length as \<le> MAX_DNS_ADDRESSES" "list_all (\<lambda>a. sock_port a = p) as"
    "addrs = remdups_adj (sort as)"
    by (auto simp: and_then_Inr list_all_iff list_ex_iff split: if_split_asm)
  have "sorted_wrt (<) (remdups_adj (sort as))"
    by (simp add: strict_remdups_adj)
  moreover have "length (remdups_adj (sort as)) \<le> length as"
    using remdups_adj_length [of "sort as"] by simp
  moreover have "sort as \<noteq> []"
    using a(1) by (metis set_empty set_sort)
  ultimately show ?case using a by (simp add: list_all_iff)
qed auto

text \<open>
  Claim C20: authorization keeps its promises. When addresses are returned, network access was
  granted, the host is on a nonempty allowlist, there are between one and sixteen addresses,
  all on the URL's nonzero port; without the separate private grant every address is public,
  the name is not a localhost name and the scheme is not clear-text HTTP; clear text goes to
  private addresses only.
\<close>

theorem authorized_addresses_respect_policy:
  assumes "authorized_addresses u url policy check submitted dns = Inr (host, addrs)"
  shows "allow_network policy \<and> addrs \<noteq> [] \<and> length addrs \<le> 16
    \<and> list_all (\<lambda>a. sock_port a \<noteq> 0 \<and> Some (sock_port a) = port_or_known_default url) addrs
    \<and> (allowed_hosts policy \<noteq> [] \<longrightarrow> (\<exists>hs. normalize_allowlist u (allowed_hosts policy) = Inr hs \<and> host \<in> set hs))
    \<and> (\<not> allow_private_network policy \<longrightarrow>
         list_all (\<lambda>a. is_public_ip (sock_ip a)) addrs \<and> scheme url \<noteq> ''http'' \<and> \<not> is_localhost_name host)
    \<and> (scheme url = ''http'' \<longrightarrow> list_all (\<lambda>a. \<not> is_public_ip (sock_ip a)) addrs)"
proof -
  obtain hs p where hs: "normalize_allowlist u (allowed_hosts policy) = Inr hs"
    and net: "allow_network policy" and allowed: "hs = [] \<or> host \<in> set hs"
    and local: "is_localhost_name host \<longrightarrow> allow_private_network policy"
    and p: "port_or_known_default url = Some p" "p \<noteq> 0"
    and addrs: "(case ip_parse u host of Some ip \<Rightarrow> Inr [SocketAddr ip p 0 0]
        | None \<Rightarrow> resolve_checked submitted p (dns host p)) = Inr addrs"
    and pub: "list_all (\<lambda>a. is_public_ip (sock_ip a)) addrs \<or> allow_private_network policy"
    and clear: "scheme url = ''http'' \<longrightarrow> allow_private_network policy \<and> list_all (\<lambda>a. \<not> is_public_ip (sock_ip a)) addrs"
    using assms by (auto simp: authorized_addresses_def and_then_Inr Let_def split: if_split_asm option.split_asm)
  have "addrs \<noteq> [] \<and> length addrs \<le> 16 \<and> list_all (\<lambda>a. sock_port a = p) addrs"
    using addrs await_dns_Inr [of p "dns host p" addrs]
    by (auto simp: resolve_checked_def MAX_DNS_ADDRESSES_def split: option.split_asm if_split_asm)
  moreover have "hs \<noteq> []" if "allowed_hosts policy \<noteq> []"
    using that hs by (cases "allowed_hosts policy")
      (auto simp: normalize_allowlist_def and_then_Inr split: if_split_asm)
  ultimately show ?thesis
    using hs net allowed local p pub clear by (auto simp: list_all_iff)
qed

definition demo_crate :: url_crate where
  "demo_crate = \<lparr>url_parse = (\<lambda>_. None), url_join = (\<lambda>_ _. None), url_string = (\<lambda>_. ''''),
     host_parse = Some, ip_parse = (\<lambda>_. None), show_ipv6 = (\<lambda>_. '''')\<rparr>"

definition demo_url :: Url where
  "demo_url = \<lparr>scheme = ''https'', username = '''', password = None, url_host = Some (Domain ''Example.org''),
     url_port = None, url_path = ''/'', query = None, fragment = None\<rparr>"

theorem authorized_addresses_respect_policy_witness:
  "is_public_ip (V4 0x5DB8D822) \<and> \<not> is_localhost_name ''example.org''"
proof -
  have local: "\<not> is_localhost_name ''example.org''" by code_simp
  have host: "canonical_host demo_crate demo_url = Inr ''example.org''" by code_simp
  have port: "port_or_known_default demo_url = Some 443" by (simp add: port_or_known_default_def demo_url_def)
  have public: "is_public_ip (V4 0x5DB8D822)"
    by (simp add: public_v4_outside reserved_v4_def dotted_def)
  have "authorized_addresses demo_crate demo_url (default_policy\<lparr>allow_network := True\<rparr>) (Inr ()) True
      (\<lambda>_ p. [DnsWait, DnsAnswer [SocketAddr (V4 0x5DB8D822) p 0 0] 16 (Inr ())])
    = Inr (''example.org'', [SocketAddr (V4 0x5DB8D822) 443 0 0])"
    using local public unfolding authorized_addresses_def host port
    by (simp add: default_policy_def normalize_allowlist_def demo_crate_def resolve_checked_def
        MAX_DNS_ADDRESSES_def demo_url_def)
  from authorized_addresses_respect_policy [OF this] show ?thesis
    by (simp add: default_policy_def)
qed

end
