(* ===== verification/Http_Client.thy ===== *)
theory Http_Client
  imports Http_Policy
begin

text \<open>
  The request loop of \<open>HttpClient::get\<close> and \<open>get_to_writer\<close> (\<open>crates/http-transport/src/lib.rs\<close>):
  redirects followed under a hop limit without revisiting a URL, and the address fallback of one
  request. The exchange with a server is a parameter, a function of the hop; each run also returns
  the URLs it requested, in order, which is what the network sees.
\<close>

section \<open>Deadlines\<close>

record FetchLimits =
  max_wire_bytes :: u64
  max_decoded_bytes :: u64

text \<open>Milliseconds; \<open>max_instant\<close> is where \<open>Instant::checked_add\<close> fails.\<close>

definition transfer_deadline :: "nat \<Rightarrow> nat \<Rightarrow> FetchLimits \<Rightarrow> nat option" where
  "transfer_deadline max_instant time_now l =
     (case checked_add (120000 :: u64) (max_wire_bytes l div 1024) of
        None \<Rightarrow> None
      | Some millis \<Rightarrow> if time_now + unat millis \<le> max_instant then Some (time_now + unat millis) else None)"

definition request_deadline :: "nat \<Rightarrow> nat \<Rightarrow> nat option \<Rightarrow> FetchLimits \<Rightarrow> nat fetched" where
  "request_deadline max_instant time_now remaining l =
     (case transfer_deadline max_instant time_now l of
        None \<Rightarrow> Inl Timeout
      | Some local_deadline \<Rightarrow>
          (case Option.bind remaining (\<lambda>r. if time_now + r \<le> max_instant then Some (time_now + r) else None) of
             Some d \<Rightarrow> Inr (min d local_deadline)
           | None \<Rightarrow> Inr local_deadline))"

section \<open>Address fallback\<close>

text \<open>
  One request over its authorized addresses: each attempt gets an equal share of what remains of
  the deadline; a connect or TLS failure moves on while another address is left.
\<close>

record 'r attempt_env =
  attempt_check :: "nat \<Rightarrow> unit fetched"
  clock :: "nat \<Rightarrow> nat"
  instant_ceiling :: nat
  exchange :: "SocketAddr \<Rightarrow> nat \<Rightarrow> (unit fetched) \<times> 'r fetched"

definition attempt_deadline :: "nat \<Rightarrow> nat \<Rightarrow> nat \<Rightarrow> nat \<Rightarrow> nat" where
  "attempt_deadline max_instant time_now limit left =
     (let share = time_now + (limit - time_now) div max 1 left in
      min (if share \<le> max_instant then share else limit) limit)"

fun try_addresses :: "'r attempt_env \<Rightarrow> nat \<Rightarrow> nat \<Rightarrow> TransportErrorKind \<Rightarrow> SocketAddr list \<Rightarrow> 'r fetched" where
  "try_addresses e limit i last_error [] = Inl last_error"
| "try_addresses e limit i last_error (a # as) =
     (case attempt_check e i of
        Inl k \<Rightarrow> Inl k
      | Inr _ \<Rightarrow>
          (case exchange e a (attempt_deadline (instant_ceiling e) (clock e i) limit (length (a # as))) of
             (Inr _, result) \<Rightarrow> result
           | (Inl k, _) \<Rightarrow>
               if k \<in> {Connect, Tls} \<and> as \<noteq> [] then try_addresses e limit (Suc i) k as else Inl k))"

lemma attempt_deadline_le: "attempt_deadline m t limit left \<le> limit"
  by (simp add: attempt_deadline_def Let_def)

section \<open>Redirects\<close>

record RedirectHop =
  hop_from :: string
  hop_to :: string
  hop_status :: u16

record 'b RawResponse =
  status :: u16
  location :: "string option"
  media_type :: "string option"
  response_filename :: "string option"
  body :: 'b

record 'r FetchedResource =
  content :: 'r
  final_url :: string
  fetched_media_type :: "string option"
  fetched_filename :: "string option"
  redirects :: "RedirectHop list"

text \<open>
  \<open>hop_check n\<close> is the check before hop \<open>n\<close>, \<open>request n\<close> its exchange, \<open>finalize\<close> what is made of
  the final body (\<open>finalize_body\<close>, or the count written by \<open>get_to_writer\<close>); \<open>may_redirect\<close> is
  the extra condition of \<open>get_to_writer\<close>, that nothing was written yet (always true in \<open>get\<close>).
\<close>

record ('b, 'r) client_env =
  hop_check :: "nat \<Rightarrow> unit fetched"
  request :: "nat \<Rightarrow> Url \<Rightarrow> 'b RawResponse fetched"
  finalize :: "'b \<Rightarrow> 'r fetched"
  may_redirect :: "'b \<Rightarrow> bool"

definition is_redirect :: "u16 \<Rightarrow> bool" where
  "is_redirect s \<longleftrightarrow> s \<in> {301, 302, 303, 307, 308}"

function (sequential) follow ::
  "('b, 'r) client_env \<Rightarrow> url_crate \<Rightarrow> u8 \<Rightarrow> nat \<Rightarrow> Url \<Rightarrow> string list \<Rightarrow> RedirectHop list
     \<Rightarrow> 'r FetchedResource fetched \<times> Url list" where
  "follow e u limit n current visited hops =
     (case hop_check e n of
        Inl k \<Rightarrow> (Inl k, [])
      | Inr _ \<Rightarrow>
          if url_string u current \<in> set visited then (Inl Http, [])
          else (case request e n current of
            Inl k \<Rightarrow> (Inl k, [current])
          | Inr response \<Rightarrow>
              if is_redirect (status response) then
                (case location response of
                   None \<Rightarrow> (Inl Http, [current])
                 | Some l \<Rightarrow>
                     if \<not> may_redirect e (body response) \<or> length hops \<ge> unat limit then (Inl Http, [current])
                     else (case canonical_redirect u current l of
                       Inl k \<Rightarrow> (Inl k, [current])
                     | Inr target \<Rightarrow>
                         if url_string u target \<in> set (url_string u current # visited) then (Inl Http, [current])
                         else (case follow e u limit (Suc n) target (url_string u current # visited)
                             (hops @ [\<lparr>hop_from = redacted_url u current, hop_to = redacted_url u target,
                                hop_status = status response\<rparr>]) of
                           (r, urls) \<Rightarrow> (r, current # urls))))
              else if status response \<noteq> 200 then (Inl Http, [current])
              else (case finalize e (body response) of
                  Inl k \<Rightarrow> (Inl k, [current])
                | Inr b \<Rightarrow>
                    (Inr \<lparr>content = b, final_url = redacted_url u current, fetched_media_type = media_type response,
                       fetched_filename = response_filename response, redirects = hops\<rparr>, [current]))))"
  by pat_completeness auto
termination
  by (relation "measure (\<lambda>(e, u, limit, n, current, visited, hops). unat limit - length hops)") auto

declare follow.simps [simp del]

definition get ::
  "('b, 'r) client_env \<Rightarrow> url_crate \<Rightarrow> unit fetched \<Rightarrow> nat fetched \<Rightarrow> NetworkPolicy \<Rightarrow> string
     \<Rightarrow> 'r FetchedResource fetched \<times> Url list" where
  "get e u check dl policy source =
     (case check of
        Inl k \<Rightarrow> (Inl k, [])
      | Inr _ \<Rightarrow>
          if \<not> allow_network policy then (Inl NetworkDenied, [])
          else (case canonical_url u source of
            Inl k \<Rightarrow> (Inl k, [])
          | Inr url \<Rightarrow>
              (case dl of
                 Inl k \<Rightarrow> (Inl k, [])
               | Inr _ \<Rightarrow> follow e u (max_redirects policy) 0 url [] [])))"

section \<open>What the network sees\<close>

definition canonical :: "Url \<Rightarrow> bool" where
  "canonical url \<longleftrightarrow> scheme url \<in> {''http'', ''https''} \<and> username url = [] \<and> password url = None
     \<and> url_host url \<noteq> None \<and> fragment url = None"

lemma canonical_url_canonical: "canonical_url u s = Inr url \<Longrightarrow> canonical url"
  by (auto simp: canonical_url_def canonical_def split: if_split_asm option.split_asm)

lemma canonical_redirect_canonical: "canonical_redirect u base l = Inr url \<Longrightarrow> canonical url"
  by (auto simp: canonical_redirect_def canonical_url_canonical split: if_split_asm option.split_asm)

text \<open>The contract of a run that starts with some URLs visited and hops recorded.\<close>

definition well_behaved ::
  "url_crate \<Rightarrow> u8 \<Rightarrow> string list \<Rightarrow> RedirectHop list \<Rightarrow> 'r FetchedResource fetched \<times> Url list \<Rightarrow> bool" where
  "well_behaved u limit visited hops out \<longleftrightarrow>
     (case out of (r, urls) \<Rightarrow>
        length hops + length urls \<le> Suc (unat limit)
        \<and> distinct (map (url_string u) urls) \<and> set (map (url_string u) urls) \<inter> set visited = {}
        \<and> list_all canonical urls
        \<and> (\<forall>f. r = Inr f \<longrightarrow> Suc (length (redirects f)) = length hops + length urls
             \<and> urls \<noteq> [] \<and> final_url f = redacted_url u (last urls)))"

lemma well_behaved_none: "length hops \<le> Suc (unat limit) \<Longrightarrow> well_behaved u limit visited hops (Inl k, [])"
  by (simp add: well_behaved_def)

lemma well_behaved_one:
  "length hops \<le> unat limit \<Longrightarrow> canonical url \<Longrightarrow> url_string u url \<notin> set visited \<Longrightarrow>
     well_behaved u limit visited hops (Inl k, [url])"
  by (simp add: well_behaved_def)

lemma well_behaved_step:
  assumes "well_behaved u limit (url_string u url # visited) (hops @ [h]) (r, urls)"
    and "length hops \<le> unat limit" and "canonical url" and "url_string u url \<notin> set visited"
  shows "well_behaved u limit visited hops (r, url # urls)"
  using assms by (auto simp: well_behaved_def)

lemma follow_well_behaved:
  "length hops \<le> unat limit \<Longrightarrow> canonical current \<Longrightarrow>
     well_behaved u limit visited hops (follow e u limit n current visited hops)"
proof (induction e u limit n current visited hops rule: follow.induct)
  case (1 e u limit n current visited hops)
  note one = well_behaved_one [OF 1(2,3)]
  show ?case
  proof (cases "hop_check e n")
    case (Inl k)
    then show ?thesis using 1(2) by (simp add: follow.simps well_behaved_none)
  next
    case check: (Inr unit)
    show ?thesis
    proof (cases "url_string u current \<in> set visited")
      case True
      then show ?thesis using check 1(2) by (simp add: follow.simps well_behaved_none)
    next
      case new: False
      show ?thesis
      proof (cases "request e n current")
        case (Inl k)
        then show ?thesis using check new by (simp add: follow.simps one)
      next
        case req: (Inr response)
        show ?thesis
        proof (cases "is_redirect (status response) \<and> location response \<noteq> None \<and> length hops < unat limit \<and> may_redirect e (body response)
            \<and> (\<exists>target. canonical_redirect u current (the (location response)) = Inr target
              \<and> url_string u target \<notin> set (url_string u current # visited))")
          case True
          then obtain l target where l: "is_redirect (status response)" "location response = Some l"
            "length hops < unat limit" "may_redirect e (body response)" "canonical_redirect u current l = Inr target"
            "url_string u target \<notin> set (url_string u current # visited)" by auto
          let ?hop = "\<lparr>hop_from = redacted_url u current, hop_to = redacted_url u target, hop_status = status response\<rparr>"
          obtain r urls where out: "follow e u limit (Suc n) target (url_string u current # visited) (hops @ [?hop]) = (r, urls)"
            by fastforce
          have eq: "follow e u limit n current visited hops = (r, current # urls)"
            using check new req l out by (simp add: follow.simps [of e u limit n])
          have "well_behaved u limit (url_string u current # visited) (hops @ [?hop]) (r, urls)"
            using 1(1) [OF check _ req l(1) l(2) _ l(5) l(6)] new l(3,4) canonical_redirect_canonical [OF l(5)] out
            by simp
          from well_behaved_step [OF this 1(2,3) new] show ?thesis by (simp only: eq)
        next
          case False
          then show ?thesis
            using check new req one [OF new] 1(2,3)
            by (auto simp: follow.simps [of e u limit n] well_behaved_def
                split: option.split sum.split if_split_asm)
        qed
      qed
    qed
  qed
qed

text \<open>
  Claim C21: following redirects always ends and stays inside its rules. Whatever the servers answer,
  at most \<open>max_redirects + 1\<close> requests are sent, no URL is requested twice, every requested URL
  is HTTP(S) with a host and without credentials or fragment, none is sent without network
  authorization, and a success reports exactly the hops taken and the last URL, redacted.
\<close>

theorem redirects_are_bounded_and_acyclic:
  "case get e u check dl policy source of (r, urls) \<Rightarrow>
     length urls \<le> Suc (unat (max_redirects policy))
     \<and> distinct (map (url_string u) urls)
     \<and> list_all canonical urls
     \<and> (allow_network policy \<or> urls = [])
     \<and> (case r of
          Inl _ \<Rightarrow> True
        | Inr f \<Rightarrow> Suc (length (redirects f)) = length urls \<and> final_url f = redacted_url u (last urls))"
proof (cases "check = Inr () \<and> allow_network policy \<and> (\<exists>d. dl = Inr d) \<and> (\<exists>url. canonical_url u source = Inr url)")
  case True
  then obtain url where url: "canonical_url u source = Inr url" by blast
  then have "get e u check dl policy source = follow e u (max_redirects policy) 0 url [] []"
    using True by (auto simp: get_def)
  with True url follow_well_behaved [of "[]" "max_redirects policy" url u "[]" e 0] canonical_url_canonical [OF url]
  show ?thesis by (auto simp: well_behaved_def split: sum.split)
next
  case False
  then have "\<exists>k. get e u check dl policy source = (Inl k, [])"
    by (cases check; cases "canonical_url u source"; cases dl) (auto simp: get_def)
  then show ?thesis by auto
qed

end
