(* ===== verification/Http_Headers.thy ===== *)
theory Http_Headers
  imports Http_Policy
begin

text \<open>
  The HTTP header grammar of \<open>crates/http-transport\<close>: the fields of \<open>policy.rs\<close> and the response
  head of \<open>http1.rs\<close>. Unicode normalization (NFC) is a crate's and a parameter.
\<close>

section \<open>Bytes\<close>

definition is_token :: "char \<Rightarrow> bool" where
  "is_token c \<longleftrightarrow> is_ascii_alphanumeric c \<or> c \<in> set (CHR 0x27 # ''!#$%&*+-.^_`|~'')"

definition invalid_header_value_byte :: "char \<Rightarrow> bool" where
  "invalid_header_value_byte c \<longleftrightarrow> byte c = 127 \<or> (byte c < 32 \<and> byte c \<noteq> 9)"

definition is_attr_char :: "char \<Rightarrow> bool" where
  "is_attr_char c \<longleftrightarrow> is_ascii_alphanumeric c \<or> c \<in> set ''!#$&+-.^_`|~''"

definition hex :: "char \<Rightarrow> nat fetched" where
  "hex c =
     (if 48 \<le> byte c \<and> byte c \<le> 57 then Inr (byte c - 48)
      else if 97 \<le> byte c \<and> byte c \<le> 102 then Inr (byte c - 97 + 10)
      else if 65 \<le> byte c \<and> byte c \<le> 70 then Inr (byte c - 65 + 10)
      else Inl InvalidMessage)"

section \<open>Trimming\<close>

definition trim_blanks :: "string \<Rightarrow> string" where
  "trim_blanks s =
     (let b = (\<lambda>c. c = CHR '' '' \<or> c = CHR 0x09) in rev (dropWhile b (rev (dropWhile b s))))"

section \<open>Content-Type\<close>

definition unquoted :: "string \<Rightarrow> string option" where
  "unquoted raw = Option.bind (strip_prefix [CHR 0x22] raw) (strip_suffix [CHR 0x22])"

definition valid_parameter_value :: "string \<Rightarrow> bool" where
  "valid_parameter_value raw \<longleftrightarrow>
     (raw \<noteq> [] \<and> list_all is_token raw)
     \<or> (case unquoted raw of Some inner \<Rightarrow> \<not> list_ex invalid_header_value_byte inner | None \<Rightarrow> False)"

definition content_type_parameter :: "string \<Rightarrow> unit fetched" where
  "content_type_parameter p =
     (let p = trim p in
      if p = [] then Inr ()
      else case split_once (CHR ''='') p of
        None \<Rightarrow> Inl InvalidMessage
      | Some (name, raw) \<Rightarrow>
          if name = [] \<or> \<not> list_all is_token name \<or> \<not> valid_parameter_value raw then Inl InvalidMessage else Inr ())"

fun check_all :: "('a \<Rightarrow> unit fetched) \<Rightarrow> 'a list \<Rightarrow> unit fetched" where
  "check_all f [] = Inr ()"
| "check_all f (x # xs) = and_then (f x) (\<lambda>_. check_all f xs)"

definition parse_content_type :: "string \<Rightarrow> string fetched" where
  "parse_content_type value =
     (let media = trim (hd (split_on (CHR '';'') value)) in
      case split_once (CHR ''/'') media of
        None \<Rightarrow> Inl InvalidMessage
      | Some (k, subtype) \<Rightarrow>
          if k = [] \<or> subtype = [] \<or> \<not> list_all is_token k \<or> \<not> list_all is_token subtype then Inl InvalidMessage
          else and_then (check_all content_type_parameter (tl (split_on (CHR '';'') value)))
            (\<lambda>_. Inr (to_ascii_lowercase media)))"

section \<open>Content-Disposition\<close>

fun scan_quotes :: "bool \<Rightarrow> bool \<Rightarrow> string \<Rightarrow> (bool \<times> bool) fetched" where
  "scan_quotes quoted escaped [] = Inr (quoted, escaped)"
| "scan_quotes quoted escaped (c # s) =
     (if escaped then scan_quotes quoted False s
      else if c = CHR 0x5C \<and> quoted then scan_quotes quoted True s
      else if c = CHR 0x22 then scan_quotes (\<not> quoted) False s
      else if invalid_header_value_byte c then Inl InvalidMessage
      else scan_quotes quoted False s)"

definition split_parameters :: "string \<Rightarrow> string list fetched" where
  "split_parameters value =
     and_then (scan_quotes False False value) (\<lambda>(quoted, escaped).
       if quoted \<or> escaped then Inl InvalidMessage else Inr (split_on (CHR '';'') value))"

fun percent_decode :: "string \<Rightarrow> string fetched" where
  "percent_decode [] = Inr []"
| "percent_decode (c # s) =
     (if c = CHR ''%'' then
        (case s of
           h # l # t \<Rightarrow>
             and_then (hex h) (\<lambda>high. and_then (hex l) (\<lambda>low.
             and_then (percent_decode t) (\<lambda>r. Inr (char_of (high * 16 + low) # r))))
         | _ \<Rightarrow> Inl InvalidMessage)
      else if is_attr_char c then and_then (percent_decode s) (\<lambda>r. Inr (c # r))
      else Inl InvalidMessage)"

definition decode_rfc5987 :: "string \<Rightarrow> string fetched" where
  "decode_rfc5987 raw =
     (case split_once (CHR 0x27) raw of
        None \<Rightarrow> Inl InvalidMessage
      | Some (charset, rest) \<Rightarrow>
          (case split_once (CHR 0x27) rest of
             None \<Rightarrow> Inl InvalidMessage
           | Some (_, encoded) \<Rightarrow>
               if \<not> eq_ignore_ascii_case charset ''utf-8'' then Inl InvalidMessage
               else and_then (percent_decode encoded) (\<lambda>bs.
                 if valid_utf8 bs then Inr bs else Inl InvalidMessage)))"

fun unescape :: "bool \<Rightarrow> (nat \<times> string) list \<Rightarrow> string fetched" where
  "unescape escaped [] = (if escaped then Inl InvalidMessage else Inr [])"
| "unescape escaped ((v, bs) # ps) =
     (if escaped then and_then (unescape False ps) (\<lambda>r. Inr (bs @ r))
      else if v = 0x5C then unescape True ps
      else if v = 0x22 \<or> is_control v then Inl InvalidMessage
      else and_then (unescape False ps) (\<lambda>r. Inr (bs @ r)))"

definition decode_quoted_or_token :: "string \<Rightarrow> string fetched" where
  "decode_quoted_or_token raw =
     (case unquoted raw of
        Some inner \<Rightarrow> unescape False (scalar_pieces inner)
      | None \<Rightarrow> if raw \<noteq> [] \<and> list_all is_token raw then Inr raw else Inl InvalidMessage)"

definition is_windows_device_name :: "string \<Rightarrow> bool" where
  "is_windows_device_name value =
     (let stem = to_ascii_uppercase (hd (split_on (CHR ''.'') value));
          digit = (\<lambda>s. s \<in> {''1'', ''2'', ''3'', ''4'', ''5'', ''6'', ''7'', ''8'', ''9''}) in
      stem \<in> {''CON'', ''PRN'', ''AUX'', ''NUL'', ''CLOCK$''}
      \<or> (case strip_prefix ''COM'' stem of Some number \<Rightarrow> digit number | None \<Rightarrow> False)
      \<or> (case strip_prefix ''LPT'' stem of Some number \<Rightarrow> digit number | None \<Rightarrow> False))"

definition MAX_FILENAME_BYTES :: nat where "MAX_FILENAME_BYTES = 255"

definition forbidden_in_filename :: "nat \<Rightarrow> bool" where
  "forbidden_in_filename v \<longleftrightarrow> is_control v \<or> v \<in> set (map of_char (CHR 0x22 # CHR 0x5C # ''<>:/|?*''))"

definition portable_filename :: "(string \<Rightarrow> string) \<Rightarrow> string \<Rightarrow> string fetched" where
  "portable_filename nfc value =
     (let normalized = nfc value in
      if normalized = [] \<or> length normalized > MAX_FILENAME_BYTES \<or> normalized \<noteq> value
         \<or> normalized = ''.'' \<or> normalized = ''..''
         \<or> hd normalized \<in> {CHR '' '', CHR ''.''} \<or> last normalized \<in> {CHR '' '', CHR ''.''}
         \<or> list_ex forbidden_in_filename (chars normalized)
         \<or> is_windows_device_name normalized then Inl InvalidMessage
      else Inr normalized)"

fun disposition_parameters ::
  "string list \<Rightarrow> string list \<Rightarrow> string option \<Rightarrow> string option \<Rightarrow> (string option \<times> string option) fetched" where
  "disposition_parameters [] names plain extended = Inr (plain, extended)"
| "disposition_parameters (p # ps) names plain extended =
     (let p = trim p in
      if p = [] then disposition_parameters ps names plain extended
      else case split_once (CHR ''='') p of
        None \<Rightarrow> Inl InvalidMessage
      | Some (name, raw) \<Rightarrow>
          let name = to_ascii_lowercase name in
          if name \<in> set names \<or> \<not> list_all is_token name then Inl InvalidMessage
          else if name = ''filename*'' then
            and_then (decode_rfc5987 raw) (\<lambda>v. disposition_parameters ps (name # names) plain (Some v))
          else if name = ''filename'' then
            and_then (decode_quoted_or_token raw) (\<lambda>v. disposition_parameters ps (name # names) (Some v) extended)
          else if \<not> valid_parameter_value raw then Inl InvalidMessage
          else disposition_parameters ps (name # names) plain extended)"

definition parse_content_disposition :: "(string \<Rightarrow> string) \<Rightarrow> string \<Rightarrow> string option fetched" where
  "parse_content_disposition nfc value =
     and_then (split_parameters value) (\<lambda>parts.
     if to_ascii_lowercase (trim (hd parts)) \<notin> {''attachment'', ''inline''} then Inl InvalidMessage
     else and_then (disposition_parameters (tl parts) [] None None) (\<lambda>(plain, extended).
       case (case extended of Some v \<Rightarrow> Some v | None \<Rightarrow> plain) of
         None \<Rightarrow> Inr None
       | Some name \<Rightarrow> and_then (portable_filename nfc name) (\<lambda>n. Inr (Some n))))"

section \<open>Response head\<close>

datatype ContentEncoding = Identity | Gzip

datatype Framing = Length u64 | Chunked | Close

record ParsedHead =
  head_status :: u16
  framing :: Framing
  head_location :: "string option"
  head_media_type :: "string option"
  head_filename :: "string option"
  content_encoding :: ContentEncoding

definition MAX_HEADER_COUNT :: nat where "MAX_HEADER_COUNT = 128"

definition crlf :: string where "crlf = [CHR 0x0D, CHR 0x0A]"

text \<open>\<open>str::split\<close> on CRLF.\<close>

fun split_crlf :: "string \<Rightarrow> string list" where
  "split_crlf [] = [[]]"
| "split_crlf [c] = [[c]]"
| "split_crlf (c # d # s) =
     (if c = CHR 0x0D \<and> d = CHR 0x0A then [] # split_crlf s
      else (case split_crlf (d # s) of p # ps \<Rightarrow> (c # p) # ps | [] \<Rightarrow> [[c]]))"

fun unique_header :: "(string \<times> string) list \<Rightarrow> string \<Rightarrow> string option fetched" where
  "unique_header headers name =
     (case filter (\<lambda>h. fst h = name) headers of
        [] \<Rightarrow> Inr None
      | [h] \<Rightarrow> Inr (Some (snd h))
      | _ \<Rightarrow> Inl InvalidMessage)"

fun decimal :: "nat \<Rightarrow> string \<Rightarrow> nat" where
  "decimal n [] = n"
| "decimal n (c # s) = decimal (10 * n + (byte c - 48)) s"

definition status_line_ok :: "string \<Rightarrow> bool" where
  "status_line_ok s \<longleftrightarrow>
     \<not> (length s < 13 \<or> take 9 s \<notin> {''HTTP/1.0 '', ''HTTP/1.1 ''} \<or> \<not> list_all is_ascii_digit (take 3 (drop 9 s))
        \<or> s ! 12 \<noteq> CHR '' '' \<or> list_ex invalid_header_value_byte (drop 13 s))"

fun header_lines :: "nat \<Rightarrow> string list \<Rightarrow> (string \<times> string) list fetched" where
  "header_lines n [] = Inr []"
| "header_lines n (line # lines) =
     (if n \<ge> MAX_HEADER_COUNT \<or> line = [] \<or> hd line \<in> {CHR '' '', CHR 0x09} then Inl InvalidMessage
      else case split_once (CHR '':'') line of
        None \<Rightarrow> Inl InvalidMessage
      | Some (name, value) \<Rightarrow>
          if name = [] \<or> \<not> list_all is_token name \<or> list_ex invalid_header_value_byte value then Inl InvalidMessage
          else and_then (header_lines (Suc n) lines)
            (\<lambda>hs. Inr ((to_ascii_lowercase name, trim_blanks value) # hs)))"

definition content_length :: "(string \<times> string) list \<Rightarrow> u64 option fetched" where
  "content_length headers =
     and_then (unique_header headers ''content-length'') (\<lambda>v. case v of
       None \<Rightarrow> Inr None
     | Some value \<Rightarrow>
         if value = [] \<or> \<not> list_all is_ascii_digit value then Inl InvalidMessage
         else if decimal 0 value \<ge> 2 ^ 64 then Inl ResourceLimit
         else Inr (Some (of_nat (decimal 0 value))))"

definition head_framing :: "(string \<times> string) list \<Rightarrow> Framing fetched" where
  "head_framing headers =
     and_then (content_length headers) (\<lambda>len.
     and_then (unique_header headers ''transfer-encoding'') (\<lambda>transfer.
     if len \<noteq> None \<and> transfer \<noteq> None then Inl InvalidMessage
     else case (len, transfer) of
       (Some n, None) \<Rightarrow> Inr (Length n)
     | (Some _, Some _) \<Rightarrow> Inl InvalidMessage
     | (None, Some v) \<Rightarrow> if eq_ignore_ascii_case v ''chunked'' then Inr Chunked else Inl InvalidMessage
     | (None, None) \<Rightarrow> Inr Close))"

definition head_encoding :: "(string \<times> string) list \<Rightarrow> ContentEncoding fetched" where
  "head_encoding headers =
     and_then (unique_header headers ''content-encoding'') (\<lambda>v. case v of
       None \<Rightarrow> Inr Identity
     | Some v \<Rightarrow>
         if eq_ignore_ascii_case v ''identity'' then Inr Identity
         else if eq_ignore_ascii_case v ''gzip'' then Inr Gzip
         else Inl InvalidMessage)"

definition head_fields :: "(string \<Rightarrow> string) \<Rightarrow> u16 \<Rightarrow> (string \<times> string) list \<Rightarrow> ParsedHead fetched" where
  "head_fields nfc sc headers =
     and_then (head_framing headers) (\<lambda>fr.
     and_then (head_encoding headers) (\<lambda>enc.
     and_then (unique_header headers ''location'') (\<lambda>loc.
     if loc = Some [] then Inl InvalidMessage
     else and_then (unique_header headers ''content-type'') (\<lambda>ct.
       and_then (case ct of None \<Rightarrow> Inr None | Some v \<Rightarrow> and_then (parse_content_type v) (\<lambda>m. Inr (Some m))) (\<lambda>media.
       and_then (unique_header headers ''content-disposition'') (\<lambda>cd.
       and_then (case cd of None \<Rightarrow> Inr None | Some v \<Rightarrow> parse_content_disposition nfc v) (\<lambda>filename.
       and_then (unique_header headers ''connection'') (\<lambda>_.
       and_then (unique_header headers ''host'') (\<lambda>_.
       and_then (unique_header headers ''trailer'') (\<lambda>_.
       Inr \<lparr>head_status = sc, framing = fr, head_location = loc, head_media_type = media,
            head_filename = filename, content_encoding = enc\<rparr>))))))))))"

definition parse_head :: "(string \<Rightarrow> string) \<Rightarrow> string \<Rightarrow> ParsedHead fetched" where
  "parse_head nfc bs =
     (if \<not> valid_utf8 bs then Inl InvalidMessage
      else case strip_suffix (crlf @ crlf) bs of
        None \<Rightarrow> Inl InvalidMessage
      | Some text \<Rightarrow>
          let status_line = hd (split_crlf text) in
          if \<not> status_line_ok status_line then Inl InvalidMessage
          else
            let sc = decimal 0 (take 3 (drop 9 status_line)) in
            if \<not> (200 \<le> sc \<and> sc \<le> 599) then Inl Http
            else and_then (header_lines 0 (tl (split_crlf text))) (head_fields nfc (of_nat sc)))"

section \<open>Unambiguous messages\<close>

lemma header_lines_Inr:
  "header_lines n ls = Inr hs \<Longrightarrow> n + length hs \<le> max n MAX_HEADER_COUNT \<and> length hs = length ls"
proof (induction n ls arbitrary: hs rule: header_lines.induct)
  case (2 n line lines)
  then obtain name v hs' where "n < MAX_HEADER_COUNT" "header_lines (Suc n) lines = Inr hs'" "hs = (name, v) # hs'"
    "hd line \<notin> {CHR '' '', CHR 0x09}" "line \<noteq> []" "split_once (CHR '':'') line \<noteq> None"
    by (auto simp: and_then_Inr split: if_split_asm option.split_asm)
  with 2(1) show ?case
    by (cases "split_once (CHR '':'') line") (use 2 in \<open>force simp: and_then_Inr split: if_split_asm\<close>)+
qed simp

definition occurrences :: "string \<Rightarrow> (string \<times> string) list \<Rightarrow> string list" where
  "occurrences name headers = map snd (filter (\<lambda>h. fst h = name) headers)"

lemma unique_header_Inr:
  "unique_header hs n = Inr v \<longleftrightarrow> occurrences n hs = (case v of None \<Rightarrow> [] | Some x \<Rightarrow> [x])"
  by (cases "filter (\<lambda>h. fst h = n) hs"; cases "tl (filter (\<lambda>h. fst h = n) hs)")
    (auto simp: occurrences_def split: list.splits option.splits)

declare unique_header.simps [simp del]

lemma head_framing_Inr:
  assumes "head_framing hs = Inr fr"
  shows "case fr of
      Length n \<Rightarrow> (\<exists>v. occurrences ''content-length'' hs = [v] \<and> v \<noteq> [] \<and> list_all is_ascii_digit v
        \<and> decimal 0 v = unat n) \<and> occurrences ''transfer-encoding'' hs = []
    | Chunked \<Rightarrow> occurrences ''content-length'' hs = []
        \<and> (\<exists>v. occurrences ''transfer-encoding'' hs = [v] \<and> to_ascii_lowercase v = ''chunked'')
    | Close \<Rightarrow> occurrences ''content-length'' hs = [] \<and> occurrences ''transfer-encoding'' hs = []"
proof -
  obtain len transfer where l: "content_length hs = Inr len" and t: "unique_header hs ''transfer-encoding'' = Inr transfer"
    using assms by (auto simp: head_framing_def and_then_Inr)
  have cl: "case len of None \<Rightarrow> occurrences ''content-length'' hs = []
    | Some n \<Rightarrow> \<exists>v. occurrences ''content-length'' hs = [v] \<and> v \<noteq> [] \<and> list_all is_ascii_digit v \<and> decimal 0 v = unat n"
    using l by (auto simp: content_length_def and_then_Inr unique_header_Inr unat_of_nat_small
        split: option.split_asm if_split_asm)
  have lower: "to_ascii_lowercase ''chunked'' = ''chunked''" by code_simp
  show ?thesis
    using assms l t cl unfolding head_framing_def
    by (cases len; cases transfer)
      (auto simp: unique_header_Inr eq_ignore_ascii_case_def lower split: if_split_asm)
qed

text \<open>The headers of a head, as its bytes spell them.\<close>

definition headers_of :: "string \<Rightarrow> (string \<times> string) list fetched" where
  "headers_of bs =
     (case strip_suffix (crlf @ crlf) bs of None \<Rightarrow> Inl InvalidMessage
      | Some text \<Rightarrow> header_lines 0 (tl (split_crlf text)))"

text \<open>
  Claim C22: an accepted response head leaves no doubt about where its body ends. The status is final
  (200 to 599), there are at most 128 headers, and the framing is decided by at most one header:
  either one decimal \<open>content-length\<close> and no \<open>transfer-encoding\<close>, or one \<open>chunked\<close> transfer
  encoding and no length, or neither; no other security-relevant header is repeated.
\<close>

theorem accepted_heads_frame_unambiguously:
  assumes "parse_head nfc bs = Inr h"
  shows "\<exists>hs. headers_of bs = Inr hs \<and> length hs \<le> 128 \<and> 200 \<le> unat (head_status h) \<and> unat (head_status h) \<le> 599
    \<and> (case framing h of
        Length n \<Rightarrow> (\<exists>v. occurrences ''content-length'' hs = [v] \<and> v \<noteq> [] \<and> list_all is_ascii_digit v
          \<and> decimal 0 v = unat n) \<and> occurrences ''transfer-encoding'' hs = []
      | Chunked \<Rightarrow> occurrences ''content-length'' hs = []
          \<and> (\<exists>v. occurrences ''transfer-encoding'' hs = [v] \<and> to_ascii_lowercase v = ''chunked'')
      | Close \<Rightarrow> occurrences ''content-length'' hs = [] \<and> occurrences ''transfer-encoding'' hs = [])
    \<and> list_all (\<lambda>n. length (occurrences n hs) \<le> 1)
        [''content-encoding'', ''location'', ''content-type'', ''content-disposition'', ''connection'', ''host'', ''trailer'']"
proof -
  obtain whole hs sc where t: "strip_suffix (crlf @ crlf) bs = Some whole"
    and hs: "header_lines 0 (tl (split_crlf whole)) = Inr hs"
    and sc: "200 \<le> sc" "sc \<le> 599" and f: "head_fields nfc (of_nat sc) hs = Inr h"
    using assms by (auto simp: parse_head_def Let_def and_then_Inr split: if_split_asm option.split_asm)
  obtain v1 v2 v3 v4 v5 v6 v7 where fr: "head_framing hs = Inr (framing h)" and st: "head_status h = of_nat sc"
    and u: "unique_header hs ''content-encoding'' = Inr v1" "unique_header hs ''location'' = Inr v2"
      "unique_header hs ''content-type'' = Inr v3" "unique_header hs ''content-disposition'' = Inr v4"
      "unique_header hs ''connection'' = Inr v5" "unique_header hs ''host'' = Inr v6"
      "unique_header hs ''trailer'' = Inr v7"
    using f by (auto simp: head_fields_def head_encoding_def and_then_Inr split: if_split_asm)
  have one: "length (occurrences n hs) \<le> 1" if "unique_header hs n = Inr v" for n v
    using that by (cases v) (auto simp: unique_header_Inr)
  have "unat (of_nat sc :: u16) = sc" using sc by (simp add: unat_of_nat_small)
  with head_framing_Inr [OF fr] header_lines_Inr [OF hs] u [THEN one] t hs sc st show ?thesis
    by (intro exI [of _ hs]) (simp add: headers_of_def MAX_HEADER_COUNT_def)
qed

definition demo_head :: string where
  "demo_head = ''HTTP/1.1 200 OK'' @ crlf @ ''Transfer-Encoding: chunked'' @ crlf @ crlf"

theorem accepted_heads_frame_unambiguously_witness:
  "\<exists>hs. headers_of demo_head = Inr hs \<and> length hs \<le> 128 \<and> occurrences ''content-length'' hs = []"
proof -
  have "parse_head id demo_head = Inr \<lparr>head_status = 200, framing = Chunked, head_location = None,
      head_media_type = None, head_filename = None, content_encoding = Identity\<rparr>"
    by code_simp
  from accepted_heads_frame_unambiguously [OF this] show ?thesis by auto
qed

section \<open>File names\<close>

text \<open>An ASCII byte of a UTF-8 string is one of its scalar values: the multi-byte forms use none.\<close>

lemma decode_scalar_bytes:
  "decode_scalar s = Some (v, n) \<Longrightarrow>
     (n = 1 \<and> v = byte (hd s) \<and> s \<noteq> []) \<or> (\<forall>c \<in> set (take n s). 128 \<le> byte c)"
  by (cases s) (auto simp: Let_def continuation_def split: if_split_asm list.split_asm)

lemma ascii_in_chars:
  "char_indices_from i s = Some r \<Longrightarrow> c \<in> set s \<Longrightarrow> byte c < 128 \<Longrightarrow> byte c \<in> set (map snd r)"
proof (induction i s arbitrary: r rule: char_indices_from.induct)
  case (1 i s)
  then have "s \<noteq> []" by auto
  with 1(2) obtain v n r' where d: "decode_scalar s = Some (v, n)"
    and r': "char_indices_from (i + n) (drop n s) = Some r'" "r = (i, v) # r'"
    by (auto simp: char_indices_from.simps [of i s] split: option.split_asm)
  show ?case
  proof (cases "c \<in> set (drop n s)")
    case True
    with 1(1) [OF \<open>s \<noteq> []\<close> d _ r'(1)] 1(4) r'(2) show ?thesis by auto
  next
    case False
    with 1(3) have "c \<in> set (take n s)" by (metis Un_iff append_take_drop_id set_append)
    with decode_scalar_bytes [OF d] 1(4) have "v = byte (hd s)" "n = 1" by auto
    with \<open>c \<in> set (take n s)\<close> \<open>s \<noteq> []\<close> r'(2) show ?thesis by (cases s) auto
  qed
qed

text \<open>
  Claim C23: a file name taken from a response is one portable path component. It is nonempty, at most
  255 bytes, equal to its own normal form, is not a dot name, does not begin or end with a
  dot or blank, holds no separator, drive colon, wildcard, quote or control character, and is
  not a reserved device name.
\<close>

theorem response_filenames_are_portable:
  assumes "parse_content_disposition nfc value = Inr (Some name)" and "valid_utf8 name"
  shows "name \<noteq> [] \<and> length name \<le> 255 \<and> nfc name = name \<and> name \<noteq> ''.'' \<and> name \<noteq> ''..''
    \<and> hd name \<notin> {CHR '' '', CHR ''.''} \<and> last name \<notin> {CHR '' '', CHR ''.''}
    \<and> set name \<inter> set (CHR 0x22 # CHR 0x5C # ''<>:/|?*'') = {} \<and> list_all (\<lambda>c. \<not> is_ascii_control c) name
    \<and> \<not> is_windows_device_name name"
proof -
  obtain raw where p: "portable_filename nfc raw = Inr name"
    using assms(1) by (auto simp: parse_content_disposition_def and_then_Inr split: if_split_asm option.split_asm)
  then have ok: "name \<noteq> []" "length name \<le> 255" "nfc name = name" "name \<noteq> ''.''" "name \<noteq> ''..''"
    "hd name \<notin> {CHR '' '', CHR ''.''}" "last name \<notin> {CHR '' '', CHR ''.''}" "\<not> is_windows_device_name name"
    and plain: "\<not> list_ex forbidden_in_filename (chars name)"
    by (auto simp: portable_filename_def Let_def MAX_FILENAME_BYTES_def split: if_split_asm)
  have allowed: "\<not> forbidden_in_filename (byte c)" if "c \<in> set name" "byte c < 128" for c
  proof -
    obtain r where "char_indices_from 0 name = Some r"
      using assms(2) by (auto simp: valid_utf8_def from_utf8_def)
    with ascii_in_chars [OF this that] plain show ?thesis
      by (auto simp: chars_def from_utf8_def list_ex_iff)
  qed
  have "set name \<inter> set (CHR 0x22 # CHR 0x5C # ''<>:/|?*'') = {}"
    using allowed by (force simp: forbidden_in_filename_def)
  moreover have "list_all (\<lambda>c. \<not> is_ascii_control c) name"
    using allowed by (force simp: forbidden_in_filename_def is_ascii_control_def is_control_def list_all_iff)
  ultimately show ?thesis using ok by blast
qed

theorem response_filenames_are_portable_witness:
  "CHR ''/'' \<notin> set ''report.pdf'' \<and> \<not> is_windows_device_name ''report.pdf''"
proof -
  have v: "valid_utf8 ''report.pdf''" by code_simp
  have "parse_content_disposition id ''attachment; filename=report.pdf'' = Inr (Some ''report.pdf'')"
    by code_simp
  from response_filenames_are_portable [OF this v] show ?thesis by auto
qed

text \<open>The encoder of RFC 5987: attribute characters as they are, every other byte as \<open>%XX\<close>.\<close>

definition hex_digit :: "nat \<Rightarrow> char" where
  "hex_digit d = (if d < 10 then char_of (48 + d) else char_of (55 + d))"

fun percent_encode :: "string \<Rightarrow> string" where
  "percent_encode [] = []"
| "percent_encode (c # s) =
     (if is_attr_char c then [c] else [CHR ''%'', hex_digit (byte c div 16), hex_digit (byte c mod 16)]) @ percent_encode s"

lemma hex_hex_digit: "d < 16 \<Longrightarrow> hex (hex_digit d) = Inr d"
  by (auto simp: hex_def hex_digit_def)

lemma percent_not_attr: "\<not> is_attr_char (CHR ''%'')"
  by code_simp

lemma percent_round_trip: "percent_decode (percent_encode s) = Inr s"
proof (induction s)
  case (Cons c s)
  have "byte c div 16 < 16" "byte c mod 16 < 16" using nat_of_char_less_256 [of c] by (simp_all add: less_mult_imp_div_less)
  with Cons percent_not_attr show ?case by (auto simp: hex_hex_digit)
qed simp

text \<open>
  Claim C24: extended parameters round-trip. Any UTF-8 text, encoded as RFC 5987 prescribes with any
  language tag, is decoded back to itself, in either case of the charset name.
\<close>

theorem rfc5987_round_trip:
  assumes "valid_utf8 s" and "CHR 0x27 \<notin> set lang" and "charset = ''UTF-8'' \<or> charset = ''utf-8''"
  shows "decode_rfc5987 (charset @ CHR 0x27 # lang @ CHR 0x27 # percent_encode s) = Inr s"
proof -
  have c: "CHR 0x27 \<notin> set charset" "eq_ignore_ascii_case charset ''utf-8''"
    using assms(3) by (auto, code_simp+)
  have "split_once (CHR 0x27) (charset @ CHR 0x27 # lang @ CHR 0x27 # percent_encode s)
      = Some (charset, lang @ CHR 0x27 # percent_encode s)"
    using c(1) by (simp add: split_once_Some)
  moreover have "split_once (CHR 0x27) (lang @ CHR 0x27 # percent_encode s) = Some (lang, percent_encode s)"
    using assms(2) by (simp add: split_once_Some)
  ultimately show ?thesis using c(2) assms(1) by (simp add: decode_rfc5987_def percent_round_trip)
qed

theorem rfc5987_round_trip_witness:
  "decode_rfc5987 (''UTF-8'' @ CHR 0x27 # ''en'' @ CHR 0x27 # percent_encode ''a b.txt'') = Inr ''a b.txt''"
  by (rule rfc5987_round_trip) (code_simp, simp_all)

end
