(* ===== verification/Http_Request.thy ===== *)
theory Http_Request
  imports Http_Headers
begin

text \<open>
  The request of \<open>encode_get_request\<close> and \<open>encode_identity_get_request\<close>
  (\<open>crates/http-transport/src/policy.rs\<close>): its text is sized first, paid for, and then written.
\<close>

section \<open>Size\<close>

definition fixed_request :: string where
  "fixed_request = ''GET  HTTP/1.1'' @ crlf @ ''Host: '' @ crlf @ ''Accept: */*'' @ crlf @ ''Accept-Encoding: gzip'' @ crlf
     @ ''Connection: close'' @ crlf @ ''User-Agent: into-md/0'' @ crlf @ crlf"

definition FIXED_REQUEST_BYTES :: nat where "FIXED_REQUEST_BYTES = length fixed_request"

definition default_port :: "Url \<Rightarrow> u16 option" where
  "default_port url = (if scheme url = ''http'' then Some 80 else if scheme url = ''https'' then Some 443 else None)"

definition is_ipv6_literal :: "url_crate \<Rightarrow> string \<Rightarrow> bool" where
  "is_ipv6_literal u host = (case ip_parse u host of Some (V6 _) \<Rightarrow> True | _ \<Rightarrow> False)"

definition explicit_port :: "Url \<Rightarrow> u16 \<Rightarrow> u16 option" where
  "explicit_port url standard = (case url_port url of Some p \<Rightarrow> if p \<noteq> standard then Some p else None | None \<Rightarrow> None)"

definition required_bytes :: "url_crate \<Rightarrow> Url \<Rightarrow> string \<Rightarrow> u16 \<Rightarrow> bool \<Rightarrow> nat" where
  "required_bytes u url host standard gzip =
     FIXED_REQUEST_BYTES + length (url_path url)
     + (case query url of Some q \<Rightarrow> length q + 1 | None \<Rightarrow> 0)
     + length host + (if is_ipv6_literal u host then 2 else 0)
     + (case explicit_port url standard of Some p \<Rightarrow> length (show_word p) + 1 | None \<Rightarrow> 0)
     + (if gzip then 0 else 4)"

section \<open>Text\<close>

definition request_line :: "Url \<Rightarrow> string" where
  "request_line url =
     ''GET '' @ url_path url @ (case query url of Some q \<Rightarrow> ''?'' @ q | None \<Rightarrow> []) @ '' HTTP/1.1''"

definition host_line :: "url_crate \<Rightarrow> Url \<Rightarrow> string \<Rightarrow> u16 \<Rightarrow> string" where
  "host_line u url host standard =
     ''Host: '' @ (if is_ipv6_literal u host then ''['' @ host @ '']'' else host)
     @ (case explicit_port url standard of Some p \<Rightarrow> '':'' @ show_word p | None \<Rightarrow> [])"

definition request_text :: "url_crate \<Rightarrow> Url \<Rightarrow> string \<Rightarrow> u16 \<Rightarrow> bool \<Rightarrow> string" where
  "request_text u url host standard gzip =
     request_line url @ crlf @ host_line u url host standard @ crlf @ ''Accept: */*'' @ crlf
     @ (''Accept-Encoding: '' @ (if gzip then ''gzip'' else ''identity'')) @ crlf
     @ ''Connection: close'' @ crlf @ ''User-Agent: into-md/0'' @ crlf @ crlf"

text \<open>
  \<open>reserve_memory\<close> and \<open>grow\<close> are the request's accounting; \<open>spare\<close> is what \<open>with_capacity\<close>
  allocated beyond the request.
\<close>

definition encode_get_request_with_encoding ::
  "url_crate \<Rightarrow> (u64 \<Rightarrow> 'm \<Rightarrow> 'g outcome \<times> 'm) \<Rightarrow> ('g \<Rightarrow> u64 \<Rightarrow> 'm \<Rightarrow> unit outcome \<times> 'm) \<Rightarrow> nat \<Rightarrow> Url \<Rightarrow> string
     \<Rightarrow> bool \<Rightarrow> 'm \<Rightarrow> (string \<times> 'g) fetched \<times> 'm" where
  "encode_get_request_with_encoding u reserve_memory grow_lease spare url host gzip m =
     (if url_path url = [] \<or> list_ex is_ascii_control (url_path url)
         \<or> (case query url of Some q \<Rightarrow> list_ex is_ascii_control q | None \<Rightarrow> False) then (Inl InvalidMessage, m)
      else case default_port url of
        None \<Rightarrow> (Inl InvalidMessage, m)
      | Some standard \<Rightarrow>
          let required = required_bytes u url host standard gzip in
          if required \<ge> 2 ^ 64 \<or> required > MAX_URL_BYTES + FIXED_REQUEST_BYTES + MAX_HOST_BYTES + 8 then
            (Inl ResourceLimit, m)
          else (case reserve_memory (of_nat required) m of
              (Inl e, m1) \<Rightarrow> (Inl (map_context_error e), m1)
            | (Inr g, m1) \<Rightarrow>
                (case (if spare > 0 then grow_lease g (of_nat spare) m1 else (Inr (), m1)) of
                   (Inl e, m2) \<Rightarrow> (Inl (map_context_error e), m2)
                 | (Inr _, m2) \<Rightarrow>
                     let text = request_text u url host standard gzip in
                     if length text \<noteq> required then (Inl ResourceLimit, m2) else (Inr (text, g), m2))))"

section \<open>The size is right and the request cannot be split\<close>

lemma required_is_length: "length (request_text u url host standard gzip) = required_bytes u url host standard gzip"
  by (simp add: request_text_def request_line_def host_line_def required_bytes_def FIXED_REQUEST_BYTES_def fixed_request_def
      crlf_def split: option.split)

definition line_free :: "string \<Rightarrow> bool" where
  "line_free s \<longleftrightarrow> CHR 0x0D \<notin> set s"

lemma split_crlf_line: "line_free l \<Longrightarrow> split_crlf (l @ crlf @ s) = l # split_crlf s"
proof (induction l)
  case (Cons c l)
  obtain d r where dr: "l @ crlf @ s = d # r" by (cases l) (auto simp: crlf_def)
  have "c \<noteq> CHR 0x0D" using Cons.prems by (auto simp: line_free_def)
  then have "split_crlf (c # d # r) = (case split_crlf (d # r) of p # ps \<Rightarrow> (c # p) # ps | [] \<Rightarrow> [[c]])" by simp
  with Cons dr show ?case by (simp add: line_free_def)
qed (simp add: crlf_def)

lemma no_control_line_free: "\<not> list_ex is_ascii_control s \<Longrightarrow> line_free s"
  by (auto simp: line_free_def list_ex_iff is_ascii_control_def)

lemma show_word_line_free: "line_free (show_word p)"
  using show_nat_digits by (force simp: line_free_def show_word_def)

text \<open>
  Claim C25: an encoded request is paid for to the byte and cannot be split. Its length is the size
  reserved for it and within the request bound, and it consists of exactly six lines and the
  final blank one, whatever the path, the query and a host without control characters are; in
  particular the check of the written length never fails.
\<close>

theorem encoded_requests_cannot_be_split:
  assumes "encode_get_request_with_encoding u reserve_memory grow_lease spare url host gzip m = (Inr (req, g), m')"
    and "\<not> list_ex is_ascii_control host"
  shows "\<exists>standard. default_port url = Some standard \<and> length req = required_bytes u url host standard gzip
    \<and> length req \<le> MAX_URL_BYTES + FIXED_REQUEST_BYTES + MAX_HOST_BYTES + 8
    \<and> split_crlf req = [request_line url, host_line u url host standard, ''Accept: */*'',
         ''Accept-Encoding: '' @ (if gzip then ''gzip'' else ''identity''), ''Connection: close'',
         ''User-Agent: into-md/0'', [], []]"
proof -
  obtain standard where d: "default_port url = Some standard" and req: "req = request_text u url host standard gzip"
    and len: "required_bytes u url host standard gzip \<le> MAX_URL_BYTES + FIXED_REQUEST_BYTES + MAX_HOST_BYTES + 8"
    and path: "\<not> list_ex is_ascii_control (url_path url)"
    and q: "\<not> (case query url of Some q \<Rightarrow> list_ex is_ascii_control q | None \<Rightarrow> False)"
    using assms(1)
    by (auto simp: encode_get_request_with_encoding_def Let_def required_is_length
        split: if_split_asm option.split_asm prod.split_asm sum.split_asm)
  have lines: "line_free (request_line url)" "line_free (host_line u url host standard)"
    using no_control_line_free [OF path] no_control_line_free [OF assms(2)] q no_control_line_free show_word_line_free
    by (auto simp: request_line_def host_line_def line_free_def split: option.split option.split_asm)
  have fixed: "line_free ''Accept: */*''" "line_free ''Connection: close''" "line_free ''User-Agent: into-md/0''"
    "line_free (''Accept-Encoding: '' @ (if gzip then ''gzip'' else ''identity''))" "line_free []"
    by (simp_all add: line_free_def)
  have "split_crlf crlf = [[], []]" by (simp add: crlf_def)
  then have "split_crlf req = [request_line url, host_line u url host standard, ''Accept: */*'',
      ''Accept-Encoding: '' @ (if gzip then ''gzip'' else ''identity''), ''Connection: close'', ''User-Agent: into-md/0'', [], []]"
    unfolding req request_text_def
    using split_crlf_line [OF lines(1)] split_crlf_line [OF lines(2)] split_crlf_line [OF fixed(1)]
      split_crlf_line [OF fixed(2)] split_crlf_line [OF fixed(3)] split_crlf_line [OF fixed(4)] by presburger
  with d len req show ?thesis by (simp add: required_is_length)
qed

theorem encoded_requests_cannot_be_split_witness:
  "\<exists>req. length (split_crlf req) = 8 \<and> hd (split_crlf req) = ''GET /a?b HTTP/1.1''"
proof -
  let ?url = "demo_url\<lparr>url_path := ''/a'', query := Some ''b''\<rparr>"
  have ports: "default_port ?url = Some 443" by (simp add: default_port_def demo_url_def)
  have ctl: "\<not> list_ex is_ascii_control ''example.org''" "\<not> list_ex is_ascii_control ''/a''" "\<not> list_ex is_ascii_control ''b''"
    by (simp_all add: is_ascii_control_def)
  have size: "required_bytes demo_crate ?url ''example.org'' 443 True \<le> 200"
    by (simp add: required_bytes_def FIXED_REQUEST_BYTES_def fixed_request_def crlf_def demo_url_def explicit_port_def
        is_ipv6_literal_def demo_crate_def)
  have "encode_get_request_with_encoding demo_crate (\<lambda>n m. (Inr (), m + unat n)) (\<lambda>_ n m. (Inr (), m + unat n)) 0 ?url
      ''example.org'' True 0 = (Inr (request_text demo_crate ?url ''example.org'' 443 True, ()),
      unat (of_nat (required_bytes demo_crate ?url ''example.org'' 443 True) :: u64))"
    using size ctl ports unfolding encode_get_request_with_encoding_def
    by (simp add: Let_def required_is_length MAX_URL_BYTES_def FIXED_REQUEST_BYTES_def)
  from encoded_requests_cannot_be_split [OF this ctl(1)] show ?thesis
    by (intro exI [of _ "request_text demo_crate ?url ''example.org'' 443 True"]) (auto simp: request_line_def demo_url_def)
qed

end
