(* ===== verification/Metering.thy ===== *)
theory Metering
  imports Accounting
begin

text \<open>
  The interface every component that buffers data under a budget relies on: a lease that grows by
  an exact number of bytes or refuses, and then holds what it held. The provider is the
  memory reservation of \<open>Execution\<close>; clients prove their bounds once, against this contract.
\<close>

locale metered =
  fixes grow_lease :: "u64 \<Rightarrow> 'm \<Rightarrow> unit outcome \<times> 'm" and held :: "'m \<Rightarrow> nat"
  assumes grow_ok: "grow_lease n m = (Inr u, m') \<Longrightarrow> held m' = held m + unat n"
    and grow_refused: "grow_lease n m = (Inl e, m') \<Longrightarrow> held m' = held m"
begin

lemma grow_monotone: "grow_lease n m = (r, m') \<Longrightarrow> held m \<le> held m'"
  by (cases r) (auto dest: grow_ok grow_refused)

lemma grow_exact: "grow_lease n m = (r, m') \<Longrightarrow> held m' = held m + (case r of Inl _ \<Rightarrow> 0 | Inr _ \<Rightarrow> unat n)"
  by (cases r) (auto dest: grow_ok grow_refused)

end

definition guard_bytes :: "nat \<Rightarrow> world \<Rightarrow> nat" where
  "guard_bytes i w = (case kv_get (reservations w) i of Some r \<Rightarrow> unat (bytes r) | None \<Rightarrow> 0)"

lemma guard_bytes_upd_shared [simp]: "guard_bytes i (upd_shared c f w) = guard_bytes i w"
  by (simp add: guard_bytes_def upd_shared_def)

interpretation reservation: metered "grow i" "guard_bytes i" for i
proof
  fix n w u w'
  assume "grow i n w = (Inr u, w')"
  from grow_cases [OF this] show "guard_bytes i w' = guard_bytes i w + unat n"
    by (auto simp: guard_bytes_def resize_def dest: checked_add_unat)
next
  fix n w e w'
  assume "grow i n w = (Inl e, w')"
  from grow_cases [OF this] show "guard_bytes i w' = guard_bytes i w" by auto
qed

end
