(* ===== verification/Http_Body.thy ===== *)
theory Http_Body
  imports Metering Http_Headers
begin

text \<open>
  Response bodies of \<open>crates/http-transport/src/body.rs\<close>: the metered chain of 8 KiB nodes, the
  wire reader with its byte budget, the chunked transfer decoder and the body loops of
  \<open>read_response\<close>. A connection is the list of what its reads will meet; the end of the list is
  the end of the stream.
\<close>

section \<open>Reading\<close>

datatype io_event = IoData string | IoRetry | IoHalt TransportErrorKind | IoBroken

text \<open>
  \<open>read_checked\<close> into a buffer of \<open>n\<close> bytes: \<open>IoHalt\<close> is a failed check of the request before a
  read, \<open>IoRetry\<close> a retryable failure, \<open>IoBroken\<close> any other.
\<close>

fun read_conn :: "nat \<Rightarrow> io_event list \<Rightarrow> string fetched \<times> io_event list" where
  "read_conn n [] = (Inr [], [])"
| "read_conn n (IoHalt k # es) = (Inl k, es)"
| "read_conn n (IoRetry # es) = read_conn n es"
| "read_conn n (IoBroken # es) = (Inl Connect, es)"
| "read_conn n (IoData d # es) = (Inr (take n d), if length d \<le> n then es else IoData (drop n d) # es)"

record wire =
  prefetched :: string
  conn :: "io_event list"
  consumed :: nat

text \<open>\<open>PrefixedReader\<close>: what was read with the head first; each read is preceded by a check.\<close>

definition read_prefixed :: "nat \<Rightarrow> wire \<Rightarrow> string fetched \<times> wire" where
  "read_prefixed n s =
     (if take n (prefetched s) \<noteq> [] then
        (case conn s of
           IoHalt k # es \<Rightarrow> (Inl k, s\<lparr>conn := es\<rparr>)
         | _ \<Rightarrow> (Inr (take n (prefetched s)), s\<lparr>prefetched := drop n (prefetched s)\<rparr>))
      else (case read_conn n (conn s) of (r, es) \<Rightarrow> (r, s\<lparr>conn := es\<rparr>)))"

definition read_wire :: "nat \<Rightarrow> nat \<Rightarrow> wire \<Rightarrow> string fetched \<times> wire" where
  "read_wire limit n s =
     (if prefetched s \<noteq> [] then read_prefixed n s
      else if consumed s \<ge> limit then (Inl TransportErrorKind.ResourceLimit, s)
      else (case read_prefixed (min n (limit - consumed s)) s of
          (Inl k, s') \<Rightarrow> (Inl k, s')
        | (Inr d, s') \<Rightarrow>
            if 2 ^ 64 \<le> consumed s' + length d then (Inl TransportErrorKind.ResourceLimit, s')
            else (Inr d, s'\<lparr>consumed := consumed s' + length d\<rparr>)))"

text \<open>A line of at most \<open>k\<close> more bytes, its CRLF included and then dropped.\<close>

fun crlf_line :: "nat \<Rightarrow> nat \<Rightarrow> string \<Rightarrow> wire \<Rightarrow> string fetched \<times> wire" where
  "crlf_line limit 0 line s = (Inl TransportErrorKind.ResourceLimit, s)"
| "crlf_line limit (Suc k) line s =
     (case read_wire limit 1 s of
        (Inl e, s') \<Rightarrow> (Inl e, s')
      | (Inr d, s') \<Rightarrow>
          if d = [] then (Inl InvalidMessage, s')
          else if strip_suffix crlf (line @ d) \<noteq> None then (Inr (the (strip_suffix crlf (line @ d))), s')
          else crlf_line limit k (line @ d) s')"

definition read_crlf_line :: "nat \<Rightarrow> nat \<Rightarrow> wire \<Rightarrow> string fetched \<times> wire" where
  "read_crlf_line limit wire_limit s =
     (if limit > 32 then (Inl TransportErrorKind.ResourceLimit, s) else crlf_line wire_limit limit [] s)"

section \<open>The chunk chain\<close>

definition IO_CHUNK_BYTES :: nat where "IO_CHUNK_BYTES = 8 * 1024"

text \<open>Nodes newest first; of a node's fixed buffer only the used bytes are observable.\<close>

record ChunkChain =
  chunk_nodes :: "string list"
  chain_len :: nat
  reserved_bytes :: u64

definition empty_chain :: ChunkChain where
  "empty_chain = \<lparr>chunk_nodes = [], chain_len = 0, reserved_bytes = 0\<rparr>"

function pieces :: "nat \<Rightarrow> string \<Rightarrow> string list" where
  "pieces n s = (if s = [] \<or> n = 0 then [] else take n s # pieces n (drop n s))"
  by pat_completeness auto
termination by (relation "measure (\<lambda>(n, s). length s)") auto

declare pieces.simps [simp del]

text \<open>One part: charge a node, then link it. The lease grows through \<open>grow_lease\<close>.\<close>

fun push_parts ::
  "(u64 \<Rightarrow> 'm \<Rightarrow> unit outcome \<times> 'm) \<Rightarrow> u64 \<Rightarrow> string list \<Rightarrow> ChunkChain \<Rightarrow> 'm \<Rightarrow> unit fetched \<times> ChunkChain \<times> 'm" where
  "push_parts grow_lease node_bytes [] c m = (Inr (), c, m)"
| "push_parts grow_lease node_bytes (p # ps) c m =
     (case grow_lease node_bytes m of
        (Inl e, m') \<Rightarrow> (Inl (map_context_error e), c, m')
      | (Inr _, m') \<Rightarrow>
          (case checked_add (reserved_bytes c) node_bytes of
             None \<Rightarrow> (Inl TransportErrorKind.ResourceLimit, c, m')
           | Some r \<Rightarrow>
               push_parts grow_lease node_bytes ps (c\<lparr>reserved_bytes := r, chunk_nodes := p # chunk_nodes c\<rparr>) m'))"

text \<open>Fill the newest node's free space before linking new ones.\<close>

definition coalesce :: "string \<Rightarrow> ChunkChain \<Rightarrow> ChunkChain \<times> string" where
  "coalesce bs c =
     (case chunk_nodes c of
        [] \<Rightarrow> (c, bs)
      | h # t \<Rightarrow>
          let space = IO_CHUNK_BYTES - length h in
          if bs \<noteq> [] \<and> space > 0 then
            (c\<lparr>chunk_nodes := (h @ take (min (length bs) space) bs) # t\<rparr>, drop (min (length bs) space) bs)
          else (c, bs))"

definition push ::
  "(u64 \<Rightarrow> 'm \<Rightarrow> unit outcome \<times> 'm) \<Rightarrow> u64 \<Rightarrow> string \<Rightarrow> ChunkChain \<Rightarrow> 'm \<Rightarrow> unit fetched \<times> ChunkChain \<times> 'm" where
  "push grow_lease node_bytes bs c m =
     (if 2 ^ 64 \<le> chain_len c + length bs then (Inl TransportErrorKind.ResourceLimit, c, m)
      else (case coalesce bs c of (c1, remaining) \<Rightarrow>
        (case push_parts grow_lease node_bytes (pieces IO_CHUNK_BYTES remaining) c1 m of
           (Inl e, c2, m') \<Rightarrow> (Inl e, c2, m')
         | (Inr _, c2, m') \<Rightarrow> (Inr (), c2\<lparr>chain_len := chain_len c + length bs\<rparr>, m'))))"

fun copy_nodes :: "string list \<Rightarrow> nat \<Rightarrow> string \<Rightarrow> string fetched" where
  "copy_nodes [] offset out = (if offset = 0 then Inr out else Inl TransportErrorKind.ResourceLimit)"
| "copy_nodes (h # t) offset out =
     (if offset < length h then Inl TransportErrorKind.ResourceLimit
      else let o' = offset - length h in copy_nodes t o' (take o' out @ h @ drop offset out))"

definition copy_to :: "ChunkChain \<Rightarrow> string \<Rightarrow> string fetched" where
  "copy_to c out =
     (if length out \<noteq> chain_len c then Inl TransportErrorKind.ResourceLimit
      else copy_nodes (chunk_nodes c) (chain_len c) out)"

section \<open>Bodies\<close>

text \<open>The payload of one chunk.\<close>

function (sequential) chunk_data ::
  "(u64 \<Rightarrow> 'm \<Rightarrow> unit outcome \<times> 'm) \<Rightarrow> u64 \<Rightarrow> nat \<Rightarrow> nat \<Rightarrow> wire \<Rightarrow> ChunkChain \<Rightarrow> 'm
     \<Rightarrow> unit fetched \<times> wire \<times> ChunkChain \<times> 'm" where
  "chunk_data grow_lease node_bytes limit remaining s c m =
     (if remaining = 0 then (Inr (), s, c, m)
      else case read_wire limit (min remaining IO_CHUNK_BYTES) s of
        (Inl e, s') \<Rightarrow> (Inl e, s', c, m)
      | (Inr d, s') \<Rightarrow>
          if d = [] then (Inl InvalidMessage, s', c, m)
          else (case push grow_lease node_bytes d c m of
              (Inl e, c', m') \<Rightarrow> (Inl e, s', c', m')
            | (Inr _, c', m') \<Rightarrow> chunk_data grow_lease node_bytes limit (remaining - length d) s' c' m'))"
  by pat_completeness auto
termination
  by (relation "measure (\<lambda>(g, nb, limit, remaining, s, c, m). remaining)") auto

declare chunk_data.simps [simp del]

fun hex_value :: "nat \<Rightarrow> string \<Rightarrow> nat" where
  "hex_value n [] = n"
| "hex_value n (c # s) =
     hex_value (16 * n + (if byte c \<le> 57 then byte c - 48 else if byte c \<le> 70 then byte c - 55 else byte c - 87)) s"

text \<open>\<open>usize::from_str_radix(line, 16)\<close> after the checks on its characters.\<close>

definition chunk_size :: "string \<Rightarrow> nat fetched" where
  "chunk_size line =
     (if line = [] \<or> CHR '';'' \<in> set line \<or> \<not> list_all is_ascii_hexdigit line then Inl InvalidMessage
      else if hex_value 0 line \<ge> 2 ^ 64 then Inl TransportErrorKind.ResourceLimit
      else Inr (hex_value 0 line))"

definition empty_line :: "nat \<Rightarrow> wire \<Rightarrow> unit fetched \<times> wire" where
  "empty_line limit s =
     (case read_crlf_line 2 limit s of
        (Inl e, s') \<Rightarrow> (Inl e, s')
      | (Inr l, s') \<Rightarrow> if l \<noteq> [] then (Inl InvalidMessage, s') else (Inr (), s'))"

text \<open>Bytes still to come, for termination: every line consumes some.\<close>

fun event_bytes :: "io_event \<Rightarrow> string" where
  "event_bytes (IoData d) = d"
| "event_bytes _ = []"

definition input :: "wire \<Rightarrow> string" where
  "input s = prefetched s @ concat (map event_bytes (conn s))"

lemma read_conn_input:
  "read_conn n es = (Inr d, es') \<Longrightarrow> concat (map event_bytes es) = d @ concat (map event_bytes es')"
proof (induction n es rule: read_conn.induct)
  case (5 n b es)
  then show ?case by (auto split: if_split_asm)
qed auto

lemma read_prefixed_input:
  "read_prefixed n s = (Inr d, s') \<Longrightarrow> n > 0 \<or> prefetched s = [] \<Longrightarrow> input s = d @ input s' \<and> consumed s' = consumed s"
  by (auto simp: read_prefixed_def input_def dest!: read_conn_input split: if_split_asm prod.split_asm list.split_asm io_event.split_asm)

lemma read_wire_input:
  assumes "read_wire limit n s = (Inr d, s')" and "n > 0"
  shows "input s = d @ input s'"
  using assms read_prefixed_input [of _ s]
  by (auto simp: read_wire_def input_def split: if_split_asm prod.split_asm sum.split_asm)

lemma crlf_line_input:
  "crlf_line limit k line s = (Inr l, s') \<Longrightarrow> length (input s') < length (input s)"
proof (induction limit k line s rule: crlf_line.induct)
  case (2 limit k line s)
  then obtain d s1 where r: "read_wire limit 1 s = (Inr d, s1)" "d \<noteq> []"
    by (auto split: prod.split_asm sum.split_asm if_split_asm)
  from read_wire_input [OF r(1)] r(2) have less: "length (input s1) < length (input s)" by simp
  show ?case
  proof (cases "strip_suffix crlf (line @ d) = None")
    case True
    with 2(2) r have "crlf_line limit k (line @ d) s1 = (Inr l, s')" by simp
    with 2(1) [OF r(1) [symmetric] refl r(2)] True less show ?thesis by simp
  next
    case False
    with 2(2) r less show ?thesis by auto
  qed
qed simp

lemma read_crlf_line_input:
  "read_crlf_line n limit s = (Inr l, s') \<Longrightarrow> length (input s') < length (input s)"
  by (auto simp: read_crlf_line_def dest: crlf_line_input split: if_split_asm)

lemma empty_line_input:
  "empty_line limit s = (Inr u, s') \<Longrightarrow> length (input s') < length (input s)"
  by (auto simp: empty_line_def dest: read_crlf_line_input split: prod.split_asm sum.split_asm if_split_asm)

lemma chunk_data_input:
  "chunk_data g nb limit remaining s c m = (Inr u, s', c', m') \<Longrightarrow> length (input s') \<le> length (input s)"
proof (induction g nb limit remaining s c m rule: chunk_data.induct)
  case (1 g nb limit remaining s c m)
  show ?case
  proof (cases "remaining = 0")
    case False
    with 1(2) obtain d s1 c1 m1 where r: "read_wire limit (min remaining IO_CHUNK_BYTES) s = (Inr d, s1)" "d \<noteq> []"
      and p: "push g nb d c m = (Inr (), c1, m1)"
      and rec: "chunk_data g nb limit (remaining - length d) s1 c1 m1 = (Inr u, s', c', m')"
      by (auto simp: chunk_data.simps [of g nb limit remaining] split: prod.split_asm sum.split_asm if_split_asm)
    have "length (input s') \<le> length (input s1)"
      using 1(1) [OF False r(1) [symmetric] refl r(2) p [symmetric] refl refl rec] .
    with read_wire_input [OF r(1)] False show ?thesis by (simp add: IO_CHUNK_BYTES_def)
  qed (use 1 in \<open>simp add: chunk_data.simps\<close>)
qed

function (sequential) read_chunks ::
  "(u64 \<Rightarrow> 'm \<Rightarrow> unit outcome \<times> 'm) \<Rightarrow> u64 \<Rightarrow> nat \<Rightarrow> wire \<Rightarrow> ChunkChain \<Rightarrow> 'm
     \<Rightarrow> unit fetched \<times> wire \<times> ChunkChain \<times> 'm" where
  "read_chunks grow_lease node_bytes limit s c m =
     (case read_crlf_line 32 limit s of
        (Inl e, s1) \<Rightarrow> (Inl e, s1, c, m)
      | (Inr line, s1) \<Rightarrow>
          (case chunk_size line of
             Inl e \<Rightarrow> (Inl e, s1, c, m)
           | Inr count \<Rightarrow>
               if count = 0 then (case empty_line limit s1 of (r, s2) \<Rightarrow> (r, s2, c, m))
               else if 2 ^ 64 \<le> chain_len c + count \<or> chain_len c + count > limit then
                 (Inl TransportErrorKind.ResourceLimit, s1, c, m)
               else (case chunk_data grow_lease node_bytes limit count s1 c m of
                   (Inl e, s2, c', m') \<Rightarrow> (Inl e, s2, c', m')
                 | (Inr _, s2, c', m') \<Rightarrow>
                     (case empty_line limit s2 of
                        (Inl e, s3) \<Rightarrow> (Inl e, s3, c', m')
                      | (Inr _, s3) \<Rightarrow> read_chunks grow_lease node_bytes limit s3 c' m'))))"
  by pat_completeness auto
termination
  by (relation "measure (\<lambda>(g, nb, limit, s, c, m). length (input s))")
    (auto dest!: read_crlf_line_input [OF sym] empty_line_input [OF sym] chunk_data_input [OF sym])

declare read_chunks.simps [simp del]

definition read_chunked ::
  "(u64 \<Rightarrow> 'm \<Rightarrow> unit outcome \<times> 'm) \<Rightarrow> u64 \<Rightarrow> string \<Rightarrow> io_event list \<Rightarrow> nat \<Rightarrow> 'm
     \<Rightarrow> unit fetched \<times> wire \<times> ChunkChain \<times> 'm" where
  "read_chunked grow_lease node_bytes initial es limit m =
     (let s = \<lparr>prefetched = initial, conn = es, consumed = length initial\<rparr> in
      if length initial > limit then (Inl TransportErrorKind.ResourceLimit, s, empty_chain, m)
      else read_chunks grow_lease node_bytes limit s empty_chain m)"

end
