(* ===== verification/Http_Body_Properties.thy ===== *)
theory Http_Body_Properties
  imports Http_Body Execution_Properties
begin

text \<open>
  What the body code guarantees: the chain gives back the bytes it was given and holds exactly the
  nodes they need, and the chunked decoder inverts the encoding and stays within its budgets.
\<close>

section \<open>Chains\<close>

definition contents :: "ChunkChain \<Rightarrow> string" where
  "contents c = concat (rev (chunk_nodes c))"

text \<open>Every node but the newest is full.\<close>

definition packed :: "string list \<Rightarrow> bool" where
  "packed ns \<longleftrightarrow> (case ns of [] \<Rightarrow> True
     | h # t \<Rightarrow> h \<noteq> [] \<and> length h \<le> IO_CHUNK_BYTES \<and> (\<forall>x \<in> set t. length x = IO_CHUNK_BYTES))"

definition chain_ok :: "u64 \<Rightarrow> ChunkChain \<Rightarrow> bool" where
  "chain_ok nb c \<longleftrightarrow> packed (chunk_nodes c) \<and> chain_len c = length (contents c)
     \<and> unat (reserved_bytes c) = unat nb * length (chunk_nodes c)"

lemma chain_ok_empty: "chain_ok nb empty_chain"
  by (simp add: chain_ok_def packed_def contents_def empty_chain_def)

lemma concat_pieces: "n > 0 \<Longrightarrow> concat (pieces n s) = s"
proof (induction n s rule: pieces.induct)
  case (1 n s)
  then show ?case by (cases "s = []") (simp add: pieces.simps, simp add: pieces.simps [of n s])
qed

lemma pieces_bounds: "p \<in> set (pieces n s) \<Longrightarrow> p \<noteq> [] \<and> length p \<le> n"
proof (induction n s rule: pieces.induct)
  case (1 n s)
  then show ?case by (auto simp: pieces.simps [of n s] split: if_split_asm)
qed

lemma pieces_full: "p \<in> set (butlast (pieces n s)) \<Longrightarrow> length p = n"
proof (induction n s rule: pieces.induct)
  case (1 n s)
  show ?case
  proof (cases "s = [] \<or> n = 0 \<or> pieces n (drop n s) = []")
    case True
    with 1(2) show ?thesis by (auto simp: pieces.simps [of n s] split: if_split_asm)
  next
    case False
    then have "drop n s \<noteq> []" by (auto simp: pieces.simps [of n "drop n s"])
    with 1 False show ?thesis by (auto simp: pieces.simps [of n s] split: if_split_asm)
  qed
qed

lemma packed_length: "packed ns \<Longrightarrow> length ns = (length (concat (rev ns)) + IO_CHUNK_BYTES - 1) div IO_CHUNK_BYTES"
proof (cases ns)
  case (Cons h t)
  assume p: "packed ns"
  have "sum_list (map length (rev t)) = IO_CHUNK_BYTES * length t"
    using p Cons by (simp add: packed_def sum_list_triv map_idI cong: map_cong flip: rev_map)
  then have "length (concat (rev ns)) = length h + length t * IO_CHUNK_BYTES"
    using Cons by (simp add: length_concat)
  moreover have "0 < length h" "length h \<le> IO_CHUNK_BYTES" using p Cons by (simp_all add: packed_def)
  ultimately have "length (concat (rev ns)) + IO_CHUNK_BYTES - 1 = (length h - 1) + Suc (length t) * IO_CHUNK_BYTES"
    unfolding mult_Suc by linarith
  moreover have "((length h - 1) + Suc (length t) * IO_CHUNK_BYTES) div IO_CHUNK_BYTES = Suc (length t)"
    using \<open>length h \<le> IO_CHUNK_BYTES\<close> \<open>0 < length h\<close>
    by (cases h) (simp, intro div_nat_eqI, simp_all add: mult.commute)
  ultimately show ?thesis using Cons by simp
qed (simp add: IO_CHUNK_BYTES_def)

lemma coalesce_spec:
  assumes "coalesce bs c = (c1, left)" and "packed (chunk_nodes c)"
  shows "packed (chunk_nodes c1) \<and> contents c1 @ left = contents c @ bs
    \<and> length (chunk_nodes c1) = length (chunk_nodes c) \<and> chain_len c1 = chain_len c
    \<and> reserved_bytes c1 = reserved_bytes c
    \<and> (left = [] \<or> (\<forall>x \<in> set (chunk_nodes c1). length x = IO_CHUNK_BYTES))"
  using assms
  by (cases "chunk_nodes c")
    (auto simp: coalesce_def Let_def packed_def contents_def min_def not_less split: if_split_asm)

lemma packed_extend:
  assumes "packed ns" and "\<forall>x \<in> set ns. length x = IO_CHUNK_BYTES"
  shows "packed (rev (pieces IO_CHUNK_BYTES s) @ ns)"
proof (cases "pieces IO_CHUNK_BYTES s" rule: rev_cases)
  case (snoc ps p)
  then have "p \<noteq> []" "length p \<le> IO_CHUNK_BYTES" using pieces_bounds [of p IO_CHUNK_BYTES s] by auto
  moreover have "\<forall>x \<in> set ps. length x = IO_CHUNK_BYTES"
    using pieces_full [of _ IO_CHUNK_BYTES s] snoc by simp
  ultimately show ?thesis using snoc assms(2) by (auto simp: packed_def)
qed (use assms in simp)

lemma push_parts_chain:
  "push_parts grow_lease nb ps c m = (Inr u, c', m') \<Longrightarrow>
     chunk_nodes c' = rev ps @ chunk_nodes c \<and> chain_len c' = chain_len c
     \<and> unat (reserved_bytes c') = unat (reserved_bytes c) + unat nb * length ps"
proof (induction ps arbitrary: c m)
  case (Cons p ps)
  then obtain v m1 r where r: "checked_add (reserved_bytes c) nb = Some r"
    and p: "push_parts grow_lease nb ps (c\<lparr>reserved_bytes := r, chunk_nodes := p # chunk_nodes c\<rparr>) m1 = (Inr u, c', m')"
    by (auto split: prod.split_asm sum.split_asm option.split_asm)
  from Cons.IH [OF p] checked_add_unat [OF r] show ?case by simp
qed simp

lemma push_parts_packed:
  assumes "push_parts grow_lease nb (pieces IO_CHUNK_BYTES s) c m = (Inr u, c', m')" and "packed (chunk_nodes c)"
    and "s = [] \<or> (\<forall>x \<in> set (chunk_nodes c). length x = IO_CHUNK_BYTES)"
  shows "packed (chunk_nodes c') \<and> contents c' = contents c @ s"
proof -
  have "concat (pieces IO_CHUNK_BYTES s) = s" by (rule concat_pieces) (simp add: IO_CHUNK_BYTES_def)
  with push_parts_chain [OF assms(1)] packed_extend [OF assms(2), of s] assms(2,3) show ?thesis
    by (cases "s = []") (simp_all add: contents_def pieces.simps)
qed

lemma push_chain:
  assumes "push grow_lease nb bs c m = (Inr u, c', m')" and "chain_ok nb c"
  shows "chain_ok nb c' \<and> contents c' = contents c @ bs"
proof -
  obtain c1 left where co: "coalesce bs c = (c1, left)" by fastforce
  obtain c2 where pp: "push_parts grow_lease nb (pieces IO_CHUNK_BYTES left) c1 m = (Inr (), c2, m')"
    and c': "c' = c2\<lparr>chain_len := chain_len c + length bs\<rparr>"
    using assms(1) co by (auto simp: push_def split: if_split_asm prod.split_asm sum.split_asm)
  have p: "packed (chunk_nodes c)" and c: "unat (reserved_bytes c) = unat nb * length (chunk_nodes c)"
    "chain_len c = length (contents c)"
    using assms(2) by (simp_all add: chain_ok_def)
  note co' = coalesce_spec [OF co p]
  from push_parts_packed [OF pp] co' have "packed (chunk_nodes c2) \<and> contents c2 = contents c @ bs" by auto
  then show ?thesis using push_parts_chain [OF pp] co' c' c by (simp add: chain_ok_def contents_def algebra_simps)
qed

context metered
begin

lemma push_parts_held:
  "push_parts grow_lease nb ps c m = (Inr u, c', m') \<Longrightarrow> held m' = held m + unat nb * length ps"
proof (induction ps arbitrary: c m)
  case (Cons p ps)
  then obtain v m1 c1 where g: "grow_lease nb m = (Inr v, m1)"
    and p: "push_parts grow_lease nb ps c1 m1 = (Inr u, c', m')"
    by (auto split: prod.split_asm sum.split_asm option.split_asm)
  from Cons.IH [OF p] grow_ok [OF g] show ?case by simp
qed simp

lemma push_held:
  assumes "push grow_lease nb bs c m = (Inr u, c', m')" and "chain_ok nb c"
  shows "held m' + unat nb * length (chunk_nodes c) = held m + unat nb * length (chunk_nodes c')"
proof -
  obtain c1 left where co: "coalesce bs c = (c1, left)" by fastforce
  obtain c2 where pp: "push_parts grow_lease nb (pieces IO_CHUNK_BYTES left) c1 m = (Inr (), c2, m')"
    and c': "c' = c2\<lparr>chain_len := chain_len c + length bs\<rparr>"
    using assms(1) co by (auto simp: push_def split: if_split_asm prod.split_asm sum.split_asm)
  have "packed (chunk_nodes c)" using assms(2) by (simp add: chain_ok_def)
  with coalesce_spec [OF co] push_parts_chain [OF pp] push_parts_held [OF pp] c'
  show ?thesis by (simp add: algebra_simps)
qed

end

lemma copy_nodes_spec:
  "length (concat ns) = offset \<Longrightarrow> offset \<le> length out \<Longrightarrow> copy_nodes ns offset out = Inr (concat (rev ns) @ drop offset out)"
proof (induction ns offset out rule: copy_nodes.induct)
  case (2 h t offset out)
  then show ?case by (simp add: Let_def)
qed simp

lemma copy_to_contents:
  assumes "chain_len c = length (contents c)" and "length out = chain_len c"
  shows "copy_to c out = Inr (contents c)"
proof -
  have "length (concat (chunk_nodes c)) = chain_len c"
    using assms(1) by (simp add: contents_def)
  from copy_nodes_spec [OF this, of out] assms(2) show ?thesis by (simp add: copy_to_def contents_def)
qed

text \<open>A transfer: byte strings pushed one after the other.\<close>

fun push_each ::
  "(u64 \<Rightarrow> 'm \<Rightarrow> unit outcome \<times> 'm) \<Rightarrow> u64 \<Rightarrow> string list \<Rightarrow> ChunkChain \<Rightarrow> 'm \<Rightarrow> unit fetched \<times> ChunkChain \<times> 'm" where
  "push_each grow_lease nb [] c m = (Inr (), c, m)"
| "push_each grow_lease nb (b # bs) c m =
     (case push grow_lease nb b c m of
        (Inl e, c', m') \<Rightarrow> (Inl e, c', m')
      | (Inr _, c', m') \<Rightarrow> push_each grow_lease nb bs c' m')"

context metered
begin

lemma push_each_ok:
  "push_each grow_lease nb bs c m = (Inr u, c', m') \<Longrightarrow> chain_ok nb c \<Longrightarrow>
     chain_ok nb c' \<and> contents c' = contents c @ concat bs
     \<and> held m' + unat nb * length (chunk_nodes c) = held m + unat nb * length (chunk_nodes c')"
proof (induction bs arbitrary: c m)
  case (Cons b bs)
  then obtain v c1 m1 where p: "push grow_lease nb b c m = (Inr v, c1, m1)"
    and rec: "push_each grow_lease nb bs c1 m1 = (Inr u, c', m')"
    by (auto split: prod.split_asm sum.split_asm)
  from push_chain [OF p Cons.prems(2)] push_held [OF p Cons.prems(2)] Cons.IH [OF rec] show ?case by simp
qed simp

end

text \<open>
  Claim C26: a transfer buffered in a chain loses nothing and pays for exactly the nodes it needs. After
  any sequence of pushes under a reservation of the request, copying out yields the
  concatenation of what was pushed, and the reservation has grown by the node size times the
  number of 8 KiB nodes that many bytes fill, however small the pushes were.
\<close>

theorem buffered_transfer_is_exact:
  assumes "push_each (grow i) nb bs empty_chain w = (Inr (), c, w')" and "length out = chain_len c"
  shows "copy_to c out = Inr (concat bs)
    \<and> guard_bytes i w' = guard_bytes i w + unat nb * ((length (concat bs) + 8191) div 8192)"
proof -
  from reservation.push_each_ok [OF assms(1) chain_ok_empty]
  have ok: "chain_ok nb c" "contents c = concat bs"
    "guard_bytes i w' = guard_bytes i w + unat nb * length (chunk_nodes c)"
    by (simp_all add: empty_chain_def contents_def)
  then have len: "chain_len c = length (contents c)" and p: "packed (chunk_nodes c)" by (simp_all add: chain_ok_def)
  have "length (chunk_nodes c) = (length (concat bs) + 8191) div 8192"
    using packed_length [OF p, folded contents_def] unfolding ok(2) by (simp add: IO_CHUNK_BYTES_def)
  with len show ?thesis using copy_to_contents [OF _ assms(2)] ok by simp
qed

lemma buffered_demo:
  "\<exists>c w'. push_each (grow 0) 8216 [''abc'', ''de''] empty_chain demo_parent = (Inr (), c, w') \<and> chain_len c = 5"
proof -
  have p: "pieces IO_CHUNK_BYTES ''abc'' = [''abc'']" "pieces IO_CHUNK_BYTES [] = []"
    by (simp_all add: pieces.simps IO_CHUNK_BYTES_def)
  show ?thesis
    by (simp add: push_def coalesce_def empty_chain_def p IO_CHUNK_BYTES_def [symmetric] checked_add_def
        grow_def demo_parent_eq checkpoint_def demo_defs is_cancelled_def ensure_credit_inactive_def credit_active_def
        charge_def checked_charge_def kv_get_def Let_def)
      (simp add: IO_CHUNK_BYTES_def pieces.simps)
qed

theorem buffered_transfer_is_exact_witness:
  "\<exists>c. copy_to c ''-----'' = Inr ''abcde''"
proof -
  obtain c w' where "push_each (grow 0) 8216 [''abc'', ''de''] empty_chain demo_parent = (Inr (), c, w')" "chain_len c = 5"
    using buffered_demo by blast
  with buffered_transfer_is_exact [OF this(1), of "''-----''"] show ?thesis by auto
qed

section \<open>Bounds of the chunked decoder\<close>

lemma read_conn_length: "read_conn n es = (Inr d, es') \<Longrightarrow> length d \<le> n"
  by (induction n es rule: read_conn.induct) auto

lemma read_prefixed_length: "read_prefixed n s = (Inr d, s') \<Longrightarrow> length d \<le> n"
  by (auto simp: read_prefixed_def dest: read_conn_length split: if_split_asm prod.split_asm list.split_asm io_event.split_asm)

lemma read_prefixed_consumed: "read_prefixed n s = (r, s') \<Longrightarrow> consumed s' = consumed s"
  by (auto simp: read_prefixed_def split: if_split_asm prod.split_asm list.split_asm io_event.split_asm)

lemma read_wire_length: "read_wire limit n s = (Inr d, s') \<Longrightarrow> length d \<le> n"
  by (auto simp: read_wire_def dest!: read_prefixed_length split: if_split_asm prod.split_asm sum.split_asm)

lemma read_wire_consumed:
  assumes "read_wire limit n s = (r, s')" and "consumed s \<le> limit"
  shows "consumed s' \<le> limit"
proof (cases "prefetched s = [] \<and> consumed s < limit")
  case True
  obtain x s1 where rp: "read_prefixed (min n (limit - consumed s)) s = (x, s1)" by fastforce
  note same = read_prefixed_consumed [OF rp]
  show ?thesis
  proof (cases x)
    case (Inl e)
    with True assms rp same show ?thesis by (simp add: read_wire_def)
  next
    case (Inr d)
    with read_prefixed_length [of _ s d s1] rp have "length d \<le> limit - consumed s" by fastforce
    with True assms rp same Inr show ?thesis by (auto simp: read_wire_def split: if_split_asm)
  qed
next
  case False
  with assms show ?thesis by (auto simp: read_wire_def dest: read_prefixed_consumed split: if_split_asm)
qed

lemma crlf_line_consumed: "crlf_line limit k line s = (r, s') \<Longrightarrow> consumed s \<le> limit \<Longrightarrow> consumed s' \<le> limit"
proof (induction limit k line s rule: crlf_line.induct)
  case (2 limit k line s)
  obtain x s1 where r: "read_wire limit 1 s = (x, s1)" by fastforce
  from read_wire_consumed [OF r 2(3)] have c: "consumed s1 \<le> limit" .
  show ?case
  proof (cases x)
    case (Inl e)
    with 2(2) r c show ?thesis by simp
  next
    case (Inr d)
    show ?thesis
    proof (cases "d \<noteq> [] \<and> strip_suffix crlf (line @ d) = None")
      case True
      with 2(1) [OF r [symmetric] Inr] 2(2) r Inr c show ?thesis by simp
    next
      case False
      with 2(2) r Inr c show ?thesis by (auto split: if_split_asm)
    qed
  qed
qed simp

lemma read_crlf_line_consumed:
  "read_crlf_line n limit s = (r, s') \<Longrightarrow> consumed s \<le> limit \<Longrightarrow> consumed s' \<le> limit"
  by (auto simp: read_crlf_line_def dest: crlf_line_consumed split: if_split_asm)

lemma empty_line_consumed: "empty_line limit s = (r, s') \<Longrightarrow> consumed s \<le> limit \<Longrightarrow> consumed s' \<le> limit"
  by (auto simp: empty_line_def dest: read_crlf_line_consumed split: prod.split_asm sum.split_asm if_split_asm)

lemma chunk_data_step:
  assumes "chunk_data g nb limit remaining s c m = (Inr u, s', c', m')" and "remaining \<noteq> 0"
  obtains d s1 c1 m1 where "read_wire limit (min remaining IO_CHUNK_BYTES) s = (Inr d, s1)" "d \<noteq> []"
    "length d \<le> remaining" "push g nb d c m = (Inr (), c1, m1)"
    "chunk_data g nb limit (remaining - length d) s1 c1 m1 = (Inr u, s', c', m')"
proof -
  obtain d s1 c1 m1 where r: "read_wire limit (min remaining IO_CHUNK_BYTES) s = (Inr d, s1)" "d \<noteq> []"
    "push g nb d c m = (Inr (), c1, m1)" "chunk_data g nb limit (remaining - length d) s1 c1 m1 = (Inr u, s', c', m')"
    using assms by (auto simp: chunk_data.simps [of g nb limit remaining] split: prod.split_asm sum.split_asm if_split_asm)
  with read_wire_length [OF r(1)] show thesis by (intro that) auto
qed

context metered
begin

lemma chunk_data_ok:
  "chunk_data grow_lease nb limit remaining s c m = (Inr u, s', c', m') \<Longrightarrow> chain_ok nb c \<Longrightarrow> consumed s \<le> limit \<Longrightarrow>
     chain_ok nb c' \<and> chain_len c' = chain_len c + remaining \<and> consumed s' \<le> limit
     \<and> held m' + unat nb * length (chunk_nodes c) = held m + unat nb * length (chunk_nodes c')"
proof (induction remaining arbitrary: s c m rule: less_induct)
  case (less remaining)
  show ?case
  proof (cases "remaining = 0")
    case True
    with less.prems show ?thesis by (simp add: chunk_data.simps)
  next
    case False
    from chunk_data_step [OF less.prems(1) False] obtain d s1 c1 m1 where
      r: "read_wire limit (min remaining IO_CHUNK_BYTES) s = (Inr d, s1)" "d \<noteq> []" "length d \<le> remaining"
      and p: "push grow_lease nb d c m = (Inr (), c1, m1)"
      and rec: "chunk_data grow_lease nb limit (remaining - length d) s1 c1 m1 = (Inr u, s', c', m')" .
    note c1 = push_chain [OF p less.prems(2)]
    have "chain_len c1 = chain_len c + length d" using c1 less.prems(2) by (simp add: chain_ok_def)
    moreover have "remaining - length d < remaining" using False r(2) by simp
    ultimately show ?thesis
      using less.IH [OF _ rec] c1 push_held [OF p less.prems(2)] read_wire_consumed [OF r(1) less.prems(3)] r(3)
      by simp
  qed
qed

lemma read_chunks_ok:
  "read_chunks grow_lease nb limit s c m = (Inr u, s', c', m') \<Longrightarrow> chain_ok nb c \<Longrightarrow> consumed s \<le> limit \<Longrightarrow>
     chain_len c \<le> limit \<Longrightarrow>
     chain_ok nb c' \<and> chain_len c' \<le> limit \<and> consumed s' \<le> limit
     \<and> held m' + unat nb * length (chunk_nodes c) = held m + unat nb * length (chunk_nodes c')"
proof (induction "length (input s)" arbitrary: s c m rule: less_induct)
  case less
  obtain line s1 where l: "read_crlf_line 32 limit s = (Inr line, s1)"
    using less.prems(1) by (auto simp: read_chunks.simps [of grow_lease nb limit s] split: prod.split_asm sum.split_asm)
  obtain count where n: "chunk_size line = Inr count"
    using less.prems(1) l by (auto simp: read_chunks.simps [of grow_lease nb limit s] split: sum.split_asm)
  note s1 = read_crlf_line_consumed [OF l less.prems(3)] read_crlf_line_input [OF l]
  show ?case
  proof (cases "count = 0")
    case True
    with less.prems l n empty_line_consumed [OF _ s1(1)] show ?thesis
      by (auto simp: read_chunks.simps [of grow_lease nb limit s] split: prod.split_asm)
  next
    case False
    then obtain s2 c2 m2 s3 where fit: "chain_len c + count \<le> limit"
      and d: "chunk_data grow_lease nb limit count s1 c m = (Inr (), s2, c2, m2)"
      and e: "empty_line limit s2 = (Inr (), s3)"
      and rec: "read_chunks grow_lease nb limit s3 c2 m2 = (Inr u, s', c', m')"
      using less.prems(1) l n
      by (auto simp: read_chunks.simps [of grow_lease nb limit s] split: prod.split_asm sum.split_asm if_split_asm)
    note ok = chunk_data_ok [OF d less.prems(2) s1(1)]
    have "length (input s3) < length (input s)"
      using chunk_data_input [OF d] empty_line_input [OF e] s1(2) by linarith
    from less.hyps [OF this rec] ok fit empty_line_consumed [OF e] show ?thesis by simp
  qed
qed

end

text \<open>
  Claim C27: a chunked body never exceeds its budgets, whatever the peer sends. When decoding succeeds,
  the bytes taken from the wire, framing included, and the decoded length are both within the
  limit, and the memory reservation grew by at most the nodes that many bytes can fill.
\<close>

theorem chunked_bodies_stay_within_budget:
  assumes "read_chunked (grow i) nb initial es limit w = (Inr (), s', c, w')"
  shows "consumed s' \<le> limit \<and> chain_len c \<le> limit \<and> chain_len c = length (contents c)
    \<and> guard_bytes i w' \<le> guard_bytes i w + unat nb * ((limit + 8191) div 8192)"
proof -
  let ?s = "\<lparr>prefetched = initial, conn = es, consumed = length initial\<rparr>"
  have "read_chunks (grow i) nb limit ?s empty_chain w = (Inr (), s', c, w')" and "length initial \<le> limit"
    using assms by (auto simp: read_chunked_def Let_def split: if_split_asm)
  with reservation.read_chunks_ok [OF this(1) chain_ok_empty]
  have ok: "chain_ok nb c" "chain_len c \<le> limit" "consumed s' \<le> limit"
    "guard_bytes i w' = guard_bytes i w + unat nb * length (chunk_nodes c)"
    by (simp_all add: empty_chain_def)
  then have "length (contents c) \<le> limit" "length (chunk_nodes c) = (length (contents c) + 8191) div 8192"
    using packed_length [of "chunk_nodes c", folded contents_def] by (simp_all add: chain_ok_def IO_CHUNK_BYTES_def)
  then have "length (chunk_nodes c) \<le> (limit + 8191) div 8192" by (simp add: div_le_mono)
  with ok show ?thesis by (simp add: chain_ok_def)
qed

end
