(* ===== verification/Http_Round_Trip.thy ===== *)
theory Http_Round_Trip
  imports Http_Body_Properties
begin

text \<open>
  The chunked decoder inverts the chunked encoding, however the network cuts the bytes into reads:
  the other half of \<open>Http_Body_Properties\<close>.
\<close>

section \<open>Connections that deliver\<close>

text \<open>Only data and retries; and everything still to come fits the wire limit.\<close>

definition delivers :: "wire \<Rightarrow> bool" where
  "delivers s \<longleftrightarrow> list_all (\<lambda>e. case e of IoData d \<Rightarrow> d \<noteq> [] | IoRetry \<Rightarrow> True | _ \<Rightarrow> False) (conn s)"

definition affordable :: "nat \<Rightarrow> wire \<Rightarrow> bool" where
  "affordable limit s \<longleftrightarrow> consumed s + length (concat (map event_bytes (conn s))) \<le> limit \<and> limit < 2 ^ 64"

lemma read_conn_delivers:
  "list_all (\<lambda>e. case e of IoData d \<Rightarrow> d \<noteq> [] | IoRetry \<Rightarrow> True | _ \<Rightarrow> False) es \<Longrightarrow> n > 0 \<Longrightarrow>
     concat (map event_bytes es) \<noteq> [] \<Longrightarrow>
     \<exists>d es'. read_conn n es = (Inr d, es') \<and> d \<noteq> []
       \<and> list_all (\<lambda>e. case e of IoData d \<Rightarrow> d \<noteq> [] | IoRetry \<Rightarrow> True | _ \<Rightarrow> False) es'"
  by (induction n es rule: read_conn.induct) auto

lemma read_wire_delivers:
  assumes "delivers s" and "affordable limit s" and "n > 0" and "input s \<noteq> []"
  obtains d s' where "read_wire limit n s = (Inr d, s')" "d \<noteq> []" "length d \<le> n" "input s = d @ input s'"
    "delivers s'" "affordable limit s'"
proof (cases "prefetched s = []")
  case False
  let ?s' = "s\<lparr>prefetched := drop n (prefetched s)\<rparr>"
  have "\<not> (\<exists>k es. conn s = IoHalt k # es)" using assms(1) by (auto simp: delivers_def)
  then have r: "read_wire limit n s = (Inr (take n (prefetched s)), ?s')"
    using False assms(3) by (auto simp: read_wire_def read_prefixed_def split: list.split io_event.split)
  show thesis
    by (rule that [OF r]) (use False assms in \<open>auto simp: input_def delivers_def affordable_def\<close>)
next
  case True
  let ?n = "min n (limit - consumed s)"
  have bs: "concat (map event_bytes (conn s)) \<noteq> []" using assms(4) True by (simp add: input_def)
  then have "consumed s < limit" using assms(2) unfolding affordable_def length_0_conv [symmetric] by linarith
  then have n: "?n > 0" using assms(3) by simp
  obtain d es where r: "read_conn ?n (conn s) = (Inr d, es)" "d \<noteq> []"
    and es: "list_all (\<lambda>e. case e of IoData d \<Rightarrow> d \<noteq> [] | IoRetry \<Rightarrow> True | _ \<Rightarrow> False) es"
    using read_conn_delivers [OF _ n bs] assms(1) by (auto simp: delivers_def)
  from read_conn_length [OF r(1)] have len: "length d \<le> n" "consumed s + length d \<le> limit"
    using \<open>consumed s < limit\<close> by auto
  let ?s' = "s\<lparr>conn := es, consumed := consumed s + length d\<rparr>"
  have "\<not> 2 ^ 64 \<le> consumed s + length d" using len assms(2) by (simp add: affordable_def)
  then have w: "read_wire limit n s = (Inr d, ?s')"
    using True r(1) \<open>consumed s < limit\<close> by (simp add: read_wire_def read_prefixed_def)
  show thesis
    by (rule that [OF w r(2) len(1)])
      (use True es read_conn_input [OF r(1)] assms in \<open>auto simp: input_def delivers_def affordable_def\<close>)
qed

lemma crlf_line_delivers:
  "delivers s \<Longrightarrow> affordable limit s \<Longrightarrow> input s = l @ crlf @ t \<Longrightarrow> CHR 0x0A \<notin> set (acc @ l) \<Longrightarrow> length l + 2 \<le> k \<Longrightarrow>
     \<exists>s'. crlf_line limit k acc s = (Inr (acc @ l), s') \<and> input s' = t \<and> delivers s' \<and> affordable limit s'"
proof (induction l arbitrary: s acc k)
  case Nil
  obtain k' where k: "k = Suc (Suc k')" using Nil.prems(5) by (cases k; cases "k - 1") auto
  obtain d s1 where r1: "read_wire limit 1 s = (Inr d, s1)" "d \<noteq> []" "length d \<le> 1" "input s = d @ input s1"
    "delivers s1" "affordable limit s1"
    using read_wire_delivers [OF Nil.prems(1,2), of 1] Nil.prems(3) by (auto simp: crlf_def)
  then have d: "d = [CHR 0x0D]" "input s1 = CHR 0x0A # t"
    using Nil.prems(3) by (cases d; simp add: crlf_def)+
  obtain d' s2 where r2: "read_wire limit 1 s1 = (Inr d', s2)" "d' \<noteq> []" "length d' \<le> 1" "input s1 = d' @ input s2"
    "delivers s2" "affordable limit s2"
    using read_wire_delivers [OF r1(5,6), of 1] d(2) by auto
  then have d': "d' = [CHR 0x0A]" "input s2 = t" using d(2) by (cases d'; simp)+
  have "strip_suffix crlf (acc @ [CHR 0x0D]) = None"
    using strip_suffix_Some [of crlf "acc @ [CHR 0x0D]"] by (cases "strip_suffix crlf (acc @ [CHR 0x0D])") (auto simp: crlf_def)
  moreover have "strip_suffix crlf (acc @ [CHR 0x0D] @ [CHR 0x0A]) = Some acc"
    by (subst strip_suffix_Some) (simp add: crlf_def)
  ultimately show ?case using r1 r2 d d' k by simp
next
  case (Cons c l)
  obtain k' where k: "k = Suc k'" "length l + 2 \<le> k'" using Cons.prems(5) by (cases k) auto
  obtain d s1 where r1: "read_wire limit 1 s = (Inr d, s1)" "d \<noteq> []" "length d \<le> 1" "input s = d @ input s1"
    "delivers s1" "affordable limit s1"
    using read_wire_delivers [OF Cons.prems(1,2), of 1] Cons.prems(3) by auto
  then have d: "d = [c]" "input s1 = l @ crlf @ t" using Cons.prems(3) by (cases d; simp)+
  have "strip_suffix crlf (acc @ [c]) = None"
    using strip_suffix_Some [of crlf "acc @ [c]"] Cons.prems(4)
    by (cases "strip_suffix crlf (acc @ [c])") (auto simp: crlf_def)
  moreover obtain s' where "crlf_line limit k' (acc @ [c]) s1 = (Inr ((acc @ [c]) @ l), s')" "input s' = t"
    "delivers s'" "affordable limit s'"
    using Cons.IH [OF r1(5,6) d(2), of "acc @ [c]" k'] Cons.prems(4) k by auto
  ultimately show ?case using r1(1,2) d(1) k(1) by simp
qed

section \<open>Chains under a generous lease\<close>

lemma packed_nodes_le: "packed ns \<Longrightarrow> length ns \<le> length (concat ns)"
proof (cases ns)
  case (Cons h t)
  assume "packed ns"
  then have "\<forall>x \<in> set ns. 1 \<le> length x" using Cons by (auto simp: packed_def IO_CHUNK_BYTES_def Suc_le_eq)
  then have "sum_list (map (\<lambda>_. 1) ns) \<le> sum_list (map length ns)" by (intro sum_list_mono) auto
  then show ?thesis by (simp add: length_concat sum_list_triv)
qed simp

lemma pieces_le: "length (pieces n s) \<le> length s"
proof (induction n s rule: pieces.induct)
  case (1 n s)
  show ?case
  proof (cases "s = [] \<or> n = 0")
    case True
    then show ?thesis by (auto simp: pieces.simps)
  next
    case False
    then have "length (pieces n (drop n s)) \<le> length s - n" "length s > 0" using 1 by auto
    with False show ?thesis by (simp add: pieces.simps [of n s]) (cases s; simp)
  qed
qed

lemma push_parts_granted:
  assumes "\<And>m. fst (grow_lease nb m) = Inr ()"
  shows "unat (reserved_bytes c) + unat nb * length ps < 2 ^ 64 \<Longrightarrow>
    \<exists>c' m'. push_parts grow_lease nb ps c m = (Inr (), c', m')"
proof (induction ps arbitrary: c m)
  case (Cons p ps)
  obtain m1 where g: "grow_lease nb m = (Inr (), m1)" using assms [of m] by (cases "grow_lease nb m") auto
  obtain r where r: "checked_add (reserved_bytes c) nb = Some r"
    using Cons.prems by (simp add: checked_add_def)
  from Cons.prems checked_add_unat [OF r] have "unat r + unat nb * length ps < 2 ^ 64" by simp
  with Cons.IH [of "c\<lparr>reserved_bytes := r, chunk_nodes := p # chunk_nodes c\<rparr>" m1] g r show ?case by auto
qed simp

lemma push_granted:
  assumes "\<And>m. fst (grow_lease nb m) = Inr ()" and ok: "chain_ok nb c"
    and small: "chain_len c + length bs < 2 ^ 64" "unat nb * (chain_len c + length bs) < 2 ^ 64"
  shows "\<exists>c' m'. push grow_lease nb bs c m = (Inr (), c', m')"
proof -
  obtain c1 left where co: "coalesce bs c = (c1, left)" by fastforce
  have p: "packed (chunk_nodes c)" and c: "unat (reserved_bytes c) = unat nb * length (chunk_nodes c)"
    "chain_len c = length (contents c)"
    using ok by (simp_all add: chain_ok_def)
  note co' = coalesce_spec [OF co p]
  have "length (chunk_nodes c1) \<le> length (contents c1)"
    using packed_nodes_le [of "chunk_nodes c1"] co' by (simp add: contents_def)
  moreover have "length (contents c1) + length left = chain_len c + length bs"
    using arg_cong [OF conjunct1 [OF conjunct2 [OF co']], of length] c(2) by simp
  ultimately have "length (chunk_nodes c1) + length (pieces IO_CHUNK_BYTES left) \<le> chain_len c + length bs"
    using pieces_le [of IO_CHUNK_BYTES left] by linarith
  then have "unat nb * (length (chunk_nodes c1) + length (pieces IO_CHUNK_BYTES left)) < 2 ^ 64"
    using small(2) by (meson le_less_trans mult_le_mono2)
  then have "unat (reserved_bytes c1) + unat nb * length (pieces IO_CHUNK_BYTES left) < 2 ^ 64"
    using co' c(1) by (simp add: algebra_simps)
  from push_parts_granted [where grow_lease = grow_lease and m = m, OF assms(1) this] obtain c2 m2
    where "push_parts grow_lease nb (pieces IO_CHUNK_BYTES left) c1 m = (Inr (), c2, m2)" by blast
  then show ?thesis using co small(1) by (simp add: push_def)
qed

lemma chunk_data_delivers:
  assumes granted: "\<And>m. fst (grow_lease nb m) = Inr ()"
  shows "delivers s \<Longrightarrow> affordable limit s \<Longrightarrow> input s = p @ t \<Longrightarrow> chain_ok nb c \<Longrightarrow>
    length (contents c @ p) \<le> limit \<Longrightarrow> unat nb * limit < 2 ^ 64 \<Longrightarrow>
    \<exists>s' c' m'. chunk_data grow_lease nb limit (length p) s c m = (Inr (), s', c', m') \<and> input s' = t
      \<and> delivers s' \<and> affordable limit s' \<and> chain_ok nb c' \<and> contents c' = contents c @ p"
proof (induction "length p" arbitrary: p s c m rule: less_induct)
  case less
  show ?case
  proof (cases "p = []")
    case True
    with less.prems show ?thesis by (simp add: chunk_data.simps)
  next
    case False
    then have n: "min (length p) IO_CHUNK_BYTES > 0" and i: "input s \<noteq> []"
      using less.prems(3) by (simp_all add: IO_CHUNK_BYTES_def)
    obtain d s1 where r: "read_wire limit (min (length p) IO_CHUNK_BYTES) s = (Inr d, s1)" "d \<noteq> []"
      "length d \<le> min (length p) IO_CHUNK_BYTES" "input s = d @ input s1" "delivers s1" "affordable limit s1"
      by (rule read_wire_delivers [OF less.prems(1,2) n i]) (rule that)
    have p: "p = d @ drop (length d) p" and s1: "input s1 = drop (length d) p @ t"
      using r(3,4) less.prems(3) by (auto simp: append_eq_append_conv2)
    have c: "chain_len c = length (contents c)" using less.prems(4) by (simp add: chain_ok_def)
    have small: "chain_len c + length d \<le> limit" using less.prems(5) c r(3) by simp
    then have "chain_len c + length d < 2 ^ 64" "unat nb * (chain_len c + length d) < 2 ^ 64"
      using less.prems(2,6) by (auto simp: affordable_def intro: le_less_trans [OF mult_le_mono2])
    from push_granted [where grow_lease = grow_lease, OF granted less.prems(4) this] obtain c1 m1
      where push: "push grow_lease nb d c m = (Inr (), c1, m1)" by blast
    note c1 = push_chain [OF push less.prems(4)]
    have "length (drop (length d) p) < length p" using r(2) False by simp
    moreover have "length (contents c1 @ drop (length d) p) \<le> limit"
      using less.prems(5) c1 r(3) by simp
    ultimately obtain s' c' m' where "chunk_data grow_lease nb limit (length p - length d) s1 c1 m1 = (Inr (), s', c', m')"
      "input s' = t" "delivers s'" "affordable limit s'" "chain_ok nb c'" "contents c' = contents c1 @ drop (length d) p"
      using less.hyps [OF _ r(5,6) s1, of c1 m1] c1 less.prems(6) by auto
    then show ?thesis using r(1,2) push c1 p [symmetric] False by (simp add: chunk_data.simps [of grow_lease nb limit "length p"])
  qed
qed

section \<open>The encoding\<close>

text \<open>Each chunk is its size line and its payload; a size line of zero ends the body.\<close>

definition encode_chunks :: "(string \<times> string) list \<Rightarrow> string \<Rightarrow> string" where
  "encode_chunks cs z = concat (map (\<lambda>(l, p). l @ crlf @ p @ crlf) cs) @ z @ crlf @ crlf"

text \<open>
  How a size may be spelled, independently of the decoder: one or more digits of either case, leading
  zeros allowed, that denote the number in base sixteen.
\<close>

definition spells_digit :: "char \<Rightarrow> nat \<Rightarrow> bool" where
  "spells_digit c d \<longleftrightarrow> d < 16 \<and> (c = ''0123456789ABCDEF'' ! d \<or> c = ''0123456789abcdef'' ! d)"

definition base16 :: "nat list \<Rightarrow> nat" where
  "base16 ds = (\<Sum>i < length ds. rev ds ! i * 16 ^ i)"

definition spells :: "string \<Rightarrow> nat \<Rightarrow> bool" where
  "spells l n \<longleftrightarrow> l \<noteq> [] \<and> (\<exists>ds. list_all2 spells_digit l ds \<and> base16 ds = n)"

definition well_encoded :: "(string \<times> string) list \<Rightarrow> string \<Rightarrow> bool" where
  "well_encoded cs z \<longleftrightarrow>
     list_all (\<lambda>(l, p). length l \<le> 30 \<and> spells l (length p) \<and> p \<noteq> []) cs \<and> length z \<le> 30 \<and> spells z 0"

lemma base16_Cons: "base16 (d # ds) = d * 16 ^ length ds + base16 ds"
  by (simp add: base16_def lessThan_Suc nth_append)

lemma spells_digit_all:
  assumes "list_all (\<lambda>d. list_all (\<lambda>c. P c d) [''0123456789ABCDEF'' ! d, ''0123456789abcdef'' ! d]) [0..<16]"
    and "spells_digit c d"
  shows "P c d"
  using assms unfolding spells_digit_def list_all_iff by auto

lemma spells_digit_value:
  "spells_digit c d \<Longrightarrow> is_ascii_hexdigit c \<and> c \<noteq> CHR '';''
     \<and> (if byte c \<le> 57 then byte c - 48 else if byte c \<le> 70 then byte c - 55 else byte c - 87) = d"
  by (rule spells_digit_all [where P = "\<lambda>c d. is_ascii_hexdigit c \<and> c \<noteq> CHR '';''
      \<and> (if byte c \<le> 57 then byte c - 48 else if byte c \<le> 70 then byte c - 55 else byte c - 87) = d"]) code_simp

lemma hex_value_base16:
  "list_all2 spells_digit l ds \<Longrightarrow> hex_value n l = n * 16 ^ length ds + base16 ds"
proof (induction l ds arbitrary: n rule: list_all2_induct)
  case (Cons c l d ds)
  then show ?case
    using spells_digit_value [OF Cons(1)] by (simp add: base16_Cons algebra_simps)
qed (simp add: base16_def)

lemma spells_chunk_size: "spells l n \<Longrightarrow> n < 2 ^ 64 \<Longrightarrow> chunk_size l = Inr n"
proof -
  assume "spells l n" and n: "n < 2 ^ 64"
  then obtain ds where ds: "l \<noteq> []" "list_all2 spells_digit l ds" "base16 ds = n" by (auto simp: spells_def)
  have "\<forall>c \<in> set l. is_ascii_hexdigit c \<and> c \<noteq> CHR '';''"
    using ds(2) spells_digit_value by (metis list_all2_conv_all_nth in_set_conv_nth)
  then have "list_all is_ascii_hexdigit l" "CHR '';'' \<notin> set l" by (auto simp: list_all_iff)
  with ds n hex_value_base16 [OF ds(2), of 0] show ?thesis by (simp add: chunk_size_def)
qed

text \<open>The same with the decoder's reading of the sizes, which the spelling gives.\<close>

definition decodable :: "(string \<times> string) list \<Rightarrow> string \<Rightarrow> bool" where
  "decodable cs z \<longleftrightarrow>
     list_all (\<lambda>(l, p). length l \<le> 30 \<and> chunk_size l = Inr (length p) \<and> p \<noteq> []) cs \<and> length z \<le> 30 \<and> chunk_size z = Inr 0"

lemma well_encoded_decodable:
  assumes "well_encoded cs z" and "length (concat (map snd cs)) < 2 ^ 64"
  shows "decodable cs z"
proof -
  have "length p < 2 ^ 64" if "(l, p) \<in> set cs" for l p
  proof -
    have "length p \<le> sum_list (map length (map snd cs))" using that by (force intro: member_le_sum_list)
    with assms(2) show ?thesis by (simp add: length_concat)
  qed
  with assms(1) show ?thesis
    unfolding well_encoded_def decodable_def list_all_iff by (auto intro!: spells_chunk_size)
qed

lemma chunk_size_no_newline: "chunk_size l = Inr n \<Longrightarrow> CHR 0x0A \<notin> set l"
  by (auto simp: chunk_size_def list_all_iff is_ascii_hexdigit_def is_ascii_digit_def split: if_split_asm)

lemma empty_line_delivers:
  assumes "delivers s" and "affordable limit s" and "input s = crlf @ t"
  shows "\<exists>s'. empty_line limit s = (Inr (), s') \<and> input s' = t \<and> delivers s' \<and> affordable limit s'"
  using crlf_line_delivers [OF assms(1,2), of "[]" t "[]" 2] assms(3) by (auto simp: empty_line_def read_crlf_line_def)

lemma read_chunks_delivers:
  assumes granted: "\<And>m. fst (grow_lease nb m) = Inr ()"
  shows "delivers s \<Longrightarrow> affordable limit s \<Longrightarrow> input s = encode_chunks cs z @ t \<Longrightarrow> decodable cs z \<Longrightarrow>
    chain_ok nb c \<Longrightarrow> length (contents c) + length (concat (map snd cs)) \<le> limit \<Longrightarrow> unat nb * limit < 2 ^ 64 \<Longrightarrow>
    \<exists>s' c' m'. read_chunks grow_lease nb limit s c m = (Inr (), s', c', m') \<and> input s' = t
      \<and> chain_ok nb c' \<and> contents c' = contents c @ concat (map snd cs)"
proof (induction cs arbitrary: s c m)
  case Nil
  obtain s1 where l: "read_crlf_line 32 limit s = (Inr z, s1)" and s1: "input s1 = crlf @ t" "delivers s1" "affordable limit s1"
    using crlf_line_delivers [OF Nil.prems(1,2), of z "crlf @ t" "[]" 32] Nil.prems(3,4)
    by (auto simp: encode_chunks_def decodable_def read_crlf_line_def dest: chunk_size_no_newline)
  moreover obtain s2 where "empty_line limit s1 = (Inr (), s2)" "input s2 = t"
    using empty_line_delivers [OF s1(2,3,1)] by blast
  ultimately show ?case using Nil.prems
    by (simp add: read_chunks.simps [of grow_lease nb limit s] decodable_def)
next
  case (Cons lp cs)
  obtain l p where lp: "lp = (l, p)" by fastforce
  have wf: "length l \<le> 30" "chunk_size l = Inr (length p)" "p \<noteq> []" "decodable cs z"
    using Cons.prems(4) lp by (simp_all add: decodable_def)
  let ?t = "encode_chunks cs z @ t"
  obtain s1 where l: "read_crlf_line 32 limit s = (Inr l, s1)"
    and s1: "input s1 = p @ crlf @ ?t" "delivers s1" "affordable limit s1"
    using crlf_line_delivers [OF Cons.prems(1,2), of l "p @ crlf @ ?t" "[]" 32] Cons.prems(3) lp wf(1)
      chunk_size_no_newline [OF wf(2)]
    by (auto simp: encode_chunks_def read_crlf_line_def)
  have room: "length (contents c @ p) \<le> limit" using Cons.prems(6) lp by simp
  obtain s2 c2 m2 where d: "chunk_data grow_lease nb limit (length p) s1 c m = (Inr (), s2, c2, m2)"
    and s2: "input s2 = crlf @ ?t" "delivers s2" "affordable limit s2" and c2: "chain_ok nb c2" "contents c2 = contents c @ p"
    using chunk_data_delivers [where grow_lease = grow_lease and m = m, OF granted s1(2,3,1) Cons.prems(5) room Cons.prems(7)]
    by auto
  obtain s3 where e: "empty_line limit s2 = (Inr (), s3)" and s3: "input s3 = ?t" "delivers s3" "affordable limit s3"
    using empty_line_delivers [OF s2(2,3,1)] by blast
  have "length (contents c2) + length (concat (map snd cs)) \<le> limit" using Cons.prems(6) lp c2(2) by simp
  from Cons.IH [OF s3(2,3,1) wf(4) c2(1) this Cons.prems(7)] obtain s' c' m' where
    "read_chunks grow_lease nb limit s3 c2 m2 = (Inr (), s', c', m')" "input s' = t" "chain_ok nb c'"
    "contents c' = contents c2 @ concat (map snd cs)" by blast
  moreover have "chain_len c + length p \<le> limit" "chain_len c + length p < 2 ^ 64"
    using room Cons.prems(2,5) by (simp_all add: chain_ok_def affordable_def)
  ultimately show ?case
    using l wf(2,3) d e c2(2) lp by (simp add: read_chunks.simps [of grow_lease nb limit s])
qed

text \<open>
  Claim C28: the chunked decoder inverts the chunked encoding. However each size is spelled in base sixteen
  (\<open>spells\<close>: either case, leading zeros, at most 30 digits), and however the network cuts the encoded body into prefetched bytes, reads and retries, decoding a body that
  fits the limit, under a lease that is granted, succeeds, yields exactly the concatenated
  payloads, and leaves exactly the bytes that follow the body unread.
\<close>

theorem chunked_round_trip:
  assumes "well_encoded cs z" and "initial @ concat (map event_bytes es) = encode_chunks cs z @ t"
    and "list_all (\<lambda>e. case e of IoData d \<Rightarrow> d \<noteq> [] | IoRetry \<Rightarrow> True | _ \<Rightarrow> False) es"
    and "length (encode_chunks cs z @ t) \<le> limit" and "limit < 2 ^ 64" and "unat nb * limit < 2 ^ 64"
    and "\<And>m. fst (grow_lease nb m) = Inr ()"
  shows "\<exists>s c m'. read_chunked grow_lease nb initial es limit m = (Inr (), s, c, m')
    \<and> copy_to c (replicate (chain_len c) CHR ''0'') = Inr (concat (map snd cs)) \<and> input s = t"
proof -
  let ?s = "\<lparr>prefetched = initial, conn = es, consumed = length initial\<rparr>"
  have len: "length initial + length (concat (map event_bytes es)) \<le> limit"
    using assms(4) by (simp flip: assms(2))
  have "length (concat (map snd cs)) \<le> length (encode_chunks cs z)"
    by (induction cs) (auto simp: encode_chunks_def)
  then have room: "length (contents empty_chain) + length (concat (map snd cs)) \<le> limit"
    using assms(4) by (simp add: contents_def empty_chain_def)
  have ok: "decodable cs z" using well_encoded_decodable [OF assms(1)] room assms(5) by simp
  have "delivers ?s" "affordable limit ?s" "input ?s = encode_chunks cs z @ t"
    using assms(2,3,5) len by (simp_all add: delivers_def affordable_def input_def)
  from read_chunks_delivers [where grow_lease = grow_lease and m = m, OF assms(7) this ok chain_ok_empty room assms(6)]
  obtain s c m' where r: "read_chunks grow_lease nb limit ?s empty_chain m = (Inr (), s, c, m')" "input s = t"
    "chain_ok nb c" "contents c = concat (map snd cs)" by (auto simp: contents_def empty_chain_def)
  then have "copy_to c (replicate (chain_len c) CHR ''0'') = Inr (concat (map snd cs))"
    using copy_to_contents [of c] by (simp add: chain_ok_def)
  with r len show ?thesis by (simp add: read_chunked_def)
qed

theorem chunked_round_trip_witness:
  "\<exists>s c m'. read_chunked (\<lambda>n m. (Inr (), m + unat n)) 8216 ''5'' [IoData (crlf @ ''he''), IoRetry, IoData (''llo'' @ crlf @ ''00'' @ crlf @ crlf)]
     64 0 = (Inr (), s, c, m') \<and> copy_to c (replicate (chain_len c) CHR ''0'') = Inr ''hello'' \<and> input s = []"
proof -
  have "list_all2 spells_digit ''5'' [5]" "base16 [5] = length ''hello''"
    "list_all2 spells_digit ''00'' [0, 0]" "base16 [0, 0] = 0"
    by (simp_all add: spells_digit_def base16_def numeral_2_eq_2)
  then have "spells ''5'' (length ''hello'')" "spells ''00'' 0" unfolding spells_def by blast+
  then have "well_encoded [(''5'', ''hello'')] ''00''" by (simp add: well_encoded_def)
  from chunked_round_trip [OF this, where t = "[]" and initial = "''5''"
      and es = "[IoData (crlf @ ''he''), IoRetry, IoData (''llo'' @ crlf @ ''00'' @ crlf @ crlf)]" and limit = 64
      and nb = 8216 and grow_lease = "\<lambda>n m. (Inr (), m + unat n)" and m = 0]
  show ?thesis by (simp add: encode_chunks_def crlf_def)
qed

lemma small_body: "\<exists>s c w'. read_chunked (grow 0) 8216 (encode_chunks [] ''0'') [] 64 demo_parent = (Inr (), s, c, w')"
proof -
  let ?s = "\<lparr>prefetched = encode_chunks [] ''0'', conn = [], consumed = length (encode_chunks [] ''0'')\<rparr>"
  have z: "chunk_size ''0'' = Inr 0" by (simp add: chunk_size_def is_ascii_hexdigit_def is_ascii_digit_def)
  have s: "delivers ?s" "affordable 64 ?s" "input ?s = ''0'' @ crlf @ crlf"
    by (simp_all add: delivers_def affordable_def input_def encode_chunks_def crlf_def)
  obtain s1 where l: "read_crlf_line 32 64 ?s = (Inr ''0'', s1)" "input s1 = crlf" "delivers s1" "affordable 64 s1"
    using crlf_line_delivers [OF s(1,2), of "''0''" crlf "[]" 32] s(3) by (auto simp: read_crlf_line_def)
  then obtain s2 where "empty_line 64 s1 = (Inr (), s2)"
    using empty_line_delivers [of s1 64 "[]"] by auto
  with l z show ?thesis
    by (simp add: read_chunked_def read_chunks.simps [of "grow 0" 8216 64 ?s] Let_def) (simp add: encode_chunks_def crlf_def)
qed

theorem chunked_bodies_stay_within_budget_witness:
  "\<exists>s c w'. read_chunked (grow 0) 8216 (encode_chunks [] ''0'') [] 64 demo_parent = (Inr (), s, c, w')
     \<and> consumed s \<le> 64 \<and> guard_bytes 0 w' \<le> guard_bytes 0 demo_parent + 8216"
proof -
  obtain s c w' where r: "read_chunked (grow 0) 8216 (encode_chunks [] ''0'') [] 64 demo_parent = (Inr (), s, c, w')"
    using small_body by blast
  from chunked_bodies_stay_within_budget [OF this] have "consumed s \<le> 64 \<and> guard_bytes 0 w' \<le> guard_bytes 0 demo_parent + 8216"
    by simp
  with r show ?thesis by blast
qed

end
