(* ===== verification/Compound_Budget.thy ===== *)
theory Compound_Budget
  imports Metering Document_IR
begin

text \<open>
  The resource accounting of the shared compound-file reader: the trait \<open>CompoundBudget\<close> of
  \<open>crates/converters/src/msg/ole.rs\<close> as a record of operations on a budget state, its laws as a
  locale, and its two implementations \<open>MsgBudget\<close> (\<open>msg/budget.rs\<close>) and \<open>LegacyBudget\<close>
  (\<open>legacy_office/budget.rs\<close>), each a record paired with the execution world it charges.
\<close>

section \<open>Budgeted computations\<close>

text \<open>
  A computation that may fail and threads a budget: \<open>try_do\<close> is the \<open>?\<close> operator, which
  keeps what the failed step did to the budget.
\<close>

type_synonym ('b, 'a) budgeted = "'b \<Rightarrow> 'a outcome \<times> 'b"

definition give :: "'a outcome \<Rightarrow> ('b, 'a) budgeted" where
  "give r b = (r, b)"

definition try_do :: "('b, 'a) budgeted \<Rightarrow> ('a \<Rightarrow> ('b, 'c) budgeted) \<Rightarrow> ('b, 'c) budgeted" where
  "try_do m f b = (case m b of (Inl e, b') \<Rightarrow> (Inl e, b') | (Inr v, b') \<Rightarrow> f v b')"

lemma give_simps [simp]: "give r b = (r, b)"
  by (simp add: give_def)

lemma try_do_give [simp]:
  "try_do (give (Inr v)) f = f v"
  "try_do (give (Inl e)) f = give (Inl e)"
  by (simp_all add: try_do_def give_def fun_eq_iff)

lemma try_do_Inr:
  "try_do m f b = (Inr y, b') \<longleftrightarrow> (\<exists>v b1. m b = (Inr v, b1) \<and> f v b1 = (Inr y, b'))"
  by (auto simp: try_do_def split: prod.splits sum.splits)

lemma try_do_Inl:
  "try_do m f b = (Inl e, b') \<longleftrightarrow>
     m b = (Inl e, b') \<or> (\<exists>v b1. m b = (Inr v, b1) \<and> f v b1 = (Inl e, b'))"
  by (auto simp: try_do_def split: prod.splits sum.splits)

lemma try_do_cong [fundef_cong]:
  "m b = m' b' \<Longrightarrow> (\<And>v b1. m' b' = (Inr v, b1) \<Longrightarrow> f v b1 = f' v b1) \<Longrightarrow> try_do m f b = try_do m' f' b'"
  by (auto simp: try_do_def split: prod.splits sum.splits)

text \<open>A relation on budgets that every step respects is respected by a sequence of steps.\<close>

lemma try_do_preserves:
  assumes "try_do m f b = (r, b')"
    and "\<And>r b1. m b = (r, b1) \<Longrightarrow> R b b1"
    and "\<And>v b1 r b2. m b = (Inr v, b1) \<Longrightarrow> f v b1 = (r, b2) \<Longrightarrow> R b1 b2"
    and "\<And>x y z. R x y \<Longrightarrow> R y z \<Longrightarrow> R x z"
  shows "R b b'"
  using assms(1) by (auto simp: try_do_def split: prod.splits sum.splits intro: assms(2-4))

section \<open>Failures\<close>

definition malformed :: "string \<Rightarrow> string \<Rightarrow> ConversionError" where
  "malformed p detail = Malformed (Some p) detail"

definition limit :: "string \<Rightarrow> string \<Rightarrow> ConversionError" where
  "limit name detail = ConversionError.ResourceLimit name detail"

text \<open>
  The allocator answers a request for a number of elements with nothing or with the text of its
  refusal; \<open>try_vec_capacity\<close> is the request that \<open>Vec::try_reserve_exact\<close> makes.
\<close>

type_synonym allocator = "nat \<Rightarrow> string option"

definition try_vec_capacity :: "allocator \<Rightarrow> nat \<Rightarrow> string \<Rightarrow> unit outcome" where
  "try_vec_capacity alloc capacity label =
     (case alloc capacity of
        None \<Rightarrow> Inr ()
      | Some err \<Rightarrow> Inl (limit ''max_memory_bytes''
          (''cannot reserve '' @ label @ '' capacity '' @ show_nat capacity @ '': '' @ err)))"

definition try_sized_vec :: "allocator \<Rightarrow> nat \<Rightarrow> 'a \<Rightarrow> string \<Rightarrow> 'a list outcome" where
  "try_sized_vec alloc n v label =
     and_then (try_vec_capacity alloc n label) (\<lambda>_. Inr (replicate n v))"

lemma try_vec_capacity_Inr: "try_vec_capacity alloc n l = Inr u \<longleftrightarrow> alloc n = None"
  by (simp add: try_vec_capacity_def split: option.split)

lemma try_sized_vec_Inr: "try_sized_vec alloc n v l = Inr vs \<longleftrightarrow> alloc n = None \<and> vs = replicate n v"
  by (auto simp: try_sized_vec_def and_then_Inr try_vec_capacity_Inr)

section \<open>The contract\<close>

text \<open>\<open>cfb_release\<close> is the destructor of a lease that \<open>cfb_memory\<close> returned.\<close>

record 'b CompoundBudget =
  cfb_memory :: "u64 \<Rightarrow> ('b, nat) budgeted"
  cfb_entry :: "('b, unit) budgeted"
  cfb_expanded :: "u64 \<Rightarrow> ('b, unit) budgeted"
  cfb_depth :: "u16 \<Rightarrow> string \<Rightarrow> ('b, unit) budgeted"
  cfb_work :: "u64 \<Rightarrow> ('b, unit) budgeted"
  cfb_release :: "nat \<Rightarrow> 'b \<Rightarrow> 'b"

text \<open>
  What the reader relies on: a granted lease is a new one, only \<open>cfb_memory\<close> and
  \<open>cfb_release\<close> touch the leases, and every accepted expansion is counted below a fixed cap.
\<close>

definition same_leases :: "('b \<Rightarrow> nat set) \<Rightarrow> ('b \<Rightarrow> bool) \<Rightarrow> 'b \<Rightarrow> 'b \<Rightarrow> bool" where
  "same_leases live good b b' \<longleftrightarrow> live b' = live b \<and> (good b \<longrightarrow> good b')"

locale compound_budget =
  fixes ops :: "'b CompoundBudget" and live :: "'b \<Rightarrow> nat set" and good :: "'b \<Rightarrow> bool"
    and spent :: "'b \<Rightarrow> nat" and cap :: "'b \<Rightarrow> nat"
  assumes memory_granted: "good b \<Longrightarrow> cfb_memory ops n b = (Inr i, b') \<Longrightarrow>
      i \<notin> live b \<and> live b' = insert i (live b) \<and> good b'"
    and memory_refused: "cfb_memory ops n b = (Inl e, b') \<Longrightarrow> same_leases live good b b'"
    and memory_spent: "cfb_memory ops n b = (r, b') \<Longrightarrow> spent b' = spent b \<and> cap b' = cap b"
    and entry_leases: "cfb_entry ops b = (u, b') \<Longrightarrow>
      same_leases live good b b' \<and> spent b' = spent b \<and> cap b' = cap b"
    and depth_leases: "cfb_depth ops d p b = (u, b') \<Longrightarrow>
      same_leases live good b b' \<and> spent b' = spent b \<and> cap b' = cap b"
    and work_leases: "cfb_work ops k b = (u, b') \<Longrightarrow>
      same_leases live good b b' \<and> spent b' = spent b \<and> cap b' = cap b"
    and expanded_leases: "cfb_expanded ops n b = (u, b') \<Longrightarrow> same_leases live good b b'
      \<and> spent b \<le> spent b' \<and> cap b' = cap b"
    and expanded_counted: "cfb_expanded ops n b = (Inr v, b') \<Longrightarrow>
      spent b' = spent b + unat n \<and> spent b' \<le> cap b"
    and release_leases: "live (cfb_release ops i b) = live b - {i} \<and> (good b \<longrightarrow> good (cfb_release ops i b))"
    and release_spent: "spent (cfb_release ops i b) = spent b \<and> cap (cfb_release ops i b) = cap b"
begin

text \<open>Dropping a list of leases removes exactly them.\<close>

lemma release_all:
  "live (fold (cfb_release ops) is b) = live b - set is"
  "good b \<Longrightarrow> good (fold (cfb_release ops) is b)"
  "spent (fold (cfb_release ops) is b) = spent b"
  "cap (fold (cfb_release ops) is b) = cap b"
  by (induction "is" arbitrary: b) (auto simp: release_leases release_spent)

end

section \<open>The leases of the execution world\<close>

definition live_leases :: "'m \<times> world \<Rightarrow> nat set" where
  "live_leases b = {i. kv_get (reservations (snd b)) i \<noteq> None}"

definition fresh_leases :: "'m \<times> world \<Rightarrow> bool" where
  "fresh_leases b \<longleftrightarrow> (\<forall>i \<ge> fresh (snd b). kv_get (reservations (snd b)) i = None)"

lemma checkpoint_cases:
  "checkpoint c w = (r, w') \<Longrightarrow> reservations w' = reservations w \<and> fresh w' = fresh w"
  by (auto simp: checkpoint_def upd_shared_def Let_def split: if_splits)

lemma charge_leases:
  "charge kd c n w = (r, w') \<Longrightarrow> reservations w' = reservations w \<and> fresh w' = fresh w"
  by (auto simp: charge_def set_credit_bytes_def split: ResourceKind.splits option.splits sum.splits)

lemma reserve_granted:
  "reserve kd c n w = (Inr i, w') \<Longrightarrow>
     i = fresh w \<and> fresh w' = Suc i \<and>
     (\<exists>r. reservations w' = kv_put i r (reservations w))"
  by (auto simp: reserve_def Let_def split: prod.splits sum.splits
      dest!: checkpoint_cases charge_leases)

lemma reserve_refused:
  "reserve kd c n w = (Inl e, w') \<Longrightarrow> reservations w' = reservations w \<and> fresh w' = fresh w"
  by (auto simp: reserve_def Let_def split: prod.splits sum.splits
      dest!: checkpoint_cases charge_leases)

lemma drop_reservation_leases:
  "kv_get (reservations (drop_reservation i w)) j = (if j = i then None else kv_get (reservations w) j)
     \<and> fresh (drop_reservation i w) = fresh w"
  by (auto simp: drop_reservation_def Let_def uncharge_def set_credit_bytes_def release_credit_def
      release_backing_def split: option.splits ResourceKind.splits)

section \<open>The budget of one MSG conversion\<close>

record MsgBudget =
  msg_limits :: ResourceLimits
  msg_context :: ExecutionContext
  msg_entries :: u32
  msg_expanded_bytes :: u64
  msg_asset_bytes :: u64
  msg_work :: u64
  diagnostics :: "Diagnostic list"

type_synonym msg_state = "MsgBudget \<times> world"

text \<open>A step of the execution world inside a budgeted computation.\<close>

definition in_world :: "(world \<Rightarrow> 'a outcome \<times> world) \<Rightarrow> ('m \<times> world, 'a) budgeted" where
  "in_world f b = (case f (snd b) of (r, w) \<Rightarrow> (r, (fst b, w)))"

definition new_msg_budget :: "nat \<Rightarrow> ResourceLimits \<Rightarrow> ExecutionContext \<Rightarrow> world \<Rightarrow> MsgBudget outcome \<times> world" where
  "new_msg_budget input_len lim c w =
     (let n = (if input_len < 2 ^ 64 then of_nat input_len else - 1 :: u64) in
      if n > max_input_bytes lim then
        (Inl (limit ''max_input_bytes''
          (''MSG source has '' @ show_word n @ '' bytes; limit is '' @ show_word (max_input_bytes lim))), w)
      else case checkpoint c w of
        (Inl e, w') \<Rightarrow> (Inl e, w')
      | (Inr _, w') \<Rightarrow>
          (Inr \<lparr>msg_limits = lim, msg_context = c, msg_entries = 0, msg_expanded_bytes = 0,
                msg_asset_bytes = 0, msg_work = 0, diagnostics = []\<rparr>, w'))"

definition msg_warning :: "string \<Rightarrow> string \<Rightarrow> string \<Rightarrow> msg_state \<Rightarrow> msg_state" where
  "msg_warning cd msg p b =
     ((fst b)\<lparr>diagnostics := diagnostics (fst b) @
        [\<lparr>diagnostic_code = cd, severity = Warning, message = msg,
          diagnostic_locator = Some (default_locator\<lparr>part := Some p\<rparr>)\<rparr>]\<rparr>, snd b)"

definition msg_checkpoint :: "(msg_state, unit) budgeted" where
  "msg_checkpoint b = in_world (checkpoint (msg_context (fst b))) b"

definition msg_entry :: "(msg_state, unit) budgeted" where
  "msg_entry b =
     (case checked_add (msg_entries (fst b)) 1 of
        None \<Rightarrow> (Inl (limit ''max_archive_entries'' ''MSG entry count overflowed''), b)
      | Some n \<Rightarrow>
          (let b' = ((fst b)\<lparr>msg_entries := n\<rparr>, snd b); m = max_archive_entries (msg_limits (fst b)) in
           if n > m then
             (Inl (limit ''max_archive_entries''
               (''MSG has more than '' @ show_word m @ '' directory/property/attachment entries'')), b')
           else msg_checkpoint b'))"

definition msg_expanded :: "u64 \<Rightarrow> (msg_state, unit) budgeted" where
  "msg_expanded n b =
     (case checked_add (msg_expanded_bytes (fst b)) n of
        None \<Rightarrow> (Inl (limit ''max_decompressed_bytes'' ''MSG expanded byte count overflowed''), b)
      | Some t \<Rightarrow>
          (let b' = ((fst b)\<lparr>msg_expanded_bytes := t\<rparr>, snd b);
               m = max_decompressed_bytes (msg_limits (fst b)) in
           if t > m then
             (Inl (limit ''max_decompressed_bytes''
               (''MSG streams retain '' @ show_word t @ '' bytes; limit is '' @ show_word m)), b')
           else msg_checkpoint b'))"

definition msg_asset :: "nat \<Rightarrow> (msg_state, unit) budgeted" where
  "msg_asset len b =
     (let n = (if len < 2 ^ 64 then of_nat len else - 1 :: u64); l = msg_limits (fst b) in
      if n > max_asset_bytes l then
        (Inl (limit ''max_asset_bytes''
          (''MSG attachment has '' @ show_word n @ '' bytes; limit is '' @ show_word (max_asset_bytes l))), b)
      else case checked_add (msg_asset_bytes (fst b)) n of
        None \<Rightarrow> (Inl (limit ''max_total_asset_bytes'' ''MSG attachment byte count overflowed''), b)
      | Some t \<Rightarrow>
          (let b' = ((fst b)\<lparr>msg_asset_bytes := t\<rparr>, snd b) in
           if t > max_total_asset_bytes l then
             (Inl (limit ''max_total_asset_bytes''
               (''MSG attachments retain '' @ show_word t @ '' bytes; limit is ''
                 @ show_word (max_total_asset_bytes l))), b')
           else msg_checkpoint b'))"

definition msg_depth :: "u16 \<Rightarrow> string \<Rightarrow> (msg_state, unit) budgeted" where
  "msg_depth d p b =
     (let m = max_nesting_depth (msg_limits (fst b)) in
      if d > m then
        (Inl (limit ''max_nesting_depth''
          (''MSG nesting at '' @ p @ '' reached '' @ show_word d @ ''; limit is '' @ show_word m)), b)
      else msg_checkpoint b)"

text \<open>\<open>work\<close>: at most 4,096 units per permitted entry and one per permitted input byte.\<close>

definition msg_work_limit :: "ResourceLimits \<Rightarrow> u64" where
  "msg_work_limit l =
     (let m = unat (max (max_archive_entries l) 1) * 4096 + unat (max_input_bytes l)
      in if m < 2 ^ 64 then of_nat m else - 1)"

definition msg_work_units :: "u64 \<Rightarrow> (msg_state, unit) budgeted" where
  "msg_work_units units b =
     (case checked_add (msg_work (fst b)) units of
        None \<Rightarrow> (Inl (limit ''msg_work'' ''MSG parser work count overflowed''), b)
      | Some t \<Rightarrow>
          (let b' = ((fst b)\<lparr>msg_work := t\<rparr>, snd b); m = msg_work_limit (msg_limits (fst b)) in
           if t > m then
             (Inl (limit ''msg_work'' (''MSG parser work exceeds '' @ show_word m @ '' units'')), b')
           else msg_checkpoint b'))"

definition msg_operations :: "msg_state CompoundBudget" where
  "msg_operations = \<lparr>
     cfb_memory = (\<lambda>n b. in_world (reserve Memory (msg_context (fst b)) n) b),
     cfb_entry = msg_entry,
     cfb_expanded = msg_expanded,
     cfb_depth = msg_depth,
     cfb_work = msg_work_units,
     cfb_release = (\<lambda>i b. (fst b, drop_reservation i (snd b)))\<rparr>"

lemma in_world_Inr: "in_world f b = (r, b') \<longleftrightarrow> (\<exists>w. f (snd b) = (r, w) \<and> b' = (fst b, w))"
  by (auto simp: in_world_def split: prod.splits)

text \<open>A reservation through the context is a fresh lease, its drop removes it.\<close>

lemma lease_facts:
  "fresh_leases b \<Longrightarrow> in_world (reserve kd c n) b = (Inr i, b') \<Longrightarrow>
     i \<notin> live_leases b \<and> live_leases b' = insert i (live_leases b) \<and> fresh_leases b'"
  "reserve kd c n w = (Inl e, w') \<Longrightarrow> same_leases live_leases fresh_leases (m, w) (m', w')"
  "checkpoint c w = (u, w') \<Longrightarrow> same_leases live_leases fresh_leases (m, w) (m', w')"
  "live_leases (m, drop_reservation i (snd b)) = live_leases b - {i}"
  "fresh_leases b \<Longrightarrow> fresh_leases (m, drop_reservation i (snd b))"
  by (auto simp: in_world_Inr live_leases_def fresh_leases_def same_leases_def drop_reservation_leases
      dest!: reserve_granted reserve_refused checkpoint_cases split: if_splits)

lemma same_leases_refl [simp]: "same_leases live good b b"
  by (simp add: same_leases_def)

lemma same_leases_fst:
  "same_leases live_leases fresh_leases (m, snd b) b' \<longleftrightarrow> same_leases live_leases fresh_leases b b'"
  "same_leases live_leases fresh_leases b (m, snd b)"
  by (simp_all add: same_leases_def live_leases_def fresh_leases_def)

definition msg_spent :: "msg_state \<Rightarrow> nat" where
  "msg_spent b = unat (msg_expanded_bytes (fst b))"

definition msg_cap :: "msg_state \<Rightarrow> nat" where
  "msg_cap b = unat (max_decompressed_bytes (msg_limits (fst b)))"

lemma msg_checkpoint_facts:
  "msg_checkpoint b = (u, b') \<Longrightarrow>
     same_leases live_leases fresh_leases b b' \<and> fst b' = fst b"
  by (cases b) (auto simp: msg_checkpoint_def in_world_Inr dest: lease_facts(3))

lemma msg_step_facts:
  "msg_entry b = (u, b') \<Longrightarrow> same_leases live_leases fresh_leases b b' \<and> msg_spent b' = msg_spent b \<and> msg_cap b' = msg_cap b"
  "msg_depth d p b = (u, b') \<Longrightarrow> same_leases live_leases fresh_leases b b' \<and> msg_spent b' = msg_spent b \<and> msg_cap b' = msg_cap b"
  "msg_work_units k b = (u, b') \<Longrightarrow> same_leases live_leases fresh_leases b b' \<and> msg_spent b' = msg_spent b \<and> msg_cap b' = msg_cap b"
  "msg_expanded n b = (u, b') \<Longrightarrow> same_leases live_leases fresh_leases b b' \<and> msg_spent b \<le> msg_spent b' \<and> msg_cap b' = msg_cap b"
  by (auto simp: msg_entry_def msg_depth_def msg_work_units_def msg_expanded_def Let_def msg_spent_def
      msg_cap_def same_leases_fst split: option.splits if_splits dest!: msg_checkpoint_facts checked_add_unat)

lemma msg_expanded_counted:
  "msg_expanded n b = (Inr v, b') \<Longrightarrow> msg_spent b' = msg_spent b + unat n \<and> msg_spent b' \<le> msg_cap b"
  by (auto simp: msg_expanded_def Let_def msg_spent_def msg_cap_def word_le_nat_alt word_less_nat_alt
      split: option.splits if_splits dest!: msg_checkpoint_facts checked_add_unat)

interpretation msg_budget: compound_budget msg_operations live_leases fresh_leases msg_spent msg_cap
proof
  fix n b i b'
  assume "fresh_leases b" "cfb_memory msg_operations n b = (Inr i, b')"
  then show "i \<notin> live_leases b \<and> live_leases b' = insert i (live_leases b) \<and> fresh_leases b'"
    by (intro lease_facts(1)) (simp_all add: msg_operations_def)
qed (auto simp: msg_operations_def msg_spent_def msg_cap_def in_world_Inr
    dest: msg_step_facts msg_expanded_counted lease_facts(2)
    simp: lease_facts(4,5))

section \<open>The budget of one legacy Office conversion\<close>

record LegacyBudget =
  legacy_limits :: ResourceLimits
  legacy_context :: ExecutionContext
  legacy_entries :: u32
  legacy_expanded_bytes :: u64
  legacy_work :: u64
  legacy_assets :: u64

type_synonym legacy_state = "LegacyBudget \<times> world"

definition new_legacy_budget :: "nat \<Rightarrow> ResourceLimits \<Rightarrow> ExecutionContext \<Rightarrow> world \<Rightarrow> LegacyBudget outcome \<times> world" where
  "new_legacy_budget input_len lim c w =
     (let n = (if input_len < 2 ^ 64 then of_nat input_len else - 1 :: u64) in
      if n > max_input_bytes lim then
        (Inl (limit ''max_input_bytes''
          (''legacy Office source has '' @ show_word n @ '' bytes; limit is '' @ show_word (max_input_bytes lim))), w)
      else case checkpoint c w of
        (Inl e, w') \<Rightarrow> (Inl e, w')
      | (Inr _, w') \<Rightarrow>
          (Inr \<lparr>legacy_limits = lim, legacy_context = c, legacy_entries = 0, legacy_expanded_bytes = 0,
                legacy_work = 0, legacy_assets = 0\<rparr>, w'))"

definition legacy_checkpoint :: "(legacy_state, unit) budgeted" where
  "legacy_checkpoint b = in_world (checkpoint (legacy_context (fst b))) b"

definition legacy_entry :: "(legacy_state, unit) budgeted" where
  "legacy_entry b =
     (case checked_add (legacy_entries (fst b)) 1 of
        None \<Rightarrow> (Inl (limit ''max_archive_entries'' ''CFB entry count overflowed''), b)
      | Some n \<Rightarrow>
          (let b' = ((fst b)\<lparr>legacy_entries := n\<rparr>, snd b); m = max_archive_entries (legacy_limits (fst b)) in
           if n > m then
             (Inl (limit ''max_archive_entries'' (''CFB contains more than '' @ show_word m @ '' entries'')), b')
           else legacy_checkpoint b'))"

definition legacy_expanded :: "u64 \<Rightarrow> (legacy_state, unit) budgeted" where
  "legacy_expanded n b =
     (case checked_add (legacy_expanded_bytes (fst b)) n of
        None \<Rightarrow> (Inl (limit ''max_decompressed_bytes'' ''CFB stream byte count overflowed''), b)
      | Some t \<Rightarrow>
          (let b' = ((fst b)\<lparr>legacy_expanded_bytes := t\<rparr>, snd b);
               m = max_decompressed_bytes (legacy_limits (fst b)) in
           if t > m then
             (Inl (limit ''max_decompressed_bytes''
               (''CFB streams retain '' @ show_word t @ '' bytes; limit is '' @ show_word m)), b')
           else legacy_checkpoint b'))"

definition legacy_depth :: "u16 \<Rightarrow> string \<Rightarrow> (legacy_state, unit) budgeted" where
  "legacy_depth d p b =
     (let m = max_nesting_depth (legacy_limits (fst b)) in
      if d > m then
        (Inl (limit ''max_nesting_depth''
          (p @ '' nesting reached '' @ show_word d @ ''; limit is '' @ show_word m)), b)
      else legacy_checkpoint b)"

definition legacy_work_limit :: "ResourceLimits \<Rightarrow> u64" where
  "legacy_work_limit l =
     saturating_add
       (if unat (max_input_bytes l) * 32 < 2 ^ 64 then max_input_bytes l * 32 else - 1)
       (of_nat (unat (max_archive_entries l) * 4096))"

definition legacy_work_units :: "u64 \<Rightarrow> string \<Rightarrow> (legacy_state, unit) budgeted" where
  "legacy_work_units units p b =
     (case checked_add (legacy_work (fst b)) units of
        None \<Rightarrow> (Inl (limit ''legacy_office_work'' ''parser work count overflowed''), b)
      | Some t \<Rightarrow>
          (let b' = ((fst b)\<lparr>legacy_work := t\<rparr>, snd b); m = legacy_work_limit (legacy_limits (fst b)) in
           if t > m then
             (Inl (limit ''legacy_office_work''
               (p @ '' parser work exceeds '' @ show_word m @ '' units'')), b')
           else legacy_checkpoint b'))"

definition legacy_pages :: "nat \<Rightarrow> string \<Rightarrow> (legacy_state, unit) budgeted" where
  "legacy_pages len p b =
     (let n = (if len < 2 ^ 32 then of_nat len else - 1 :: u32); m = max_pages (legacy_limits (fst b)) in
      if n > m then
        (Inl (limit ''max_pages''
          (p @ '' contains '' @ show_word n @ '' page-like units; limit is '' @ show_word m)), b)
      else legacy_checkpoint b)"

definition legacy_table_shape :: "nat \<Rightarrow> nat \<Rightarrow> (legacy_state, unit) budgeted" where
  "legacy_table_shape row_count column_count b =
     (let l = legacy_limits (fst b);
          rs = (if row_count < 2 ^ 64 then of_nat row_count else - 1 :: u64);
          cs = (if column_count < 2 ^ 64 then of_nat column_count else - 1 :: u64);
          cells = (if unat rs * unat cs < 2 ^ 64 then rs * cs else - 1) in
      if rs > max_table_rows l then
        (Inl (limit ''max_table_rows'' (show_word rs @ '' rows exceed the limit'')), b)
      else if cs > max_table_columns l then
        (Inl (limit ''max_table_columns'' (show_word cs @ '' columns exceed the limit'')), b)
      else if cells > max_table_cells l then
        (Inl (limit ''max_table_cells'' (show_word cells @ '' cells exceed the limit'')), b)
      else legacy_checkpoint b)"

definition legacy_asset :: "nat \<Rightarrow> string \<Rightarrow> (legacy_state, unit) budgeted" where
  "legacy_asset len p b =
     (let n = (if len < 2 ^ 64 then of_nat len else - 1 :: u64); l = legacy_limits (fst b) in
      if n > max_asset_bytes l then
        (Inl (limit ''max_asset_bytes''
          (p @ '' retains '' @ show_word n @ '' bytes; limit is '' @ show_word (max_asset_bytes l))), b)
      else case checked_add (legacy_assets (fst b)) n of
        None \<Rightarrow> (Inl (limit ''max_total_asset_bytes'' ''asset byte count overflowed''), b)
      | Some t \<Rightarrow>
          (let b' = ((fst b)\<lparr>legacy_assets := t\<rparr>, snd b) in
           if t > max_total_asset_bytes l then
             (Inl (limit ''max_total_asset_bytes''
               (''legacy Office assets retain '' @ show_word t @ '' bytes; limit is ''
                 @ show_word (max_total_asset_bytes l))), b')
           else legacy_checkpoint b'))"

definition legacy_operations :: "legacy_state CompoundBudget" where
  "legacy_operations = \<lparr>
     cfb_memory = (\<lambda>n b. in_world (reserve Memory (legacy_context (fst b)) n) b),
     cfb_entry = legacy_entry,
     cfb_expanded = legacy_expanded,
     cfb_depth = legacy_depth,
     cfb_work = (\<lambda>k. legacy_work_units k ''cfb''),
     cfb_release = (\<lambda>i b. (fst b, drop_reservation i (snd b)))\<rparr>"

definition legacy_spent :: "legacy_state \<Rightarrow> nat" where
  "legacy_spent b = unat (legacy_expanded_bytes (fst b))"

definition legacy_cap :: "legacy_state \<Rightarrow> nat" where
  "legacy_cap b = unat (max_decompressed_bytes (legacy_limits (fst b)))"

lemma legacy_checkpoint_facts:
  "legacy_checkpoint b = (u, b') \<Longrightarrow>
     same_leases live_leases fresh_leases b b' \<and> fst b' = fst b"
  by (cases b) (auto simp: legacy_checkpoint_def in_world_Inr dest: lease_facts(3))

lemma legacy_step_facts:
  "legacy_entry b = (u, b') \<Longrightarrow> same_leases live_leases fresh_leases b b' \<and> legacy_spent b' = legacy_spent b \<and> legacy_cap b' = legacy_cap b"
  "legacy_depth d p b = (u, b') \<Longrightarrow> same_leases live_leases fresh_leases b b' \<and> legacy_spent b' = legacy_spent b \<and> legacy_cap b' = legacy_cap b"
  "legacy_work_units k p b = (u, b') \<Longrightarrow> same_leases live_leases fresh_leases b b' \<and> legacy_spent b' = legacy_spent b \<and> legacy_cap b' = legacy_cap b"
  "legacy_expanded n b = (u, b') \<Longrightarrow> same_leases live_leases fresh_leases b b' \<and> legacy_spent b \<le> legacy_spent b' \<and> legacy_cap b' = legacy_cap b"
  by (auto simp: legacy_entry_def legacy_depth_def legacy_work_units_def legacy_expanded_def Let_def
      legacy_spent_def legacy_cap_def same_leases_fst split: option.splits if_splits
      dest!: legacy_checkpoint_facts checked_add_unat)

lemma legacy_expanded_counted:
  "legacy_expanded n b = (Inr v, b') \<Longrightarrow> legacy_spent b' = legacy_spent b + unat n \<and> legacy_spent b' \<le> legacy_cap b"
  by (auto simp: legacy_expanded_def Let_def legacy_spent_def legacy_cap_def word_le_nat_alt word_less_nat_alt
      split: option.splits if_splits dest!: legacy_checkpoint_facts checked_add_unat)

interpretation legacy_budget: compound_budget legacy_operations live_leases fresh_leases legacy_spent legacy_cap
proof
  fix n b i b'
  assume "fresh_leases b" "cfb_memory legacy_operations n b = (Inr i, b')"
  then show "i \<notin> live_leases b \<and> live_leases b' = insert i (live_leases b) \<and> fresh_leases b'"
    by (intro lease_facts(1)) (simp_all add: legacy_operations_def)
qed (auto simp: legacy_operations_def legacy_spent_def legacy_cap_def in_world_Inr
    dest: legacy_step_facts legacy_expanded_counted lease_facts(2)
    simp: lease_facts(4,5))

end
