(* ===== verification/Cfb_Chain.thy ===== *)
theory Cfb_Chain
  imports Compound_Budget
begin

text \<open>
  Sectors of a compound file (\<open>crates/converters/src/msg/ole/\<close>): the little-endian readers and
  sector access of \<open>binary.rs\<close>, the chain walk of \<open>chain.rs\<close> and the ownership table of
  \<open>ownership.rs\<close>. A \<open>usize\<close> has 64 bits, so a sector number always fits one; table and slice
  lengths are natural numbers.
\<close>

section \<open>Markers\<close>

definition FREE :: u32 where "FREE = 0xffffffff"
definition END :: u32 where "END = 0xfffffffe"
definition FAT :: u32 where "FAT = 0xfffffffd"
definition DIFAT :: u32 where "DIFAT = 0xfffffffc"
definition NONE :: u32 where "NONE = 0xffffffff"

definition reserved_marker :: "u32 \<Rightarrow> bool" where
  "reserved_marker x \<longleftrightarrow> x = FREE \<or> x = FAT \<or> x = DIFAT"

lemma reserved_not_end [simp]: "\<not> reserved_marker END"
  by (simp add: reserved_marker_def FREE_def END_def FAT_def DIFAT_def)

section \<open>Reading bytes\<close>

text \<open>\<open>slice::get\<close> with an index and with a range.\<close>

definition nth_opt :: "'a list \<Rightarrow> nat \<Rightarrow> 'a option" where
  "nth_opt xs i = (if i < length xs then Some (xs ! i) else None)"

definition slice :: "'a list \<Rightarrow> nat \<Rightarrow> nat \<Rightarrow> 'a list option" where
  "slice xs from n = (if from + n \<le> length xs then Some (take n (drop from xs)) else None)"

lemma nth_opt_Some: "nth_opt xs i = Some x \<longleftrightarrow> i < length xs \<and> x = xs ! i"
  by (auto simp: nth_opt_def)

lemma slice_Some: "slice xs i n = Some ys \<longleftrightarrow> i + n \<le> length xs \<and> ys = take n (drop i xs)"
  by (auto simp: slice_def)

lemma slice_length: "slice xs i n = Some ys \<Longrightarrow> length ys = n"
  by (auto simp: slice_Some)

fun from_le_bytes :: "u8 list \<Rightarrow> nat" where
  "from_le_bytes [] = 0"
| "from_le_bytes (b # bs) = unat b + 256 * from_le_bytes bs"

lemma from_le_bytes_bound: "from_le_bytes bs < 256 ^ length bs"
proof (induction bs)
  case (Cons b bs)
  have "unat b < 256" using unsigned_less [of b] by simp
  with Cons show ?case by simp
qed simp

definition le_word :: "nat \<Rightarrow> u8 list \<Rightarrow> nat \<Rightarrow> string \<Rightarrow> 'a::len word outcome" where
  "le_word n bs offset p =
     (case slice bs offset n of
        None \<Rightarrow> Inl (malformed p ''truncated little-endian integer'')
      | Some raw \<Rightarrow> Inr (of_nat (from_le_bytes raw)))"

definition le16 :: "u8 list \<Rightarrow> nat \<Rightarrow> string \<Rightarrow> u16 outcome" where "le16 = le_word 2"
definition le32 :: "u8 list \<Rightarrow> nat \<Rightarrow> string \<Rightarrow> u32 outcome" where "le32 = le_word 4"
definition le64 :: "u8 list \<Rightarrow> nat \<Rightarrow> string \<Rightarrow> u64 outcome" where "le64 = le_word 8"

text \<open>\<open>chunks_exact\<close>: the full chunks of \<open>n\<close> elements, a shorter rest left out.\<close>

definition chunks_exact :: "nat \<Rightarrow> 'a list \<Rightarrow> 'a list list" where
  "chunks_exact n xs = map (\<lambda>i. take n (drop (i * n) xs)) [0..<length xs div n]"

lemma chunks_exact_length: "length (chunks_exact n xs) = length xs div n"
  by (simp add: chunks_exact_def)

definition words_of :: "u8 list \<Rightarrow> u32 list" where
  "words_of bs = map (\<lambda>c. of_nat (from_le_bytes c)) (chunks_exact 4 bs)"

definition read_sector :: "u8 list \<Rightarrow> nat \<Rightarrow> u32 \<Rightarrow> u8 list outcome" where
  "read_sector bs sector_size sid =
     (let start = (unat sid + 1) * sector_size in
      if 2 ^ 64 \<le> start then Inl (malformed ''cfb/sector'' ''sector offset overflowed'')
      else case slice bs start sector_size of
        None \<Rightarrow> Inl (malformed ''cfb/sector'' ''sector exceeds source bytes'')
      | Some s \<Rightarrow> Inr s)"

lemma read_sector_Inr:
  "read_sector bs n sid = Inr s \<longleftrightarrow>
     (unat sid + 1) * n < 2 ^ 64 \<and> (unat sid + 1) * n + n \<le> length bs
       \<and> s = take n (drop ((unat sid + 1) * n) bs)"
  by (auto simp: read_sector_def Let_def slice_def split: option.splits)

lemma read_sector_length: "read_sector bs n sid = Inr s \<Longrightarrow> length s = n"
  by (auto simp: read_sector_Inr)

definition validate_physical :: "u32 \<Rightarrow> nat \<Rightarrow> string \<Rightarrow> unit outcome" where
  "validate_physical sid count p =
     (if unat sid \<ge> count then Inl (malformed p ''sector identifier is out of bounds'') else Inr ())"

lemma validate_physical_Inr: "validate_physical sid n p = Inr u \<longleftrightarrow> unat sid < n"
  by (auto simp: validate_physical_def)

lemma validate_physical_ok [simp]: "unat sid < n \<Longrightarrow> validate_physical sid n p = Inr ()"
  by (simp add: validate_physical_def)

section \<open>Chains\<close>

definition table_next :: "u32 list \<Rightarrow> u32 \<Rightarrow> string \<Rightarrow> u32 outcome" where
  "table_next table sid p =
     (case nth_opt table (unat sid) of
        None \<Rightarrow> Inl (malformed p ''sector chain exceeds allocation table'')
      | Some x \<Rightarrow> Inr x)"

lemma table_next_Inr: "table_next table sid p = Inr x \<longleftrightarrow> nth_opt table (unat sid) = Some x"
  by (simp add: table_next_def split: option.split)

text \<open>The declared tail may not lead back into the chain: \<open>k\<close> sectors from \<open>prior\<close> differ from it.\<close>

fun tail_cycle :: "u32 list \<Rightarrow> u32 \<Rightarrow> string \<Rightarrow> nat \<Rightarrow> u32 \<Rightarrow> unit outcome" where
  "tail_cycle table tail p 0 prior = Inr ()"
| "tail_cycle table tail p (Suc k) prior =
     (if prior = tail then Inl (malformed p ''declared stream tail forms a cycle'')
      else and_then (table_next table prior p) (tail_cycle table tail p k))"

definition declared_tail ::
  "u32 \<Rightarrow> u32 list \<Rightarrow> nat \<Rightarrow> string \<Rightarrow> nat \<Rightarrow> u32 \<Rightarrow> (nat \<times> u32 option) outcome" where
  "declared_tail start table addressable p len succ =
     (if succ = END then Inr (len, None)
      else if reserved_marker succ then Inl (malformed p ''declared stream tail enters a reserved marker'')
      else and_then (validate_physical succ addressable p) (\<lambda>_.
        and_then (tail_cycle table succ p len start) (\<lambda>_. Inr (len, Some succ))))"

function scan_chain ::
  "u32 \<Rightarrow> u32 list \<Rightarrow> nat \<Rightarrow> nat option \<Rightarrow> string \<Rightarrow> bool \<Rightarrow> nat \<Rightarrow> u32 \<Rightarrow> (nat \<times> u32 option) outcome" where
  "scan_chain start table addressable expected p allow len current =
     and_then (validate_physical current addressable p) (\<lambda>_.
       if 2 ^ 64 \<le> len + 1 then Inl (malformed p ''sector chain length overflowed'')
       else if len + 1 > addressable then Inl (malformed p ''sector chain contains a cycle'')
       else and_then (table_next table current p) (\<lambda>succ.
         if allow \<and> expected = Some (len + 1) then declared_tail start table addressable p (len + 1) succ
         else if succ = END then
           (if expected \<noteq> None \<and> expected \<noteq> Some (len + 1) then
              Inl (malformed p ''sector chain length does not match declared stream size'')
            else Inr (len + 1, None))
         else if reserved_marker succ then Inl (malformed p ''sector chain enters a reserved marker'')
         else scan_chain start table addressable expected p allow (len + 1) succ))"
  by pat_completeness auto
termination
  by (relation "measure (\<lambda>(start, table, addressable, expected, p, allow, len, current). addressable - len)")
     auto

declare scan_chain.simps [simp del]

fun collect_chain :: "u32 list \<Rightarrow> string \<Rightarrow> nat \<Rightarrow> u32 \<Rightarrow> u32 list outcome" where
  "collect_chain table p 0 current = Inr []"
| "collect_chain table p (Suc k) current =
     and_then (table_next table current p) (\<lambda>succ.
       and_then (collect_chain table p k succ) (\<lambda>rest. Inr (current # rest)))"

definition walk_chain_with_declared_tail ::
  "allocator \<Rightarrow> u32 \<Rightarrow> u32 list \<Rightarrow> nat \<Rightarrow> u32 option \<Rightarrow> string \<Rightarrow> bool \<Rightarrow> (u32 list \<times> u32 option) outcome" where
  "walk_chain_with_declared_tail alloc start table addressable expected p allow =
     (if expected = Some 0 then
        (if start \<noteq> END \<and> start \<noteq> FREE then Inl (malformed p ''zero-length chain has a start sector'')
         else Inr ([], None))
      else if start = END \<or> reserved_marker start then
        Inl (malformed p ''non-empty chain has an invalid start sector'')
      else and_then (scan_chain start table addressable (map_option unat expected) p allow 0 start)
        (\<lambda>(len, pending_tail).
          if alloc len \<noteq> None then Inl (malformed p ''sector chain inventory allocation failed'')
          else and_then (collect_chain table p len start) (\<lambda>output. Inr (output, pending_tail))))"

definition walk_chain ::
  "allocator \<Rightarrow> u32 \<Rightarrow> u32 list \<Rightarrow> nat \<Rightarrow> u32 option \<Rightarrow> string \<Rightarrow> u32 list outcome" where
  "walk_chain alloc start table addressable expected p =
     and_then (walk_chain_with_declared_tail alloc start table addressable expected p False)
       (\<lambda>(chain, _). Inr chain)"

section \<open>Ownership\<close>

fun validate_pending_tails :: "u32 list \<Rightarrow> bool list \<Rightarrow> u32 list \<Rightarrow> string \<Rightarrow> unit outcome" where
  "validate_pending_tails [] owners table p = Inr ()"
| "validate_pending_tails (t # ts) owners table p =
     (if nth_opt owners (unat t) \<noteq> Some False then
        Inl (malformed p ''declared stream tail aliases an owned sector'')
      else if nth_opt table (unat t) \<noteq> Some FREE then
        Inl (malformed p ''declared stream tail points to a live orphan chain'')
      else validate_pending_tails ts owners table p)"

fun validate_fat_targets :: "u32 list \<Rightarrow> nat \<Rightarrow> unit outcome" where
  "validate_fat_targets [] sector_count = Inr ()"
| "validate_fat_targets (v # vs) sector_count =
     (if v = END \<or> reserved_marker v then validate_fat_targets vs sector_count
      else and_then (validate_physical v sector_count ''cfb/fat'') (\<lambda>_. validate_fat_targets vs sector_count))"

definition fat_target_is_out_of_bounds :: "u32 \<Rightarrow> nat \<Rightarrow> bool" where
  "fat_target_is_out_of_bounds v sector_count \<longleftrightarrow>
     \<not> (v = END \<or> reserved_marker v) \<and> unat v \<ge> sector_count"

definition claim :: "string \<Rightarrow> u32 \<Rightarrow> bool list \<Rightarrow> bool list outcome" where
  "claim owner sid owners =
     (case nth_opt owners (unat sid) of
        None \<Rightarrow> Inl (malformed owner ''sector is out of bounds'')
      | Some True \<Rightarrow> Inl (malformed owner ''sector overlaps another CFB chain'')
      | Some False \<Rightarrow> Inr (owners[unat sid := True]))"

text \<open>The loop that claims every sector of a chain.\<close>

fun claim_all :: "string \<Rightarrow> u32 list \<Rightarrow> bool list \<Rightarrow> bool list outcome" where
  "claim_all owner [] owners = Inr owners"
| "claim_all owner (i # is) owners = and_then (claim owner i owners) (claim_all owner is)"

section \<open>Accepted chains\<close>

fun linked :: "u32 list \<Rightarrow> u32 list \<Rightarrow> bool" where
  "linked table (x # y # zs) \<longleftrightarrow> nth_opt table (unat x) = Some y \<and> linked table (y # zs)"
| "linked table _ \<longleftrightarrow> True"

definition physical_run :: "u32 list \<Rightarrow> nat \<Rightarrow> u32 list \<Rightarrow> bool" where
  "physical_run table n c \<longleftrightarrow>
     c \<noteq> [] \<and> linked table c \<and> (\<forall>x\<in>set c. unat x < n) \<and> (\<forall>x\<in>set (tl c). x \<noteq> END \<and> \<not> reserved_marker x)"

lemma physical_run_Cons:
  "physical_run table n (x # c) \<longleftrightarrow>
     unat x < n \<and> (c = [] \<or> nth_opt table (unat x) = Some (hd c) \<and> hd c \<noteq> END \<and> \<not> reserved_marker (hd c)
       \<and> physical_run table n c)"
  by (cases c) (auto simp: physical_run_def)

definition ends_at ::
  "u32 \<Rightarrow> u32 list \<Rightarrow> nat \<Rightarrow> nat option \<Rightarrow> string \<Rightarrow> bool \<Rightarrow> nat \<Rightarrow> u32 option \<Rightarrow> u32 \<Rightarrow> bool" where
  "ends_at start table n expected p allow len t x \<longleftrightarrow>
     (\<exists>succ. nth_opt table (unat x) = Some succ \<and>
        (if allow \<and> expected = Some len then declared_tail start table n p len succ = Inr (len, t)
         else succ = END \<and> t = None \<and> (expected = None \<or> expected = Some len)))"

lemma declared_tail_len: "declared_tail start table n p len succ = Inr (k, t) \<Longrightarrow> k = len"
  by (auto simp: declared_tail_def and_then_Inr split: if_splits)

lemma scan_chain_cases:
  assumes "scan_chain start table n expected p allow len cur = Inr (k, t)"
  shows "unat cur < n \<and> len + 1 \<le> n \<and> (\<exists>succ. nth_opt table (unat cur) = Some succ \<and>
     (if allow \<and> expected = Some (len + 1) then declared_tail start table n p (len + 1) succ = Inr (k, t)
      else if succ = END then k = len + 1 \<and> t = None \<and> (expected = None \<or> expected = Some (len + 1))
      else \<not> reserved_marker succ \<and> scan_chain start table n expected p allow (len + 1) succ = Inr (k, t)))"
  using assms unfolding scan_chain.simps [of start table n expected p allow len cur]
  by (cases "allow \<and> expected = Some (len + 1)")
    (auto simp: and_then_Inr table_next_Inr validate_physical_Inr split: if_splits)

lemma scan_chain_run:
  "scan_chain start table n expected p allow len cur = Inr (k, t) \<Longrightarrow>
     \<exists>c. physical_run table n c \<and> hd c = cur \<and> k = len + length c \<and> k \<le> n
       \<and> ends_at start table n expected p allow k t (last c)"
proof (induction "n - len" arbitrary: len cur rule: less_induct)
  case less
  from scan_chain_cases [OF less.prems] obtain succ where cur: "unat cur < n" "len + 1 \<le> n"
    and succ: "nth_opt table (unat cur) = Some succ"
    and rest: "if allow \<and> expected = Some (len + 1) then declared_tail start table n p (len + 1) succ = Inr (k, t)
      else if succ = END then k = len + 1 \<and> t = None \<and> (expected = None \<or> expected = Some (len + 1))
      else \<not> reserved_marker succ \<and> scan_chain start table n expected p allow (len + 1) succ = Inr (k, t)"
    by blast
  show ?case
  proof (cases "(allow \<and> expected = Some (len + 1)) \<or> succ = END")
    case True
    with rest succ have "k = len + 1" "ends_at start table n expected p allow k t cur"
      by (auto simp: ends_at_def dest: declared_tail_len split: if_splits)
    with cur show ?thesis
      by (intro exI [of _ "[cur]"]) (simp add: physical_run_Cons)
  next
    case False
    with rest have res: "\<not> reserved_marker succ"
      and scan: "scan_chain start table n expected p allow (len + 1) succ = Inr (k, t)"
      by (auto split: if_splits)
    from cur have "n - (len + 1) < n - len" by simp
    from less.hyps [OF this scan] obtain c where c: "physical_run table n c" "hd c = succ"
      "k = len + 1 + length c" "k \<le> n" "ends_at start table n expected p allow k t (last c)"
      by blast
    from c(1) have "c \<noteq> []" by (simp add: physical_run_def)
    with c cur succ False res show ?thesis
      by (intro exI [of _ "cur # c"]) (simp add: physical_run_Cons)
  qed
qed

lemma scan_chain_accepts:
  "physical_run table n c \<Longrightarrow> hd c = cur \<Longrightarrow> len + length c \<le> n \<Longrightarrow> len + length c < 2 ^ 64 \<Longrightarrow>
     ends_at start table n expected p allow (len + length c) t (last c) \<Longrightarrow>
     (allow \<Longrightarrow> \<forall>j. 0 < j \<and> j < length c \<longrightarrow> expected \<noteq> Some (len + j)) \<Longrightarrow>
     scan_chain start table n expected p allow len cur = Inr (len + length c, t)"
proof (induction c arbitrary: cur len)
  case Nil
  then show ?case by (simp add: physical_run_def)
next
  case (Cons x c)
  have x: "validate_physical x n p = Inr ()"
    using Cons.prems(1) by (simp add: physical_run_Cons)
  show ?case
  proof (cases "c = []")
    case True
    with Cons.prems(5) obtain succ where "table_next table x p = Inr succ"
      "if allow \<and> expected = Some (len + 1) then declared_tail start table n p (len + 1) succ = Inr (len + 1, t)
       else succ = END \<and> t = None \<and> (expected = None \<or> expected = Some (len + 1))"
      by (auto simp: ends_at_def table_next_Inr)
    with Cons.prems(2-4) True x show ?thesis
      by (subst scan_chain.simps) auto
  next
    case False
    from Cons.prems(1) False have nx: "nth_opt table (unat x) = Some (hd c)"
      and h: "hd c \<noteq> END" "\<not> reserved_marker (hd c)" and run: "physical_run table n c"
      by (simp_all add: physical_run_Cons)
    have un: "\<not> (allow \<and> expected = Some (len + 1))"
    proof
      assume "allow \<and> expected = Some (len + 1)"
      with Cons.prems(6) have "\<not> (0 < (1::nat) \<and> 1 < length (x # c))" by fastforce
      with False show False by (cases c) auto
    qed
    have "scan_chain start table n expected p allow (len + 1) (hd c) = Inr ((len + 1) + length c, t)"
    proof (rule Cons.IH [OF run refl])
      show "ends_at start table n expected p allow (len + 1 + length c) t (last c)"
        using Cons.prems(5) False by simp
      assume allow
      show "\<forall>j. 0 < j \<and> j < length c \<longrightarrow> expected \<noteq> Some (len + 1 + j)"
        using Cons.prems(6) [OF \<open>allow\<close>]
        by (metis Suc_less_eq add.assoc length_Cons plus_1_eq_Suc zero_less_Suc)
    qed (use Cons.prems in auto)
    with Cons.prems x nx h un show ?thesis
      by (subst scan_chain.simps) (auto simp: table_next_def)
  qed
qed

lemma collect_chain_linked:
  "collect_chain table p k cur = Inr c \<longleftrightarrow>
     length c = k \<and> (k > 0 \<longrightarrow> hd c = cur \<and> linked table c \<and> nth_opt table (unat (last c)) \<noteq> None)"
proof (induction k arbitrary: cur c)
  case (Suc k)
  show ?case
  proof (cases c)
    case (Cons x d)
    then show ?thesis
      by (cases d) (auto simp: and_then_Inr table_next_Inr Suc)
  qed (auto simp: and_then_Inr)
qed auto

text \<open>What a chain of a compound file is: distinct physical sectors, each linked to the next.\<close>

definition sector_chain :: "u32 list \<Rightarrow> nat \<Rightarrow> u32 \<Rightarrow> u32 list \<Rightarrow> bool" where
  "sector_chain table n start c \<longleftrightarrow>
     c \<noteq> [] \<and> hd c = start \<and> linked table c \<and> distinct c
       \<and> (\<forall>x\<in>set c. unat x < n \<and> x \<noteq> END \<and> \<not> reserved_marker x)"

lemma linked_nth:
  "linked table c \<Longrightarrow> Suc i < length c \<Longrightarrow> nth_opt table (unat (c ! i)) = Some (c ! Suc i)"
  by (induction table c arbitrary: i rule: linked.induct) (auto simp: nth_Cons split: nat.splits)

text \<open>A run that leaves itself never repeats a sector.\<close>

lemma linked_distinct:
  "linked table c \<Longrightarrow> c \<noteq> [] \<Longrightarrow> nth_opt table (unat (last c)) = Some e \<Longrightarrow> e \<notin> set c \<Longrightarrow> distinct c"
proof (induction c)
  case (Cons x d)
  show ?case
  proof (cases "d = []")
    case False
    from Cons.prems(1) False have nx: "nth_opt table (unat x) = Some (hd d)" and ld: "linked table d"
      by (cases d; simp)+
    with Cons False have dd: "distinct d" by simp
    have "x \<notin> set d"
    proof
      assume "x \<in> set d"
      then obtain i where i: "i < length d" "d ! i = x" by (auto simp: in_set_conv_nth)
      have hd: "hd d = d ! 0" using False by (simp add: hd_conv_nth)
      show False
      proof (cases "Suc i < length d")
        case True
        with linked_nth [OF ld True] i nx hd have "d ! Suc i = d ! 0" by simp
        with dd True show False using nth_eq_iff_index_eq [OF dd True, of 0] by fastforce
      next
        case F: False
        with i False have "last d = x" by (metis Suc_lessI diff_Suc_1 last_conv_nth)
        with Cons.prems(3) nx False have "e = hd d" by simp
        with Cons.prems(4) False show False by simp
      qed
    qed
    with dd show ?thesis by simp
  qed simp
qed simp

lemma tail_cycle_Inr:
  "linked table c \<Longrightarrow> c \<noteq> [] \<Longrightarrow> nth_opt table (unat (last c)) = Some e \<Longrightarrow>
     tail_cycle table t p (length c) (hd c) = Inr u \<longleftrightarrow> t \<notin> set c"
proof (induction c)
  case (Cons x d)
  then show ?case by (cases d) (auto simp: table_next_def and_then_Inr)
qed simp

lemma sector_chain_length:
  assumes "distinct (c :: u32 list)" "\<forall>x\<in>set c. unat x < n"
  shows "length c \<le> n \<and> length c < 2 ^ 64"
proof -
  have bound: "length c \<le> k" if "\<forall>x\<in>set c. unat x < k" for k
  proof -
    have "length c = card (unat ` set c)"
      using assms(1) by (subst card_image) (auto simp: inj_on_def word_unat_eq_iff distinct_card)
    also have "\<dots> \<le> card {..<k}" using that by (intro card_mono) auto
    finally show ?thesis by simp
  qed
  have "unat (x :: u32) < 2 ^ 32" for x using unat_less_2p [of x] by simp
  then have "length c \<le> 2 ^ 32" by (intro bound) blast
  with bound [OF assms(2)] show ?thesis by simp
qed

lemma ends_at_iff:
  assumes "linked table c" "c \<noteq> []" "hd c = start"
  shows "ends_at start table n expected p allow (length c) t (last c) \<longleftrightarrow>
     (case expected of None \<Rightarrow> True | Some k \<Rightarrow> k = length c) \<and>
     (\<exists>e. nth_opt table (unat (last c)) = Some e \<and>
       (t = None \<and> e = END \<or>
        allow \<and> expected \<noteq> None \<and> t = Some e \<and> e \<noteq> END \<and> \<not> reserved_marker e \<and> unat e < n \<and> e \<notin> set c))"
proof (cases "nth_opt table (unat (last c))")
  case (Some e)
  have "(declared_tail start table n p (length c) e = Inr (length c, t)) \<longleftrightarrow>
      (t = None \<and> e = END \<or> t = Some e \<and> e \<noteq> END \<and> \<not> reserved_marker e \<and> unat e < n \<and> e \<notin> set c)"
    using tail_cycle_Inr [OF assms(1,2) Some, of e p "()"] assms(3)
    by (auto simp: declared_tail_def and_then_Inr validate_physical_Inr)
  with Some show ?thesis
    by (cases expected) (auto simp: ends_at_def)
qed (simp add: ends_at_def)

text \<open>
  The contract of the walk: no sectors without a start, or a sector chain of the declared length
  whose last sector points to the end marker or, where a declared tail is tolerated, to a further
  physical sector outside the chain.
\<close>

definition accepted_chain ::
  "allocator \<Rightarrow> u32 \<Rightarrow> u32 list \<Rightarrow> nat \<Rightarrow> u32 option \<Rightarrow> bool \<Rightarrow> u32 list \<Rightarrow> u32 option \<Rightarrow> bool" where
  "accepted_chain alloc start table n expected allow c t \<longleftrightarrow>
     (if expected = Some 0 then (start = END \<or> start = FREE) \<and> c = [] \<and> t = None
      else sector_chain table n start c \<and> alloc (length c) = None \<and>
        (case expected of None \<Rightarrow> True | Some k \<Rightarrow> unat k = length c) \<and>
        (\<exists>e. nth_opt table (unat (last c)) = Some e \<and>
          (t = None \<and> e = END \<or>
           allow \<and> expected \<noteq> None \<and> t = Some e \<and> e \<noteq> END \<and> \<not> reserved_marker e
             \<and> unat e < n \<and> e \<notin> set c)))"

lemma walk_accepts:
  "walk_chain_with_declared_tail alloc start table n expected p allow = Inr (c, t) \<longleftrightarrow>
     accepted_chain alloc start table n expected allow c t"
proof (cases "expected = Some 0 \<or> start = END \<or> reserved_marker start")
  case True
  then show ?thesis
    by (cases c) (auto simp: walk_chain_with_declared_tail_def sector_chain_def accepted_chain_def)
next
  case False
  have zero: "map_option unat expected = Some k \<longleftrightarrow> (\<exists>x. expected = Some x \<and> unat x = k)" for k
    by auto
  show ?thesis
  proof
    assume "walk_chain_with_declared_tail alloc start table n expected p allow = Inr (c, t)"
    with False obtain k where scan: "scan_chain start table n (map_option unat expected) p allow 0 start = Inr (k, t)"
      and alloc: "alloc k = None" and c: "collect_chain table p k start = Inr c"
      by (auto simp: walk_chain_with_declared_tail_def and_then_Inr split: if_splits)
    from scan_chain_run [OF scan] obtain d where d: "physical_run table n d" "hd d = start" "k = length d"
      and e: "ends_at start table n (map_option unat expected) p allow (length d) t (last d)"
      by auto
    have "d \<noteq> []" "linked table d" using d(1) by (simp_all add: physical_run_def)
    note ei = ends_at_iff [OF \<open>linked table d\<close> \<open>d \<noteq> []\<close> d(2), THEN iffD1, OF e]
    from ei have "collect_chain table p k start = Inr d"
      using d \<open>d \<noteq> []\<close> \<open>linked table d\<close> by (auto simp: collect_chain_linked)
    with c have "d = c" by simp
    obtain z where z: "nth_opt table (unat (last d)) = Some z" "z \<notin> set d"
      using ei d False by (cases d) (auto simp: physical_run_def)
    have "distinct d"
      by (rule linked_distinct [OF \<open>linked table d\<close> \<open>d \<noteq> []\<close> z])
    with d ei alloc False show "accepted_chain alloc start table n expected allow c t"
      unfolding \<open>d = c\<close> accepted_chain_def
      by (cases c) (auto simp: sector_chain_def physical_run_def split: option.splits)
  next
    assume "accepted_chain alloc start table n expected allow c t"
    with False have sc: "sector_chain table n start c" and alloc: "alloc (length c) = None"
      and ex: "case expected of None \<Rightarrow> True | Some k \<Rightarrow> unat k = length c"
      and e: "\<exists>e. nth_opt table (unat (last c)) = Some e \<and>
          (t = None \<and> e = END \<or> allow \<and> expected \<noteq> None \<and> t = Some e \<and> e \<noteq> END
             \<and> \<not> reserved_marker e \<and> unat e < n \<and> e \<notin> set c)"
      by (auto simp: accepted_chain_def)
    have run: "physical_run table n c"
      using sc by (auto simp: physical_run_def sector_chain_def dest: list.set_sel(2))
    have ne: "c \<noteq> []" and lk: "linked table c" and hd: "hd c = start" and di: "distinct c"
      using sc by (simp_all add: sector_chain_def)
    from sector_chain_length [OF di, of n] sc have len: "length c \<le> n" "length c < 2 ^ 64"
      by (auto simp: sector_chain_def)
    have "ends_at start table n (map_option unat expected) p allow (length c) t (last c)"
      using e ex by (subst ends_at_iff [OF lk ne hd]) (auto split: option.splits)
    then have "scan_chain start table n (map_option unat expected) p allow 0 start = Inr (0 + length c, t)"
      using len ex by (intro scan_chain_accepts [OF run hd]) (auto split: option.splits)
    moreover have "collect_chain table p (length c) start = Inr c"
      using e ne lk hd by (auto simp: collect_chain_linked)
    ultimately show "walk_chain_with_declared_tail alloc start table n expected p allow = Inr (c, t)"
      using False alloc by (auto simp: walk_chain_with_declared_tail_def)
  qed
qed

text \<open>
  Claim C29. The chain walk returns exactly the sector chains of the allocation table: distinct
  sectors inside the file, each the successor of the previous, of the declared length, ending at
  the end marker or (where the declared tail is tolerated) before a further physical sector
  outside the chain. An empty chain is accepted only without a start sector.
\<close>

theorem accepted_chains_are_sector_chains:
  "walk_chain_with_declared_tail alloc start table n expected p allow = Inr (c, t) \<longleftrightarrow>
     accepted_chain alloc start table n expected allow c t"
  by (rule walk_accepts)

section \<open>Claims\<close>

definition owned :: "bool list \<Rightarrow> nat set" where
  "owned owners = {i. i < length owners \<and> owners ! i}"

lemma claim_Inr:
  "claim owner i owners = Inr owners' \<longleftrightarrow>
     unat i < length owners \<and> unat i \<notin> owned owners \<and> owners' = owners[unat i := True]"
  by (auto simp: claim_def nth_opt_def owned_def split: option.splits bool.splits)

lemma owned_update: "k < length owners \<Longrightarrow> owned (owners[k := True]) = insert k (owned owners)"
  by (auto simp: owned_def nth_list_update)

text \<open>Claiming a list of sectors succeeds when none is owned yet and none repeats; it adds exactly them.\<close>

lemma claim_all_Inr:
  "claim_all owner is owners = Inr owners' \<Longrightarrow>
     distinct is \<and> length owners' = length owners \<and> unat ` set is \<inter> owned owners = {}
       \<and> owned owners' = owned owners \<union> unat ` set is"
proof (induction "is" arbitrary: owners)
  case (Cons i ks)
  from Cons.prems have i: "unat i < length owners" "unat i \<notin> owned owners"
    and rest: "claim_all owner ks (owners[unat i := True]) = Inr owners'"
    by (auto simp: and_then_Inr claim_Inr)
  from Cons.IH [OF rest] i show ?case
    by (auto simp: owned_update)
qed simp

lemma owned_replicate [simp]: "owned (replicate n False) = {}"
  by (auto simp: owned_def)

lemma validate_pending_tails_Inr:
  "validate_pending_tails ts owners table p = Inr u \<longleftrightarrow>
     (\<forall>t\<in>set ts. nth_opt owners (unat t) = Some False \<and> nth_opt table (unat t) = Some FREE)"
  by (induction ts) auto

end
