(* ===== verification/Cfb_Directory.thy ===== *)
theory Cfb_Directory
  imports Cfb_Chain "HOL-Library.List_Lexorder" "HOL-Library.Char_ord" "HOL-Library.Product_Lexorder"
begin

text \<open>
  The directory of a compound file: \<open>crates/converters/src/msg/ole/directory.rs\<close> and the
  recovery set of \<open>ole.rs\<close>. Entries are parsed in the order of the directory sectors, the
  sibling trees are walked once to give every entry its parent storage, and paths are built by
  following the parents to the root.
\<close>

section \<open>Recoveries\<close>

datatype CompoundCompatibility = Strict | LegacyOfficeBestEffort

datatype CompoundRecovery =
    TrailingFileBytes | FatSectorMarker | UnreachableFatTarget | DirectoryNameTerminator
  | RootStorageName | StorageStreamMetadata | StreamChainTail | PartialStreamSector

fun recovery_index :: "CompoundRecovery \<Rightarrow> nat" where
  "recovery_index TrailingFileBytes = 0"
| "recovery_index FatSectorMarker = 1"
| "recovery_index UnreachableFatTarget = 2"
| "recovery_index DirectoryNameTerminator = 3"
| "recovery_index RootStorageName = 4"
| "recovery_index StorageStreamMetadata = 5"
| "recovery_index StreamChainTail = 6"
| "recovery_index PartialStreamSector = 7"

definition all_recoveries :: "CompoundRecovery list" where
  "all_recoveries = [TrailingFileBytes, FatSectorMarker, UnreachableFatTarget, DirectoryNameTerminator,
     RootStorageName, StorageStreamMetadata, StreamChainTail, PartialStreamSector]"

text \<open>\<open>CompoundRecoveries\<close> is a 16-bit set.\<close>

type_synonym CompoundRecoveries = u16

unbundle bit_operations_syntax

definition insert_recovery :: "CompoundRecovery \<Rightarrow> CompoundRecoveries \<Rightarrow> CompoundRecoveries" where
  "insert_recovery r s = s OR push_bit (recovery_index r) 1"

definition remove_recovery :: "CompoundRecovery \<Rightarrow> CompoundRecoveries \<Rightarrow> CompoundRecoveries" where
  "remove_recovery r s = s AND NOT (push_bit (recovery_index r) 1)"

definition contains_recovery :: "CompoundRecoveries \<Rightarrow> CompoundRecovery \<Rightarrow> bool" where
  "contains_recovery s r \<longleftrightarrow> s AND push_bit (recovery_index r) 1 \<noteq> 0"

definition iter_recoveries :: "CompoundRecoveries \<Rightarrow> CompoundRecovery list" where
  "iter_recoveries s = filter (contains_recovery s) all_recoveries"

section \<open>Names\<close>

text \<open>\<open>String::from_utf16\<close>: surrogate pairs are joined, a lone surrogate is refused; the result is UTF-8.\<close>

fun decode_utf16 :: "nat list \<Rightarrow> nat list option" where
  "decode_utf16 [] = Some []"
| "decode_utf16 (u # us) =
     (if u < 0xD800 \<or> 0xE000 \<le> u then map_option (\<lambda>vs. u # vs) (decode_utf16 us)
      else if 0xDC00 \<le> u then None
      else case us of
        [] \<Rightarrow> None
      | l # ls \<Rightarrow>
          if 0xDC00 \<le> l \<and> l < 0xE000 then
            map_option (\<lambda>vs. ((u - 0xD800) * 1024 + (l - 0xDC00) + 0x10000) # vs) (decode_utf16 ls)
          else None)"

definition encode_utf8 :: "nat \<Rightarrow> string" where
  "encode_utf8 v =
     (if v < 128 then [char_of v]
      else if v < 2048 then [char_of (192 + v div 64), char_of (128 + v mod 64)]
      else if v < 65536 then
        [char_of (224 + v div 4096), char_of (128 + v div 64 mod 64), char_of (128 + v mod 64)]
      else [char_of (240 + v div 262144), char_of (128 + v div 4096 mod 64),
            char_of (128 + v div 64 mod 64), char_of (128 + v mod 64)])"

definition from_utf16 :: "nat list \<Rightarrow> string option" where
  "from_utf16 us = map_option (\<lambda>vs. concat (map encode_utf8 vs)) (decode_utf16 us)"

text \<open>The UTF-16 units of the 64 name bytes of an entry.\<close>

definition name_units :: "u8 list \<Rightarrow> nat list" where
  "name_units raw = map from_le_bytes (chunks_exact 2 (take 64 raw))"

text \<open>The checks both name readers end with.\<close>

definition checked_name :: "nat list \<Rightarrow> string outcome" where
  "checked_name us =
     (case from_utf16 us of
        None \<Rightarrow> Inl (malformed ''cfb/directory'' ''directory name contains invalid UTF-16'')
      | Some name \<Rightarrow>
          if name = [] \<or> CHR ''/'' \<in> set name \<or> CHR 0x5C \<in> set name then
            Inl (malformed ''cfb/directory'' ''directory name is empty or contains a separator'')
          else Inr name)"

definition parse_directory_name ::
  "u8 list \<Rightarrow> CompoundCompatibility \<Rightarrow> CompoundRecoveries \<Rightarrow> string outcome \<times> CompoundRecoveries" where
  "parse_directory_name raw mode rs =
     (case le16 raw 64 ''cfb/directory'' of
        Inl e \<Rightarrow> (Inl e, rs)
      | Inr w \<Rightarrow>
          (let name_len = unat w; units = name_units raw; declared = name_len div 2;
              zeros = filter (\<lambda>i. units ! i = 0) [0..<length units] in
          if \<not> (2 \<le> name_len \<and> name_len \<le> 64) \<or> name_len mod 2 \<noteq> 0 then
            (Inl (malformed ''cfb/directory'' ''invalid UTF-16 directory name length''), rs)
          else case zeros of
            [] \<Rightarrow> (Inl (malformed ''cfb/directory'' ''directory name is not singly NUL terminated''), rs)
          | i # _ \<Rightarrow>
              if i + 1 = declared then (checked_name (take i units), rs)
              else if mode = LegacyOfficeBestEffort \<and> i > 0 \<and> i < declared
                  \<and> list_all (\<lambda>u. u = 0) (drop (i + 1) units) then
                (checked_name (take i units), insert_recovery DirectoryNameTerminator rs)
              else (Inl (malformed ''cfb/directory'' ''directory name is not singly NUL terminated''), rs)))"

definition recover_root_name_with_uncounted_terminator :: "u8 list \<Rightarrow> string outcome" where
  "recover_root_name_with_uncounted_terminator raw =
     and_then (le16 raw 64 ''cfb/directory'') (\<lambda>w.
       let name_len = unat w; units = name_units raw; declared = name_len div 2 in
       if \<not> (2 \<le> name_len \<and> name_len \<le> 62) \<or> name_len mod 2 \<noteq> 0 then
         Inl (malformed ''cfb/directory'' ''invalid UTF-16 directory name length'')
       else if 0 \<in> set (take declared units) \<or> \<not> list_all (\<lambda>u. u = 0) (drop declared units) then
         Inl (malformed ''cfb/directory'' ''directory name is not singly NUL terminated'')
       else checked_name (take declared units))"

section \<open>Entries\<close>

datatype EntryKind = Storage | Stream | Root

record DirectoryEntry =
  entry_name :: string
  entry_kind :: EntryKind
  left :: u32
  right :: u32
  child :: u32
  start_sector :: u32
  stream_size :: u64
  parent :: "nat option"

definition unused_entry :: DirectoryEntry where
  "unused_entry = \<lparr>entry_name = [], entry_kind = Stream, left = NONE, right = NONE, child = NONE,
     start_sector = END, stream_size = 0, parent = None\<rparr>"

text \<open>One 128-byte entry; the recoveries found survive a failure of the name, as the caller retries it.\<close>

definition entry_name_of ::
  "nat \<Rightarrow> u8 list \<Rightarrow> CompoundCompatibility \<Rightarrow> CompoundRecoveries \<Rightarrow> (string \<times> CompoundRecoveries) outcome" where
  "entry_name_of index raw mode rs =
     (case parse_directory_name raw mode rs of
        (Inr name, rs') \<Rightarrow> Inr (name, rs')
      | (Inl e, rs') \<Rightarrow>
          if index = 0 \<and> mode = LegacyOfficeBestEffort then
            and_then (recover_root_name_with_uncounted_terminator raw) (\<lambda>name. Inr (name, rs'))
          else Inl e)"

definition entry_kind_of :: "nat \<Rightarrow> u8 \<Rightarrow> EntryKind outcome" where
  "entry_kind_of index t =
     (if t = 1 then Inr Storage
      else if t = 2 then Inr Stream
      else if t = 5 \<and> index = 0 then Inr Root
      else Inl (malformed ''cfb/directory'' ''invalid directory object type''))"

definition parse_entry ::
  "nat \<Rightarrow> u8 list \<Rightarrow> u16 \<Rightarrow> CompoundCompatibility \<Rightarrow> CompoundRecoveries
     \<Rightarrow> (DirectoryEntry \<times> CompoundRecoveries) outcome" where
  "parse_entry index raw major mode rs =
     (if raw ! 66 = 0 then Inr (unused_entry, rs)
      else
        and_then (entry_kind_of index (raw ! 66)) (\<lambda>kd.
        if raw ! 67 \<noteq> 0 \<and> raw ! 67 \<noteq> 1 then
          Inl (malformed ''cfb/directory'' ''invalid red-black directory color'')
        else and_then (entry_name_of index raw mode rs) (\<lambda>(name, rs).
        and_then (le32 raw 76 ''cfb/directory'') (\<lambda>chd.
        if kd = Stream \<and> chd \<noteq> NONE then
          Inl (malformed ''cfb/directory'' ''stream directory entry has children'')
        else and_then (le64 raw 120 ''cfb/directory'') (\<lambda>raw_size.
        let sz = (if major = 3 then raw_size AND 0xffffffff else raw_size) in
        and_then (le32 raw 116 ''cfb/directory'') (\<lambda>st.
        let redundant = kd = Storage \<and> (sz \<noteq> 0 \<or> (st \<noteq> END \<and> st \<noteq> FREE)) in
        if redundant \<and> mode = Strict then
          Inl (malformed ''cfb/directory'' ''storage entry declares stream sectors or a non-zero size'')
        else and_then (le32 raw 68 ''cfb/directory'') (\<lambda>l.
        and_then (le32 raw 72 ''cfb/directory'') (\<lambda>r.
        Inr (\<lparr>entry_name = name, entry_kind = kd, left = l, right = r, child = chd, start_sector = st,
              stream_size = sz, parent = None\<rparr>,
             if redundant then insert_recovery StorageStreamMetadata rs else rs)))))))))"

fun parse_entries ::
  "'b CompoundBudget \<Rightarrow> nat \<Rightarrow> u8 list list \<Rightarrow> u16 \<Rightarrow> CompoundCompatibility \<Rightarrow> CompoundRecoveries
     \<Rightarrow> ('b, DirectoryEntry list \<times> CompoundRecoveries) budgeted" where
  "parse_entries ops index [] major mode rs = give (Inr ([], rs))"
| "parse_entries ops index (raw # rest) major mode rs =
     try_do (cfb_entry ops) (\<lambda>_.
     try_do (give (parse_entry index raw major mode rs)) (\<lambda>(e, rs).
     try_do (parse_entries ops (index + 1) rest major mode rs) (\<lambda>(es, rs).
     give (Inr (e # es, rs)))))"

definition check_root :: "CompoundCompatibility \<Rightarrow> DirectoryEntry list \<Rightarrow> CompoundRecoveries
     \<Rightarrow> (DirectoryEntry list \<times> CompoundRecoveries) outcome" where
  "check_root mode es rs =
     (case es of
        [] \<Rightarrow> Inl (malformed ''cfb/directory'' ''entry zero is not the root storage'')
      | e # _ \<Rightarrow>
          if entry_kind e \<noteq> Root then Inl (malformed ''cfb/directory'' ''entry zero is not the root storage'')
          else if entry_name e \<noteq> ''Root Entry'' \<and> mode = Strict then
            Inl (malformed ''cfb/directory'' ''root storage has an invalid name'')
          else if left e \<noteq> NONE \<or> right e \<noteq> NONE then
            Inl (malformed ''cfb/directory'' ''root entry has sibling links'')
          else Inr (es, if entry_name e \<noteq> ''Root Entry'' then insert_recovery RootStorageName rs else rs))"

definition parse_directory ::
  "'b CompoundBudget \<Rightarrow> allocator \<Rightarrow> u8 list \<Rightarrow> u16 \<Rightarrow> CompoundCompatibility \<Rightarrow> CompoundRecoveries
     \<Rightarrow> ('b, DirectoryEntry list \<times> CompoundRecoveries) budgeted" where
  "parse_directory ops alloc bs major mode rs =
     (if length bs mod 128 \<noteq> 0 then
        give (Inl (malformed ''cfb/directory'' ''directory stream is not entry aligned''))
      else
        try_do (give (try_vec_capacity alloc (length bs div 128) ''CFB directory entries'')) (\<lambda>_.
        try_do (parse_entries ops 0 (chunks_exact 128 bs) major mode rs) (\<lambda>(es, rs).
        give (check_root mode es rs))))"

section \<open>The storage tree\<close>

text \<open>
  \<open>visit_tree\<close> walks a sibling tree in order: the left sibling, the entry itself, the children of
  a storage, the right sibling. Its recursion depth is bounded by the nesting limit; the depth
  counters are 16-bit integers that wrap. Indexing the visited flags out of range panics.
\<close>

definition index_panic :: "'a outcome" where
  "index_panic = Inl (Internal ''index out of bounds'')"

definition enter_entry :: "DirectoryEntry list \<Rightarrow> bool list \<Rightarrow> nat \<Rightarrow> DirectoryEntry outcome" where
  "enter_entry es seen i =
     (if i \<ge> length es \<or> entry_name (es ! i) = [] then
        Inl (malformed ''cfb/directory'' ''directory link is out of bounds or empty'')
      else case nth_opt seen i of
        None \<Rightarrow> index_panic
      | Some True \<Rightarrow> Inl (malformed ''cfb/directory'' ''directory graph contains a cycle or shared child'')
      | Some False \<Rightarrow> Inr (es ! i))"

function visit_tree ::
  "'b CompoundBudget \<Rightarrow> u32 \<Rightarrow> nat option \<Rightarrow> u16 \<Rightarrow> u16 \<Rightarrow> DirectoryEntry list \<Rightarrow> bool list
     \<Rightarrow> ('b, DirectoryEntry list \<times> bool list) budgeted" where
  "visit_tree ops index par storage_depth tree_depth es seen b =
     (if index = NONE then (Inr (es, seen), b)
      else try_do (cfb_depth ops (max storage_depth tree_depth) ''cfb/directory'') (\<lambda>_.
        try_do (give (enter_entry es seen (unat index))) (\<lambda>entry.
        try_do (visit_tree ops (left entry) par storage_depth (tree_depth + 1) es (seen[unat index := True])) (\<lambda>s.
        try_do (\<lambda>b.
            let es1 = (fst s)[unat index := (fst s ! unat index)\<lparr>parent := par\<rparr>] in
            if entry_kind entry = Storage
            then visit_tree ops (child entry) (Some (unat index)) (storage_depth + 1) 0 es1 (snd s) b
            else (Inr (es1, snd s), b)) (\<lambda>s.
        visit_tree ops (right entry) par storage_depth (tree_depth + 1) (fst s) (snd s))))) b)"
  by pat_completeness auto

text \<open>The flags of the walk only grow, so each nested call has fewer entries left to visit.\<close>

definition unseen :: "bool list \<Rightarrow> nat" where
  "unseen seen = length (filter Not seen)"

definition grows :: "bool list \<Rightarrow> bool list \<Rightarrow> bool" where
  "grows s t \<longleftrightarrow> length t = length s \<and> (\<forall>i < length s. s ! i \<longrightarrow> t ! i)"

lemma grows_refl [simp]: "grows s s"
  by (simp add: grows_def)

lemma grows_trans: "grows s t \<Longrightarrow> grows t u \<Longrightarrow> grows s u"
  by (auto simp: grows_def)

lemma grows_mark: "grows s (s[i := True])"
  by (cases "i < length s") (auto simp: grows_def nth_list_update)

lemma unseen_card: "unseen s = card {i. i < length s \<and> \<not> s ! i}"
  by (simp add: unseen_def length_filter_conv_card)

lemma grows_unseen: "grows s t \<Longrightarrow> unseen t \<le> unseen s"
  unfolding unseen_card by (rule card_mono) (auto simp: grows_def)

lemma enter_entry_Inr:
  "enter_entry es seen i = Inr e \<longleftrightarrow>
     i < length es \<and> entry_name (es ! i) \<noteq> [] \<and> i < length seen \<and> \<not> seen ! i \<and> e = es ! i"
  by (auto simp: enter_entry_def nth_opt_def index_panic_def split: bool.splits option.splits)

lemma unseen_mark: "enter_entry es s i = Inr e \<Longrightarrow> unseen (s[i := True]) < unseen s"
  unfolding unseen_card
  by (rule psubset_card_mono) (auto simp: enter_entry_Inr nth_list_update split: if_splits)

lemma visit_tree_grows:
  "visit_tree_dom (ops, index, par, sd, td, es, seen, b) \<Longrightarrow>
     visit_tree ops index par sd td es seen b = (Inr s, b') \<Longrightarrow> grows seen (snd s)"
proof (induction ops index par sd td es seen b arbitrary: s b' rule: visit_tree.pinduct)
  case (1 ops index par sd td es seen b)
  show ?case
  proof (cases "index = NONE")
    case True
    with "1.prems" [unfolded visit_tree.psimps [OF "1.hyps"]] show ?thesis by auto
  next
    case False
    with "1.prems" obtain u b1 e s1 b2 s2 b3 where
      depth: "cfb_depth ops (max sd td) ''cfb/directory'' b = (Inr u, b1)"
      and enter: "enter_entry es seen (unat index) = Inr e"
      and l: "visit_tree ops (left e) par sd (td + 1) es (seen[unat index := True]) b1 = (Inr s1, b2)"
      and c: "(let es1 = (fst s1)[unat index := (fst s1 ! unat index)\<lparr>parent := par\<rparr>] in
            if entry_kind e = Storage
            then visit_tree ops (child e) (Some (unat index)) (sd + 1) 0 es1 (snd s1) b2
            else (Inr (es1, snd s1), b2)) = (Inr s2, b3)"
      and r: "visit_tree ops (right e) par sd (td + 1) (fst s2) (snd s2) b3 = (Inr s, b')"
      by (auto simp: visit_tree.psimps [OF "1.hyps"] try_do_Inr)
    have "grows (seen[unat index := True]) (snd s1)"
      using False depth enter l by (intro "1.IH"(1)) auto
    moreover have "grows (snd s1) (snd s2)"
    proof (cases "entry_kind e = Storage")
      case True
      with c show ?thesis using False depth enter l by (intro "1.IH"(2)) (auto simp: Let_def)
    qed (use c in \<open>auto simp: Let_def\<close>)
    moreover have "grows (snd s2) (snd s)"
      using False depth enter l c r by (intro "1.IH"(3)) auto
    ultimately show ?thesis using grows_mark grows_trans by blast
  qed
qed

lemma visit_left_unseen:
  assumes "visit_tree_dom (ops, lf, par, sd, td, es, seen[i := True], b)"
    and "visit_tree ops lf par sd td es (seen[i := True]) b = (Inr s, b')"
    and "enter_entry es0 seen i = Inr e"
  shows "unseen (snd s) < unseen seen"
  using grows_unseen [OF visit_tree_grows [OF assms(1,2)]] unseen_mark [OF assms(3)] by simp

lemma visit_children_unseen:
  assumes "(let es1 = es' in if st then visit_tree ops ch par sd td es1 t b else (Inr (es1, t), b)) = (Inr s, b')"
    and "st \<Longrightarrow> visit_tree_dom (ops, ch, par, sd, td, es', t, b)"
    and "unseen t < unseen seen"
  shows "unseen (snd s) < unseen seen"
proof (cases st)
  case True
  with assms(1) have "visit_tree ops ch par sd td es' t b = (Inr s, b')" by (simp add: Let_def)
  from grows_unseen [OF visit_tree_grows [OF assms(2) [OF True] this]] assms(3) show ?thesis by simp
qed (use assms in \<open>auto simp: Let_def\<close>)

termination visit_tree
proof (relation "measure (\<lambda>(ops, index, par, sd, td, es, seen, b). unseen seen)", goal_cases)
  case (2 ops index par sd td es seen b)
  then show ?case by (auto intro: unseen_mark)
next
  case (3 ops index par sd td es seen b)
  then show ?case by (auto intro: visit_left_unseen)
next
  case (4 ops index par sd td es seen b)
  then show ?case
    by clarsimp (erule visit_children_unseen; blast intro: visit_left_unseen)
qed simp

declare visit_tree.simps [simp del]

section \<open>The walk as a relation\<close>

text \<open>
  The effect of an accepted walk on the entries and the flags, without its budget: one rule for an
  absent link, one for an entry without children and one for a storage.
\<close>

inductive visits ::
  "u32 \<Rightarrow> nat option \<Rightarrow> DirectoryEntry list \<Rightarrow> bool list \<Rightarrow> DirectoryEntry list \<Rightarrow> bool list \<Rightarrow> bool" where
  visit_none: "visits NONE par es seen es seen"
| visit_leaf: "enter_entry es seen (unat index) = Inr e \<Longrightarrow> entry_kind e \<noteq> Storage \<Longrightarrow>
     visits (left e) par es (seen[unat index := True]) es2 seen2 \<Longrightarrow>
     visits (right e) par (es2[unat index := (es2 ! unat index)\<lparr>parent := par\<rparr>]) seen2 es' seen' \<Longrightarrow>
     visits index par es seen es' seen'"
| visit_storage: "enter_entry es seen (unat index) = Inr e \<Longrightarrow> entry_kind e = Storage \<Longrightarrow>
     visits (left e) par es (seen[unat index := True]) es2 seen2 \<Longrightarrow>
     visits (child e) (Some (unat index)) (es2[unat index := (es2 ! unat index)\<lparr>parent := par\<rparr>]) seen2 es3 seen3 \<Longrightarrow>
     visits (right e) par es3 seen3 es' seen' \<Longrightarrow>
     visits index par es seen es' seen'"

lemma visit_tree_visits:
  "visit_tree ops index par sd td es seen b = (Inr s, b') \<Longrightarrow> visits index par es seen (fst s) (snd s)"
proof (induction ops index par sd td es seen b arbitrary: s b' rule: visit_tree.induct)
  case (1 ops index par sd td es seen b)
  show ?case
  proof (cases "index = NONE")
    case True
    with "1.prems" [unfolded visit_tree.simps [of ops index par sd td es seen b]] show ?thesis
      by (auto intro: visit_none)
  next
    case False
    with "1.prems" [unfolded visit_tree.simps [of ops index par sd td es seen b]]
    obtain u b1 e s1 b2 s2 b3 where
      depth: "cfb_depth ops (max sd td) ''cfb/directory'' b = (Inr u, b1)"
      and enter: "enter_entry es seen (unat index) = Inr e"
      and l: "visit_tree ops (left e) par sd (td + 1) es (seen[unat index := True]) b1 = (Inr s1, b2)"
      and c: "(let es1 = (fst s1)[unat index := (fst s1 ! unat index)\<lparr>parent := par\<rparr>] in
            if entry_kind e = Storage
            then visit_tree ops (child e) (Some (unat index)) (sd + 1) 0 es1 (snd s1) b2
            else (Inr (es1, snd s1), b2)) = (Inr s2, b3)"
      and r: "visit_tree ops (right e) par sd (td + 1) (fst s2) (snd s2) b3 = (Inr s, b')"
      by (auto simp: try_do_Inr)
    have left: "visits (left e) par es (seen[unat index := True]) (fst s1) (snd s1)"
      using False depth enter l by (intro "1.IH"(1)) auto
    have right: "visits (right e) par (fst s2) (snd s2) (fst s) (snd s)"
      using False depth enter l c r by (intro "1.IH"(3)) auto
    show ?thesis
    proof (cases "entry_kind e = Storage")
      case True
      with c have "visits (child e) (Some (unat index))
          ((fst s1)[unat index := (fst s1 ! unat index)\<lparr>parent := par\<rparr>]) (snd s1) (fst s2) (snd s2)"
        using False depth enter l by (intro "1.IH"(2)) (auto simp: Let_def)
      from visit_storage [OF enter True left this right] show ?thesis .
    next
      case stream: False
      with c have "s2 = ((fst s1)[unat index := (fst s1 ! unat index)\<lparr>parent := par\<rparr>], snd s1)"
        by (simp add: Let_def)
      with right show ?thesis by (intro visit_leaf [OF enter stream left]) simp
    qed
  qed
qed

text \<open>Only newly flagged entries change, and of those only the parent.\<close>

definition only_parents :: "DirectoryEntry list \<Rightarrow> DirectoryEntry list \<Rightarrow> bool" where
  "only_parents es es' \<longleftrightarrow> map (parent_update (\<lambda>_. None)) es' = map (parent_update (\<lambda>_. None)) es"

lemma only_parents_refl [simp]: "only_parents es es"
  by (simp add: only_parents_def)

lemma only_parents_trans: "only_parents a b \<Longrightarrow> only_parents b c \<Longrightarrow> only_parents a c"
  by (simp add: only_parents_def)

lemma only_parents_length: "only_parents es es' \<Longrightarrow> length es' = length es"
  unfolding only_parents_def by (metis length_map)

lemma only_parents_fields:
  assumes "only_parents es es'" "i < length es"
  shows "entry_name (es' ! i) = entry_name (es ! i)" "entry_kind (es' ! i) = entry_kind (es ! i)"
    "start_sector (es' ! i) = start_sector (es ! i)" "stream_size (es' ! i) = stream_size (es ! i)"
proof -
  have "(es' ! i)\<lparr>parent := None\<rparr> = (es ! i)\<lparr>parent := None\<rparr>"
    using assms only_parents_length [OF assms(1)] unfolding only_parents_def by (metis nth_map)
  then have "f ((es' ! i)\<lparr>parent := None\<rparr>) = f ((es ! i)\<lparr>parent := None\<rparr>)" for f :: "DirectoryEntry \<Rightarrow> 'z"
    by simp
  from this [of entry_name] this [of entry_kind] this [of start_sector] this [of stream_size]
  show "entry_name (es' ! i) = entry_name (es ! i)" "entry_kind (es' ! i) = entry_kind (es ! i)"
    "start_sector (es' ! i) = start_sector (es ! i)" "stream_size (es' ! i) = stream_size (es ! i)"
    by simp_all
qed

lemma only_parents_set: "only_parents es (es[i := (es ! i)\<lparr>parent := p\<rparr>])"
  by (cases "i < length es") (simp_all add: only_parents_def map_update list_update_same_conv list_update_beyond)

definition keeps_seen :: "DirectoryEntry list \<Rightarrow> bool list \<Rightarrow> DirectoryEntry list \<Rightarrow> bool list \<Rightarrow> bool" where
  "keeps_seen es seen es' seen' \<longleftrightarrow>
     length seen = length es \<and> grows seen seen' \<and> only_parents es es'
       \<and> (\<forall>i < length es. seen ! i \<or> \<not> seen' ! i \<longrightarrow> es' ! i = es ! i)"

lemma keeps_seen_lengths:
  "keeps_seen es seen es' seen' \<Longrightarrow> length seen = length es \<and> length es' = length es \<and> length seen' = length es"
  by (auto simp: keeps_seen_def grows_def dest: only_parents_length)

lemma keeps_seen_refl: "length seen = length es \<Longrightarrow> keeps_seen es seen es seen"
  by (simp add: keeps_seen_def)

lemma keeps_seen_trans:
  assumes "keeps_seen a s b t" "keeps_seen b t c u"
  shows "keeps_seen a s c u"
proof -
  from keeps_seen_lengths [OF assms(1)] have "length b = length a" "length s = length a" by simp_all
  with assms show ?thesis
    unfolding keeps_seen_def by (metis grows_def grows_trans only_parents_trans)
qed

text \<open>Entering an entry: it is flagged, its left tree is walked, then its parent is set.\<close>

lemma keeps_seen_enter:
  assumes "keeps_seen es (seen[i := True]) es2 seen2" and "i < length es" "\<not> seen ! i"
  shows "keeps_seen es seen (es2[i := (es2 ! i)\<lparr>parent := p\<rparr>]) seen2"
proof -
  have g: "grows seen seen2"
    using assms(1) grows_mark grows_trans unfolding keeps_seen_def by blast
  have o: "only_parents es (es2[i := (es2 ! i)\<lparr>parent := p\<rparr>])"
    using assms(1) only_parents_set only_parents_trans unfolding keeps_seen_def by blast
  have "seen2 ! i" using assms by (auto simp: keeps_seen_def grows_def)
  with assms(1,3) have "es2[i := (es2 ! i)\<lparr>parent := p\<rparr>] ! j = es ! j"
    if "j < length es" "seen ! j \<or> \<not> seen2 ! j" for j
    using that by (cases "j = i") (auto simp: keeps_seen_def nth_list_update)
  with g o assms(1) show ?thesis by (simp add: keeps_seen_def)
qed

lemma visits_keeps_seen:
  "visits index par es seen es' seen' \<Longrightarrow> length seen = length es \<Longrightarrow> keeps_seen es seen es' seen'"
proof (induction rule: visits.induct)
  case (visit_none par es seen)
  then show ?case by (rule keeps_seen_refl)
next
  case (visit_leaf es seen index e par es2 seen2 es' seen')
  from visit_leaf.hyps(1) have i: "unat index < length es" "\<not> seen ! unat index" by (simp_all add: enter_entry_Inr)
  have "keeps_seen es (seen[unat index := True]) es2 seen2" using visit_leaf by simp
  note enter = keeps_seen_enter [OF this i, of par]
  from keeps_seen_lengths [OF enter] have "length seen2 = length (es2[unat index := (es2 ! unat index)\<lparr>parent := par\<rparr>])"
    by simp
  from keeps_seen_trans [OF enter visit_leaf.IH(2) [OF this]] show ?case .
next
  case (visit_storage es seen index e par es2 seen2 es3 seen3 es' seen')
  from visit_storage.hyps(1) have i: "unat index < length es" "\<not> seen ! unat index" by (simp_all add: enter_entry_Inr)
  have "keeps_seen es (seen[unat index := True]) es2 seen2" using visit_storage by simp
  note enter = keeps_seen_enter [OF this i, of par]
  from keeps_seen_lengths [OF enter] have "length seen2 = length (es2[unat index := (es2 ! unat index)\<lparr>parent := par\<rparr>])"
    by simp
  note children = keeps_seen_trans [OF enter visit_storage.IH(2) [OF this]]
  from keeps_seen_lengths [OF children] have "length seen3 = length es3" by simp
  from keeps_seen_trans [OF children visit_storage.IH(3) [OF this]] show ?case .
qed

end
