(* ===== verification/Cfb_Paths.thy ===== *)
theory Cfb_Paths
  imports Cfb_Directory
begin

text \<open>
  Paths of a compound file's directory: \<open>assign_paths\<close>, \<open>validate_unique_names\<close> and
  \<open>stable_path\<close> of \<open>crates/converters/src/msg/ole/directory.rs\<close>, with the proof that an
  accepted directory is a tree whose entries have different paths.
\<close>

section \<open>Rooted entries\<close>

text \<open>An entry at depth \<open>d\<close> of the storage tree: its parents are storages and lead to the root in \<open>d\<close> steps.\<close>

inductive rooted :: "DirectoryEntry list \<Rightarrow> nat \<Rightarrow> nat \<Rightarrow> bool" for es where
  rooted_root: "0 < length es \<Longrightarrow> rooted es 0 0"
| rooted_child: "rooted es p d \<Longrightarrow> i < length es \<Longrightarrow> i \<noteq> 0 \<Longrightarrow> parent (es ! i) = Some p \<Longrightarrow>
     entry_kind (es ! p) \<noteq> Stream \<Longrightarrow> entry_name (es ! i) \<noteq> [] \<Longrightarrow> rooted es i (Suc d)"

inductive_cases rooted_SucE: "rooted es i (Suc d)"
inductive_cases rooted_zeroE: "rooted es 0 d"

lemma rooted_length: "rooted es i d \<Longrightarrow> i < length es"
  by (induction rule: rooted.induct) auto

lemma rooted_unique: "rooted es i d \<Longrightarrow> rooted es i d' \<Longrightarrow> d = d'"
proof (induction arbitrary: d' rule: rooted.induct)
  case rooted_root
  then show ?case by (auto elim: rooted_zeroE)
next
  case (rooted_child p d i)
  from rooted_child.prems show ?case
  proof (cases rule: rooted.cases)
    case (rooted_child q e)
    with \<open>parent (es ! i) = Some p\<close> \<open>\<And>d'. rooted es p d' \<Longrightarrow> d = d'\<close> show ?thesis by simp
  qed (use \<open>i \<noteq> 0\<close> in simp)
qed

lemma rooted_ancestor: "rooted es i d \<Longrightarrow> k \<le> d \<Longrightarrow> \<exists>j. rooted es j k"
  by (induction rule: rooted.induct) (auto simp: le_Suc_eq intro: rooted.intros)

text \<open>The ancestors of an entry are distinct, so a path is shorter than the directory.\<close>

lemma rooted_depth: assumes "rooted es i d" shows "d < length es"
proof -
  have "\<exists>f. \<forall>k \<le> d. rooted es (f k) k" using rooted_ancestor [OF assms] by metis
  then obtain f where f: "rooted es (f k) k" if "k \<le> d" for k by blast
  have "inj_on f {..d}"
  proof (rule inj_onI)
    fix x y assume "x \<in> {..d}" "y \<in> {..d}" "f x = f y"
    with f [of x] f [of y] show "x = y" by (auto intro: rooted_unique)
  qed
  then have "card {..d} = card (f ` {..d})" by (simp add: card_image)
  also have "\<dots> \<le> card {..<length es}" using f rooted_length by (intro card_mono) auto
  finally show ?thesis by simp
qed

definition tree_inv :: "DirectoryEntry list \<Rightarrow> bool list \<Rightarrow> bool" where
  "tree_inv es seen \<longleftrightarrow>
     length seen = length es \<and> 0 < length es \<and> seen ! 0 \<and> parent (es ! 0) = None
       \<and> (\<forall>i < length es. \<not> seen ! i \<longrightarrow> parent (es ! i) = None)"

lemma rooted_frame:
  assumes "rooted es i d" "tree_inv es seen" "only_parents es es'"
    and "\<And>j. j < length es \<Longrightarrow> seen ! j \<Longrightarrow> j = 0 \<or> parent (es ! j) \<noteq> None \<Longrightarrow> es' ! j = es ! j"
  shows "rooted es' i d \<and> seen ! i"
  using assms(1)
proof (induction rule: rooted.induct)
  case rooted_root
  with only_parents_length [OF assms(3)] have "0 < length es'" by linarith
  then show ?case using assms(2) by (simp add: tree_inv_def rooted.rooted_root)
next
  case (rooted_child p d i)
  from rooted_child.hyps assms(2) have "seen ! i" by (auto simp: tree_inv_def)
  moreover from this rooted_child.hyps assms(4) [of i] have "es' ! i = es ! i" by simp
  moreover have "p < length es" using rooted_child.hyps(1) by (rule rooted_length)
  ultimately show ?case
    using rooted_child assms(3) only_parents_fields [OF assms(3), of p] only_parents_length [OF assms(3)]
    by (auto intro!: rooted.rooted_child)
qed

text \<open>Every entry a walk newly flags is rooted after it; what was rooted stays so.\<close>

definition extends_tree :: "DirectoryEntry list \<Rightarrow> bool list \<Rightarrow> DirectoryEntry list \<Rightarrow> bool list \<Rightarrow> bool" where
  "extends_tree es seen es' seen' \<longleftrightarrow>
     tree_inv es' seen' \<and> (\<forall>i d. rooted es i d \<longrightarrow> rooted es' i d)
       \<and> (\<forall>i < length es. seen' ! i \<and> \<not> seen ! i \<longrightarrow> (\<exists>d. rooted es' i d))"

lemma keeps_seen_tree:
  assumes "keeps_seen es seen es' seen'" "tree_inv es seen"
  shows "tree_inv es' seen'" "rooted es i d \<Longrightarrow> rooted es' i d \<and> seen ! i"
proof -
  note len = keeps_seen_lengths [OF assms(1)]
  have "parent (es' ! i) = None" if "i < length es" "\<not> seen' ! i" for i
    using that assms by (auto simp: keeps_seen_def tree_inv_def grows_def)
  with len assms show "tree_inv es' seen'"
    by (auto simp: tree_inv_def keeps_seen_def grows_def)
  show "rooted es' i d \<and> seen ! i" if "rooted es i d"
    using that assms(1) by (intro rooted_frame [OF _ assms(2)]) (auto simp: keeps_seen_def)
qed

lemma extends_tree_trans:
  assumes "extends_tree a s b t" "extends_tree b t c u" "keeps_seen a s b t" "keeps_seen b t c u"
  shows "extends_tree a s c u"
proof -
  have len: "length b = length a" "length s = length a" "length t = length a"
    using keeps_seen_lengths [OF assms(3)] by simp_all
  have "\<exists>d. rooted c i d" if "i < length a" "u ! i" "\<not> s ! i" for i
    using assms(1,2) that len unfolding extends_tree_def by metis
  with assms(1,2) show ?thesis by (simp add: extends_tree_def)
qed

lemma enter_extends_tree:
  assumes inv: "tree_inv es seen" and p: "rooted es p d" "entry_kind (es ! p) \<noteq> Stream"
    and e: "enter_entry es seen i = Inr e"
    and k: "keeps_seen es (seen[i := True]) es2 seen2" and x: "extends_tree es (seen[i := True]) es2 seen2"
    and es3: "es3 = es2[i := (es2 ! i)\<lparr>parent := Some p\<rparr>]"
  shows "keeps_seen es seen es3 seen2" "extends_tree es seen es3 seen2" "rooted es3 i (Suc d)"
    "entry_kind (es3 ! i) = entry_kind e" "rooted es3 p d" "entry_kind (es3 ! p) \<noteq> Stream"
proof -
  from e have i: "i < length es" "entry_name (es ! i) \<noteq> []" "\<not> seen ! i" "e = es ! i" "i < length seen"
    by (simp_all add: enter_entry_Inr)
  have "seen ! 0" using inv by (simp add: tree_inv_def)
  with i(3) have i0: "i \<noteq> 0" by metis
  have pl: "p < length es" using p(1) by (rule rooted_length)
  show ks: "keeps_seen es seen es3 seen2" unfolding es3 by (rule keeps_seen_enter [OF k i(1,3)])
  have only: "only_parents es es3" using ks by (simp add: keeps_seen_def)
  note len = keeps_seen_lengths [OF ks]
  have len2: "length es2 = length es" using keeps_seen_lengths [OF k] by simp
  show rp: "rooted es3 p d" using keeps_seen_tree(2) [OF ks inv p(1)] by simp
  show kp: "entry_kind (es3 ! p) \<noteq> Stream" using only_parents_fields(2) [OF only pl] p(2) by simp
  show "entry_kind (es3 ! i) = entry_kind e" using only_parents_fields(2) [OF only i(1)] i(4) by simp
  have par: "parent (es3 ! i) = Some p" using i(1) len2 by (simp add: es3)
  show ri: "rooted es3 i (Suc d)"
    using rp _ i0 par kp _ by (rule rooted_child) (use only_parents_fields(1) [OF only i(1)] i len in simp_all)
  have none: "parent (es2 ! i) = None"
    using k inv i by (auto simp: keeps_seen_def tree_inv_def)
  have "\<exists>d. rooted es3 j d" if j: "j < length es" "seen2 ! j" "\<not> seen ! j" for j
  proof (cases "j = i")
    case True
    with ri show ?thesis by blast
  next
    case False
    with j x obtain d' where r2: "rooted es2 j d'" by (auto simp: extends_tree_def)
    have "tree_inv es2 seen2" using x by (simp add: extends_tree_def)
    note frame = rooted_frame [OF r2 this, of es3]
    have "only_parents es2 es3" unfolding es3 by (rule only_parents_set)
    moreover have "es3 ! k = es2 ! k" if "k = 0 \<or> parent (es2 ! k) \<noteq> None" for k
      using that none i0 by (cases "k = i") (simp_all add: es3)
    ultimately have "rooted es3 j d'" using frame by blast
    then show ?thesis by blast
  qed
  then have new: "\<forall>j < length es. seen2 ! j \<and> \<not> seen ! j \<longrightarrow> (\<exists>d. rooted es3 j d)" by blast
  have old: "\<forall>j d. rooted es j d \<longrightarrow> rooted es3 j d" using keeps_seen_tree(2) [OF ks inv] by blast
  show "extends_tree es seen es3 seen2"
    unfolding extends_tree_def using keeps_seen_tree(1) [OF ks inv] old new by blast
qed

lemma tree_inv_mark: "tree_inv es seen \<Longrightarrow> tree_inv es (seen[i := True])"
  by (cases "i < length seen") (auto simp: tree_inv_def nth_list_update list_update_beyond)

lemma visits_extends_tree:
  "visits index par es seen es' seen' \<Longrightarrow> tree_inv es seen \<Longrightarrow> par = Some p \<Longrightarrow> rooted es p d \<Longrightarrow>
     entry_kind (es ! p) \<noteq> Stream \<Longrightarrow> extends_tree es seen es' seen'"
proof (induction arbitrary: p d rule: visits.induct)
  case (visit_none par es seen)
  then show ?case by (simp add: extends_tree_def)
next
  case (visit_leaf es seen index e par es2 seen2 es' seen')
  have len: "length seen = length es" using visit_leaf.prems(1) by (simp add: tree_inv_def)
  have k: "keeps_seen es (seen[unat index := True]) es2 seen2"
    using visits_keeps_seen [OF visit_leaf.hyps(3)] len by simp
  have x: "extends_tree es (seen[unat index := True]) es2 seen2"
    using visit_leaf.IH(1) [OF tree_inv_mark] visit_leaf.prems by blast
  note enter = enter_extends_tree [OF visit_leaf.prems(1,3,4) visit_leaf.hyps(1) k x]
  from visit_leaf.prems(2) have es3: "es2[unat index := (es2 ! unat index)\<lparr>parent := par\<rparr>] =
      es2[unat index := (es2 ! unat index)\<lparr>parent := Some p\<rparr>]" by simp
  note step = enter [OF es3]
  have "tree_inv (es2[unat index := (es2 ! unat index)\<lparr>parent := par\<rparr>]) seen2"
    using step(2) by (simp add: extends_tree_def)
  from visit_leaf.IH(2) [OF this visit_leaf.prems(2) step(5,6)]
  have "extends_tree (es2[unat index := (es2 ! unat index)\<lparr>parent := par\<rparr>]) seen2 es' seen'" .
  then show ?case
    by (rule extends_tree_trans [OF step(2) _ step(1)])
      (rule visits_keeps_seen [OF visit_leaf.hyps(4)], use keeps_seen_lengths [OF step(1)] in simp)
next
  case (visit_storage es seen index e par es2 seen2 es3 seen3 es' seen')
  have len: "length seen = length es" using visit_storage.prems(1) by (simp add: tree_inv_def)
  have k: "keeps_seen es (seen[unat index := True]) es2 seen2"
    using visits_keeps_seen [OF visit_storage.hyps(3)] len by simp
  have x: "extends_tree es (seen[unat index := True]) es2 seen2"
    using visit_storage.IH(1) [OF tree_inv_mark] visit_storage.prems by blast
  note enter = enter_extends_tree [OF visit_storage.prems(1,3,4) visit_storage.hyps(1) k x]
  from visit_storage.prems(2) have es1: "es2[unat index := (es2 ! unat index)\<lparr>parent := par\<rparr>] =
      es2[unat index := (es2 ! unat index)\<lparr>parent := Some p\<rparr>]" by simp
  note step = enter [OF es1]
  let ?es = "es2[unat index := (es2 ! unat index)\<lparr>parent := par\<rparr>]"
  have t1: "tree_inv ?es seen2" using step(2) by (simp add: extends_tree_def)
  have "entry_kind (?es ! unat index) \<noteq> Stream" using step(4) visit_storage.hyps(2) by simp
  from visit_storage.IH(2) [OF t1 refl step(3) this] have x2: "extends_tree ?es seen2 es3 seen3" .
  have k2: "keeps_seen ?es seen2 es3 seen3"
    by (rule visits_keeps_seen [OF visit_storage.hyps(4)]) (use keeps_seen_lengths [OF step(1)] in simp)
  have t2: "tree_inv es3 seen3" and r2: "rooted es3 p d"
    using x2 step(5) by (auto simp: extends_tree_def)
  have "entry_kind (es3 ! p) \<noteq> Stream"
    using k2 only_parents_fields(2) [of ?es es3 p] rooted_length [OF step(5)] step(6)
    by (simp add: keeps_seen_def)
  from visit_storage.IH(3) [OF t2 visit_storage.prems(2) r2 this] have x3: "extends_tree es3 seen3 es' seen'" .
  have k3: "keeps_seen es3 seen3 es' seen'"
    by (rule visits_keeps_seen [OF visit_storage.hyps(5)]) (use keeps_seen_lengths [OF k2] in simp)
  show ?case
    by (rule extends_tree_trans [OF step(2) extends_tree_trans [OF x2 x3 k2 k3] step(1) keeps_seen_trans [OF k2 k3]])
qed

section \<open>Paths and names\<close>

text \<open>Two equal neighbours; on a sorted list, a repeated element.\<close>

fun adjacent_pair :: "'a list \<Rightarrow> bool" where
  "adjacent_pair (x # y # zs) \<longleftrightarrow> x = y \<or> adjacent_pair (y # zs)"
| "adjacent_pair _ \<longleftrightarrow> False"

lemma adjacent_pair_sorted: "sorted (xs :: 'a::linorder list) \<Longrightarrow> \<not> adjacent_pair xs \<longleftrightarrow> distinct xs"
  by (induction xs rule: adjacent_pair.induct) force+

definition sibling_names :: "DirectoryEntry list \<Rightarrow> (nat \<times> string) list" where
  "sibling_names es =
     map (\<lambda>e. (case parent e of Some p \<Rightarrow> p | None \<Rightarrow> 0, to_ascii_lowercase (entry_name e)))
       (filter (\<lambda>e. parent e \<noteq> None) es)"

definition comparison_bound :: "nat \<Rightarrow> nat" where
  "comparison_bound count = count * bit_length (count - 1)"

definition validate_unique_names :: "'b CompoundBudget \<Rightarrow> allocator \<Rightarrow> DirectoryEntry list \<Rightarrow> ('b, unit) budgeted" where
  "validate_unique_names ops alloc es =
     (let count = length (filter (\<lambda>e. parent e \<noteq> None) es) in
      if 2 ^ 64 \<le> comparison_bound count then
        give (Inl (limit ''max_memory_bytes'' ''CFB name comparison plan overflowed''))
      else
        try_do (cfb_work ops (of_nat (comparison_bound count))) (\<lambda>_.
        try_do (give (try_vec_capacity alloc count ''CFB normalized sibling names'')) (\<lambda>_.
        if adjacent_pair (sort (sibling_names es)) then
          give (Inl (malformed ''cfb/directory'' ''storage contains duplicate case-insensitive names''))
        else cfb_work ops (of_nat count))))"

definition assign_paths :: "'b CompoundBudget \<Rightarrow> allocator \<Rightarrow> DirectoryEntry list \<Rightarrow> ('b, DirectoryEntry list) budgeted" where
  "assign_paths ops alloc es =
     (if es = [] then give index_panic
      else
        try_do (visit_tree ops (child (es ! 0)) (Some 0) 1 0 es ((replicate (length es) False)[0 := True]))
          (\<lambda>(es, seen).
        if list_ex (\<lambda>i. i \<noteq> 0 \<and> entry_name (es ! i) \<noteq> [] \<and> \<not> seen ! i) [0..<length es] then
          give (Inl (malformed ''cfb/directory'' ''non-empty directory entry is unreachable''))
        else try_do (validate_unique_names ops alloc es) (\<lambda>_. give (Inr es))))"

text \<open>
  \<open>stable_path\<close> follows the parents to the root. The fuel is the number of entries, which no
  chain of parents of an accepted directory exhausts (\<open>rooted_components\<close> below).
\<close>

fun parent_components :: "DirectoryEntry list \<Rightarrow> nat \<Rightarrow> nat option \<Rightarrow> string list option" where
  "parent_components es fuel None = Some []"
| "parent_components es 0 (Some i) = None"
| "parent_components es (Suc fuel) (Some i) =
     map_option (\<lambda>cs. if entry_kind (es ! i) \<noteq> Root then entry_name (es ! i) # cs else cs)
       (parent_components es fuel (parent (es ! i)))"

definition hex_upper :: "nat \<Rightarrow> char" where
  "hex_upper d = char_of (if d < 10 then 48 + d else 55 + d)"

definition path_byte :: "char \<Rightarrow> string" where
  "path_byte c =
     (if is_ascii_alphanumeric c \<or> c \<in> {CHR ''_'', CHR ''-'', CHR ''.'', CHR ''#''} then [c]
      else [CHR ''%'', hex_upper (byte c div 16), hex_upper (byte c mod 16)])"

definition path_of :: "string list \<Rightarrow> string" where
  "path_of cs = ''msg'' @ concat (map (\<lambda>c. CHR ''/'' # concat (map path_byte c)) (rev cs))"

definition stable_path :: "DirectoryEntry list \<Rightarrow> nat \<Rightarrow> string" where
  "stable_path es i =
     (case parent_components es (length es) (Some i) of Some cs \<Rightarrow> path_of cs | None \<Rightarrow> ''msg'')"

text \<open>What an accepted directory is.\<close>

definition one_root :: "DirectoryEntry list \<Rightarrow> bool" where
  "one_root es \<longleftrightarrow> es \<noteq> [] \<and> parent (es ! 0) = None \<and> (\<forall>i < length es. entry_kind (es ! i) = Root \<longleftrightarrow> i = 0)"

definition siblings_distinct :: "DirectoryEntry list \<Rightarrow> bool" where
  "siblings_distinct es \<longleftrightarrow>
     (\<forall>i < length es. \<forall>j < length es. \<forall>p. parent (es ! i) = Some p \<and> parent (es ! j) = Some p
        \<and> to_ascii_lowercase (entry_name (es ! i)) = to_ascii_lowercase (entry_name (es ! j)) \<longrightarrow> i = j)"

lemma distinct_filter_nth:
  "distinct (map f (filter P xs)) \<Longrightarrow> i < length xs \<Longrightarrow> j < length xs \<Longrightarrow> P (xs ! i) \<Longrightarrow> P (xs ! j) \<Longrightarrow>
     f (xs ! i) = f (xs ! j) \<Longrightarrow> i = j"
proof (induction xs arbitrary: i j)
  case (Cons x xs)
  have other: "f x \<noteq> f (xs ! k)" if "k < length xs" "P (xs ! k)" "P x" for k
    using Cons.prems(1) that by auto
  from Cons show ?case
    by (cases i; cases j) (auto simp: other dest: other split: if_splits)
qed simp

lemma validate_unique_names_Inr:
  assumes "validate_unique_names ops alloc es b = (Inr u, b')"
  shows "siblings_distinct es"
proof -
  from assms have "\<not> adjacent_pair (sort (sibling_names es))"
    by (auto simp: validate_unique_names_def Let_def try_do_Inr split: if_splits)
  then have "distinct (sibling_names es)"
    using adjacent_pair_sorted [of "sort (sibling_names es)"] by simp
  from distinct_filter_nth [OF this [unfolded sibling_names_def]] show ?thesis
    unfolding siblings_distinct_def by (metis (mono_tags, lifting) option.distinct(1))
qed

lemma hex_upper_inject: "a < 16 \<Longrightarrow> b < 16 \<Longrightarrow> hex_upper a = hex_upper b \<longleftrightarrow> a = b"
  by (auto simp: hex_upper_def dest!: arg_cong [where f = byte] split: if_splits)

lemma byte_less [simp]: "byte c < 256"
  using of_char_mod_256 [of c, where 'a = nat] by (metis mod_less_divisor zero_less_numeral)

lemma byte_nibbles: "byte c div 16 < 16" "byte c mod 16 < 16"
  by (rule less_mult_imp_div_less) (use byte_less [of c] in simp_all)

lemma path_byte_cases:
  obtains "path_byte c = [c]" "c \<noteq> CHR ''%''" "c \<noteq> CHR ''/''"
  | "path_byte c = [CHR ''%'', hex_upper (byte c div 16), hex_upper (byte c mod 16)]"
proof (cases "is_ascii_alphanumeric c \<or> c \<in> {CHR ''_'', CHR ''-'', CHR ''.'', CHR ''#''}")
  case True
  moreover have "\<not> is_ascii_alphanumeric (CHR ''%'')" "\<not> is_ascii_alphanumeric (CHR ''/'')"
    by code_simp+
  ultimately have "path_byte c = [c]" "c \<noteq> CHR ''%''" "c \<noteq> CHR ''/''"
    by (auto simp: path_byte_def)
  then show thesis by (rule that(1))
next
  case False
  then show thesis by (intro that(2)) (simp add: path_byte_def)
qed

text \<open>The percent-encoding of a path component is injective and free of the separator.\<close>

lemma path_byte_head: "path_byte x @ u = path_byte y @ v \<Longrightarrow> x = y \<and> u = v"
proof -
  assume eq: "path_byte x @ u = path_byte y @ v"
  have same: "x = y" if "hex_upper (byte x div 16) = hex_upper (byte y div 16)"
    "hex_upper (byte x mod 16) = hex_upper (byte y mod 16)"
  proof -
    from that byte_nibbles have "byte x div 16 = byte y div 16" "byte x mod 16 = byte y mod 16"
      by (simp_all add: hex_upper_inject)
    then have "byte x = byte y" by (metis div_mult_mod_eq)
    then show ?thesis by simp
  qed
  show ?thesis
    by (rule path_byte_cases [of x]; rule path_byte_cases [of y]; use eq same in simp)
qed

lemma path_byte_nonempty: "path_byte x \<noteq> []"
  by (simp add: path_byte_def)

lemma path_byte_inject: "concat (map path_byte xs) = concat (map path_byte ys) \<Longrightarrow> xs = ys"
proof (induction xs arbitrary: ys)
  case Nil
  then show ?case using path_byte_nonempty by (cases ys) simp_all
next
  case (Cons x xs)
  from Cons.prems obtain y zs where ys: "ys = y # zs"
    using path_byte_nonempty [of x] by (cases ys) simp_all
  with Cons.prems have "x = y \<and> concat (map path_byte xs) = concat (map path_byte zs)"
    by (intro path_byte_head) simp
  with Cons.IH ys show ?case by simp
qed

lemma path_byte_no_slash: "CHR ''/'' \<notin> set (concat (map path_byte xs))"
proof -
  have hex: "hex_upper d \<noteq> CHR ''/''" if "d < 16" for d
    using that by (auto simp: hex_upper_def dest!: arg_cong [where f = byte])
  have "CHR ''/'' \<notin> set (path_byte c)" for c
    using byte_nibbles [of c] hex [of "byte c div 16"] hex [of "byte c mod 16"]
    by (rule_tac path_byte_cases [of c]) auto
  then show ?thesis by auto
qed

lemma slash_join_inject:
  "concat (map (\<lambda>c. CHR ''/'' # f c) xs) = concat (map (\<lambda>c. CHR ''/'' # f c) ys) \<Longrightarrow>
     (\<And>c. CHR ''/'' \<notin> set (f c)) \<Longrightarrow> map f xs = map f ys"
proof (induction xs arbitrary: ys)
  case (Cons x xs)
  then obtain y zs where ys: "ys = y # zs" by (cases ys) auto
  have tw: "takeWhile (\<lambda>c. c \<noteq> CHR ''/'') (f a @ concat (map (\<lambda>c. CHR ''/'' # f c) as)) = f a" for a as
    using Cons.prems(2) [of a] by (cases as) (auto simp: takeWhile_append)
  from Cons.prems(1) ys have eq: "f x @ concat (map (\<lambda>c. CHR ''/'' # f c) xs) = f y @ concat (map (\<lambda>c. CHR ''/'' # f c) zs)"
    by simp
  then have "f x = f y" using tw by metis
  with eq have "concat (map (\<lambda>c. CHR ''/'' # f c) xs) = concat (map (\<lambda>c. CHR ''/'' # f c) zs)" by simp
  from Cons.IH [OF this Cons.prems(2)] \<open>f x = f y\<close> ys show ?case by simp
qed (cases ys; simp)

lemma path_of_inject: "path_of xs = path_of ys \<Longrightarrow> xs = ys"
proof -
  assume "path_of xs = path_of ys"
  then have "concat (map (\<lambda>c. CHR ''/'' # concat (map path_byte c)) (rev xs)) =
      concat (map (\<lambda>c. CHR ''/'' # concat (map path_byte c)) (rev ys))" by (simp add: path_of_def)
  from slash_join_inject [OF this path_byte_no_slash]
  have "map (\<lambda>c. concat (map path_byte c)) xs = map (\<lambda>c. concat (map path_byte c)) ys"
    by (simp add: rev_map [symmetric])
  then show ?thesis
    by (rule map_injective) (auto simp: inj_on_def intro: path_byte_inject)
qed

text \<open>A rooted entry has a component per level, its own first, and the fuel is enough for them.\<close>

lemma rooted_components:
  "rooted es i d \<Longrightarrow> one_root es \<Longrightarrow> d < n \<Longrightarrow>
     \<exists>cs. parent_components es n (Some i) = Some cs \<and> length cs = d"
proof (induction arbitrary: n rule: rooted.induct)
  case rooted_root
  then show ?case by (cases n) (auto simp: one_root_def)
next
  case (rooted_child p d i)
  then obtain m where n: "n = Suc m" "d < m" by (cases n) auto
  with rooted_child.IH [OF rooted_child.prems(1), of m] obtain cs
    where "parent_components es m (Some p) = Some cs" "length cs = d" by blast
  moreover have "entry_kind (es ! i) \<noteq> Root"
    using rooted_child.prems(1) rooted_child.hyps(2,3) by (simp add: one_root_def)
  ultimately show ?case using n rooted_child.hyps(4) by simp
qed

lemma components_inject:
  "rooted es i d \<Longrightarrow> one_root es \<Longrightarrow> siblings_distinct es \<Longrightarrow> rooted es j e \<Longrightarrow> d < n \<Longrightarrow> e < n \<Longrightarrow>
     parent_components es n (Some i) = parent_components es n (Some j) \<Longrightarrow> i = j"
proof (induction arbitrary: j e n rule: rooted.induct)
  case rooted_root
  from rooted_components [OF rooted.rooted_root [OF rooted_root.hyps] rooted_root.prems(1,4)]
    rooted_components [OF rooted_root.prems(3,1,5)] rooted_root.prems(6)
  have "e = 0" by auto
  with rooted_root.prems(3) show ?case by (auto elim: rooted.cases)
next
  case (rooted_child p d i)
  have ri: "rooted es i (Suc d)" using rooted_child.hyps by (rule rooted.rooted_child)
  from rooted_components [OF ri rooted_child.prems(1,4)]
    rooted_components [OF rooted_child.prems(3,1,5)] rooted_child.prems(6)
  have "e = Suc d" by auto
  with rooted_child.prems(3) obtain q where q: "rooted es q d" "j < length es" "j \<noteq> 0" "parent (es ! j) = Some q"
    by (auto elim: rooted_SucE)
  from rooted_child.prems(4) obtain m where n: "n = Suc m" "d < m" by (cases n) auto
  have kinds: "entry_kind (es ! i) \<noteq> Root" "entry_kind (es ! j) \<noteq> Root"
    using rooted_child.prems(1) rooted_child.hyps(2,3) q(2,3) by (simp_all add: one_root_def)
  obtain cs ds where cs: "parent_components es m (Some p) = Some cs" "parent_components es m (Some q) = Some ds"
    using rooted_components [OF rooted_child.hyps(1) rooted_child.prems(1) n(2)]
      rooted_components [OF q(1) rooted_child.prems(1) n(2)] by blast
  with rooted_child.prems(6) n(1) kinds q(4) rooted_child.hyps(4)
  have eq: "entry_name (es ! i) = entry_name (es ! j)" "cs = ds" by simp_all
  have "p = q"
    by (rule rooted_child.IH [OF rooted_child.prems(1,2) q(1) n(2) n(2)]) (simp add: cs eq(2))
  with rooted_child.prems(2) rooted_child.hyps(2,4) q(2,4) eq(1) show ?case
    unfolding siblings_distinct_def by (metis (no_types))
qed

definition accepted_directory :: "DirectoryEntry list \<Rightarrow> bool" where
  "accepted_directory es \<longleftrightarrow> one_root es \<and> siblings_distinct es
     \<and> (\<forall>i < length es. i = 0 \<or> entry_name (es ! i) \<noteq> [] \<longrightarrow> (\<exists>d. rooted es i d))"

lemma stable_path_inject:
  assumes "accepted_directory es" "i < length es" "j < length es"
    and "i = 0 \<or> entry_name (es ! i) \<noteq> []" "j = 0 \<or> entry_name (es ! j) \<noteq> []"
    and "stable_path es i = stable_path es j"
  shows "i = j"
proof -
  from assms obtain d e where d: "rooted es i d" and e: "rooted es j e"
    unfolding accepted_directory_def by blast
  have one: "one_root es" and sd: "siblings_distinct es"
    using assms(1) by (simp_all add: accepted_directory_def)
  obtain cs ds where cs: "parent_components es (length es) (Some i) = Some cs"
    and ds: "parent_components es (length es) (Some j) = Some ds"
    using rooted_components [OF d one rooted_depth [OF d]] rooted_components [OF e one rooted_depth [OF e]]
    by blast
  with assms(6) have "cs = ds" by (simp add: stable_path_def path_of_inject)
  with cs ds components_inject [OF d one sd e rooted_depth [OF d] rooted_depth [OF e]] show ?thesis by simp
qed

section \<open>Accepted directories\<close>

lemma and_then_InrE: "and_then r f = Inr y \<Longrightarrow> (\<And>v. r = Inr v \<Longrightarrow> f v = Inr y \<Longrightarrow> thesis) \<Longrightarrow> thesis"
  by (auto simp: and_then_Inr)

lemma if_InlE: "(if c then Inl e else r) = Inr y \<Longrightarrow> (\<not> c \<Longrightarrow> r = Inr y \<Longrightarrow> thesis) \<Longrightarrow> thesis"
  by (simp split: if_splits)

lemma parse_entry_Inr:
  "parse_entry index raw major mode rs = Inr (e, rs') \<Longrightarrow>
     parent e = None \<and> (index \<noteq> 0 \<longrightarrow> entry_kind e \<noteq> Root)"
proof (cases "raw ! 66 = 0")
  case False
  assume "parse_entry index raw major mode rs = Inr (e, rs')"
  with False obtain kd where kd: "entry_kind_of index (raw ! 66) = Inr kd" "entry_kind e = kd" "parent e = None"
    unfolding parse_entry_def Let_def split_beta
    by (simp only: if_False) (elim if_InlE and_then_InrE; use that in force)
  then show ?thesis by (auto simp: entry_kind_of_def split: if_splits)
qed (auto simp: parse_entry_def unused_entry_def)

lemma check_root_Inr:
  "check_root mode es rs = Inr (es', rs') \<Longrightarrow> es' = es \<and> es \<noteq> [] \<and> entry_kind (es ! 0) = Root"
  by (cases es) (auto simp: check_root_def split: if_split_asm)

lemma parse_entries_Inr:
  "parse_entries ops index raws major mode rs b = (Inr (es, rs'), b') \<Longrightarrow>
     length es = length raws \<and> (\<forall>k < length es. parent (es ! k) = None
       \<and> (index + k \<noteq> 0 \<longrightarrow> entry_kind (es ! k) \<noteq> Root))"
proof (induction raws arbitrary: index rs b es rs' b')
  case (Cons raw raws)
  then obtain b1 e rs1 es1 b2 where
    "parse_entry index raw major mode rs = Inr (e, rs1)"
    "parse_entries ops (index + 1) raws major mode rs1 b1 = (Inr (es1, rs'), b2)" "es = e # es1"
    by (auto simp: try_do_Inr)
  with Cons.IH [of "index + 1" rs1 b1 es1 rs' b2] show ?case
    by (auto simp: nth_Cons dest!: parse_entry_Inr split: nat.splits)
qed simp

lemma parse_directory_Inr:
  assumes "parse_directory ops alloc bs major mode rs b = (Inr (es, rs'), b')"
  shows "one_root es \<and> (\<forall>k < length es. parent (es ! k) = None)"
proof -
  from assms obtain b1 b2 rs1 where p: "parse_entries ops 0 (chunks_exact 128 bs) major mode rs b1 = (Inr (es, rs1), b2)"
    and c: "check_root mode es rs1 = Inr (es, rs')"
    by (auto simp: parse_directory_def try_do_Inr dest: check_root_Inr split: if_split_asm)
  from parse_entries_Inr [OF p] check_root_Inr [OF c] show ?thesis by (auto simp: one_root_def)
qed

lemma assign_paths_Inr:
  assumes "assign_paths ops alloc es b = (Inr es', b')" "one_root es" "\<forall>k < length es. parent (es ! k) = None"
  shows "accepted_directory es' \<and> only_parents es es'"
proof -
  let ?seen = "(replicate (length es) False)[0 := True]"
  from assms(2) have "es \<noteq> []" by (simp add: one_root_def)
  with assms(1) obtain s b1 where v: "visit_tree ops (child (es ! 0)) (Some 0) 1 0 es ?seen b = (Inr s, b1)"
    and rest: "(case s of (es, seen) \<Rightarrow>
        if list_ex (\<lambda>i. i \<noteq> 0 \<and> entry_name (es ! i) \<noteq> [] \<and> \<not> seen ! i) [0..<length es] then
          give (Inl (malformed ''cfb/directory'' ''non-empty directory entry is unreachable''))
        else try_do (validate_unique_names ops alloc es) (\<lambda>_. give (Inr es))) b1 = (Inr es', b')"
    by (auto simp: assign_paths_def try_do_Inr)
  obtain seen' where s: "s = (es', seen')"
    using rest by (cases s) (auto simp: try_do_Inr split: if_split_asm)
  from rest s have all: "seen' ! i" if "i < length es'" "i \<noteq> 0" "entry_name (es' ! i) \<noteq> []" for i
    using that by (auto simp: list_ex_iff split: if_split_asm) (metis atLeastLessThan_iff less_nat_zero_code zero_le)
  from rest s obtain u b2 where u: "validate_unique_names ops alloc es' b1 = (Inr u, b2)"
    by (auto simp: try_do_Inr split: if_split_asm)
  from assms(2) have ne: "0 < length es" and root: "entry_kind (es ! 0) = Root" by (auto simp: one_root_def)
  have inv: "tree_inv es ?seen" using assms(3) ne by (auto simp: tree_inv_def nth_list_update)
  have vis: "visits (child (es ! 0)) (Some 0) es ?seen es' seen'" using visit_tree_visits [OF v] s by simp
  have k: "keeps_seen es ?seen es' seen'" by (rule visits_keeps_seen [OF vis]) simp
  have x: "extends_tree es ?seen es' seen'"
    by (rule visits_extends_tree [OF vis inv refl rooted_root [OF ne]]) (simp add: root)
  have only: "only_parents es es'" using k by (simp add: keeps_seen_def)
  note len = keeps_seen_lengths [OF k]
  have "\<exists>d. rooted es' i d" if i: "i < length es'" "i = 0 \<or> entry_name (es' ! i) \<noteq> []" for i
  proof (cases "i = 0")
    case True
    have "0 < length es'" using ne len by simp
    then show ?thesis unfolding True by (blast intro: rooted_root)
  next
    case False
    with i all [of i] have "seen' ! i" by blast
    moreover have "\<not> ?seen ! i" using False i len by simp
    ultimately show ?thesis using x i len by (auto simp: extends_tree_def)
  qed
  moreover have "one_root es'"
    using assms(2) only_parents_fields(2) [OF only] len x by (auto simp: one_root_def extends_tree_def tree_inv_def)
  ultimately show ?thesis using validate_unique_names_Inr [OF u] only by (simp add: accepted_directory_def)
qed

text \<open>
  Claim C30. An accepted directory is a tree: only the parents were filled in; entry zero is the
  only root; every named entry reaches it through storages in fewer steps than there are entries;
  no storage holds two names that differ only in ASCII case; and different entries have different
  stable paths.
\<close>

theorem directories_are_trees_with_unique_paths:
  assumes "parse_directory ops alloc bs major mode rs b = (Inr (es, rs'), b1)"
    and "assign_paths ops alloc es b1 = (Inr es', b2)"
    and "i < length es'" and "i = 0 \<or> entry_name (es' ! i) \<noteq> []"
  shows "one_root es' \<and> siblings_distinct es' \<and> only_parents es es'
    \<and> (\<exists>d < length es'. rooted es' i d)
    \<and> (\<forall>j < length es'. (j = 0 \<or> entry_name (es' ! j) \<noteq> []) \<and> stable_path es' i = stable_path es' j \<longrightarrow> i = j)"
proof -
  from parse_directory_Inr [OF assms(1)] assign_paths_Inr [OF assms(2)]
  have acc: "accepted_directory es'" and only: "only_parents es es'" by blast+
  from acc assms(3,4) obtain d where "rooted es' i d" by (auto simp: accepted_directory_def)
  with acc only assms(3,4) stable_path_inject [OF acc] show ?thesis
    unfolding accepted_directory_def by (blast intro: rooted_depth)
qed

text \<open>A root with one stream \<open>a\<close>, in the 256 bytes of two entries.\<close>

definition unmetered :: "unit CompoundBudget" where
  "unmetered = \<lparr>cfb_memory = (\<lambda>n b. (Inr 0, b)), cfb_entry = Pair (Inr ()), cfb_expanded = (\<lambda>n. Pair (Inr ())),
     cfb_depth = (\<lambda>d p. Pair (Inr ())), cfb_work = (\<lambda>k. Pair (Inr ())), cfb_release = (\<lambda>i b. b)\<rparr>"

definition entry_bytes :: "u8 list \<Rightarrow> u8 \<Rightarrow> u8 \<Rightarrow> u8 list \<Rightarrow> u8 list" where
  "entry_bytes name len t chd =
     name @ replicate (64 - length name) 0 @ [len, 0, t, 1] @ replicate 8 255 @ chd @ replicate 36 0
       @ [254, 255, 255, 255] @ replicate 8 0"

definition root_bytes :: "u8 list" where
  "root_bytes =
     entry_bytes [82, 0, 111, 0, 111, 0, 116, 0, 32, 0, 69, 0, 110, 0, 116, 0, 114, 0, 121, 0] 22 5 [1, 0, 0, 0]"

definition leaf_bytes :: "u8 list" where
  "leaf_bytes = entry_bytes [97, 0] 4 2 [255, 255, 255, 255]"

definition two_parsed :: "DirectoryEntry list" where
  "two_parsed = [\<lparr>entry_name = ''Root Entry'', entry_kind = Root, left = NONE, right = NONE, child = 1,
     start_sector = END, stream_size = 0, parent = None\<rparr>,
     \<lparr>entry_name = ''a'', entry_kind = Stream, left = NONE, right = NONE, child = NONE,
     start_sector = END, stream_size = 0, parent = None\<rparr>]"

lemma two_chunks: "length root_bytes + length leaf_bytes = 256"
    "chunks_exact 128 (root_bytes @ leaf_bytes) = [root_bytes, leaf_bytes]"
  by code_simp+

lemma ascii_letters:
  "map char_of [82 :: nat, 111, 111, 116, 32, 69, 110, 116, 114, 121] = ''Root Entry''"
  "char_of (97 :: nat) = CHR ''a''"
  by code_simp+

lemma leaf_name: "parse_directory_name leaf_bytes Strict 0 = (Inr ''a'', 0)"
proof -
  have "name_units leaf_bytes = 97 # replicate 31 0"
    "filter (\<lambda>i. (97 # replicate 31 (0 :: nat)) ! i = 0) [0..<32] = [1..<32]"
    "le16 leaf_bytes 64 ''cfb/directory'' = Inr 4" by code_simp+
  then show ?thesis
    by (simp add: parse_directory_name_def checked_name_def from_utf16_def encode_utf8_def upt_conv_Cons
        ascii_letters)
qed

lemma root_name: "parse_directory_name root_bytes Strict 0 = (Inr ''Root Entry'', 0)"
proof -
  have "name_units root_bytes = [82, 111, 111, 116, 32, 69, 110, 116, 114, 121] @ replicate 22 0"
    "filter (\<lambda>i. ([82, 111, 111, 116, 32, 69, 110, 116, 114, 121] @ replicate 22 (0 :: nat)) ! i = 0) [0..<32] = [10..<32]"
    "le16 root_bytes 64 ''cfb/directory'' = Inr 22" by code_simp+
  then show ?thesis using ascii_letters
    by (simp add: parse_directory_name_def checked_name_def from_utf16_def encode_utf8_def upt_conv_Cons)
qed

lemma two_entries:
  "parse_entry 0 root_bytes 4 Strict 0 = Inr (two_parsed ! 0, 0)"
  "parse_entry 1 leaf_bytes 4 Strict 0 = Inr (two_parsed ! 1, 0)"
proof -
  have "slice root_bytes 68 4 = Some [255, 255, 255, 255]" "slice root_bytes 72 4 = Some [255, 255, 255, 255]"
    "slice root_bytes 76 4 = Some [1, 0, 0, 0]" "slice root_bytes 116 4 = Some [254, 255, 255, 255]"
    "slice leaf_bytes 68 4 = Some [255, 255, 255, 255]" "slice leaf_bytes 72 4 = Some [255, 255, 255, 255]"
    "slice leaf_bytes 76 4 = Some [255, 255, 255, 255]" "slice leaf_bytes 116 4 = Some [254, 255, 255, 255]"
    by code_simp+
  then have "le32 root_bytes 68 ''cfb/directory'' = Inr NONE" "le32 root_bytes 72 ''cfb/directory'' = Inr NONE"
    "le32 root_bytes 76 ''cfb/directory'' = Inr 1" "le32 root_bytes 116 ''cfb/directory'' = Inr END"
    "le32 leaf_bytes 68 ''cfb/directory'' = Inr NONE" "le32 leaf_bytes 72 ''cfb/directory'' = Inr NONE"
    "le32 leaf_bytes 76 ''cfb/directory'' = Inr NONE" "le32 leaf_bytes 116 ''cfb/directory'' = Inr END"
    by (simp_all add: le32_def le_word_def NONE_def END_def)
  moreover have "root_bytes ! 66 = 5" "root_bytes ! 67 = 1" "leaf_bytes ! 66 = 2" "leaf_bytes ! 67 = 1"
    "le64 root_bytes 120 ''cfb/directory'' = Inr 0" "le64 leaf_bytes 120 ''cfb/directory'' = Inr 0"
    by code_simp+
  ultimately show "parse_entry 0 root_bytes 4 Strict 0 = Inr (two_parsed ! 0, 0)"
    "parse_entry 1 leaf_bytes 4 Strict 0 = Inr (two_parsed ! 1, 0)"
    by (simp_all add: parse_entry_def entry_kind_of_def entry_name_of_def root_name leaf_name two_parsed_def)
qed

lemma two_entries_parsed:
  "parse_directory unmetered (\<lambda>_. None) (root_bytes @ leaf_bytes) 4 Strict 0 () = (Inr (two_parsed, 0), ())"
proof -
  have p: "try_vec_capacity (\<lambda>_. None) n l = Inr ()" for n l by (simp add: try_vec_capacity_def)
  show ?thesis using two_entries
    by (simp add: parse_directory_def two_chunks p try_do_def unmetered_def check_root_def two_parsed_def)
qed

lemma two_entries_visited:
  "visit_tree unmetered 1 (Some 0) 1 0 two_parsed [True, False] () =
     (Inr ([two_parsed ! 0, (two_parsed ! 1)\<lparr>parent := Some 0\<rparr>], [True, True]), ())"
proof -
  have none: "visit_tree unmetered NONE par sd td es seen b = (Inr (es, seen), b)" for par sd td es seen b
    by (simp add: visit_tree.simps)
  have "1 \<noteq> NONE" by (simp add: NONE_def)
  then show ?thesis
    by (subst visit_tree.simps) (simp add: try_do_def enter_entry_def nth_opt_def two_parsed_def none
        unmetered_def [THEN arg_cong [where f = cfb_depth]])
qed

lemma two_entries_assigned:
  "assign_paths unmetered (\<lambda>_. None) two_parsed () =
     (Inr [two_parsed ! 0, (two_parsed ! 1)\<lparr>parent := Some 0\<rparr>], ())"
proof -
  have s: "(replicate (length two_parsed) False)[0 := True] = [True, False]" "child (two_parsed ! 0) = 1" "two_parsed \<noteq> []"
    by (simp_all add: two_parsed_def)
  have w: "cfb_work unmetered k b = (Inr (), b)" for k b by (simp add: unmetered_def)
  show ?thesis
    using two_entries_visited
    by (simp add: assign_paths_def s try_do_def)
      (simp add: two_parsed_def w try_do_def validate_unique_names_def comparison_bound_def sibling_names_def
        try_vec_capacity_def Let_def bit_length.simps [of 0])
qed

theorem directories_are_trees_with_unique_paths_witness:
  "\<exists>d < length [two_parsed ! 0, (two_parsed ! 1)\<lparr>parent := Some 0\<rparr>].
     rooted [two_parsed ! 0, (two_parsed ! 1)\<lparr>parent := Some 0\<rparr>] 1 d"
proof -
  have "1 < length [two_parsed ! 0, (two_parsed ! 1)\<lparr>parent := Some 0\<rparr>]"
    "(1 :: nat) = 0 \<or> entry_name ([two_parsed ! 0, (two_parsed ! 1)\<lparr>parent := Some 0\<rparr>] ! 1) \<noteq> []"
    by (simp_all add: two_parsed_def)
  from directories_are_trees_with_unique_paths [OF two_entries_parsed two_entries_assigned this]
  show ?thesis by blast
qed

end
