(* ===== verification/Cfb_Stream.thy ===== *)
theory Cfb_Stream
  imports Cfb_Paths
begin

text \<open>
  Streams of a compound file: \<open>crates/converters/src/msg/ole/stream.rs\<close>. A stream of at
  least the cutoff size is a chain of the FAT whose sectors lie in the file; a smaller one is a
  chain of the miniFAT whose 64-byte sectors lie in the root stream.
\<close>

definition div_ceil :: "nat \<Rightarrow> nat \<Rightarrow> nat" where
  "div_ceil n k = (n + k - 1) div k"

lemma div_ceil_covers: "0 < k \<Longrightarrow> n \<le> div_ceil n k * k"
proof -
  assume k: "0 < k"
  from dividend_less_div_times [OF k, of "n + k - 1"]
  have "n + k - 1 < k + div_ceil n k * k" by (simp add: div_ceil_def)
  then show ?thesis using k by linarith
qed

text \<open>A checked 64-bit quantity of a memory plan.\<close>

definition planned :: "nat \<Rightarrow> string \<Rightarrow> nat outcome" where
  "planned n detail = (if n < 2 ^ 64 then Inr n else Inl (limit ''max_memory_bytes'' detail))"

text \<open>\<open>u32::try_from(count).unwrap_or(u32::MAX)\<close>\<close>

definition sector_count_of :: "nat \<Rightarrow> u32" where
  "sector_count_of n = (if n < 2 ^ 32 then of_nat n else - 1)"

section \<open>Memory plans\<close>

text \<open>
  \<open>entry_footprint\<close> stands for the bytes per entry the plan adds up from the sizes of Rust types
  and the longest name, which depend on the compiler's layout.
\<close>

definition cfb_directory_memory_plan :: "nat \<Rightarrow> nat \<Rightarrow> nat outcome" where
  "cfb_directory_memory_plan entry_footprint n =
     planned (n * entry_footprint) ''CFB directory memory plan overflowed''"

fun add_stream_plans :: "nat \<Rightarrow> u32 \<Rightarrow> DirectoryEntry list \<Rightarrow> nat \<Rightarrow> nat outcome" where
  "add_stream_plans mini_size mini_cutoff [] acc = Inr acc"
| "add_stream_plans mini_size mini_cutoff (e # es) acc =
     (if entry_kind e \<noteq> Stream then add_stream_plans mini_size mini_cutoff es acc
      else
        let logical = unat (stream_size e); rounded = div_ceil logical mini_size * mini_size in
        if logical < unat mini_cutoff then
          and_then (planned rounded ''CFB mini-stream capacity plan overflowed'') (\<lambda>capacity.
          and_then (planned (acc + capacity) ''CFB stream memory plan overflowed'')
            (add_stream_plans mini_size mini_cutoff es))
        else
          and_then (planned (acc + logical) ''CFB stream memory plan overflowed'')
            (add_stream_plans mini_size mini_cutoff es))"

definition cfb_stream_memory_plan :: "DirectoryEntry list \<Rightarrow> nat \<Rightarrow> nat \<Rightarrow> nat \<Rightarrow> u32 \<Rightarrow> nat outcome" where
  "cfb_stream_memory_plan es minifat_count sector_len mini_size mini_cutoff =
     (case es of
        [] \<Rightarrow> Inl (malformed ''cfb/directory'' ''missing root entry'')
      | root # _ \<Rightarrow>
          and_then (planned (minifat_count * sector_len) ''CFB miniFAT plan overflowed'') (\<lambda>table.
          let root_bytes = unat (stream_size root) in
          and_then (planned (table + root_bytes + div_ceil root_bytes mini_size)
              ''CFB stream inventory plan overflowed'')
            (add_stream_plans mini_size mini_cutoff es)))"

section \<open>Mini streams\<close>

text \<open>Each mini sector is claimed, then copied.\<close>

fun read_mini_sectors ::
  "string \<Rightarrow> nat \<Rightarrow> u8 list \<Rightarrow> u32 list \<Rightarrow> bool list \<Rightarrow> u8 list \<Rightarrow> (u8 list \<times> bool list) outcome" where
  "read_mini_sectors p mini_size root [] owners out = Inr (out, owners)"
| "read_mini_sectors p mini_size root (i # is) owners out =
     (if nth_opt owners (unat i) \<noteq> Some False then Inl (malformed p ''mini-sector overlaps another stream'')
      else if 2 ^ 64 \<le> unat i * mini_size then
        Inl (limit ''max_decompressed_bytes'' ''mini-sector offset overflowed'')
      else case slice root (unat i * mini_size) mini_size of
        None \<Rightarrow> Inl (malformed p ''mini-sector exceeds root mini stream'')
      | Some s \<Rightarrow> read_mini_sectors p mini_size root is (owners[unat i := True]) (out @ s))"

definition read_mini_stream ::
  "allocator \<Rightarrow> DirectoryEntry \<Rightarrow> string \<Rightarrow> u32 list \<Rightarrow> u8 list \<Rightarrow> nat \<Rightarrow> CompoundCompatibility \<Rightarrow> bool list
     \<Rightarrow> (u8 list \<times> bool list \<times> u32 option) outcome" where
  "read_mini_stream alloc e p minifat root mini_size mode owners =
     (let expected = div_ceil (unat (stream_size e)) mini_size in
      and_then (walk_chain_with_declared_tail alloc (start_sector e) minifat (length owners)
          (Some (sector_count_of expected)) p (mode = LegacyOfficeBestEffort)) (\<lambda>(sids, tail).
      if 2 ^ 64 \<le> expected * mini_size then
        Inl (limit ''max_decompressed_bytes'' ''mini-stream capacity overflowed'')
      else and_then (try_vec_capacity alloc (expected * mini_size) ''CFB mini stream'') (\<lambda>_.
      and_then (read_mini_sectors p mini_size root sids owners []) (\<lambda>(out, owners).
      Inr (take (unat (stream_size e)) out, owners, tail)))))"

section \<open>Regular streams\<close>

definition regular_stream_chain ::
  "allocator \<Rightarrow> DirectoryEntry \<Rightarrow> u32 list \<Rightarrow> nat \<Rightarrow> nat \<Rightarrow> string \<Rightarrow> CompoundCompatibility
     \<Rightarrow> (u32 list \<times> u32 option) outcome" where
  "regular_stream_chain alloc e table sector_count sector_len p mode =
     walk_chain_with_declared_tail alloc (start_sector e) table sector_count
       (Some (sector_count_of (div_ceil (unat (stream_size e)) sector_len))) p (mode = LegacyOfficeBestEffort)"

fun read_sectors :: "u8 list \<Rightarrow> nat \<Rightarrow> u32 list \<Rightarrow> u8 list list outcome" where
  "read_sectors bs sector_len [] = Inr []"
| "read_sectors bs sector_len (i # is) =
     and_then (read_sector bs sector_len i) (\<lambda>s. and_then (read_sectors bs sector_len is) (\<lambda>ss. Inr (s # ss)))"

definition concatenate :: "allocator \<Rightarrow> u8 list \<Rightarrow> nat \<Rightarrow> u32 list \<Rightarrow> u8 list outcome" where
  "concatenate alloc bs sector_len sids =
     (if 2 ^ 64 \<le> length sids * sector_len then
        Inl (limit ''max_decompressed_bytes'' ''sector chain byte size overflowed'')
      else and_then (try_vec_capacity alloc (length sids * sector_len) ''CFB sector chain'') (\<lambda>_.
      and_then (read_sectors bs sector_len sids) (\<lambda>ss. Inr (concat ss))))"

text \<open>
  The rest of a sids after \<open>out\<close> was read. A partial physical sector at the end of the file may
  only close the stream and must hold all that is missing; the flag tells whether the stream
  consumed all of it.
\<close>

fun read_regular_sectors ::
  "u8 list \<Rightarrow> nat \<Rightarrow> nat \<Rightarrow> nat option \<Rightarrow> string \<Rightarrow> u32 list \<Rightarrow> u8 list \<Rightarrow> bool option
     \<Rightarrow> (u8 list \<times> bool option) outcome" where
  "read_regular_sectors bs sector_len logical partial_sector p [] out consumed_all = Inr (out, consumed_all)"
| "read_regular_sectors bs sector_len logical partial_sector p (i # is) out consumed_all =
     (if partial_sector = Some (unat i) then
        if is \<noteq> [] \<or> consumed_all \<noteq> None then Inl (malformed p ''partial physical sector is not terminal'')
        else if length out > logical then Inl (malformed p ''stream chain exceeds declared size'')
        else
          let remaining = logical - length out; start = (unat i + 1) * sector_len in
          if 2 ^ 64 \<le> start then Inl (malformed p ''partial sector offset overflowed'')
          else if start > length bs then Inl (malformed p ''partial sector is outside source bytes'')
          else
            let tail = drop start bs in
            if remaining = 0 \<or> remaining > length tail \<or> remaining \<ge> sector_len then
              Inl (malformed p ''partial terminal sector does not satisfy the declared stream size'')
            else read_regular_sectors bs sector_len logical partial_sector p is (out @ take remaining tail)
              (Some (remaining = length tail))
      else and_then (read_sector bs sector_len i) (\<lambda>s.
        read_regular_sectors bs sector_len logical partial_sector p is (out @ s) consumed_all))"

definition concatenate_regular_stream ::
  "allocator \<Rightarrow> u8 list \<Rightarrow> nat \<Rightarrow> u32 list \<Rightarrow> u64 \<Rightarrow> nat option \<Rightarrow> string \<Rightarrow> (u8 list \<times> bool option) outcome" where
  "concatenate_regular_stream alloc bs sector_len sids sz partial_sector p =
     and_then (try_vec_capacity alloc (unat sz) ''CFB regular stream'') (\<lambda>_.
     and_then (read_regular_sectors bs sector_len (unat sz) partial_sector p sids [] None) (\<lambda>(out, consumed_all).
     if length out < unat sz then Inl (malformed p ''stream chain is shorter than its declared size'')
     else Inr (take (unat sz) out, consumed_all)))"

definition materialize_regular_stream ::
  "'b CompoundBudget \<Rightarrow> allocator \<Rightarrow> u8 list \<Rightarrow> nat \<Rightarrow> u32 list \<Rightarrow> u64 \<Rightarrow> nat option \<Rightarrow> string
     \<Rightarrow> ('b, u8 list \<times> bool option) budgeted" where
  "materialize_regular_stream ops alloc bs sector_len sids sz partial_sector p =
     try_do (cfb_expanded ops sz) (\<lambda>_.
     give (concatenate_regular_stream alloc bs sector_len sids sz partial_sector p))"

section \<open>Contents\<close>

text \<open>
  The bytes a regular sids holds: its sectors in the file, where a partial last sector stops
  at the end of the file.
\<close>

definition sector_bytes :: "u8 list \<Rightarrow> nat \<Rightarrow> u32 \<Rightarrow> u8 list" where
  "sector_bytes bs sector_len i = take sector_len (drop ((unat i + 1) * sector_len) bs)"

definition chain_bytes :: "u8 list \<Rightarrow> nat \<Rightarrow> u32 list \<Rightarrow> u8 list" where
  "chain_bytes bs sector_len sids = concat (map (sector_bytes bs sector_len) sids)"

definition mini_chain_bytes :: "u8 list \<Rightarrow> nat \<Rightarrow> u32 list \<Rightarrow> u8 list" where
  "mini_chain_bytes root mini_size sids = concat (map (\<lambda>i. take mini_size (drop (unat i * mini_size) root)) sids)"

lemma read_sectors_Inr: "read_sectors bs n c = Inr ss \<Longrightarrow> concat ss = chain_bytes bs n c"
  by (induction c arbitrary: ss)
    (auto simp: chain_bytes_def and_then_Inr sector_bytes_def read_sector_Inr)

lemma read_regular_sectors_Inr:
  "read_regular_sectors bs n logical ps p c out pc = Inr (out', pc') \<Longrightarrow>
     take logical out' = take logical (out @ chain_bytes bs n c)"
proof (induction c arbitrary: out pc)
  case (Cons i c)
  show ?case
  proof (cases "ps = Some (unat i)")
    case True
    with Cons.prems have "c = []" and le: "length out \<le> logical"
      and out': "out' = out @ take (logical - length out) (drop ((unat i + 1) * n) bs)"
      and "logical - length out < n"
      by (auto simp: Let_def split: if_splits)
    then show ?thesis
      by (simp add: chain_bytes_def sector_bytes_def min_def)
  next
    case False
    with Cons.prems obtain s where "read_sector bs n i = Inr s"
      "read_regular_sectors bs n logical ps p c (out @ s) pc = Inr (out', pc')"
      by (auto simp: and_then_Inr)
    with Cons.IH [of "out @ s" pc] show ?thesis
      by (simp add: chain_bytes_def sector_bytes_def read_sector_Inr)
  qed
qed (simp add: chain_bytes_def)

text \<open>An accepted regular stream is exactly the declared number of bytes of its chain.\<close>

lemma concatenate_regular_stream_Inr:
  assumes "concatenate_regular_stream alloc bs n c sz ps p = Inr (d, pc)"
  shows "length d = unat sz \<and> d = take (unat sz) (chain_bytes bs n c)"
proof -
  from assms obtain out where r: "read_regular_sectors bs n (unat sz) ps p c [] None = Inr (out, pc)"
    and len: "unat sz \<le> length out" and d: "d = take (unat sz) out"
    by (auto simp: concatenate_regular_stream_def and_then_Inr split: if_splits)
  from len d have "length d = unat sz" by simp
  with d read_regular_sectors_Inr [OF r] show ?thesis by simp
qed

lemma read_mini_sectors_Inr:
  "read_mini_sectors p n root c owners out = Inr (out', owners') \<Longrightarrow>
     claim_all p c owners = Inr owners' \<and> out' = out @ mini_chain_bytes root n c
       \<and> length out' = length out + length c * n"
proof (induction c arbitrary: owners out)
  case (Cons i c)
  then have "nth_opt owners (unat i) = Some False"
    and "read_mini_sectors p n root c (owners[unat i := True]) (out @ take n (drop (unat i * n) root)) = Inr (out', owners')"
    and "unat i * n + n \<le> length root"
    by (auto simp: slice_def split: if_splits option.splits)
  with Cons.IH [of "owners[unat i := True]" "out @ take n (drop (unat i * n) root)"] show ?case
    by (auto simp: claim_def mini_chain_bytes_def and_then_Inr)
qed (simp add: mini_chain_bytes_def)

end
