(* ===== verification/Compound_File.thy ===== *)
theory Compound_File
  imports Cfb_Stream
begin

text \<open>
  Opening a compound file: \<open>crates/converters/src/msg/ole/open.rs\<close> and \<open>CompoundFile\<close> of
  \<open>ole.rs\<close>. The header is checked, the allocation tables are collected and every sector they,
  the directory, the miniFAT and the streams use is claimed once.
\<close>

section \<open>The header\<close>

record Header =
  major_version :: u16
  sector_size :: nat
  mini_sector_size :: nat
  directory_sectors :: u32
  fat_sectors :: u32
  first_directory :: u32
  mini_cutoff :: u32
  first_minifat :: u32
  minifat_sectors :: u32
  first_difat :: u32
  difat_sectors :: u32

definition SIGNATURE :: "u8 list" where
  "SIGNATURE = [0xd0, 0xcf, 0x11, 0xe0, 0xa1, 0xb1, 0x1a, 0xe1]"

definition parse_header :: "u8 list \<Rightarrow> Header outcome" where
  "parse_header bs =
     (let hdr = take 512 bs; p = ''cfb/header'' in
      if length bs < 512 then Inl (malformed p ''truncated CFB header'')
      else if take 8 hdr \<noteq> SIGNATURE then Inl (malformed p ''invalid CFB signature'')
      else if list_ex (\<lambda>b. b \<noteq> 0) (take 16 (drop 8 hdr)) then Inl (malformed p ''non-zero CFB header CLSID'')
      else and_then (le16 hdr 26 p) (\<lambda>major.
        and_then (le16 hdr 28 p) (\<lambda>order.
        if order \<noteq> 0xfffe then Inl (malformed p ''unsupported CFB byte order'')
        else and_then (le16 hdr 30 p) (\<lambda>shift.
        if \<not> ((major = 3 \<and> shift = 9) \<or> (major = 4 \<and> shift = 12)) then
          Inl (malformed p ''inconsistent CFB version and sector shift'')
        else and_then (le16 hdr 32 p) (\<lambda>mini_shift.
        if mini_shift \<noteq> 6 then Inl (malformed p ''unsupported CFB mini-sector shift'')
        else if list_ex (\<lambda>b. b \<noteq> 0) (take 6 (drop 34 hdr)) then
          Inl (malformed p ''non-zero reserved CFB header bytes'')
        else and_then (le32 hdr 40 p) (\<lambda>dirs.
        if major = 3 \<and> dirs \<noteq> 0 then Inl (malformed p ''version 3 CFB declares directory sector count'')
        else and_then (le32 hdr 56 p) (\<lambda>cutoff.
        if cutoff \<noteq> 4096 then Inl (malformed p ''unsupported CFB mini-stream cutoff'')
        else and_then (le32 hdr 44 p) (\<lambda>fats.
        and_then (le32 hdr 48 p) (\<lambda>first_dir.
        and_then (le32 hdr 60 p) (\<lambda>first_mini.
        and_then (le32 hdr 64 p) (\<lambda>minis.
        and_then (le32 hdr 68 p) (\<lambda>first_di.
        and_then (le32 hdr 72 p) (\<lambda>difats.
        Inr \<lparr>major_version = major, sector_size = 2 ^ unat shift, mini_sector_size = 64,
             directory_sectors = dirs, fat_sectors = fats, first_directory = first_dir,
             mini_cutoff = cutoff, first_minifat = first_mini, minifat_sectors = minis,
             first_difat = first_di, difat_sectors = difats\<rparr>)))))))))))))"

definition cfb_initial_memory_plan :: "Header \<Rightarrow> nat \<Rightarrow> nat outcome" where
  "cfb_initial_memory_plan h sectors =
     and_then (planned (unat (fat_sectors h) * sector_size h) ''CFB FAT allocation plan overflowed'') (\<lambda>table.
     and_then (planned ((unat (fat_sectors h) + unat (difat_sectors h)) * 4) ''CFB allocation-id plan overflowed'') (\<lambda>ids.
     and_then (planned (sectors * 8) ''CFB chain inventory plan overflowed'') (\<lambda>scratch.
     planned (sectors + table + ids + scratch) ''CFB initial memory plan overflowed'')))"

section \<open>Leases\<close>

text \<open>
  \<open>CompoundMemory\<close> holds leases until the file is dropped. The budget state of the reader is
  paired with the leases held so far; \<open>holding\<close> lifts the operations to it, \<open>memory_grow\<close> keeps a
  lease and \<open>scratch\<close> releases one when its scope ends, on success and on failure.
\<close>

type_synonym 'b holder = "'b \<times> nat list"

definition on_budget :: "('b, 'a) budgeted \<Rightarrow> ('b holder, 'a) budgeted" where
  "on_budget m s = (case m (fst s) of (r, b) \<Rightarrow> (r, (b, snd s)))"

definition holding :: "'b CompoundBudget \<Rightarrow> 'b holder CompoundBudget" where
  "holding ops = \<lparr>cfb_memory = (\<lambda>n. on_budget (cfb_memory ops n)), cfb_entry = on_budget (cfb_entry ops),
     cfb_expanded = (\<lambda>n. on_budget (cfb_expanded ops n)), cfb_depth = (\<lambda>d p. on_budget (cfb_depth ops d p)),
     cfb_work = (\<lambda>k. on_budget (cfb_work ops k)),
     cfb_release = (\<lambda>i s. (cfb_release ops i (fst s), snd s))\<rparr>"

definition memory_grow :: "'b CompoundBudget \<Rightarrow> nat \<Rightarrow> ('b holder, unit) budgeted" where
  "memory_grow ops n s =
     (if n = 0 then (Inr (), s)
      else case cfb_memory ops (of_nat n) (fst s) of
        (Inl e, b) \<Rightarrow> (Inl e, (b, snd s))
      | (Inr i, b) \<Rightarrow> (Inr (), (b, snd s @ [i])))"

definition scratch :: "'b CompoundBudget \<Rightarrow> nat \<Rightarrow> ('b, 'a) budgeted \<Rightarrow> ('b, 'a) budgeted" where
  "scratch ops n m =
     try_do (cfb_memory ops (of_nat n)) (\<lambda>i b. case m b of (r, b') \<Rightarrow> (r, cfb_release ops i b'))"

section \<open>State\<close>

record AllocationState =
  sector_count :: nat
  stream_sector_count :: nat
  partial_stream_sector :: "nat option"
  recoveries :: CompoundRecoveries
  owners :: "bool list"
  fat :: "u32 list"

record StreamState =
  minifat :: "u32 list"
  root_mini_stream :: "u8 list"
  regular_tail_targets :: "u32 list"
  mini_owners :: "bool list"
  mini_tail_targets :: "u32 list"

record CompoundFile =
  entries :: "DirectoryEntry list"
  streams :: "u8 list option list"
  file_recoveries :: CompoundRecoveries
  file_memory :: "nat list"

section \<open>Allocation tables\<close>

fun physical_ids :: "nat \<Rightarrow> u32 list \<Rightarrow> u32 list outcome" where
  "physical_ids n [] = Inr []"
| "physical_ids n (i # is) =
     (if i = FREE then physical_ids n is
      else and_then (validate_physical i n ''cfb/difat'') (\<lambda>_.
        and_then (physical_ids n is) (\<lambda>rest. Inr (i # rest))))"

text \<open>The declared number of DIFAT sectors: their FAT identifiers, their own, and the last link.\<close>

fun read_difat_sectors ::
  "'b CompoundBudget \<Rightarrow> u8 list \<Rightarrow> nat \<Rightarrow> nat \<Rightarrow> nat \<Rightarrow> u32 \<Rightarrow> ('b, u32 list \<times> u32 list \<times> u32) budgeted" where
  "read_difat_sectors ops bs sector_len n 0 current = give (Inr ([], [], current))"
| "read_difat_sectors ops bs sector_len n (Suc k) current =
     try_do (cfb_work ops 1) (\<lambda>_.
     try_do (give (and_then (validate_physical current n ''cfb/difat'') (\<lambda>_. read_sector bs sector_len current))) (\<lambda>s.
     try_do (give (physical_ids n (words_of (take (sector_len - 4) s)))) (\<lambda>ids.
     try_do (give (le32 s (sector_len - 4) ''cfb/difat'')) (\<lambda>succ.
     try_do (read_difat_sectors ops bs sector_len n k succ) (\<lambda>(fat_ids, difat_ids, last).
     give (Inr (ids @ fat_ids, current # difat_ids, last)))))))"

definition read_difat ::
  "'b CompoundBudget \<Rightarrow> allocator \<Rightarrow> Header \<Rightarrow> u8 list \<Rightarrow> nat \<Rightarrow> ('b, u32 list \<times> u32 list) budgeted" where
  "read_difat ops alloc h bs n =
     try_do (give (try_vec_capacity alloc (unat (fat_sectors h)) ''CFB FAT sector identifiers'')) (\<lambda>_.
     try_do (give (physical_ids n (words_of (take 436 (drop 76 bs))))) (\<lambda>header_ids.
     try_do (give (try_vec_capacity alloc (unat (difat_sectors h)) ''CFB DIFAT sector identifiers'')) (\<lambda>_.
     try_do (read_difat_sectors ops bs (sector_size h) n (unat (difat_sectors h)) (first_difat h))
       (\<lambda>(fat_ids, difat_ids, current).
     if difat_sectors h = 0 \<and> current \<noteq> END \<and> current \<noteq> FREE then
       give (Inl (malformed ''cfb/difat'' ''empty DIFAT chain has a start sector''))
     else if difat_sectors h \<noteq> 0 \<and> current \<noteq> END then
       give (Inl (malformed ''cfb/difat'' ''DIFAT chain is longer than declared''))
     else if length (header_ids @ fat_ids) \<noteq> unat (fat_sectors h) then
       give (Inl (malformed ''cfb/difat'' ''declared FAT sector count does not match DIFAT''))
     else give (Inr (header_ids @ fat_ids, difat_ids))))))"

text \<open>The marks of the FAT and DIFAT sectors in the FAT itself.\<close>

fun check_fat_marks ::
  "u32 list \<Rightarrow> CompoundCompatibility \<Rightarrow> u32 list \<Rightarrow> CompoundRecoveries \<Rightarrow> CompoundRecoveries outcome" where
  "check_fat_marks table mode [] rs = Inr rs"
| "check_fat_marks table mode (i # is) rs =
     (if nth_opt table (unat i) \<noteq> Some FAT then
        if mode = Strict then Inl (malformed ''cfb/fat'' ''FAT sector is not marked FATSECT'')
        else check_fat_marks table mode is (insert_recovery FatSectorMarker rs)
      else check_fat_marks table mode is rs)"

definition validate_fat ::
  "u32 list \<Rightarrow> u32 list \<Rightarrow> u32 list \<Rightarrow> nat \<Rightarrow> CompoundCompatibility \<Rightarrow> CompoundRecoveries
     \<Rightarrow> CompoundRecoveries outcome" where
  "validate_fat table fat_ids difat_ids n mode rs =
     (if length table < n then Inl (malformed ''cfb/fat'' ''FAT does not address every physical sector'')
      else and_then (check_fat_marks table mode fat_ids rs) (\<lambda>rs.
        if list_ex (\<lambda>i. nth_opt table (unat i) \<noteq> Some DIFAT) difat_ids then
          Inl (malformed ''cfb/difat'' ''DIFAT sector is not marked DIFSECT'')
        else if mode = Strict then and_then (validate_fat_targets (take n table) n) (\<lambda>_. Inr rs)
        else Inr (if list_ex (\<lambda>v. fat_target_is_out_of_bounds v n) (take n table)
                  then insert_recovery UnreachableFatTarget rs else rs)))"

definition read_allocation_tables ::
  "'b CompoundBudget \<Rightarrow> allocator \<Rightarrow> Header \<Rightarrow> u8 list \<Rightarrow> CompoundCompatibility \<Rightarrow> ('b holder, AllocationState) budgeted" where
  "read_allocation_tables ops alloc h bs mode =
     (let trailing = length bs mod sector_size h \<noteq> 0;
          n = length bs div sector_size h - 1;
          partial_sector = (if mode = LegacyOfficeBestEffort \<and> trailing then Some n else None);
          stream_n = n + (if partial_sector \<noteq> None then 1 else 0);
          rs = (if trailing then insert_recovery TrailingFileBytes 0 else 0) in
      if length bs < sector_size h then give (Inl (malformed ''cfb/header'' ''CFB file length is not sector aligned''))
      else if trailing \<and> mode = Strict then
        give (Inl (malformed ''cfb/header'' ''CFB file length is not sector aligned''))
      else if major_version h = 4 \<and> list_ex (\<lambda>b. b \<noteq> 0) (take (sector_size h - 512) (drop 512 bs)) then
        give (Inl (malformed ''cfb/header'' ''non-zero version 4 header padding''))
      else
        try_do (give (cfb_initial_memory_plan h stream_n)) (\<lambda>plan.
        try_do (memory_grow ops plan) (\<lambda>_.
        try_do (give (try_sized_vec alloc stream_n False ''CFB sector owner table'')) (\<lambda>own.
        try_do (read_difat (holding ops) alloc h bs n) (\<lambda>(fat_ids, difat_ids).
        try_do (give (claim_all ''cfb/difat'' difat_ids own)) (\<lambda>own.
        try_do (give (claim_all ''cfb/fat'' fat_ids own)) (\<lambda>own.
        if 2 ^ 64 \<le> length fat_ids * (sector_size h div 4) then
          give (Inl (limit ''max_decompressed_bytes'' ''CFB FAT capacity overflowed''))
        else
        try_do (give (try_vec_capacity alloc (length fat_ids * (sector_size h div 4)) ''CFB FAT'')) (\<lambda>_.
        try_do (give (read_sectors bs (sector_size h) fat_ids)) (\<lambda>ss.
        let table = concat (map words_of ss) in
        try_do (give (validate_fat table fat_ids difat_ids n mode rs)) (\<lambda>rs.
        give (Inr \<lparr>sector_count = n, stream_sector_count = stream_n, partial_stream_sector = partial_sector,
                   recoveries = rs, owners = own, fat = table\<rparr>)))))))))))"

section \<open>Directory and miniFAT\<close>

definition read_directory ::
  "'b CompoundBudget \<Rightarrow> allocator \<Rightarrow> nat \<Rightarrow> Header \<Rightarrow> u8 list \<Rightarrow> CompoundCompatibility \<Rightarrow> AllocationState
     \<Rightarrow> ('b holder, DirectoryEntry list \<times> AllocationState) budgeted" where
  "read_directory ops alloc entry_footprint h bs mode a =
     (let expected = (if major_version h = 4 then Some (directory_sectors h) else None) in
      try_do (give (walk_chain alloc (first_directory h) (fat a) (stream_sector_count a) expected ''cfb/directory'')) (\<lambda>dir.
      if dir = [] then give (Inl (malformed ''cfb/directory'' ''CFB has no directory sector''))
      else
      try_do (give (claim_all ''cfb/directory'' dir (owners a))) (\<lambda>own.
      if 2 ^ 64 \<le> length dir * sector_size h then
        give (Inl (limit ''max_memory_bytes'' ''CFB directory capacity overflowed''))
      else
      try_do (give (cfb_directory_memory_plan entry_footprint (length dir * sector_size h div 128))) (\<lambda>plan.
      try_do (memory_grow ops plan) (\<lambda>_.
      try_do (scratch (holding ops) (length dir * sector_size h)
          (try_do (give (concatenate alloc bs (sector_size h) dir)) (\<lambda>dbs.
           parse_directory (holding ops) alloc dbs (major_version h) mode (recoveries a)))) (\<lambda>(es, rs).
      try_do (assign_paths (holding ops) alloc es) (\<lambda>es.
      give (Inr (es, a\<lparr>owners := own, recoveries := rs\<rparr>)))))))))"

definition read_minifat ::
  "'b CompoundBudget \<Rightarrow> allocator \<Rightarrow> Header \<Rightarrow> u8 list \<Rightarrow> DirectoryEntry list \<Rightarrow> AllocationState
     \<Rightarrow> ('b holder, u32 list \<times> AllocationState) budgeted" where
  "read_minifat ops alloc h bs es a =
     try_do (give
       (if minifat_sectors h = 0 then
          if first_minifat h \<noteq> END \<and> first_minifat h \<noteq> FREE then
            Inl (malformed ''cfb/minifat'' ''empty miniFAT has a start sector'')
          else Inr []
        else walk_chain alloc (first_minifat h) (fat a) (sector_count a) (Some (minifat_sectors h)) ''cfb/minifat''))
     (\<lambda>mini.
     try_do (give (claim_all ''cfb/minifat'' mini (owners a))) (\<lambda>own.
     try_do (give (cfb_stream_memory_plan es (length mini) (sector_size h) (mini_sector_size h) (mini_cutoff h))) (\<lambda>plan.
     try_do (memory_grow ops plan) (\<lambda>_.
     if 2 ^ 64 \<le> length mini * (sector_size h div 4) then
       give (Inl (limit ''max_memory_bytes'' ''CFB miniFAT capacity overflowed''))
     else
     try_do (give (try_vec_capacity alloc (length mini * (sector_size h div 4)) ''CFB miniFAT'')) (\<lambda>_.
     try_do (give (read_sectors bs (sector_size h) mini)) (\<lambda>ss.
     give (Inr (concat (map words_of ss), a\<lparr>owners := own\<rparr>))))))))"

section \<open>Streams\<close>

definition record_partial_tail :: "bool option \<Rightarrow> CompoundRecoveries \<Rightarrow> CompoundRecoveries" where
  "record_partial_tail consumed_all rs =
     (case consumed_all of
        None \<Rightarrow> rs
      | Some b \<Rightarrow> insert_recovery PartialStreamSector (if b then remove_recovery TrailingFileBytes rs else rs))"

definition opt_list :: "'a option \<Rightarrow> 'a list" where
  "opt_list x = (case x of None \<Rightarrow> [] | Some v \<Rightarrow> [v])"

definition read_root_stream ::
  "'b CompoundBudget \<Rightarrow> allocator \<Rightarrow> Header \<Rightarrow> u8 list \<Rightarrow> CompoundCompatibility \<Rightarrow> DirectoryEntry list \<Rightarrow> u32 list
     \<Rightarrow> AllocationState \<Rightarrow> ('b, StreamState \<times> AllocationState) budgeted" where
  "read_root_stream ops alloc h bs mode es mini a =
     (case es of
        [] \<Rightarrow> give (Inl (malformed ''cfb/directory'' ''missing root entry''))
      | root # _ \<Rightarrow>
          try_do (give (regular_stream_chain alloc root (fat a) (sector_count a) (sector_size h) ''cfb/root'' mode))
            (\<lambda>(sids, tail).
          try_do (give (try_vec_capacity alloc (length es) ''CFB regular stream tail targets'')) (\<lambda>_.
          try_do (give (claim_all ''cfb/root-mini-stream'' sids (owners a))) (\<lambda>own.
          try_do (materialize_regular_stream ops alloc bs (sector_size h) sids (stream_size root)
              (partial_stream_sector a) ''cfb/root'') (\<lambda>(d, consumed_all).
          try_do (give (try_sized_vec alloc (div_ceil (length d) (mini_sector_size h)) False
              ''CFB mini-sector owner table'')) (\<lambda>mini_own.
          try_do (give (try_vec_capacity alloc (length es) ''CFB mini stream tail targets'')) (\<lambda>_.
          give (Inr (\<lparr>minifat = mini, root_mini_stream = d, regular_tail_targets = opt_list tail,
                      mini_owners = mini_own, mini_tail_targets = []\<rparr>,
                a\<lparr>owners := own, recoveries := record_partial_tail consumed_all (recoveries a)\<rparr>)))))))))"

definition read_regular_stream ::
  "allocator \<Rightarrow> Header \<Rightarrow> u8 list \<Rightarrow> DirectoryEntry \<Rightarrow> string \<Rightarrow> CompoundCompatibility \<Rightarrow> AllocationState \<Rightarrow> StreamState
     \<Rightarrow> (u8 list \<times> AllocationState \<times> StreamState) outcome" where
  "read_regular_stream alloc h bs e p mode a st =
     and_then (regular_stream_chain alloc e (fat a) (stream_sector_count a) (sector_size h) p mode) (\<lambda>(sids, tail).
     and_then (claim_all p sids (owners a)) (\<lambda>own.
     and_then (concatenate_regular_stream alloc bs (sector_size h) sids (stream_size e) (partial_stream_sector a) p)
       (\<lambda>(d, consumed_all).
     Inr (d, a\<lparr>owners := own, recoveries := record_partial_tail consumed_all (recoveries a)\<rparr>,
          st\<lparr>regular_tail_targets := regular_tail_targets st @ opt_list tail\<rparr>))))"

definition read_small_stream ::
  "allocator \<Rightarrow> Header \<Rightarrow> DirectoryEntry \<Rightarrow> string \<Rightarrow> CompoundCompatibility \<Rightarrow> StreamState
     \<Rightarrow> (u8 list \<times> StreamState) outcome" where
  "read_small_stream alloc h e p mode st =
     and_then (read_mini_stream alloc e p (minifat st) (root_mini_stream st) (mini_sector_size h) mode (mini_owners st))
       (\<lambda>(d, own, tail).
     Inr (d, st\<lparr>mini_owners := own, mini_tail_targets := mini_tail_targets st @ opt_list tail\<rparr>))"

text \<open>The loop over the entries: a slot per entry, filled for streams.\<close>

fun read_stream_slots ::
  "'b CompoundBudget \<Rightarrow> allocator \<Rightarrow> Header \<Rightarrow> u8 list \<Rightarrow> CompoundCompatibility \<Rightarrow> DirectoryEntry list
     \<Rightarrow> nat list \<Rightarrow> AllocationState \<Rightarrow> StreamState
     \<Rightarrow> ('b, u8 list option list \<times> AllocationState \<times> StreamState) budgeted" where
  "read_stream_slots ops alloc h bs mode es [] a st = give (Inr ([], a, st))"
| "read_stream_slots ops alloc h bs mode es (k # ks) a st =
     (let e = es ! k; p = stable_path es k in
      if entry_kind e \<noteq> Stream then
        try_do (read_stream_slots ops alloc h bs mode es ks a st) (\<lambda>(ds, a, st). give (Inr (None # ds, a, st)))
      else
        try_do (cfb_expanded ops (stream_size e)) (\<lambda>_.
        try_do (give
          (if unat (stream_size e) < unat (mini_cutoff h)
           then and_then (read_small_stream alloc h e p mode st) (\<lambda>(d, st). Inr (d, a, st))
           else read_regular_stream alloc h bs e p mode a st)) (\<lambda>(d, a, st).
        try_do (read_stream_slots ops alloc h bs mode es ks a st) (\<lambda>(ds, a, st).
        give (Inr (Some d # ds, a, st))))))"

definition read_streams ::
  "'b CompoundBudget \<Rightarrow> allocator \<Rightarrow> Header \<Rightarrow> u8 list \<Rightarrow> CompoundCompatibility \<Rightarrow> DirectoryEntry list
     \<Rightarrow> AllocationState \<Rightarrow> StreamState \<Rightarrow> ('b, u8 list option list \<times> AllocationState) budgeted" where
  "read_streams ops alloc h bs mode es a st =
     try_do (give (try_vec_capacity alloc (length es) ''CFB stream slots'')) (\<lambda>_.
     try_do (read_stream_slots ops alloc h bs mode es [0..<length es] a st) (\<lambda>(ds, a, st).
     try_do (give (validate_pending_tails (regular_tail_targets st) (owners a) (fat a) ''cfb/stream-tail'')) (\<lambda>_.
     try_do (give (validate_pending_tails (mini_tail_targets st) (mini_owners st) (minifat st) ''cfb/mini-stream-tail'')) (\<lambda>_.
     give (Inr (ds, if regular_tail_targets st \<noteq> [] \<or> mini_tail_targets st \<noteq> []
                    then a\<lparr>recoveries := insert_recovery StreamChainTail (recoveries a)\<rparr> else a))))))"

section \<open>Opening\<close>

definition open_held ::
  "'b CompoundBudget \<Rightarrow> allocator \<Rightarrow> nat \<Rightarrow> u8 list \<Rightarrow> CompoundCompatibility \<Rightarrow> ('b holder, CompoundFile) budgeted" where
  "open_held ops alloc entry_footprint bs mode =
     try_do (give (parse_header bs)) (\<lambda>h.
     try_do (read_allocation_tables ops alloc h bs mode) (\<lambda>a.
     try_do (read_directory ops alloc entry_footprint h bs mode a) (\<lambda>(es, a).
     try_do (read_minifat ops alloc h bs es a) (\<lambda>(mini, a).
     try_do (read_root_stream (holding ops) alloc h bs mode es mini a) (\<lambda>(st, a).
     try_do (read_streams (holding ops) alloc h bs mode es a st) (\<lambda>(ds, a).
     give (Inr \<lparr>entries = es, streams = ds, file_recoveries = recoveries a, file_memory = []\<rparr>)))))))"

text \<open>\<open>open\<close>: the file keeps the leases; a failure drops them.\<close>

definition open_compound ::
  "'b CompoundBudget \<Rightarrow> allocator \<Rightarrow> nat \<Rightarrow> u8 list \<Rightarrow> CompoundCompatibility \<Rightarrow> ('b, CompoundFile) budgeted" where
  "open_compound ops alloc entry_footprint bs mode b =
     (case open_held ops alloc entry_footprint bs mode (b, []) of
        (Inl e, (b', ls)) \<Rightarrow> (Inl e, fold (cfb_release ops) ls b')
      | (Inr f, (b', ls)) \<Rightarrow> (Inr (f\<lparr>file_memory := ls\<rparr>), b'))"

end
