(* ===== verification/Compound_Leases.thy ===== *)
theory Compound_Leases
  imports Compound_File
begin

text \<open>
  What opening a compound file does to its budget: a failed opening holds no lease, a successful
  one exactly those of the file, and the streams it returns are counted below the expansion cap.
  The laws are those of the locale \<open>compound_budget\<close>; both budgets of the program provide them.
\<close>

section \<open>Steps that respect a relation\<close>

definition keeping :: "('b \<Rightarrow> 'b \<Rightarrow> bool) \<Rightarrow> ('b, 'a) budgeted \<Rightarrow> bool" where
  "keeping R m \<longleftrightarrow> (\<forall>b r b'. m b = (r, b') \<longrightarrow> R b b')"

definition ops_keep :: "('b \<Rightarrow> 'b \<Rightarrow> bool) \<Rightarrow> 'b CompoundBudget \<Rightarrow> bool" where
  "ops_keep R ops \<longleftrightarrow> reflp R \<and> transp R \<and> keeping R (cfb_entry ops)
     \<and> (\<forall>n. keeping R (cfb_expanded ops n)) \<and> (\<forall>d p. keeping R (cfb_depth ops d p))
     \<and> (\<forall>k. keeping R (cfb_work ops k))"

lemma keepingD: "keeping R m \<Longrightarrow> m b = (r, b') \<Longrightarrow> R b b'"
  by (auto simp: keeping_def)

lemma keeping_give [intro]: "reflp R \<Longrightarrow> keeping R (give r)"
  by (auto simp: keeping_def reflp_def)

lemma keeping_try_do:
  assumes "transp R" "keeping R m" "\<And>v. keeping R (f v)"
  shows "keeping R (try_do m f)"
  using assms by (auto simp: keeping_def try_do_def transp_def split: prod.splits sum.splits; blast)

lemma ops_keepD:
  assumes "ops_keep R ops"
  shows "reflp R" "transp R" "keeping R (cfb_entry ops)" "keeping R (cfb_expanded ops n)"
    "keeping R (cfb_depth ops d p)" "keeping R (cfb_work ops k)"
  using assms by (auto simp: ops_keep_def)

text \<open>The continuation only runs on values the first step can return.\<close>

lemma keeping_try_do_dep:
  assumes "transp R" "keeping R m" "\<And>b v b1. m b = (Inr v, b1) \<Longrightarrow> keeping R (f v)"
  shows "keeping R (try_do m f)"
  using assms by (auto simp: keeping_def try_do_def transp_def split: prod.splits sum.splits) blast

lemma keeping_if: "(c \<Longrightarrow> keeping R m) \<Longrightarrow> (\<not> c \<Longrightarrow> keeping R m') \<Longrightarrow> keeping R (if c then m else m')"
  by simp

lemma keeping_split: "(\<And>x y. keeping R (f x y)) \<Longrightarrow> keeping R (case p of (x, y) \<Rightarrow> f x y)"
  by (cases p) simp

lemmas keeping_rules = keeping_if keeping_split keeping_try_do keeping_give ops_keepD

lemma parse_entries_keeping: "ops_keep R ops \<Longrightarrow> keeping R (parse_entries ops i raws major mode rs)"
  by (induction raws arbitrary: i rs) (auto intro!: keeping_rules dest: ops_keepD)

lemma parse_directory_keeping: "ops_keep R ops \<Longrightarrow> keeping R (parse_directory ops alloc bs major mode rs)"
  unfolding parse_directory_def by (auto intro!: keeping_rules parse_entries_keeping dest: ops_keepD)

lemma visits_grows: "visits index par es seen es' seen' \<Longrightarrow> grows seen seen'"
  by (induction rule: visits.induct) (simp, (meson grows_trans grows_mark)+)

lemma visit_tree_shrinks:
  "visit_tree ops index par sd td es seen b = (Inr s, b') \<Longrightarrow> unseen (snd s) \<le> unseen seen"
  by (rule grows_unseen [OF visits_grows [OF visit_tree_visits]])

lemma visit_tree_keeping:
  "ops_keep R ops \<Longrightarrow> keeping R (visit_tree ops index par sd td es seen)"
proof (induction "unseen seen" arbitrary: index par sd td es seen rule: less_induct)
  case less
  note ops = ops_keepD [OF less.prems]
  have walk: "visit_tree ops index par sd td es seen =
     (if index = NONE then give (Inr (es, seen))
      else try_do (cfb_depth ops (max sd td) ''cfb/directory'') (\<lambda>_.
        try_do (give (enter_entry es seen (unat index))) (\<lambda>entry.
        try_do (visit_tree ops (left entry) par sd (td + 1) es (seen[unat index := True])) (\<lambda>s.
        try_do
            (if entry_kind entry = Storage
             then visit_tree ops (child entry) (Some (unat index)) (sd + 1) 0
               ((fst s)[unat index := (fst s ! unat index)\<lparr>parent := par\<rparr>]) (snd s)
             else give (Inr ((fst s)[unat index := (fst s ! unat index)\<lparr>parent := par\<rparr>], snd s))) (\<lambda>s.
        visit_tree ops (right entry) par sd (td + 1) (fst s) (snd s))))))"
    by (rule ext) (subst visit_tree.simps, auto simp: try_do_def Let_def split: prod.splits sum.splits)
  show ?case
    unfolding walk
  proof (intro keeping_if keeping_give keeping_try_do_dep ops)
    fix b u b1 c e d
    assume enter: "give (enter_entry es seen (unat index)) c = (Inr e, d)"
    then have mark: "unseen (seen[unat index := True]) < unseen seen" by (auto intro: unseen_mark)
    then show "keeping R (visit_tree ops (left e) par sd (td + 1) es (seen[unat index := True]))"
      by (rule less.hyps) (rule less.prems)
    fix c s d
    assume "visit_tree ops (left e) par sd (td + 1) es (seen[unat index := True]) c = (Inr s, d)"
    with mark have left: "unseen (snd s) < unseen seen" by (auto dest: visit_tree_shrinks)
    let ?es = "(fst s)[unat index := (fst s ! unat index)\<lparr>parent := par\<rparr>]"
    show "keeping R (visit_tree ops (child e) (Some (unat index)) (sd + 1) 0 ?es (snd s))"
      using left less.prems by (rule less.hyps)
    fix c t d
    assume "(if entry_kind e = Storage then visit_tree ops (child e) (Some (unat index)) (sd + 1) 0 ?es (snd s)
        else give (Inr (?es, snd s))) c = (Inr t, d)"
    with left have "unseen (snd t) < unseen seen"
      by (auto dest: visit_tree_shrinks split: if_splits)
    then show "keeping R (visit_tree ops (right e) par sd (td + 1) (fst t) (snd t))"
      using less.prems by (rule less.hyps)
  qed
qed

lemma validate_unique_names_keeping: "ops_keep R ops \<Longrightarrow> keeping R (validate_unique_names ops alloc es)"
  unfolding validate_unique_names_def Let_def by (auto intro!: keeping_rules dest: ops_keepD)

lemma assign_paths_keeping: "ops_keep R ops \<Longrightarrow> keeping R (assign_paths ops alloc es)"
  unfolding assign_paths_def
  by (auto intro!: keeping_rules validate_unique_names_keeping visit_tree_keeping dest: ops_keepD)

lemma read_difat_sectors_keeping: "ops_keep R ops \<Longrightarrow> keeping R (read_difat_sectors ops bs sl n k current)"
  by (induction k arbitrary: current) (auto intro!: keeping_rules dest: ops_keepD)

lemma read_difat_keeping: "ops_keep R ops \<Longrightarrow> keeping R (read_difat ops alloc h bs n)"
  unfolding read_difat_def by (auto intro!: keeping_rules read_difat_sectors_keeping dest: ops_keepD)

lemma read_root_stream_keeping:
  "ops_keep R ops \<Longrightarrow> keeping R (read_root_stream ops alloc h bs mode es mini a)"
  unfolding read_root_stream_def materialize_regular_stream_def
  by (cases es) (auto intro!: keeping_rules dest: ops_keepD)

lemma read_stream_slots_keeping:
  "ops_keep R ops \<Longrightarrow> keeping R (read_stream_slots ops alloc h bs mode es ks a st)"
  by (induction ks arbitrary: a st) (auto intro!: keeping_rules simp: Let_def dest: ops_keepD)

lemma read_streams_keeping:
  "ops_keep R ops \<Longrightarrow> keeping R (read_streams ops alloc h bs mode es a st)"
  unfolding read_streams_def
  by (auto intro!: keeping_rules read_stream_slots_keeping dest: ops_keepD)

section \<open>The reader over a budget with the laws\<close>

text \<open>
  On a budget paired with the leases held: new leases are appended, they are distinct and live,
  and nothing else becomes live.
\<close>

definition held_step ::
  "('b \<Rightarrow> nat set) \<Rightarrow> ('b \<Rightarrow> bool) \<Rightarrow> 'b holder \<Rightarrow> 'b holder \<Rightarrow> bool" where
  "held_step live good s t \<longleftrightarrow>
     (good (fst s) \<longrightarrow> good (fst t) \<and> (\<exists>new. snd t = snd s @ new \<and> distinct new
        \<and> set new \<inter> live (fst s) = {} \<and> live (fst t) = live (fst s) \<union> set new))"

lemma held_step_refl: "reflp (held_step live good)"
  by (simp add: reflp_def held_step_def)

lemma held_step_trans: "transp (held_step live good)"
proof (rule transpI)
  fix s t u
  assume st: "held_step live good s t" and tu: "held_step live good t u"
  show "held_step live good s u"
    unfolding held_step_def
  proof
    assume "good (fst s)"
    with st obtain n1 where n1: "good (fst t)" "snd t = snd s @ n1" "distinct n1"
        "set n1 \<inter> live (fst s) = {}" "live (fst t) = live (fst s) \<union> set n1"
      by (auto simp: held_step_def)
    with tu obtain n2 where "good (fst u)" "snd u = snd t @ n2" "distinct n2"
        "set n2 \<inter> live (fst t) = {}" "live (fst u) = live (fst t) \<union> set n2"
      by (auto simp: held_step_def)
    with n1 show "good (fst u) \<and> (\<exists>new. snd u = snd s @ new \<and> distinct new
        \<and> set new \<inter> live (fst s) = {} \<and> live (fst u) = live (fst s) \<union> set new)"
      by (intro conjI exI [of _ "n1 @ n2"]) auto
  qed
qed

lemma same_leases_held:
  "same_leases live good a b \<Longrightarrow> held_step live good (a, ls) (b, ls)"
  by (auto simp: held_step_def same_leases_def)

context compound_budget
begin

lemma holding_keeps: "ops_keep (held_step live good) (holding ops)"
  unfolding ops_keep_def keeping_def holding_def on_budget_def
  by (auto intro!: held_step_refl held_step_trans same_leases_held split: prod.splits
      dest: entry_leases expanded_leases depth_leases work_leases)

lemma memory_grow_keeps: "keeping (held_step live good) (memory_grow ops n)"
  unfolding keeping_def
proof (intro allI impI)
  fix s :: "'b holder" and r t
  assume m: "memory_grow ops n s = (r, t)"
  show "held_step live good s t"
  proof (cases "n = 0")
    case True
    with m have "t = s" by (simp add: memory_grow_def)
    then show ?thesis using held_step_refl [THEN reflpD] by metis
  next
    case False
    show ?thesis
    proof (cases "cfb_memory ops (of_nat n) (fst s)")
      case (Pair q b)
      with m False show ?thesis
        by (cases q) (auto simp: memory_grow_def held_step_def dest: memory_granted dest!: memory_refused
          simp: same_leases_def)
    qed
  qed
qed

lemma scratch_keeps:
  assumes "keeping (held_step live good) m"
  shows "keeping (held_step live good) (scratch (holding ops) n m)"
  unfolding keeping_def
proof (intro allI impI)
  fix s :: "'b holder" and r t
  assume m: "scratch (holding ops) n m s = (r, t)"
  obtain q b where mem: "cfb_memory ops (of_nat n) (fst s) = (q, b)" by (cases "cfb_memory ops (of_nat n) (fst s)")
  show "held_step live good s t"
  proof (cases q)
    case (Inl e)
    with m mem have "t = (b, snd s)" by (auto simp: scratch_def try_do_def holding_def on_budget_def)
    with mem Inl show ?thesis by (cases s) (auto intro!: same_leases_held dest: memory_refused)
  next
    case (Inr i)
    obtain r' u where run: "m (b, snd s) = (r', u)" by (cases "m (b, snd s)")
    with m mem Inr have t: "t = (cfb_release ops i (fst u), snd u)"
      by (auto simp: scratch_def try_do_def holding_def on_budget_def)
    show ?thesis
      unfolding held_step_def
    proof
      assume g: "good (fst s)"
      from memory_granted [OF g] mem Inr have i: "i \<notin> live (fst s)" "live b = insert i (live (fst s))" "good b"
        by auto
      from keepingD [OF assms run] i(3) obtain new where "good (fst u)" "snd u = snd s @ new" "distinct new"
        "set new \<inter> live b = {}" "live (fst u) = live b \<union> set new" by (auto simp: held_step_def)
      with i t release_leases [of i "fst u"]
      show "good (fst t) \<and> (\<exists>new. snd t = snd s @ new \<and> distinct new
          \<and> set new \<inter> live (fst s) = {} \<and> live (fst t) = live (fst s) \<union> set new)"
        by (intro conjI exI [of _ new]) auto
    qed
  qed
qed

lemma open_held_keeps: "keeping (held_step live good) (open_held ops alloc k bs mode)"
proof -
  note rules = keeping_if keeping_split keeping_try_do [OF held_step_trans] keeping_give [OF held_step_refl]
    memory_grow_keeps scratch_keeps
    parse_directory_keeping [OF holding_keeps] assign_paths_keeping [OF holding_keeps]
    read_difat_keeping [OF holding_keeps] read_root_stream_keeping [OF holding_keeps]
    read_streams_keeping [OF holding_keeps]
  show ?thesis
    unfolding open_held_def read_allocation_tables_def read_directory_def read_minifat_def Let_def
    by (intro rules)
qed

text \<open>A failed opening leaves the leases as they were; an opened file holds the only new ones.\<close>

lemma open_leases:
  assumes "open_compound ops alloc k bs mode b = (r, b')" "good b"
  shows "case r of Inl e \<Rightarrow> live b' = live b
    | Inr f \<Rightarrow> distinct (file_memory f) \<and> set (file_memory f) \<inter> live b = {}
        \<and> live b' = live b \<union> set (file_memory f)"
proof -
  obtain r0 b0 ls where run: "open_held ops alloc k bs mode (b, []) = (r0, (b0, ls))"
    by (cases "open_held ops alloc k bs mode (b, [])") auto
  from keepingD [OF open_held_keeps run] assms(2)
  have "distinct ls" "set ls \<inter> live b = {}" "live b0 = live b \<union> set ls"
    by (auto simp: held_step_def)
  with assms(1) run show ?thesis
    by (cases r0) (auto simp: open_compound_def release_all)
qed

end

section \<open>Expansion\<close>

definition stream_total :: "DirectoryEntry list \<Rightarrow> nat list \<Rightarrow> nat" where
  "stream_total es ks = sum_list (map (\<lambda>k. if entry_kind (es ! k) = Stream then unat (stream_size (es ! k)) else 0) ks)"

definition counts_up :: "('b \<Rightarrow> nat) \<Rightarrow> ('b \<Rightarrow> nat) \<Rightarrow> 'b holder \<Rightarrow> 'b holder \<Rightarrow> bool" where
  "counts_up spent cap s t \<longleftrightarrow> cap (fst t) = cap (fst s) \<and> spent (fst s) \<le> spent (fst t)"

lemma counts_up_preorder: "reflp (counts_up spent cap)" "transp (counts_up spent cap)"
  by (auto simp: counts_up_def reflp_def transp_def)

context compound_budget
begin

lemma holding_counts: "ops_keep (counts_up spent cap) (holding ops)"
  unfolding ops_keep_def keeping_def holding_def on_budget_def counts_up_def
  by (auto simp: reflp_def transp_def split: prod.splits
      dest: entry_leases expanded_leases depth_leases work_leases)

lemma memory_grow_counts: "keeping (counts_up spent cap) (memory_grow ops n)"
  unfolding keeping_def counts_up_def memory_grow_def
  by (auto split: prod.splits sum.splits if_splits dest: memory_spent)

lemma scratch_counts:
  "keeping (counts_up spent cap) m \<Longrightarrow> keeping (counts_up spent cap) (scratch (holding ops) n m)"
  unfolding keeping_def counts_up_def scratch_def try_do_def holding_def on_budget_def
  by (auto simp: release_spent split: prod.splits sum.splits dest!: memory_spent) (metis fst_conv)+

lemma slots_spent:
  "read_stream_slots (holding ops) alloc h bs mode es ks a st s = (Inr (ds, a', st'), t) \<Longrightarrow>
     spent (fst s) \<le> cap (fst s) \<Longrightarrow>
     spent (fst t) = spent (fst s) + stream_total es ks \<and> spent (fst t) \<le> cap (fst s)"
proof (induction ks arbitrary: a st s ds)
  case (Cons k ks)
  show ?case
  proof (cases "entry_kind (es ! k) = Stream")
    case True
    with Cons.prems(1) obtain u s1 d a1 st1 s2 ds1 where
      x: "cfb_expanded (holding ops) (stream_size (es ! k)) s = (Inr u, s1)"
      and "read_stream_slots (holding ops) alloc h bs mode es ks a1 st1 s1 = (Inr (ds1, a', st'), t)"
      by (auto simp: Let_def try_do_Inr)
    moreover from x obtain b1 where "cfb_expanded ops (stream_size (es ! k)) (fst s) = (Inr u, b1)" "s1 = (b1, snd s)"
      by (auto simp: holding_def on_budget_def split: prod.splits)
    moreover from this expanded_counted [of "stream_size (es ! k)" "fst s" u b1]
      expanded_leases [of "stream_size (es ! k)" "fst s" "Inr u" b1]
    have "spent (fst s1) = spent (fst s) + unat (stream_size (es ! k))" "spent (fst s1) \<le> cap (fst s)"
      "cap (fst s1) = cap (fst s)" by auto
    ultimately show ?thesis
      using Cons.IH [of a1 st1 s1 ds1] True by (simp add: stream_total_def)
  next
    case False
    with Cons.prems(1) obtain ds1 where
      "read_stream_slots (holding ops) alloc h bs mode es ks a st s = (Inr (ds1, a', st'), t)"
      by (auto simp: Let_def try_do_Inr)
    from Cons.IH [OF this Cons.prems(2)] False show ?thesis by (simp add: stream_total_def)
  qed
qed (simp add: stream_total_def)

lemma open_held_spent:
  assumes "open_held ops alloc k bs mode (b, []) = (Inr f, t)"
  shows "spent b + unat (stream_size (entries f ! 0)) + stream_total (entries f) [0..<length (entries f)]
     \<le> spent (fst t) \<and> spent (fst t) \<le> cap b"
proof -
  note rules = keeping_if keeping_split keeping_try_do [OF counts_up_preorder(2)] keeping_give [OF counts_up_preorder(1)]
    memory_grow_counts scratch_counts
    parse_directory_keeping [OF holding_counts] assign_paths_keeping [OF holding_counts]
    read_difat_keeping [OF holding_counts]
  have tables: "keeping (counts_up spent cap) (read_allocation_tables ops alloc h bs mode)"
    and dir: "keeping (counts_up spent cap) (read_directory ops alloc k h bs mode a)"
    and mini: "keeping (counts_up spent cap) (read_minifat ops alloc h bs es a)" for h a es
    unfolding read_allocation_tables_def read_directory_def read_minifat_def Let_def by (intro rules)+
  from assms obtain h a s1 es a2 s2 mini a3 s3 st a4 s4 ds a5 where
    1: "read_allocation_tables ops alloc h bs mode (b, []) = (Inr a, s1)" and
    2: "read_directory ops alloc k h bs mode a s1 = (Inr (es, a2), s2)" and
    3: "read_minifat ops alloc h bs es a2 s2 = (Inr (mini, a3), s3)" and
    4: "read_root_stream (holding ops) alloc h bs mode es mini a3 s3 = (Inr (st, a4), s4)" and
    5: "read_streams (holding ops) alloc h bs mode es a4 st s4 = (Inr (ds, a5), t)" and
    f: "entries f = es"
    by (auto simp: open_held_def try_do_Inr)
  from keepingD [OF tables 1] keepingD [OF dir 2] keepingD [OF mini 3]
  have s3: "spent b \<le> spent (fst s3)" "cap (fst s3) = cap b" by (auto simp: counts_up_def)
  from 4 obtain root rest where es: "es = root # rest" by (cases es) (auto simp: read_root_stream_def)
  with 4 obtain u where "cfb_expanded (holding ops) (stream_size root) s3 = (Inr u, s4)"
    by (auto simp: read_root_stream_def materialize_regular_stream_def try_do_Inr)
  then have "cfb_expanded ops (stream_size root) (fst s3) = (Inr u, fst s4)"
    by (auto simp: holding_def on_budget_def split: prod.splits)
  from expanded_counted [OF this] expanded_leases [OF this] s3
  have s4: "spent b + unat (stream_size root) \<le> spent (fst s4)" "spent (fst s4) \<le> cap b" "cap (fst s4) = cap b"
    by auto
  from 5 obtain ds1 a1 st1 where
    "read_stream_slots (holding ops) alloc h bs mode es [0..<length es] a4 st s4 = (Inr (ds1, a1, st1), t)"
    by (auto simp: read_streams_def try_do_Inr)
  from slots_spent [OF this] s4 f es show ?thesis by simp
qed

end

end
