(* ===== verification/Compound_Layout.thy ===== *)
theory Compound_Layout
  imports Compound_File
begin

text \<open>
  The parts of a compound file read off its bytes, without the reader of
  \<open>crates/converters/src/msg/ole\<close>: little-endian words, sectors, allocation tables, chains and directory
  records; and the proofs that the small readers return exactly these.
\<close>

section \<open>Bytes\<close>

definition word16 :: "u8 list \<Rightarrow> nat \<Rightarrow> u16" where
  "word16 bs k = of_nat (unat (bs ! k) + 256 * unat (bs ! (k + 1)))"

definition dword :: "u8 list \<Rightarrow> nat \<Rightarrow> u32" where
  "dword bs k = of_nat (unat (bs ! k) + 256 * unat (bs ! (k + 1)) + 65536 * unat (bs ! (k + 2)) + 16777216 * unat (bs ! (k + 3)))"

lemma take_drop_Cons: "k < length xs \<Longrightarrow> take (Suc n) (drop k xs) = xs ! k # take n (drop (Suc k) xs)"
  by (metis Cons_nth_drop_Suc take_Suc_Cons)

lemma le16_word16: "k + 2 \<le> length bs \<Longrightarrow> le16 bs k p = Inr (word16 bs k)"
  by (simp add: le16_def le_word_def slice_def word16_def take_drop_Cons numeral_2_eq_2)

lemma from_le_bytes_dword:
  "k + 4 \<le> length bs \<Longrightarrow> from_le_bytes (take 4 (drop k bs)) = unat (dword bs k)"
proof -
  assume k: "k + 4 \<le> length bs"
  have "take 4 (drop k bs) = [bs ! k, bs ! (k + 1), bs ! (k + 2), bs ! (k + 3)]"
    using k by (simp add: take_drop_Cons eval_nat_numeral)
  then have "from_le_bytes (take 4 (drop k bs))
      = unat (bs ! k) + 256 * unat (bs ! (k + 1)) + 65536 * unat (bs ! (k + 2)) + 16777216 * unat (bs ! (k + 3))"
    by (simp only:) simp
  moreover from this have "\<dots> < 2 ^ LENGTH(32)"
    using from_le_bytes_bound [of "take 4 (drop k bs)"] k by simp
  ultimately show ?thesis unfolding dword_def by (simp only: unat_of_nat_small)
qed

lemma le32_dword: "k + 4 \<le> length bs \<Longrightarrow> le32 bs k p = Inr (dword bs k)"
  by (simp add: le32_def le_word_def slice_def from_le_bytes_dword)

lemma dword_slice: "k + 4 \<le> m \<Longrightarrow> from + m \<le> length bs \<Longrightarrow> dword (take m (drop from bs)) k = dword bs (from + k)"
  by (simp add: dword_def add.assoc)

lemma words_of_slice:
  assumes "k + m \<le> length bs"
  shows "words_of (take m (drop k bs)) = map (\<lambda>i. dword bs (k + 4 * i)) [0..<m div 4]"
proof -
  have "(of_nat (from_le_bytes (take 4 (drop (i * 4) (take m (drop k bs))))) :: u32) = dword bs (k + 4 * i)"
    if "i < m div 4" for i
  proof -
    have i: "i * 4 + 4 \<le> m" using that by linarith
    then have "take 4 (drop (i * 4) (take m (drop k bs))) = take 4 (drop (k + 4 * i) bs)"
      by (simp add: drop_take min_absorb1 ac_simps)
    with i assms show ?thesis by (simp add: from_le_bytes_dword)
  qed
  with assms show ?thesis by (simp add: words_of_def chunks_exact_def min_absorb2)
qed

section \<open>The header\<close>

definition header_fields :: "u8 list \<Rightarrow> Header \<Rightarrow> bool" where
  "header_fields bs h \<longleftrightarrow>
     512 \<le> length bs \<and> (sector_size h, major_version h) \<in> {(512, 3), (4096, 4)} \<and> major_version h = word16 bs 26
     \<and> fat_sectors h = dword bs 44 \<and> first_directory h = dword bs 48
     \<and> mini_cutoff h = 4096 \<and> mini_sector_size h = 64
     \<and> first_minifat h = dword bs 60 \<and> minifat_sectors h = dword bs 64
     \<and> first_difat h = dword bs 68 \<and> difat_sectors h = dword bs 72
     \<and> directory_sectors h = dword bs 40"

lemma word_take: "k + 2 \<le> 512 \<Longrightarrow> word16 (take 512 bs) k = word16 bs k"
  "k + 4 \<le> 512 \<Longrightarrow> dword (take 512 bs) k = dword bs k"
  by (simp_all add: word16_def dword_def)

lemma parse_header_fields: "parse_header bs = Inr h \<Longrightarrow> header_fields bs h"
proof -
  assume ok: "parse_header bs = Inr h"
  then have "512 \<le> length bs"
    unfolding parse_header_def Let_def by (elim if_InlE and_then_InrE) auto
  then have len: "length (take 512 bs) = 512" by simp
  note rd = le16_word16 [of _ "take 512 bs", unfolded len] le32_dword [of _ "take 512 bs", unfolded len]
  from ok \<open>512 \<le> length bs\<close> show ?thesis
    unfolding parse_header_def Let_def by (elim if_InlE and_then_InrE) (auto simp: rd word_take header_fields_def)
qed

section \<open>Sectors and tables\<close>

text \<open>A sector lies in the file with all its bytes; \<open>sector_word\<close> is its \<open>k\<close>-th word.\<close>

definition in_file :: "u8 list \<Rightarrow> nat \<Rightarrow> u32 \<Rightarrow> bool" where
  "in_file bs ss i \<longleftrightarrow> (unat i + 2) * ss \<le> length bs"

definition sector_word :: "u8 list \<Rightarrow> nat \<Rightarrow> u32 \<Rightarrow> nat \<Rightarrow> u32" where
  "sector_word bs ss i k = dword bs ((unat i + 1) * ss + 4 * k)"

definition table_of :: "u8 list \<Rightarrow> nat \<Rightarrow> u32 list \<Rightarrow> u32 list" where
  "table_of bs ss ids = concat (map (\<lambda>i. map (sector_word bs ss i) [0..<ss div 4]) ids)"

lemma read_sector_slice: "read_sector bs ss i = Inr s \<Longrightarrow> in_file bs ss i \<and> s = take ss (drop ((unat i + 1) * ss) bs)"
  by (auto simp: read_sector_Inr in_file_def algebra_simps)

lemma sector_words:
  "in_file bs ss i \<Longrightarrow> m \<le> ss \<Longrightarrow>
     words_of (take m (drop ((unat i + 1) * ss) bs)) = map (sector_word bs ss i) [0..<m div 4]"
proof -
  assume "in_file bs ss i" "m \<le> ss"
  then have "(unat i + 1) * ss + m \<le> length bs" by (simp add: in_file_def algebra_simps)
  from words_of_slice [OF this] show ?thesis by (simp add: sector_word_def [abs_def])
qed

lemma read_sectors_table:
  "read_sectors bs ss ids = Inr raw \<Longrightarrow>
     concat (map words_of raw) = table_of bs ss ids \<and> (\<forall>i \<in> set ids. in_file bs ss i)"
proof (induction ids arbitrary: raw)
  case (Cons i ids)
  from Cons.prems obtain s raw1 where s: "read_sector bs ss i = Inr s" "read_sectors bs ss ids = Inr raw1" "raw = s # raw1"
    by (auto simp: and_then_Inr)
  from read_sector_slice [OF s(1)] have "in_file bs ss i" "words_of s = map (sector_word bs ss i) [0..<ss div 4]"
    using sector_words by auto
  with Cons.IH [OF s(2)] s(3) show ?case by (simp add: table_of_def)
qed (simp add: table_of_def)

section \<open>The DIFAT\<close>

text \<open>Each DIFAT sector names the next in its last word; the rest are FAT sectors, free slots left out.\<close>

fun difat_from :: "u8 list \<Rightarrow> nat \<Rightarrow> u32 \<Rightarrow> u32 list \<Rightarrow> u32 \<Rightarrow> bool" where
  "difat_from bs ss current [] stop \<longleftrightarrow> current = stop"
| "difat_from bs ss current (i # is) stop \<longleftrightarrow> i = current \<and> difat_from bs ss (sector_word bs ss i (ss div 4 - 1)) is stop"

definition fat_sector_ids :: "u8 list \<Rightarrow> nat \<Rightarrow> u32 list \<Rightarrow> u32 list" where
  "fat_sector_ids bs ss difat =
     filter (\<lambda>i. i \<noteq> FREE) (map (\<lambda>k. dword bs (76 + 4 * k)) [0..<109]
       @ concat (map (\<lambda>i. map (sector_word bs ss i) [0..<ss div 4 - 1]) difat))"

lemma physical_ids_Inr: "physical_ids n is = Inr out \<Longrightarrow> out = filter (\<lambda>i. i \<noteq> FREE) is"
  by (induction "is" arbitrary: out) (auto simp: and_then_Inr split: if_splits)

lemma read_difat_sectors_Inr:
  assumes "4 dvd ss" "4 \<le> ss"
  shows "read_difat_sectors ops bs ss n k current b = (Inr (fat_ids, difat_ids, stop), b') \<Longrightarrow>
    length difat_ids = k \<and> difat_from bs ss current difat_ids stop \<and> (\<forall>i \<in> set difat_ids. in_file bs ss i)
    \<and> fat_ids = filter (\<lambda>i. i \<noteq> FREE) (concat (map (\<lambda>i. map (sector_word bs ss i) [0..<ss div 4 - 1]) difat_ids))"
proof (induction k arbitrary: current b fat_ids difat_ids)
  case (Suc k)
  from Suc.prems obtain b1 s ids succ fat1 difat1 where s: "read_sector bs ss current = Inr s"
    and p: "physical_ids n (words_of (take (ss - 4) s)) = Inr ids"
    and l: "le32 s (ss - 4) ''cfb/difat'' = Inr succ"
    and r: "read_difat_sectors ops bs ss n k succ b1 = (Inr (fat1, difat1, stop), b')"
    and out: "fat_ids = ids @ fat1" "difat_ids = current # difat1"
    by (auto simp: try_do_Inr and_then_Inr)
  from read_sector_slice [OF s] have f: "in_file bs ss current" and sl: "s = take ss (drop ((unat current + 1) * ss) bs)"
    by simp_all
  have len: "(unat current + 1) * ss + ss \<le> length bs" using f by (simp add: in_file_def algebra_simps)
  have d: "(ss - 4) div 4 = ss div 4 - 1" "4 * (ss div 4 - 1) = ss - 4"
    using assms by (auto elim!: dvdE)
  have "words_of (take (ss - 4) s) = map (sector_word bs ss current) [0..<ss div 4 - 1]"
    using sector_words [OF f, of "ss - 4"] assms(2) sl d by (simp add: min_absorb1)
  with physical_ids_Inr [OF p] have ids: "ids = filter (\<lambda>i. i \<noteq> FREE) (map (sector_word bs ss current) [0..<ss div 4 - 1])"
    by simp
  have ls: "length s = ss" using len sl by simp
  have "dword s (ss - 4) = dword bs ((unat current + 1) * ss + (ss - 4))"
    unfolding sl by (rule dword_slice) (use assms(2) len in simp_all)
  then have "succ = sector_word bs ss current (ss div 4 - 1)"
    using l le32_dword [of "ss - 4" s "''cfb/difat''"] ls assms(2) d by (simp add: sector_word_def)
  with Suc.IH [OF r] f ids out show ?case by simp
qed simp

lemma read_difat_Inr:
  assumes "read_difat ops alloc h bs n b = (Inr (fat_ids, difat_ids), b')"
    and "4 dvd sector_size h" "4 \<le> sector_size h" "512 \<le> length bs"
  shows "length difat_ids = unat (difat_sectors h) \<and> length fat_ids = unat (fat_sectors h)
    \<and> fat_ids = fat_sector_ids bs (sector_size h) difat_ids \<and> (\<forall>i \<in> set difat_ids. in_file bs (sector_size h) i)
    \<and> (\<exists>stop. difat_from bs (sector_size h) (first_difat h) difat_ids stop \<and> (stop = END \<or> difat_ids = [] \<and> stop = FREE))"
proof -
  from assms(1) obtain hids f stop b1 b2 where
    p: "physical_ids n (words_of (take 436 (drop 76 bs))) = Inr hids"
    and r: "read_difat_sectors ops bs (sector_size h) n (unat (difat_sectors h)) (first_difat h) b1 = (Inr (f, difat_ids, stop), b2)"
    and l: "difat_sectors h = 0 \<longrightarrow> stop = END \<or> stop = FREE" "difat_sectors h \<noteq> 0 \<longrightarrow> stop = END"
    and out: "fat_ids = hids @ f" "length fat_ids = unat (fat_sectors h)"
    by (auto simp: read_difat_def try_do_Inr split: if_split_asm)
  note r = read_difat_sectors_Inr [OF assms(2,3) r]
  have "words_of (take 436 (drop 76 bs)) = map (\<lambda>k. dword bs (76 + 4 * k)) [0..<109]"
    using words_of_slice [of 76 436 bs] assms(4) by simp
  with physical_ids_Inr [OF p] r out l show ?thesis
    by (auto simp: fat_sector_ids_def unat_eq_zero)
qed

section \<open>Directory records\<close>

text \<open>The record of 128 bytes at \<open>k\<close>: a free one is an empty stream; version 3 sizes have 32 bits.\<close>

definition entry_fields :: "u16 \<Rightarrow> u8 list \<Rightarrow> nat \<Rightarrow> DirectoryEntry \<Rightarrow> bool" where
  "entry_fields major bs k e \<longleftrightarrow>
     (if bs ! (k + 66) = 0 then entry_kind e = Stream \<and> start_sector e = END \<and> stream_size e = 0
      else (entry_kind e = Stream \<longleftrightarrow> bs ! (k + 66) = 2) \<and> start_sector e = dword bs (k + 116)
        \<and> unat (stream_size e) = unat (dword bs (k + 120)) + (if major = 3 then 0 else 2 ^ 32 * unat (dword bs (k + 124))))"

lemma from_le_bytes_append: "from_le_bytes (xs @ ys) = from_le_bytes xs + 256 ^ length xs * from_le_bytes ys"
  by (induction xs) (simp_all add: algebra_simps)

lemma le64_dwords:
  "k + 8 \<le> length bs \<Longrightarrow> le64 bs k p = Inr v \<Longrightarrow>
     unat v = unat (dword bs k) + 2 ^ 32 * unat (dword bs (k + 4))"
proof -
  assume k: "k + 8 \<le> length bs" and v: "le64 bs k p = Inr v"
  let ?n = "unat (dword bs k) + 2 ^ 32 * unat (dword bs (k + 4))"
  have "take 8 (drop k bs) = take 4 (drop k bs) @ take 4 (drop (k + 4) bs)"
    using take_add [of 4 4 "drop k bs"] by (simp add: add.commute)
  then have "from_le_bytes (take 8 (drop k bs)) = ?n"
    using k by (simp add: from_le_bytes_append from_le_bytes_dword)
  then have "v = of_nat ?n" using k v by (simp only: le64_def le_word_def slice_def) simp
  moreover have "?n < 2 ^ LENGTH(64)"
    using unat_less_2p [of "dword bs k"] unat_less_2p [of "dword bs (k + 4)"] by simp
  ultimately show ?thesis by (simp only: unat_of_nat_small)
qed

lemma low_dword: "unat (v AND 0xffffffff :: u64) = unat v mod 2 ^ 32"
proof -
  have "v AND 0xffffffff = take_bit 32 v"
    by (simp add: take_bit_eq_mask mask_eq_exp_minus_1)
  then show ?thesis by (simp only: unsigned_take_bit_eq) (simp add: take_bit_eq_mod)
qed

lemma parse_entry_fields:
  assumes ok: "parse_entry index raw major mode rs = Inr (e, rs')" and len: "length raw = 128"
  shows "entry_fields major raw 0 e"
proof (cases "raw ! 66 = 0")
  case True
  with ok show ?thesis by (auto simp: parse_entry_def unused_entry_def entry_fields_def)
next
  case False
  then obtain kd sz where kd: "entry_kind_of index (raw ! 66) = Inr kd" and sz: "le64 raw 120 ''cfb/directory'' = Inr sz"
    and e: "entry_kind e = kd" "start_sector e = dword raw 116"
      "stream_size e = (if major = 3 then sz AND 0xffffffff else sz)"
    using ok len unfolding parse_entry_def Let_def split_beta
    by (simp only: if_False) (elim if_InlE and_then_InrE; use that le32_dword [of 116 raw] in force)
  have s: "unat sz = unat (dword raw 120) + 2 ^ 32 * unat (dword raw 124)"
    using le64_dwords [OF _ sz] len by simp
  have k: "kd = Stream \<longleftrightarrow> raw ! 66 = 2" using kd by (auto simp: entry_kind_of_def split: if_splits)
  have "unat (dword raw 120) < 2 ^ 32" using unat_less_2p [of "dword raw 120"] by simp
  with False e s k show ?thesis by (simp add: entry_fields_def low_dword)
qed

lemma entry_fields_slice:
  "k + 128 \<le> length bs \<Longrightarrow> entry_fields major (take 128 (drop k bs)) 0 e = entry_fields major bs k e"
  by (simp add: entry_fields_def dword_slice)

lemma parse_entries_fields:
  "parse_entries ops index raws major mode rs b = (Inr (es, rs'), b') \<Longrightarrow> \<forall>raw \<in> set raws. length raw = 128 \<Longrightarrow>
     length es = length raws \<and> (\<forall>k < length es. entry_fields major (raws ! k) 0 (es ! k))"
proof (induction raws arbitrary: index rs b es rs' b')
  case (Cons raw raws)
  then obtain b1 e rs1 es1 b2 where e: "parse_entry index raw major mode rs = Inr (e, rs1)"
    and r: "parse_entries ops (index + 1) raws major mode rs1 b1 = (Inr (es1, rs'), b2)" and es: "es = e # es1"
    by (auto simp: try_do_Inr)
  have "entry_fields major raw 0 e" using parse_entry_fields [OF e] Cons.prems(2) by simp
  moreover have "length es1 = length raws \<and> (\<forall>k < length es1. entry_fields major (raws ! k) 0 (es1 ! k))"
    using Cons.IH [OF r] Cons.prems(2) by simp
  ultimately show ?case unfolding es by (simp add: All_less_Suc2)
qed simp

text \<open>The entries of a directory are its records, in order.\<close>

definition records_of :: "u16 \<Rightarrow> u8 list \<Rightarrow> DirectoryEntry list \<Rightarrow> bool" where
  "records_of major bs es \<longleftrightarrow> length es = length bs div 128 \<and> (\<forall>j < length es. entry_fields major bs (128 * j) (es ! j))"

lemma parse_directory_records:
  assumes "parse_directory ops alloc bs major mode rs b = (Inr (es, rs'), b')"
  shows "records_of major bs es"
proof -
  from assms obtain b1 b2 rs1 where p: "parse_entries ops 0 (chunks_exact 128 bs) major mode rs b1 = (Inr (es, rs1), b2)"
    by (auto simp: parse_directory_def try_do_Inr dest: check_root_Inr split: if_split_asm)
  have in_bs: "128 * j + 128 \<le> length bs" if "j < length bs div 128" for j using that by linarith
  have "\<forall>raw \<in> set (chunks_exact 128 bs). length raw = 128"
    using in_bs by (fastforce simp: chunks_exact_def)
  note f = parse_entries_fields [OF p this, unfolded chunks_exact_length]
  have "entry_fields major bs (128 * j) (es ! j)" if j: "j < length es" for j
  proof -
    have "j < length bs div 128" using f j by simp
    then have "chunks_exact 128 bs ! j = take 128 (drop (128 * j) bs)" by (simp add: chunks_exact_def mult.commute)
    with f [THEN conjunct2, rule_format, OF j] entry_fields_slice [OF in_bs [OF \<open>j < length bs div 128\<close>]]
    show ?thesis by simp
  qed
  with f show ?thesis by (simp add: records_of_def)
qed

lemma records_of_parents:
  assumes "only_parents es es'" "records_of major bs es"
  shows "records_of major bs es'"
  using only_parents_fields [OF assms(1)] only_parents_length [OF assms(1)] assms(2)
  by (simp add: records_of_def entry_fields_def)

section \<open>Chains\<close>

text \<open>
  \<open>c\<close> are the \<open>len\<close> sectors that the table links from \<open>start\<close> on. The last one points to the end
  marker or to one of the \<open>tails\<close>; without sectors there is no start.
\<close>

definition follows :: "u32 list \<Rightarrow> u32 \<Rightarrow> nat \<Rightarrow> u32 set \<Rightarrow> u32 list \<Rightarrow> bool" where
  "follows table start len tails c \<longleftrightarrow> length c = len \<and>
     (if len = 0 then start = END \<or> start = FREE
      else hd c = start \<and> (\<forall>k. Suc k < len \<longrightarrow> nth_opt table (unat (c ! k)) = Some (c ! Suc k))
        \<and> (\<forall>x \<in> set c. x \<notin> {END, FREE, FAT, DIFAT})
        \<and> (\<exists>e \<in> insert END tails. nth_opt table (unat (last c)) = Some e))"

text \<open>The tails a best-effort reader tolerates: sectors that the table marks free and nothing uses.\<close>

definition spare :: "CompoundCompatibility \<Rightarrow> u32 list \<Rightarrow> u32 set \<Rightarrow> u32 set" where
  "spare mode table used = (if mode = Strict then {} else {e. nth_opt table (unat e) = Some FREE} - used)"

lemma follows_mono: "follows table start len A c \<Longrightarrow> A \<subseteq> B \<Longrightarrow> follows table start len B c"
  by (fastforce simp: follows_def)

lemma sector_chain_short: "sector_chain table n start c \<Longrightarrow> length c < 2 ^ 32 - 1"
proof -
  assume c: "sector_chain table n start c"
  then have "set c \<subseteq> UNIV - {END, FREE}" by (auto simp: sector_chain_def reserved_marker_def)
  then have "card (set c) \<le> card (UNIV - {END, FREE})" by (intro card_mono) auto
  also have "\<dots> = 2 ^ 32 - 2"
    by (subst card_Diff_subset) (simp_all add: card_word END_def FREE_def)
  finally show ?thesis using c by (simp add: sector_chain_def distinct_card)
qed

lemma walk_follows:
  assumes "walk_chain_with_declared_tail alloc start table n expected p allow = Inr (c, t)"
    and "expected = Some (sector_count_of k) \<or> expected = None \<and> k = length c"
  shows "follows table start k (set_option t) c \<and> (\<forall>x \<in> set c. unat x < n) \<and> (allow \<or> t = None)"
proof -
  from assms(1) have a: "accepted_chain alloc start table n expected allow c t" by (simp add: walk_accepts)
  have len: "length c = k" if e: "expected = Some (sector_count_of k)"
  proof (cases "k < 2 ^ 32")
    case True
    then have "unat (sector_count_of k) = k" by (simp add: sector_count_of_def unat_of_nat_small)
    moreover from this have "sector_count_of k = 0 \<longleftrightarrow> k = 0" by (metis unat_eq_zero unat_0)
    ultimately show ?thesis using a e by (auto simp: accepted_chain_def split: if_splits)
  next
    case False
    then have s: "sector_count_of k = - 1" by (simp add: sector_count_of_def)
    with a e have "sector_chain table n start c" "unat (- 1 :: u32) = length c" by (auto simp: accepted_chain_def)
    moreover have "unat (- 1 :: u32) = 2 ^ 32 - 1" by (simp add: unsigned_minus_1_eq_mask mask_eq_exp_minus_1)
    ultimately show ?thesis using sector_chain_short by force
  qed
  with assms(2) have k: "length c = k" by auto
  show ?thesis
  proof (cases "expected = Some 0")
    case True
    with a k show ?thesis by (auto simp: accepted_chain_def follows_def)
  next
    case False
    with a have sc: "sector_chain table n start c"
      and e: "\<exists>e. nth_opt table (unat (last c)) = Some e \<and> (t = None \<and> e = END \<or> allow \<and> t = Some e)"
      by (auto simp: accepted_chain_def)
    then have "c \<noteq> []" "hd c = start" "linked table c"
      "\<forall>x \<in> set c. unat x < n \<and> x \<notin> {END, FREE, FAT, DIFAT}"
      by (auto simp: sector_chain_def reserved_marker_def)
    with k e linked_nth [of table c] show ?thesis by (auto simp: follows_def)
  qed
qed

lemma walk_chain_follows:
  assumes "walk_chain alloc start table n expected p = Inr c"
    and "expected = Some (sector_count_of k) \<or> expected = None \<and> k = length c"
  shows "follows table start k {} c"
proof -
  from assms(1) obtain t where w: "walk_chain_with_declared_tail alloc start table n expected p False = Inr (c, t)"
    by (auto simp: walk_chain_def and_then_Inr)
  from walk_follows [OF w assms(2)] show ?thesis by auto
qed

lemma sector_count_of_unat [simp]: "sector_count_of (unat (n :: u32)) = n"
  using unat_less_2p [of n] by (simp add: sector_count_of_def)

section \<open>Streams\<close>

text \<open>The sector cut short by the end of a file whose length is not a multiple of the sector size.\<close>

definition cut_short :: "CompoundCompatibility \<Rightarrow> u8 list \<Rightarrow> nat \<Rightarrow> u32 \<Rightarrow> bool" where
  "cut_short mode bs ss i \<longleftrightarrow>
     mode = LegacyOfficeBestEffort \<and> length bs mod ss \<noteq> 0 \<and> unat i + 1 = length bs div ss"

lemma read_regular_sectors_placed:
  "read_regular_sectors bs ss logical ps p c out pc = Inr r \<Longrightarrow>
     \<forall>i \<in> set c. in_file bs ss i \<or> ps = Some (unat i) \<and> i = last c"
proof (induction c arbitrary: out pc)
  case (Cons i c)
  show ?case
  proof (cases "ps = Some (unat i)")
    case True
    with Cons.prems have "c = []" by (auto split: if_splits)
    with True show ?thesis by simp
  next
    case False
    with Cons.prems obtain s where s: "read_sector bs ss i = Inr s"
      and r: "read_regular_sectors bs ss logical ps p c (out @ s) pc = Inr r"
      by (auto simp: and_then_Inr)
    from Cons.IH [OF r] read_sector_slice [OF s] show ?thesis by auto
  qed
qed simp

lemma read_mini_sectors_placed:
  "read_mini_sectors p n root c own out = Inr r \<Longrightarrow> \<forall>i \<in> set c. (unat i + 1) * n \<le> length root"
proof (induction c arbitrary: own out)
  case (Cons i c)
  then have "unat i * n + n \<le> length root" by (auto simp: slice_def split: if_splits option.splits)
  moreover from Cons.prems have "\<exists>own out. read_mini_sectors p n root c own out = Inr r"
    by (auto split: if_splits option.splits)
  ultimately show ?case using Cons.IH by auto
qed simp

end
