(* ===== verification/Compound_Ownership.thy ===== *)
theory Compound_Ownership
  imports Compound_Leases Compound_Layout Execution_Properties
begin

text \<open>
  What an opened compound file contains: its parts are those its bytes describe, no sector belongs
  to two of them, and every stream is the declared number of bytes of its own chain.
\<close>

section \<open>Claims in sequence\<close>

text \<open>The sectors claimed so far are distinct and are exactly those owned.\<close>

definition claimed :: "u32 list \<Rightarrow> bool list \<Rightarrow> bool" where
  "claimed xs own \<longleftrightarrow> distinct xs \<and> owned own = unat ` set xs"

lemma claimed_none: "claimed [] (replicate n False)"
  by (simp add: claimed_def)

lemma claimed_append:
  assumes "claimed xs own" "claim_all p is own = Inr own'"
  shows "claimed (xs @ is) own' \<and> length own' = length own"
proof -
  from claim_all_Inr [OF assms(2)] assms(1)
  have "unat ` set is \<inter> unat ` set xs = {}" "distinct is" "owned own' = unat ` set xs \<union> unat ` set is"
    "length own' = length own"
    by (auto simp: claimed_def)
  with assms(1) show ?thesis by (auto simp: claimed_def)
qed

section \<open>Slots\<close>

text \<open>
  A slot of the opened file: none for a storage; for a stream the declared number of bytes, taken
  below the cutoff from the chain \<open>m\<close> that the miniFAT gives the entry in the root stream, and
  otherwise from the chain \<open>c\<close> that the FAT gives it in the file, where only a best-effort reader
  lets the last sector be cut short. \<open>R\<close> and \<open>M\<close> are the tails the two chains may point to.
\<close>

definition slot_ok ::
  "CompoundCompatibility \<Rightarrow> Header \<Rightarrow> u8 list \<Rightarrow> u32 list \<Rightarrow> u32 set \<Rightarrow> u32 list \<Rightarrow> u8 list \<Rightarrow> u32 set
     \<Rightarrow> DirectoryEntry \<Rightarrow> u8 list option \<Rightarrow> u32 list \<Rightarrow> u32 list \<Rightarrow> bool" where
  "slot_ok mode h bs table R mini root M e d c m \<longleftrightarrow>
     (if entry_kind e \<noteq> Stream then d = None \<and> c = [] \<and> m = []
      else \<exists>x. d = Some x \<and> length x = unat (stream_size e) \<and>
        (if unat (stream_size e) < unat (mini_cutoff h)
         then c = [] \<and> follows mini (start_sector e) (div_ceil (unat (stream_size e)) (mini_sector_size h)) M m
           \<and> (\<forall>i \<in> set m. (unat i + 1) * mini_sector_size h \<le> length root)
           \<and> x = take (unat (stream_size e)) (mini_chain_bytes root (mini_sector_size h) m)
         else m = [] \<and> follows table (start_sector e) (div_ceil (unat (stream_size e)) (sector_size h)) R c
           \<and> (\<forall>i \<in> set c. in_file bs (sector_size h) i \<or> cut_short mode bs (sector_size h) i \<and> i = last c)
           \<and> x = take (unat (stream_size e)) (chain_bytes bs (sector_size h) c)))"

lemma slot_ok_mono:
  "slot_ok mode h bs table R mini root M e d c m \<Longrightarrow> R \<subseteq> R' \<Longrightarrow> M \<subseteq> M' \<Longrightarrow>
     slot_ok mode h bs table R' mini root M' e d c m"
  by (cases "entry_kind e = Stream"; cases "unat (stream_size e) < unat (mini_cutoff h)")
    (simp_all add: slot_ok_def, (blast intro: follows_mono)+)

lemma set_opt_list [simp]: "set (opt_list t) = set_option t"
  by (cases t) (simp_all add: opt_list_def)

text \<open>The sector a best-effort reader may find cut short; what later stages keep of the tables.\<close>

definition partial_ok :: "CompoundCompatibility \<Rightarrow> u8 list \<Rightarrow> Header \<Rightarrow> AllocationState \<Rightarrow> bool" where
  "partial_ok mode bs h a \<longleftrightarrow> sector_count a = length bs div sector_size h - 1
     \<and> (\<forall>k. partial_stream_sector a = Some k \<longrightarrow>
          mode = LegacyOfficeBestEffort \<and> length bs mod sector_size h \<noteq> 0 \<and> k + 1 = length bs div sector_size h)"

definition keeps_tables :: "AllocationState \<Rightarrow> AllocationState \<Rightarrow> bool" where
  "keeps_tables a a' \<longleftrightarrow> fat a' = fat a \<and> sector_count a' = sector_count a
     \<and> stream_sector_count a' = stream_sector_count a \<and> partial_stream_sector a' = partial_stream_sector a"

lemma keeps_tables_refl [simp]: "keeps_tables a a"
  by (simp add: keeps_tables_def)

lemma keeps_tables_trans: "keeps_tables a a' \<Longrightarrow> keeps_tables a' a'' \<Longrightarrow> keeps_tables a a''"
  by (simp add: keeps_tables_def)

lemma keeps_partial: "keeps_tables a a' \<Longrightarrow> partial_ok mode bs h a \<Longrightarrow> partial_ok mode bs h a'"
  by (simp add: keeps_tables_def partial_ok_def)

lemma read_mini_stream_Inr:
  assumes "read_mini_stream alloc e p table root mini mode own = Inr (d, own', t)"
    and "0 < mini" "claimed xs own"
  shows "\<exists>m. claimed (xs @ m) own' \<and> length d = unat (stream_size e)
    \<and> follows table (start_sector e) (div_ceil (unat (stream_size e)) mini) (set_option t) m
    \<and> (mode = LegacyOfficeBestEffort \<or> t = None)
    \<and> (\<forall>i \<in> set m. (unat i + 1) * mini \<le> length root)
    \<and> d = take (unat (stream_size e)) (mini_chain_bytes root mini m)"
proof -
  let ?n = "div_ceil (unat (stream_size e)) mini"
  from assms(1) obtain c out where
    w: "walk_chain_with_declared_tail alloc (start_sector e) table (length own) (Some (sector_count_of ?n)) p
        (mode = LegacyOfficeBestEffort) = Inr (c, t)"
    and r: "read_mini_sectors p mini root c own [] = Inr (out, own')"
    and d: "d = take (unat (stream_size e)) out"
    by (auto simp: read_mini_stream_def Let_def and_then_Inr split: if_splits)
  from walk_follows [OF w, of ?n] have f: "follows table (start_sector e) ?n (set_option t) c"
    "mode = LegacyOfficeBestEffort \<or> t = None" by auto
  then have "length c = ?n" by (simp add: follows_def)
  with read_mini_sectors_Inr [OF r] div_ceil_covers [OF assms(2), of "unat (stream_size e)"]
  have "length d = unat (stream_size e)" "d = take (unat (stream_size e)) (mini_chain_bytes root mini c)"
    and "claim_all p c own = Inr own'"
    by (auto simp: d)
  with claimed_append [OF assms(3)] read_mini_sectors_placed [OF r] f show ?thesis by blast
qed

lemma read_regular_stream_Inr:
  assumes "read_regular_stream alloc h bs e p mode a st = Inr (d, a', st')" "claimed xs (owners a)"
    and "partial_ok mode bs h a"
  shows "\<exists>c t. claimed (xs @ c) (owners a') \<and> length d = unat (stream_size e)
      \<and> follows (fat a) (start_sector e) (div_ceil (unat (stream_size e)) (sector_size h)) (set_option t) c
      \<and> (\<forall>i \<in> set c. in_file bs (sector_size h) i \<or> cut_short mode bs (sector_size h) i \<and> i = last c)
      \<and> d = take (unat (stream_size e)) (chain_bytes bs (sector_size h) c)
      \<and> (mode = LegacyOfficeBestEffort \<or> t = None) \<and> keeps_tables a a'
      \<and> st' = st\<lparr>regular_tail_targets := regular_tail_targets st @ opt_list t\<rparr>"
proof -
  let ?n = "div_ceil (unat (stream_size e)) (sector_size h)"
  from assms(1) obtain c t own pc where
    w: "regular_stream_chain alloc e (fat a) (stream_sector_count a) (sector_size h) p mode = Inr (c, t)"
    and k: "claim_all p c (owners a) = Inr own"
    and r: "concatenate_regular_stream alloc bs (sector_size h) c (stream_size e) (partial_stream_sector a) p = Inr (d, pc)"
    and s: "owners a' = own" "keeps_tables a a'"
      "st' = st\<lparr>regular_tail_targets := regular_tail_targets st @ opt_list t\<rparr>"
    by (auto simp: read_regular_stream_def and_then_Inr keeps_tables_def)
  from walk_follows [OF w [unfolded regular_stream_chain_def], of ?n]
  have "follows (fat a) (start_sector e) ?n (set_option t) c" "mode = LegacyOfficeBestEffort \<or> t = None" by auto
  moreover from r obtain out where
    "read_regular_sectors bs (sector_size h) (unat (stream_size e)) (partial_stream_sector a) p c [] None = Inr (out, pc)"
    by (auto simp: concatenate_regular_stream_def and_then_Inr split: if_splits)
  from read_regular_sectors_placed [OF this] assms(3)
  have "\<forall>i \<in> set c. in_file bs (sector_size h) i \<or> cut_short mode bs (sector_size h) i \<and> i = last c"
    by (auto simp: partial_ok_def cut_short_def)
  ultimately show ?thesis
    using concatenate_regular_stream_Inr [OF r] claimed_append [OF assms(2) k] s by blast
qed

lemma read_small_stream_Inr:
  assumes "read_small_stream alloc h e p mode st = Inr (d, st')" "claimed xs (mini_owners st)"
    and "0 < mini_sector_size h"
  shows "\<exists>m t. claimed (xs @ m) (mini_owners st') \<and> length d = unat (stream_size e)
      \<and> follows (minifat st) (start_sector e) (div_ceil (unat (stream_size e)) (mini_sector_size h)) (set_option t) m
      \<and> (\<forall>i \<in> set m. (unat i + 1) * mini_sector_size h \<le> length (root_mini_stream st))
      \<and> d = take (unat (stream_size e)) (mini_chain_bytes (root_mini_stream st) (mini_sector_size h) m)
      \<and> (mode = LegacyOfficeBestEffort \<or> t = None)
      \<and> (\<exists>own. st' = st\<lparr>mini_owners := own, mini_tail_targets := mini_tail_targets st @ opt_list t\<rparr>)"
proof -
  from assms(1) obtain own t where
    r: "read_mini_stream alloc e p (minifat st) (root_mini_stream st) (mini_sector_size h) mode (mini_owners st) = Inr (d, own, t)"
    and s: "st' = st\<lparr>mini_owners := own, mini_tail_targets := mini_tail_targets st @ opt_list t\<rparr>"
    by (auto simp: read_small_stream_def and_then_Inr)
  from read_mini_stream_Inr [OF r assms(3,2)] s show ?thesis by fastforce
qed

text \<open>Reading streams only adds tails, and none in strict mode.\<close>

definition adds_tails :: "CompoundCompatibility \<Rightarrow> StreamState \<Rightarrow> StreamState \<Rightarrow> bool" where
  "adds_tails mode st st' \<longleftrightarrow> minifat st' = minifat st \<and> root_mini_stream st' = root_mini_stream st
     \<and> set (regular_tail_targets st) \<subseteq> set (regular_tail_targets st')
     \<and> set (mini_tail_targets st) \<subseteq> set (mini_tail_targets st')
     \<and> (mode = Strict \<longrightarrow> regular_tail_targets st' = regular_tail_targets st \<and> mini_tail_targets st' = mini_tail_targets st)"

lemma adds_tails_refl [simp]: "adds_tails mode st st"
  by (simp add: adds_tails_def)

lemma adds_tails_trans: "adds_tails mode st st' \<Longrightarrow> adds_tails mode st' st'' \<Longrightarrow> adds_tails mode st st''"
  by (auto simp: adds_tails_def)

text \<open>One stream of the loop, from either side of the cutoff.\<close>

lemma read_one_stream:
  assumes "(if unat (stream_size e) < unat (mini_cutoff h)
       then and_then (read_small_stream alloc h e p mode st) (\<lambda>(d, st). Inr (d, a, st))
       else read_regular_stream alloc h bs e p mode a st) = Inr (d, a', st')"
    and "entry_kind e = Stream" "claimed xs (owners a)" "claimed ys (mini_owners st)" "0 < mini_sector_size h"
    and "partial_ok mode bs h a"
  shows "\<exists>c m. claimed (xs @ c) (owners a') \<and> claimed (ys @ m) (mini_owners st')
    \<and> slot_ok mode h bs (fat a) (set (regular_tail_targets st')) (minifat st) (root_mini_stream st)
        (set (mini_tail_targets st')) e (Some d) c m
    \<and> keeps_tables a a' \<and> adds_tails mode st st'"
proof (cases "unat (stream_size e) < unat (mini_cutoff h)")
  case True
  with assms(1) have a: "a' = a" and r: "read_small_stream alloc h e p mode st = Inr (d, st')"
    by (auto simp: and_then_Inr)
  from read_small_stream_Inr [OF r assms(4,5)] obtain m t own where
    m: "claimed (ys @ m) (mini_owners st')" "length d = unat (stream_size e)"
      "follows (minifat st) (start_sector e) (div_ceil (unat (stream_size e)) (mini_sector_size h)) (set_option t) m"
      "\<forall>i \<in> set m. (unat i + 1) * mini_sector_size h \<le> length (root_mini_stream st)"
      "d = take (unat (stream_size e)) (mini_chain_bytes (root_mini_stream st) (mini_sector_size h) m)"
      "mode = LegacyOfficeBestEffort \<or> t = None"
    and st': "st' = st\<lparr>mini_owners := own, mini_tail_targets := mini_tail_targets st @ opt_list t\<rparr>" by blast
  from m(6) st' have ad: "adds_tails mode st st'" by (auto simp: adds_tails_def opt_list_def)
  have "set_option t \<subseteq> set (mini_tail_targets st')" using st' by auto
  from follows_mono [OF m(3) this] m True assms(2)
  have "slot_ok mode h bs (fat a) (set (regular_tail_targets st')) (minifat st) (root_mini_stream st)
        (set (mini_tail_targets st')) e (Some d) [] m"
    by (simp add: slot_ok_def)
  moreover have "claimed (xs @ []) (owners a')" using a assms(3) by simp
  ultimately show ?thesis using a m(1) ad keeps_tables_refl by blast
next
  case False
  with assms(1) have r: "read_regular_stream alloc h bs e p mode a st = Inr (d, a', st')" by simp
  from read_regular_stream_Inr [OF r assms(3,6)] obtain c t where
    c: "claimed (xs @ c) (owners a')" "length d = unat (stream_size e)"
      "follows (fat a) (start_sector e) (div_ceil (unat (stream_size e)) (sector_size h)) (set_option t) c"
      "\<forall>i \<in> set c. in_file bs (sector_size h) i \<or> cut_short mode bs (sector_size h) i \<and> i = last c"
      "d = take (unat (stream_size e)) (chain_bytes bs (sector_size h) c)"
      "mode = LegacyOfficeBestEffort \<or> t = None" "keeps_tables a a'"
    and st': "st' = st\<lparr>regular_tail_targets := regular_tail_targets st @ opt_list t\<rparr>" by blast
  from c(6) st' have ad: "adds_tails mode st st'" by (auto simp: adds_tails_def opt_list_def)
  have "set_option t \<subseteq> set (regular_tail_targets st')" using st' by auto
  from follows_mono [OF c(3) this] c(2,4,5) False assms(2)
  have "slot_ok mode h bs (fat a) (set (regular_tail_targets st')) (minifat st) (root_mini_stream st)
        (set (mini_tail_targets st')) e (Some d) c []"
    by (simp add: slot_ok_def)
  moreover have "claimed (ys @ []) (mini_owners st')" using st' assms(4) by simp
  ultimately show ?thesis using c(1,7) ad by blast
qed

lemma slots_ok:
  "read_stream_slots ops alloc h bs mode es ks a st b = (Inr (ds, a', st'), b') \<Longrightarrow>
     claimed xs (owners a) \<Longrightarrow> claimed ys (mini_owners st) \<Longrightarrow> 0 < mini_sector_size h \<Longrightarrow> partial_ok mode bs h a \<Longrightarrow>
     \<exists>cs ms. length ds = length ks \<and> length cs = length ks \<and> length ms = length ks
       \<and> claimed (xs @ concat cs) (owners a') \<and> claimed (ys @ concat ms) (mini_owners st')
       \<and> keeps_tables a a' \<and> adds_tails mode st st'
       \<and> (\<forall>j < length ks. slot_ok mode h bs (fat a) (set (regular_tail_targets st')) (minifat st)
            (root_mini_stream st) (set (mini_tail_targets st')) (es ! (ks ! j)) (ds ! j) (cs ! j) (ms ! j))"
proof (induction ks arbitrary: a st b ds xs ys)
  case (Cons k ks)
  let ?e = "es ! k" and ?p = "stable_path es k"
  show ?case
  proof (cases "entry_kind ?e = Stream")
    case False
    with Cons.prems(1) obtain ds1 where ds: "ds = None # ds1"
      and r: "read_stream_slots ops alloc h bs mode es ks a st b = (Inr (ds1, a', st'), b')"
      by (auto simp: Let_def try_do_Inr)
    from Cons.IH [OF r Cons.prems(2-5)] obtain cs ms where ih:
      "length ds1 = length ks" "length cs = length ks" "length ms = length ks"
      "claimed (xs @ concat cs) (owners a')" "claimed (ys @ concat ms) (mini_owners st')"
      "keeps_tables a a'" "adds_tails mode st st'"
      "\<forall>j < length ks. slot_ok mode h bs (fat a) (set (regular_tail_targets st')) (minifat st)
         (root_mini_stream st) (set (mini_tail_targets st')) (es ! (ks ! j)) (ds1 ! j) (cs ! j) (ms ! j)"
      by blast
    moreover have "slot_ok mode h bs (fat a) (set (regular_tail_targets st')) (minifat st)
         (root_mini_stream st) (set (mini_tail_targets st')) ?e None [] []"
      using False by (simp add: slot_ok_def)
    ultimately show ?thesis using ds
      by - (rule exI [of _ "[] # cs"], rule exI [of _ "[] # ms"], simp add: All_less_Suc2)
  next
    case True
    with Cons.prems(1) obtain d a1 st1 b1 ds1 where ds: "ds = Some d # ds1"
      and s: "(if unat (stream_size ?e) < unat (mini_cutoff h)
           then and_then (read_small_stream alloc h ?e ?p mode st) (\<lambda>(d, st). Inr (d, a, st))
           else read_regular_stream alloc h bs ?e ?p mode a st) = Inr (d, a1, st1)"
      and r: "read_stream_slots ops alloc h bs mode es ks a1 st1 b1 = (Inr (ds1, a', st'), b')"
      by (auto simp: Let_def try_do_Inr)
    from read_one_stream [OF s True Cons.prems(2-5)] obtain c m where
      cm: "claimed (xs @ c) (owners a1)" "claimed (ys @ m) (mini_owners st1)"
        "slot_ok mode h bs (fat a) (set (regular_tail_targets st1)) (minifat st) (root_mini_stream st)
           (set (mini_tail_targets st1)) ?e (Some d) c m"
        "keeps_tables a a1" "adds_tails mode st st1" by blast
    from Cons.IH [OF r cm(1,2) Cons.prems(4) keeps_partial [OF cm(4) Cons.prems(5)]] obtain cs ms where ih:
      "length ds1 = length ks" "length cs = length ks" "length ms = length ks"
      "claimed ((xs @ c) @ concat cs) (owners a')" "claimed ((ys @ m) @ concat ms) (mini_owners st')"
      "keeps_tables a1 a'" "adds_tails mode st1 st'"
      "\<forall>j < length ks. slot_ok mode h bs (fat a1) (set (regular_tail_targets st')) (minifat st1)
         (root_mini_stream st1) (set (mini_tail_targets st')) (es ! (ks ! j)) (ds1 ! j) (cs ! j) (ms ! j)"
      by blast
    have "slot_ok mode h bs (fat a) (set (regular_tail_targets st')) (minifat st) (root_mini_stream st)
        (set (mini_tail_targets st')) ?e (Some d) c m"
      using ih(7) by (intro slot_ok_mono [OF cm(3)]) (auto simp: adds_tails_def)
    moreover have "fat a1 = fat a" "minifat st1 = minifat st" "root_mini_stream st1 = root_mini_stream st"
      using cm(4,5) by (simp_all add: keeps_tables_def adds_tails_def)
    ultimately show ?thesis
      using ih ds keeps_tables_trans [OF cm(4) ih(6)] adds_tails_trans [OF cm(5) ih(7)]
      by - (rule exI [of _ "c # cs"], rule exI [of _ "m # ms"], simp add: All_less_Suc2)
  qed
qed simp

section \<open>Opened files\<close>

text \<open>Elimination of a successful sequence, step by step.\<close>

lemma try_doE:
  "try_do m f b = (Inr y, b') \<Longrightarrow> (\<And>v b1. m b = (Inr v, b1) \<Longrightarrow> f v b1 = (Inr y, b') \<Longrightarrow> thesis) \<Longrightarrow> thesis"
  by (auto simp: try_do_Inr)

lemma give_ifE:
  "(if c then give (Inl e) else m) b = (Inr y, b') \<Longrightarrow> (\<not> c \<Longrightarrow> m b = (Inr y, b') \<Longrightarrow> thesis) \<Longrightarrow> thesis"
  by (simp split: if_splits)

lemma giveE: "give r b = (Inr y, b') \<Longrightarrow> (r = Inr y \<Longrightarrow> b' = b \<Longrightarrow> thesis) \<Longrightarrow> thesis"
  by simp

text \<open>
  The parts of a compound file, as lists of sectors: the DIFAT, the FAT, the directory, the
  miniFAT and the root stream, and the chains of the large and the small streams, by entry.
\<close>

record Layout =
  difat_part :: "u32 list"
  fat_part :: "u32 list"
  directory_part :: "u32 list"
  minifat_part :: "u32 list"
  root_part :: "u32 list"
  large_parts :: "u32 list list"
  small_parts :: "u32 list list"

definition system_part :: "Layout \<Rightarrow> u32 list" where
  "system_part y = difat_part y @ fat_part y @ directory_part y @ minifat_part y @ root_part y"

text \<open>The tables: the DIFAT as the header chains it names the FAT, and the tables are their words.\<close>

definition tables_ok :: "u8 list \<Rightarrow> Header \<Rightarrow> u32 list \<Rightarrow> u32 list \<Rightarrow> bool" where
  "tables_ok bs h difat fats \<longleftrightarrow>
     (\<exists>stop. difat_from bs (sector_size h) (first_difat h) difat stop \<and> (stop = END \<or> difat = [] \<and> stop = FREE))
     \<and> length difat = unat (difat_sectors h) \<and> length fats = unat (fat_sectors h)
     \<and> fats = fat_sector_ids bs (sector_size h) difat
     \<and> (\<forall>i \<in> set (difat @ fats). in_file bs (sector_size h) i)"

lemma read_allocation_tables_Inr:
  assumes "read_allocation_tables ops alloc h bs mode s = (Inr a, t)" "header_fields bs h"
  shows "\<exists>difat fats. claimed (difat @ fats) (owners a) \<and> tables_ok bs h difat fats
    \<and> fat a = table_of bs (sector_size h) fats \<and> partial_ok mode bs h a"
proof -
  let ?n = "length bs div sector_size h - 1"
  let ?p = "if mode = LegacyOfficeBestEffort \<and> length bs mod sector_size h \<noteq> 0 then Some ?n else None"
  from assms(1) obtain own0 own1 v l ss s1 s2 where
    own0: "try_sized_vec alloc (?n + (if ?p \<noteq> None then 1 else 0)) False l = Inr own0"
    and d: "read_difat (holding ops) alloc h bs ?n s1 = (Inr v, s2)"
    and 1: "claim_all ''cfb/difat'' (snd v) own0 = Inr own1"
    and 2: "claim_all ''cfb/fat'' (fst v) own1 = Inr (owners a)"
    and r: "read_sectors bs (sector_size h) (fst v) = Inr ss" and f: "fat a = concat (map words_of ss)"
    and p: "sector_count a = ?n" "partial_stream_sector a = ?p"
    and n: "sector_size h \<le> length bs"
    unfolding read_allocation_tables_def Let_def split_beta
    apply (elim give_ifE try_doE giveE)
    apply (rule that, assumption, assumption, assumption)
         apply (simp only: sum.inject, hypsubst+, simp only: AllocationState.select_convs)
        apply assumption
       apply (simp only: sum.inject, hypsubst+, simp only: AllocationState.select_convs)
      apply (simp only: sum.inject, hypsubst+, simp only: AllocationState.select_convs)
     apply (simp only: sum.inject, hypsubst+, simp only: AllocationState.select_convs)
    apply (simp only: not_less)
    done
  have ss: "4 dvd sector_size h" "4 \<le> sector_size h" "0 < sector_size h" "512 \<le> length bs"
    using assms(2) by (auto simp: header_fields_def)
  note own0 = own0 [unfolded try_sized_vec_Inr, THEN conjunct2]
  note c1 = claimed_append [OF claimed_none 1 [unfolded own0]]
  note c2 = claimed_append [OF c1 [THEN conjunct1] 2]
  have "1 \<le> length bs div sector_size h" using n ss(3) by (simp add: Suc_le_eq div_greater_zero_iff)
  then have "partial_ok mode bs h a" using p by (auto simp: partial_ok_def)
  moreover obtain fats difat where v: "v = (fats, difat)" by fastforce
  ultimately show ?thesis
    using c2 read_difat_Inr [OF d [unfolded v] ss(1,2,4)] read_sectors_table [OF r] f
    by (auto simp: tables_ok_def)
qed

lemma opt_list_None [simp]: "opt_list None = []"
  by (simp add: opt_list_def)

lemma scratchE:
  "scratch ops n m b = (Inr y, b') \<Longrightarrow> (\<And>b1 b2. m b1 = (Inr y, b2) \<Longrightarrow> thesis) \<Longrightarrow> thesis"
  by (auto simp: scratch_def try_do_Inr case_prod_beta) (metis prod.collapse)

text \<open>The directory: a chain of the FAT, whose bytes are the records of the entries.\<close>

definition directory_ok :: "u8 list \<Rightarrow> Header \<Rightarrow> u32 list \<Rightarrow> u32 list \<Rightarrow> DirectoryEntry list \<Rightarrow> bool" where
  "directory_ok bs h table dir es \<longleftrightarrow>
     dir \<noteq> [] \<and> follows table (first_directory h) (length dir) {} dir
     \<and> (major_version h = 4 \<longrightarrow> length dir = unat (directory_sectors h))
     \<and> (\<forall>i \<in> set dir. in_file bs (sector_size h) i)
     \<and> records_of (major_version h) (chain_bytes bs (sector_size h) dir) es"

lemma read_directory_Inr:
  assumes "read_directory ops alloc k h bs mode a s = (Inr (es, a'), t)" "claimed xs (owners a)"
  shows "\<exists>dir. claimed (xs @ dir) (owners a') \<and> keeps_tables a a' \<and> directory_ok bs h (fat a) dir es"
proof -
  let ?expected = "if major_version h = 4 then Some (directory_sectors h) else None"
  from assms(1) obtain dir dbs v own e s1 s2 s3 s4 where
    w: "walk_chain alloc (first_directory h) (fat a) (stream_sector_count a) ?expected ''cfb/directory'' = Inr dir"
    and ne: "dir \<noteq> []" and own: "claim_all ''cfb/directory'' dir (owners a) = Inr own"
    and d: "concatenate alloc bs (sector_size h) dir = Inr dbs"
    and p: "parse_directory (holding ops) alloc dbs (major_version h) mode (recoveries a) s1 = (Inr v, s2)"
    and e: "assign_paths (holding ops) alloc (fst v) s3 = (Inr e, s4)"
    and out: "(Inr (e, a\<lparr>owners := own, recoveries := snd v\<rparr>) :: (DirectoryEntry list \<times> AllocationState) outcome) = Inr (es, a')"
    unfolding read_directory_def Let_def split_beta
    by (elim give_ifE try_doE giveE scratchE) (rule that)
  from own e out have c: "claim_all ''cfb/directory'' dir (owners a) = Inr (owners a')" and keep: "keeps_tables a a'"
    and ap: "assign_paths (holding ops) alloc (fst v) s3 = (Inr es, s4)"
    by (auto simp: keeps_tables_def)
  obtain es0 rs where v: "v = (es0, rs)" by fastforce
  from d obtain raw where r: "read_sectors bs (sector_size h) dir = Inr raw" and dbs: "dbs = chain_bytes bs (sector_size h) dir"
    by (auto simp: concatenate_def and_then_Inr read_sectors_Inr split: if_splits)
  from parse_directory_Inr [OF p [unfolded v]] have one: "one_root es0" "\<forall>k < length es0. parent (es0 ! k) = None" by auto
  have "only_parents es0 es" using assign_paths_Inr [OF ap [unfolded v fst_conv] one] by simp
  from records_of_parents [OF this parse_directory_records [OF p [unfolded v]]]
  have "records_of (major_version h) (chain_bytes bs (sector_size h) dir) es" by (simp add: dbs)
  moreover have "follows (fat a) (first_directory h) (length dir) {} dir
      \<and> (major_version h = 4 \<longrightarrow> length dir = unat (directory_sectors h))"
  proof (cases "major_version h = 4")
    case True
    with walk_chain_follows [OF w, of "unat (directory_sectors h)"]
    have "follows (fat a) (first_directory h) (unat (directory_sectors h)) {} dir" by simp
    moreover from this have "length dir = unat (directory_sectors h)" by (simp add: follows_def)
    ultimately show ?thesis by simp
  next
    case False
    with walk_chain_follows [OF w, of "length dir"] show ?thesis by simp
  qed
  moreover have "\<forall>i \<in> set dir. in_file bs (sector_size h) i" using read_sectors_table [OF r] by simp
  ultimately show ?thesis using claimed_append [OF assms(2) c] keep ne by (auto simp: directory_ok_def)
qed

lemma read_minifat_Inr:
  assumes "read_minifat ops alloc h bs es a s = (Inr (mini, a'), t)" "claimed xs (owners a)"
  shows "\<exists>c. claimed (xs @ c) (owners a') \<and> keeps_tables a a'
    \<and> follows (fat a) (first_minifat h) (unat (minifat_sectors h)) {} c
    \<and> (\<forall>i \<in> set c. in_file bs (sector_size h) i) \<and> mini = table_of bs (sector_size h) c"
proof -
  from assms(1) obtain c raw where
    w: "(if minifat_sectors h = 0 then
          if first_minifat h \<noteq> END \<and> first_minifat h \<noteq> FREE then
            Inl (malformed ''cfb/minifat'' ''empty miniFAT has a start sector'')
          else Inr []
        else walk_chain alloc (first_minifat h) (fat a) (sector_count a) (Some (minifat_sectors h)) ''cfb/minifat'') = Inr c"
    and c: "claim_all ''cfb/minifat'' c (owners a) = Inr (owners a')"
    and r: "read_sectors bs (sector_size h) c = Inr raw" and m: "mini = concat (map words_of raw)"
    and keep: "keeps_tables a a'"
    unfolding read_minifat_def keeps_tables_def by (elim give_ifE try_doE giveE) auto
  have "follows (fat a) (first_minifat h) (unat (minifat_sectors h)) {} c"
  proof (cases "minifat_sectors h = 0")
    case True
    with w show ?thesis by (auto simp: follows_def split: if_splits)
  next
    case False
    with w walk_chain_follows [of alloc "first_minifat h" "fat a" "sector_count a" "Some (minifat_sectors h)"
        "''cfb/minifat''" c "unat (minifat_sectors h)"]
    show ?thesis by simp
  qed
  with claimed_append [OF assms(2) c] read_sectors_table [OF r] m keep show ?thesis by auto
qed

lemma read_root_stream_Inr:
  assumes "read_root_stream ops alloc h bs mode es mini a s = (Inr (st, a'), t)" "claimed xs (owners a)"
    and "partial_ok mode bs h a"
  shows "\<exists>c. claimed (xs @ c) (owners a') \<and> keeps_tables a a' \<and> claimed [] (mini_owners st) \<and> minifat st = mini
    \<and> follows (fat a) (start_sector (es ! 0)) (div_ceil (unat (stream_size (es ! 0))) (sector_size h))
        (set (regular_tail_targets st)) c
    \<and> (mode = LegacyOfficeBestEffort \<or> regular_tail_targets st = []) \<and> mini_tail_targets st = []
    \<and> (\<forall>i \<in> set c. in_file bs (sector_size h) i)
    \<and> root_mini_stream st = take (unat (stream_size (es ! 0))) (chain_bytes bs (sector_size h) c)"
proof -
  from assms(1) obtain root rest where es: "es = root # rest"
    by (cases es) (auto simp: read_root_stream_def)
  let ?n = "div_ceil (unat (stream_size root)) (sector_size h)"
  from assms(1) obtain c tl d pc n where
    w: "regular_stream_chain alloc root (fat a) (sector_count a) (sector_size h) ''cfb/root'' mode = Inr (c, tl)"
    and c: "claim_all ''cfb/root-mini-stream'' c (owners a) = Inr (owners a')"
    and d: "concatenate_regular_stream alloc bs (sector_size h) c (stream_size root) (partial_stream_sector a) ''cfb/root''
        = Inr (d, pc)"
    and st: "root_mini_stream st = d" "mini_owners st = replicate n False" "minifat st = mini"
      "regular_tail_targets st = opt_list tl" "mini_tail_targets st = []"
    and keep: "keeps_tables a a'"
    unfolding read_root_stream_def es list.case split_beta materialize_regular_stream_def keeps_tables_def
    by (elim give_ifE try_doE giveE) (auto simp: try_sized_vec_Inr)
  from walk_follows [OF w [unfolded regular_stream_chain_def], of ?n]
  have f: "follows (fat a) (start_sector root) ?n (set_option tl) c" "mode = LegacyOfficeBestEffort \<or> tl = None"
    "\<forall>x \<in> set c. unat x < sector_count a" by auto
  from d obtain out where
    "read_regular_sectors bs (sector_size h) (unat (stream_size root)) (partial_stream_sector a) ''cfb/root'' c [] None = Inr (out, pc)"
    by (auto simp: concatenate_regular_stream_def and_then_Inr split: if_splits)
  from read_regular_sectors_placed [OF this] f(3) assms(3) have "\<forall>i \<in> set c. in_file bs (sector_size h) i"
    by (fastforce simp: partial_ok_def)
  with f concatenate_regular_stream_Inr [OF d] claimed_append [OF assms(2) c] st es claimed_none [of n] keep
  show ?thesis by (intro exI [of _ c]) auto
qed

lemma read_streams_Inr:
  assumes "read_streams ops alloc h bs mode es a st s = (Inr (ds, a'), t)"
    and "claimed xs (owners a)" "claimed [] (mini_owners st)" "0 < mini_sector_size h" "partial_ok mode bs h a"
    and tails: "mode = LegacyOfficeBestEffort \<or> regular_tail_targets st = []" "mini_tail_targets st = []"
  shows "\<exists>cs ms R M. length ds = length es \<and> length cs = length es \<and> length ms = length es
    \<and> distinct (xs @ concat cs) \<and> distinct (concat ms)
    \<and> set (regular_tail_targets st) \<subseteq> R
    \<and> R \<subseteq> spare mode (fat a) (set (xs @ concat cs)) \<and> M \<subseteq> spare mode (minifat st) (set (concat ms))
    \<and> (\<forall>j < length es. slot_ok mode h bs (fat a) R (minifat st) (root_mini_stream st) M (es ! j) (ds ! j) (cs ! j) (ms ! j))"
proof -
  from assms(1) obtain a1 st1 s1 u v where
    r: "read_stream_slots ops alloc h bs mode es [0..<length es] a st s = (Inr (ds, a1, st1), s1)"
    and vr: "validate_pending_tails (regular_tail_targets st1) (owners a1) (fat a1) ''cfb/stream-tail'' = Inr u"
    and vm: "validate_pending_tails (mini_tail_targets st1) (mini_owners st1) (minifat st1) ''cfb/mini-stream-tail'' = Inr v"
    unfolding read_streams_def split_beta by (elim give_ifE try_doE giveE) (auto split: if_splits)
  from slots_ok [OF r assms(2-5)] obtain cs ms where s: "length ds = length es" "length cs = length es" "length ms = length es"
    "claimed (xs @ concat cs) (owners a1)" "claimed (concat ms) (mini_owners st1)" "keeps_tables a a1" "adds_tails mode st st1"
    "\<forall>j < length es. slot_ok mode h bs (fat a) (set (regular_tail_targets st1)) (minifat st)
       (root_mini_stream st) (set (mini_tail_targets st1)) (es ! j) (ds ! j) (cs ! j) (ms ! j)"
    by auto
  have unowned: "e \<notin> set ys" if "claimed ys own" "nth_opt own (unat e) = Some False" for ys own e
    using that by (auto simp: claimed_def owned_def nth_opt_def split: if_splits)
  have fat: "fat a1 = fat a" "minifat st1 = minifat st" using s(6,7) by (simp_all add: keeps_tables_def adds_tails_def)
  have "mode = Strict \<Longrightarrow> regular_tail_targets st1 = [] \<and> mini_tail_targets st1 = []"
    using s(7) tails by (auto simp: adds_tails_def)
  note strict = this
  have "set (regular_tail_targets st1) \<subseteq> spare mode (fat a) (set (xs @ concat cs))"
  proof
    fix e
    assume e: "e \<in> set (regular_tail_targets st1)"
    with vr fat have "nth_opt (owners a1) (unat e) = Some False" "nth_opt (fat a) (unat e) = Some FREE"
      by (simp_all add: validate_pending_tails_Inr)
    with e unowned [OF s(4)] strict show "e \<in> spare mode (fat a) (set (xs @ concat cs))"
      unfolding spare_def by auto
  qed
  moreover have "set (mini_tail_targets st1) \<subseteq> spare mode (minifat st) (set (concat ms))"
  proof
    fix e
    assume e: "e \<in> set (mini_tail_targets st1)"
    with vm fat have "nth_opt (mini_owners st1) (unat e) = Some False" "nth_opt (minifat st) (unat e) = Some FREE"
      by (simp_all add: validate_pending_tails_Inr)
    with e unowned [OF s(5)] strict show "e \<in> spare mode (minifat st) (set (concat ms))"
      unfolding spare_def by auto
  qed
  moreover have "set (regular_tail_targets st) \<subseteq> set (regular_tail_targets st1)" using s(7) by (simp add: adds_tails_def)
  ultimately show ?thesis using s(1-5,8)
    by (intro exI [of _ cs] exI [of _ ms] exI [of _ "set (regular_tail_targets st1)"]
        exI [of _ "set (mini_tail_targets st1)"] conjI) (simp_all add: claimed_def)
qed

text \<open>
  What the opened file is, from its bytes: the header, the tables, the directory with the entries, the
  root chain of entry zero and the chains of the streams are the parts of \<open>y\<close>; no sector occurs
  twice in them, and no sector of the root stream twice in the chains of the small streams.
\<close>

definition file_layout :: "CompoundCompatibility \<Rightarrow> u8 list \<Rightarrow> CompoundFile \<Rightarrow> Header \<Rightarrow> Layout \<Rightarrow> bool" where
  "file_layout mode bs f h y \<longleftrightarrow>
     (let ss = sector_size h; es = entries f; table = table_of bs ss (fat_part y); mini = table_of bs ss (minifat_part y);
          root = take (unat (stream_size (es ! 0))) (chain_bytes bs ss (root_part y));
          R = spare mode table (set (system_part y @ concat (large_parts y)));
          M = spare mode mini (set (concat (small_parts y)))
      in header_fields bs h
        \<and> tables_ok bs h (difat_part y) (fat_part y)
        \<and> directory_ok bs h table (directory_part y) es
        \<and> follows table (first_minifat h) (unat (minifat_sectors h)) {} (minifat_part y)
        \<and> follows table (start_sector (es ! 0)) (div_ceil (unat (stream_size (es ! 0))) ss) R (root_part y)
        \<and> (\<forall>i \<in> set (system_part y). in_file bs ss i)
        \<and> distinct (system_part y @ concat (large_parts y)) \<and> distinct (concat (small_parts y))
        \<and> length (streams f) = length es \<and> length (large_parts y) = length es \<and> length (small_parts y) = length es
        \<and> (\<forall>j < length es.
             slot_ok mode h bs table R mini root M (es ! j) (streams f ! j) (large_parts y ! j) (small_parts y ! j)))"

lemma open_held_layout:
  assumes "open_held ops alloc k bs mode s = (Inr f, t)"
  shows "\<exists>h y. file_layout mode bs f h y"
proof -
  from assms obtain h a s1 es a2 s2 mini a3 s3 st a4 s4 ds a5 where
    0: "parse_header bs = Inr h" and
    1: "read_allocation_tables ops alloc h bs mode s = (Inr a, s1)" and
    2: "read_directory ops alloc k h bs mode a s1 = (Inr (es, a2), s2)" and
    3: "read_minifat ops alloc h bs es a2 s2 = (Inr (mini, a3), s3)" and
    4: "read_root_stream (holding ops) alloc h bs mode es mini a3 s3 = (Inr (st, a4), s4)" and
    5: "read_streams (holding ops) alloc h bs mode es a4 st s4 = (Inr (ds, a5), t)" and
    f: "entries f = es" "streams f = ds"
    by (auto simp: open_held_def try_do_Inr)
  have h: "header_fields bs h" by (rule parse_header_fields [OF 0])
  then have mini: "0 < mini_sector_size h" by (simp add: header_fields_def)
  from read_allocation_tables_Inr [OF 1 h] obtain difat fats where
    x1: "claimed (difat @ fats) (owners a)" "tables_ok bs h difat fats" "fat a = table_of bs (sector_size h) fats"
      "partial_ok mode bs h a" by blast
  from read_directory_Inr [OF 2 x1(1)] obtain dir where
    x2: "claimed ((difat @ fats) @ dir) (owners a2)" "keeps_tables a a2" "directory_ok bs h (fat a) dir es" by blast
  from read_minifat_Inr [OF 3 x2(1)] obtain m where
    x3: "claimed (((difat @ fats) @ dir) @ m) (owners a3)" "keeps_tables a2 a3"
      "follows (fat a2) (first_minifat h) (unat (minifat_sectors h)) {} m"
      "\<forall>i \<in> set m. in_file bs (sector_size h) i" "mini = table_of bs (sector_size h) m" by blast
  note k3 = keeps_tables_trans [OF x2(2) x3(2)]
  from read_root_stream_Inr [OF 4 x3(1) keeps_partial [OF k3 x1(4)]] obtain c where
    x4: "claimed ((((difat @ fats) @ dir) @ m) @ c) (owners a4)" "keeps_tables a3 a4" "claimed [] (mini_owners st)"
      "minifat st = mini"
      "follows (fat a3) (start_sector (es ! 0)) (div_ceil (unat (stream_size (es ! 0))) (sector_size h))
         (set (regular_tail_targets st)) c"
      "mode = LegacyOfficeBestEffort \<or> regular_tail_targets st = []" "mini_tail_targets st = []"
      "\<forall>i \<in> set c. in_file bs (sector_size h) i"
      "root_mini_stream st = take (unat (stream_size (es ! 0))) (chain_bytes bs (sector_size h) c)" by blast
  note k4 = keeps_tables_trans [OF k3 x4(2)]
  from read_streams_Inr [OF 5 x4(1,3) mini keeps_partial [OF k4 x1(4)] x4(6,7)] obtain cs ms R M where
    x5: "length ds = length es" "length cs = length es" "length ms = length es"
      "distinct (((((difat @ fats) @ dir) @ m) @ c) @ concat cs)" "distinct (concat ms)"
      "set (regular_tail_targets st) \<subseteq> R"
      "R \<subseteq> spare mode (fat a4) (set (((((difat @ fats) @ dir) @ m) @ c) @ concat cs))"
      "M \<subseteq> spare mode (minifat st) (set (concat ms))"
      "\<forall>j < length es. slot_ok mode h bs (fat a4) R (minifat st) (root_mini_stream st) M (es ! j) (ds ! j) (cs ! j) (ms ! j)"
    by blast
  have fat: "fat a2 = fat a" "fat a3 = fat a" "fat a4 = fat a" using x2(2) k3 k4 by (simp_all add: keeps_tables_def)
  let ?y = "\<lparr>difat_part = difat, fat_part = fats, directory_part = dir, minifat_part = m, root_part = c,
    large_parts = cs, small_parts = ms\<rparr>"
  have sys: "system_part ?y = (((difat @ fats) @ dir) @ m) @ c" by (simp add: system_part_def)
  have "\<forall>i \<in> set (system_part ?y). in_file bs (sector_size h) i"
    unfolding sys set_append ball_Un
    using x1(2) [unfolded tables_ok_def set_append ball_Un] x2(3) [unfolded directory_ok_def] x3(4) x4(8) by blast
  moreover have "follows (fat a) (start_sector (es ! 0)) (div_ceil (unat (stream_size (es ! 0))) (sector_size h))
      (spare mode (fat a) (set (system_part ?y @ concat cs))) c"
    using x5(6,7) by (intro follows_mono [OF x4(5) [unfolded fat]]) (auto simp: sys fat)
  moreover have "\<forall>j < length es. slot_ok mode h bs (fat a) (spare mode (fat a) (set (system_part ?y @ concat cs))) mini
      (root_mini_stream st) (spare mode mini (set (concat ms))) (es ! j) (ds ! j) (cs ! j) (ms ! j)"
    using x5(7,8,9) x4(4) by (auto simp: sys fat intro: slot_ok_mono)
  ultimately have "file_layout mode bs f h ?y"
    unfolding file_layout_def Let_def Layout.select_convs f
    using h x1(2) x2(3) x3(3) x5(1-5) by (simp add: fat sys x1(3) x3(5) x4(9))
  then show ?thesis by blast
qed

lemma open_compound_Inr:
  "open_compound ops alloc k bs mode b = (Inr f, b') \<Longrightarrow>
     \<exists>g ls. open_held ops alloc k bs mode (b, []) = (Inr g, (b', ls)) \<and> f = g\<lparr>file_memory := ls\<rparr>"
  by (auto simp: open_compound_def split: prod.splits sum.splits)

lemma open_layout:
  assumes "open_compound ops alloc k bs mode b = (Inr f, b')"
  shows "\<exists>h y. file_layout mode bs f h y"
proof -
  from open_compound_Inr [OF assms] obtain g ls where
    "open_held ops alloc k bs mode (b, []) = (Inr g, (b', ls))" "f = g\<lparr>file_memory := ls\<rparr>" by blast
  moreover from this(2) have "file_layout mode bs f = file_layout mode bs g" by (simp add: fun_eq_iff file_layout_def)
  ultimately show ?thesis using open_held_layout by metis
qed

lemma slot_length:
  "slot_ok mode h bs table R mini root M e d c m \<Longrightarrow>
     (case d of None \<Rightarrow> 0 | Some x \<Rightarrow> length x) = (if entry_kind e = Stream then unat (stream_size e) else 0)"
  by (auto simp: slot_ok_def split: if_splits)

text \<open>The bytes of all streams.\<close>

definition retained_bytes :: "CompoundFile \<Rightarrow> nat" where
  "retained_bytes f = sum_list (map (\<lambda>d. case d of None \<Rightarrow> 0 | Some x \<Rightarrow> length x) (streams f))"

lemma layout_retained:
  assumes "file_layout mode bs f h y"
  shows "retained_bytes f = stream_total (entries f) [0..<length (entries f)]"
proof -
  note y = assms [unfolded file_layout_def Let_def]
  have len: "length (streams f) = length (entries f)" using y by simp
  have slot: "(case streams f ! j of None \<Rightarrow> 0 | Some x \<Rightarrow> length x)
      = (if entry_kind (entries f ! j) = Stream then unat (stream_size (entries f ! j)) else 0)"
    if "j < length (entries f)" for j
    using y that by (elim conjE) (drule spec, drule mp, assumption, rule slot_length)
  have "map (\<lambda>d. case d of None \<Rightarrow> 0 | Some x \<Rightarrow> length x) (streams f) =
      map (\<lambda>k. if entry_kind (entries f ! k) = Stream then unat (stream_size (entries f ! k)) else 0)
        [0..<length (entries f)]"
    using len slot by (intro nth_equalityI) simp_all
  then show ?thesis by (simp add: retained_bytes_def stream_total_def)
qed

context compound_budget
begin

lemma open_bounded:
  assumes "open_compound ops alloc k bs mode b = (Inr f, b')"
  shows "spent b + unat (stream_size (entries f ! 0)) + retained_bytes f \<le> spent b' \<and> spent b' \<le> cap b"
proof -
  from open_compound_Inr [OF assms] obtain g ls where
    "open_held ops alloc k bs mode (b, []) = (Inr g, (b', ls))" "entries f = entries g" by auto
  from open_held_spent [OF this(1)] this(2)
  have "spent b + unat (stream_size (entries f ! 0)) + stream_total (entries f) [0..<length (entries f)] \<le> spent b'"
    "spent b' \<le> cap b" by auto
  moreover from open_layout [OF assms] have "retained_bytes f = stream_total (entries f) [0..<length (entries f)]"
    by (blast dest: layout_retained)
  ultimately show ?thesis by simp
qed

end

section \<open>The properties of opened files\<close>

text \<open>
  Claim C31. In an opened compound file every part is the one its bytes describe and no sector is used
  twice. The DIFAT sectors are chained from the header and name the FAT sectors, the FAT is the words
  of these sectors, and the directory, the miniFAT and the root stream are FAT chains from the
  sectors and of the lengths that the header and entry zero give; the entries are the records of the
  directory bytes. Every stream is exactly the declared number of bytes, in order, of the chain that
  starts at its entry's sector and has just enough sectors: a FAT chain in the file, or for small
  streams a miniFAT chain in the root stream. Chains end at the end marker (a best-effort reader also
  lets one point to a sector that is marked free and used by nothing). All sectors lie wholly in the
  file, except that in best-effort mode the file may end inside the last sector of a stream.
\<close>

theorem opened_streams_own_disjoint_sectors:
  "case fst (open_compound ops alloc entry_footprint bs mode b) of
     Inl _ \<Rightarrow> True
   | Inr f \<Rightarrow> \<exists>h y. file_layout mode bs f h y"
  by (cases "open_compound ops alloc entry_footprint bs mode b") (auto split: sum.split dest: open_layout)

text \<open>
  Claim C32. The streams a MSG conversion retains from its compound files fit the expansion limit:
  an opening adds the root stream and every stream to the budget's count, and the count never
  exceeds \<open>max_decompressed_bytes\<close>.
\<close>

theorem retained_streams_fit_the_expansion_limit:
  "case open_compound msg_operations alloc entry_footprint bs mode (m, w) of
     (Inl _, _) \<Rightarrow> True
   | (Inr f, b') \<Rightarrow>
       unat (msg_expanded_bytes m) + unat (stream_size (entries f ! 0)) + retained_bytes f
         \<le> unat (msg_expanded_bytes (fst b')) \<and>
       unat (msg_expanded_bytes (fst b')) \<le> unat (max_decompressed_bytes (msg_limits m))"
  using msg_budget.open_bounded [of alloc entry_footprint bs mode "(m, w)"]
  by (auto simp: msg_spent_def msg_cap_def split: prod.split sum.split)

text \<open>
  Claim C33. Opening a compound file leaks no memory lease: a failed opening leaves the live
  reservations as they were, and a successful one adds exactly the leases the file holds.
\<close>

theorem opening_leaks_no_lease:
  assumes "open_compound msg_operations alloc entry_footprint bs mode b = (r, b')" "fresh_leases b"
  shows "case r of
      Inl _ \<Rightarrow> live_leases b' = live_leases b
    | Inr f \<Rightarrow> distinct (file_memory f) \<and> set (file_memory f) \<inter> live_leases b = {}
        \<and> live_leases b' = live_leases b \<union> set (file_memory f)"
  by (rule msg_budget.open_leases [OF assms])

definition demo_budget :: MsgBudget where
  "demo_budget = \<lparr>msg_limits = default_limits, msg_context = \<lparr>shared = 0, memory_credit = None, ignore_request_controls = False\<rparr>,
     msg_entries = 0, msg_expanded_bytes = 0, msg_asset_bytes = 0, msg_work = 0, diagnostics = []\<rparr>"

theorem opening_leaks_no_lease_witness:
  "live_leases (snd (open_compound msg_operations (\<lambda>_. None) 0 [] LegacyOfficeBestEffort (demo_budget, demo_world))) = {}"
proof -
  let ?open = "open_compound msg_operations (\<lambda>_. None) 0 [] LegacyOfficeBestEffort (demo_budget, demo_world)"
  have "fst ?open = Inl (malformed ''cfb/header'' ''truncated CFB header'')"
    by (simp add: open_compound_def open_held_def parse_header_def try_do_def)
  moreover have "fresh_leases (demo_budget, demo_world)" "live_leases (demo_budget, demo_world) = {}"
    by (simp_all add: fresh_leases_def live_leases_def demo_world_def init_world_def)
  ultimately show ?thesis
    using opening_leaks_no_lease [of "\<lambda>_. None" 0 "[]" LegacyOfficeBestEffort "(demo_budget, demo_world)"
        "fst ?open" "snd ?open"] by (simp add: prod_eq_iff)
qed

text \<open>
  The default limit on nesting is the largest \<open>u16\<close>, so the depth check of the directory walk never
  refuses a link under it.
\<close>

lemma default_limits_allow_any_depth:
  "msg_limits (fst b) = default_limits \<Longrightarrow> msg_depth d p b = msg_checkpoint b"
  by (simp add: msg_depth_def default_limits_def Let_def not_less)

end
