(* ===== verification/Lzfu.thy ===== *)
theory Lzfu
  imports Cfb_Chain
begin

text \<open>
  Compressed RTF: \<open>crates/converters/src/msg/body/lzfu.rs\<close>. A 16-byte header, then either the
  plain text or a stream of literals and of references into a 4,096-byte ring that starts with a
  fixed text. The budget is charged for the declared size and for every flag byte.
\<close>

section \<open>The decoder\<close>

definition MAGIC_COMPRESSED :: u32 where "MAGIC_COMPRESSED = 0x75465a4c"
definition MAGIC_UNCOMPRESSED :: u32 where "MAGIC_UNCOMPRESSED = 0x414c454d"
definition WINDOW :: nat where "WINDOW = 4096"

definition PRELOAD :: "u8 list" where
  "PRELOAD = map (\<lambda>c. of_nat (of_char c))
     (''{'' @ [CHR 0x5C] @ ''rtf1'' @ [CHR 0x5C] @ ''ansi'' @ [CHR 0x5C] @ ''mac'' @ [CHR 0x5C] @ ''deff0''
      @ [CHR 0x5C] @ ''deftab720{'' @ [CHR 0x5C] @ ''fonttbl;}{'' @ [CHR 0x5C] @ ''f0'' @ [CHR 0x5C] @ ''fnil ''
      @ [CHR 0x5C] @ ''froman '' @ [CHR 0x5C] @ ''fswiss '' @ [CHR 0x5C] @ ''fmodern '' @ [CHR 0x5C] @ ''fscript ''
      @ [CHR 0x5C] @ ''fdecor MS Sans SerifSymbolArialTimes New RomanCourier{'' @ [CHR 0x5C] @ ''colortbl''
      @ [CHR 0x5C] @ ''red0'' @ [CHR 0x5C] @ ''green0'' @ [CHR 0x5C] @ ''blue0'' @ [CHR 0x0D, CHR 0x0A]
      @ [CHR 0x5C] @ ''par '' @ [CHR 0x5C] @ ''pard'' @ [CHR 0x5C] @ ''plain'' @ [CHR 0x5C] @ ''f0'' @ [CHR 0x5C]
      @ ''fs20'' @ [CHR 0x5C] @ ''b'' @ [CHR 0x5C] @ ''i'' @ [CHR 0x5C] @ ''u'' @ [CHR 0x5C] @ ''tab'' @ [CHR 0x5C] @ ''tx'')"

definition read_u32 :: "u8 list \<Rightarrow> nat \<Rightarrow> string \<Rightarrow> u32 outcome" where
  "read_u32 bs offset p =
     (case slice bs offset 4 of
        None \<Rightarrow> Inl (malformed p ''truncated LZFu integer'')
      | Some raw \<Rightarrow> Inr (of_nat (from_le_bytes raw)))"

unbundle bit_operations_syntax

fun crc_bits :: "nat \<Rightarrow> u32 \<Rightarrow> u32" where
  "crc_bits 0 crc = crc"
| "crc_bits (Suc k) crc =
     crc_bits k (if crc AND 1 = 1 then drop_bit 1 crc XOR 0xedb88320 else drop_bit 1 crc)"

definition crc32 :: "u8 list \<Rightarrow> u32" where
  "crc32 bs = fold (\<lambda>b crc. crc_bits 8 (crc XOR ucast b)) bs 0"

text \<open>The decoder's variables: the ring and the next index to write in it, the cursor, the output.\<close>

record lz_state =
  ring :: "u8 list"
  write_at :: nat
  cursor :: nat
  written :: "u8 list"

definition emit :: "u8 \<Rightarrow> lz_state \<Rightarrow> lz_state" where
  "emit v s = s\<lparr>ring := (ring s)[write_at s := v], write_at := (write_at s + 1) mod WINDOW,
     written := written s @ [v]\<rparr>"

text \<open>The copy reads each byte after the previous one was written, so a reference may overlap itself.\<close>

fun copy_back :: "nat \<Rightarrow> nat \<Rightarrow> lz_state \<Rightarrow> lz_state" where
  "copy_back 0 read s = s"
| "copy_back (Suc k) read s = copy_back k ((read + 1) mod WINDOW) (emit (ring s ! read) s)"

text \<open>One token; \<open>None\<close> is the end marker.\<close>

definition literal_token :: "u8 list \<Rightarrow> nat \<Rightarrow> string \<Rightarrow> lz_state \<Rightarrow> lz_state outcome" where
  "literal_token payload raw_size p s =
     (case nth_opt payload (cursor s) of
        None \<Rightarrow> Inl (malformed p ''LZFu literal is truncated'')
      | Some v \<Rightarrow>
          if length (written s) = raw_size then Inl (malformed p ''LZFu literal exceeds declared raw size'')
          else Inr (emit v (s\<lparr>cursor := cursor s + 1\<rparr>)))"

definition reference_token :: "u8 list \<Rightarrow> nat \<Rightarrow> string \<Rightarrow> lz_state \<Rightarrow> lz_state option outcome" where
  "reference_token payload raw_size p s =
     (case slice payload (cursor s) 2 of
        None \<Rightarrow> Inl (malformed p ''LZFu back-reference is truncated'')
      | Some tk \<Rightarrow>
          let offset = unat (tk ! 0) * 16 + unat (tk ! 1) div 16;
              len = unat (tk ! 1) mod 16 + 2 in
          if offset = write_at s then
            if length (written s) \<noteq> raw_size then
              Inl (malformed p ''LZFu end marker precedes declared raw size'')
            else Inr None
          else if length (written s) + len > raw_size then
            Inl (malformed p ''LZFu back-reference exceeds declared raw size'')
          else Inr (Some (copy_back len offset (s\<lparr>cursor := cursor s + 2\<rparr>))))"

text \<open>The tokens of a flag byte from bit \<open>8 - k\<close> on: the final output, or the state after them.\<close>

fun flag_tokens ::
  "u8 list \<Rightarrow> nat \<Rightarrow> string \<Rightarrow> u8 \<Rightarrow> nat \<Rightarrow> lz_state \<Rightarrow> (u8 list + lz_state) outcome" where
  "flag_tokens payload raw_size p flags 0 s = Inr (Inr s)"
| "flag_tokens payload raw_size p flags (Suc k) s =
     (if \<not> bit flags (7 - k) then
        and_then (literal_token payload raw_size p s) (flag_tokens payload raw_size p flags k)
      else
        and_then (reference_token payload raw_size p s) (\<lambda>r. case r of
          None \<Rightarrow> Inr (Inl (written s))
        | Some s' \<Rightarrow> flag_tokens payload raw_size p flags k s'))"

lemma emit_cursor [simp]: "cursor (emit v s) = cursor s"
  by (simp add: emit_def)

lemma copy_back_cursor [simp]: "cursor (copy_back k read s) = cursor s"
  by (induction k read s rule: copy_back.induct) auto

lemma literal_token_cursor: "literal_token payload n p s = Inr s' \<Longrightarrow> cursor s' = cursor s + 1"
  by (auto simp: literal_token_def emit_def split: option.splits if_splits)

lemma reference_token_cursor: "reference_token payload n p s = Inr (Some s') \<Longrightarrow> cursor s' = cursor s + 2"
  by (auto simp: reference_token_def Let_def split: option.splits if_splits)

lemma flag_tokens_cursor:
  "flag_tokens payload n p flags k s = Inr (Inr s') \<Longrightarrow> cursor s \<le> cursor s'"
proof (induction k arbitrary: s)
  case (Suc k)
  show ?case
  proof (cases "bit flags (7 - k)")
    case True
    with Suc.prems obtain t where "reference_token payload n p s = Inr (Some t)"
      "flag_tokens payload n p flags k t = Inr (Inr s')"
      by (auto simp: and_then_Inr split: option.splits)
    with Suc.IH [of t] show ?thesis by (auto dest: reference_token_cursor)
  next
    case False
    with Suc.prems obtain t where "literal_token payload n p s = Inr t"
      "flag_tokens payload n p flags k t = Inr (Inr s')"
      by (auto simp: and_then_Inr)
    with Suc.IH [of t] show ?thesis by (auto dest: literal_token_cursor)
  qed
qed simp

text \<open>The loop over the flag bytes, one unit of work each; the cursor moves past each flag byte.\<close>

function decode_loop :: "u8 list \<Rightarrow> nat \<Rightarrow> string \<Rightarrow> lz_state \<Rightarrow> (msg_state, u8 list) budgeted" where
  "decode_loop payload raw_size p s b =
     try_do (msg_work_units 1) (\<lambda>_.
     try_do (give (case nth_opt payload (cursor s) of
         None \<Rightarrow> Inl (malformed p ''LZFu token flags are truncated'')
       | Some flags \<Rightarrow> flag_tokens payload raw_size p flags 8 (s\<lparr>cursor := cursor s + 1\<rparr>))) (\<lambda>r b.
       case r of
         Inl out \<Rightarrow> (Inr out, b)
       | Inr s' \<Rightarrow> decode_loop payload raw_size p s' b)) b"
  by pat_completeness auto
termination
  by (relation "measure (\<lambda>(payload, n, p, s, b). length payload - cursor s)")
    (auto simp: nth_opt_def split: if_splits dest!: flag_tokens_cursor)

declare decode_loop.simps [simp del]

definition initial_state :: lz_state where
  "initial_state = \<lparr>ring = PRELOAD @ replicate (WINDOW - length PRELOAD) 0, write_at = length PRELOAD,
     cursor = 0, written = []\<rparr>"

definition decode_tokens :: "u8 list \<Rightarrow> nat \<Rightarrow> string \<Rightarrow> (msg_state, u8 list) budgeted" where
  "decode_tokens payload raw_size p =
     (if length PRELOAD \<ge> WINDOW then give (Inl (Internal ''LZFu preload exceeds dictionary''))
      else decode_loop payload raw_size p initial_state)"

definition decompress :: "u8 list \<Rightarrow> string \<Rightarrow> (msg_state, u8 list) budgeted" where
  "decompress bs p =
     (if length bs < 16 then give (Inl (malformed p ''truncated LZFu header''))
      else
        try_do (give (read_u32 (take 16 bs) 0 p)) (\<lambda>compressed_size.
        try_do (give (read_u32 (take 16 bs) 4 p)) (\<lambda>raw_size.
        try_do (give (read_u32 (take 16 bs) 8 p)) (\<lambda>magic.
        try_do (give (read_u32 (take 16 bs) 12 p)) (\<lambda>expected_crc.
        if unat compressed_size + 4 \<noteq> length bs then
          give (Inl (malformed p ''LZFu compressed size does not match property length''))
        else
          try_do (msg_expanded (ucast raw_size)) (\<lambda>_.
          let payload = drop 16 bs in
          if magic = MAGIC_UNCOMPRESSED then
            if expected_crc \<noteq> 0 then give (Inl (malformed p ''uncompressed RTF CRC is not zero''))
            else if length payload \<noteq> unat raw_size then
              give (Inl (malformed p ''uncompressed RTF length does not match LZFu header''))
            else give (Inr payload)
          else if magic = MAGIC_COMPRESSED then
            if crc32 payload \<noteq> expected_crc then give (Inl (malformed p ''LZFu payload CRC mismatch''))
            else decode_tokens payload (unat raw_size) p
          else give (Inl (malformed p ''invalid LZFu compression magic''))))))))"

lemma preload_length: "length PRELOAD = 207"
  by (simp add: PRELOAD_def)

end
