(* ===== verification/Lzfu_History.thy ===== *)
theory Lzfu_History
  imports Lzfu Execution_Properties
begin

text \<open>
  The LZFu decoder without its ring: a reference goes back a distance in everything written so
  far, the preloaded text included, and before its beginning there are zero bytes. The decoder
  of \<open>lzfu.rs\<close> refines this one.
\<close>

section \<open>The decoder on the history\<close>

definition history :: "u8 list \<Rightarrow> u8 list" where
  "history w = PRELOAD @ w"

definition history_byte :: "u8 list \<Rightarrow> nat \<Rightarrow> u8" where
  "history_byte h d = (if d \<le> length h then h ! (length h - d) else 0)"

fun history_copy :: "nat \<Rightarrow> nat \<Rightarrow> u8 list \<Rightarrow> u8 list" where
  "history_copy 0 d w = w"
| "history_copy (Suc k) d w = history_copy k d (w @ [history_byte (history w) d])"

text \<open>A state is what was written and the cursor.\<close>

definition history_literal :: "u8 list \<Rightarrow> nat \<Rightarrow> string \<Rightarrow> u8 list \<times> nat \<Rightarrow> (u8 list \<times> nat) outcome" where
  "history_literal payload raw_size p = (\<lambda>(w, c).
     (case nth_opt payload c of
        None \<Rightarrow> Inl (malformed p ''LZFu literal is truncated'')
      | Some v \<Rightarrow>
          if length w = raw_size then Inl (malformed p ''LZFu literal exceeds declared raw size'')
          else Inr (w @ [v], c + 1)))"

definition distance :: "u8 list \<Rightarrow> nat \<Rightarrow> nat" where
  "distance w offset = (length (history w) + WINDOW - offset) mod WINDOW"

definition history_reference ::
  "u8 list \<Rightarrow> nat \<Rightarrow> string \<Rightarrow> u8 list \<times> nat \<Rightarrow> (u8 list \<times> nat) option outcome" where
  "history_reference payload raw_size p = (\<lambda>(w, c).
     (case slice payload c 2 of
        None \<Rightarrow> Inl (malformed p ''LZFu back-reference is truncated'')
      | Some tk \<Rightarrow>
          let d = distance w (unat (tk ! 0) * 16 + unat (tk ! 1) div 16);
              len = unat (tk ! 1) mod 16 + 2 in
          if d = 0 then
            if length w \<noteq> raw_size then Inl (malformed p ''LZFu end marker precedes declared raw size'')
            else Inr None
          else if length w + len > raw_size then
            Inl (malformed p ''LZFu back-reference exceeds declared raw size'')
          else Inr (Some (history_copy len d w, c + 2))))"

fun history_tokens ::
  "u8 list \<Rightarrow> nat \<Rightarrow> string \<Rightarrow> u8 \<Rightarrow> nat \<Rightarrow> u8 list \<times> nat \<Rightarrow> (u8 list + u8 list \<times> nat) outcome" where
  "history_tokens payload raw_size p flags 0 s = Inr (Inr s)"
| "history_tokens payload raw_size p flags (Suc k) s =
     (if \<not> bit flags (7 - k) then
        and_then (history_literal payload raw_size p s) (history_tokens payload raw_size p flags k)
      else
        and_then (history_reference payload raw_size p s) (\<lambda>r. case r of
          None \<Rightarrow> Inr (Inl (fst s))
        | Some s' \<Rightarrow> history_tokens payload raw_size p flags k s'))"

text \<open>The flag bytes; the fuel is the length of the payload, of which each flag byte takes one.\<close>

fun history_loop :: "nat \<Rightarrow> u8 list \<Rightarrow> nat \<Rightarrow> string \<Rightarrow> u8 list \<times> nat \<Rightarrow> (msg_state, u8 list) budgeted" where
  "history_loop fuel payload raw_size p s =
     try_do (msg_work_units 1) (\<lambda>_.
     try_do (give (case nth_opt payload (snd s) of
         None \<Rightarrow> Inl (malformed p ''LZFu token flags are truncated'')
       | Some flags \<Rightarrow> history_tokens payload raw_size p flags 8 (fst s, snd s + 1))) (\<lambda>r.
       case r of
         Inl out \<Rightarrow> give (Inr out)
       | Inr s' \<Rightarrow> (case fuel of 0 \<Rightarrow> give (Inl (Internal ''fuel'')) | Suc f \<Rightarrow> history_loop f payload raw_size p s')))"

declare history_loop.simps [simp del]

section \<open>The ring refines the history\<close>

definition represents :: "lz_state \<Rightarrow> u8 list \<times> nat \<Rightarrow> bool" where
  "represents s t \<longleftrightarrow>
     written s = fst t \<and> cursor s = snd t \<and> length (ring s) = WINDOW
     \<and> write_at s = length (history (fst t)) mod WINDOW
     \<and> (\<forall>d. 1 \<le> d \<and> d \<le> WINDOW \<longrightarrow>
          ring s ! ((write_at s + WINDOW - d) mod WINDOW) = history_byte (history (fst t)) d)"

lemma represents_byte:
  "represents s t \<Longrightarrow> 1 \<le> d \<Longrightarrow> d \<le> WINDOW \<Longrightarrow>
     ring s ! ((write_at s + WINDOW - d) mod WINDOW) = history_byte (history (fst t)) d"
  unfolding represents_def by blast

lemma represents_cursor:
  assumes "represents s (w, c)"
  shows "represents (s\<lparr>cursor := c'\<rparr>) (w, c')"
proof -
  have fields: "written (s\<lparr>cursor := c'\<rparr>) = written s" "ring (s\<lparr>cursor := c'\<rparr>) = ring s"
      "write_at (s\<lparr>cursor := c'\<rparr>) = write_at s" "cursor (s\<lparr>cursor := c'\<rparr>) = c'"
    by simp_all
  from assms show ?thesis
    unfolding represents_def fields fst_conv snd_conv by blast
qed

lemma back_index:
  "a < (WINDOW :: nat) \<Longrightarrow> d \<le> WINDOW \<Longrightarrow>
     (a + WINDOW - d) mod WINDOW = (if d \<le> a then a - d else a + WINDOW - d) \<or> d = 0"
  by (cases "d \<le> a") (auto simp: mod_if)

lemma emit_represents:
  assumes "represents s (w, c)"
  shows "represents (emit v s) (w @ [v], c)"
proof -
  let ?a = "write_at s" and ?h = "history w"
  have a: "?a = length ?h mod WINDOW" "?a < WINDOW" and r: "length (ring s) = WINDOW"
    using assms by (auto simp: represents_def WINDOW_def)
  have next_at: "(?a + 1) mod WINDOW = length (history (w @ [v])) mod WINDOW"
    using a(1) by (simp add: history_def mod_Suc_eq)
  have "(ring s)[?a := v] ! (((?a + 1) mod WINDOW + WINDOW - d) mod WINDOW) = history_byte (history (w @ [v])) d"
    if d: "1 \<le> d" "d \<le> WINDOW" for d
  proof -
    have pos: "((?a + 1) mod WINDOW + WINDOW - d) mod WINDOW = (?a + WINDOW - (d - 1)) mod WINDOW"
      using d a(2) by (auto simp: mod_if)
    show ?thesis
    proof (cases "d = 1")
      case True
      with a(2) r show ?thesis unfolding pos by (simp add: history_byte_def history_def)
    next
      case False
      with d have e: "1 \<le> d - 1" "d - 1 \<le> WINDOW" "d - 1 < WINDOW" by auto
      have "(?a + WINDOW - (d - 1)) mod WINDOW \<noteq> ?a"
        using e a(2) back_index [OF a(2) e(2)] by (auto split: if_splits)
      moreover have "ring s ! ((?a + WINDOW - (d - 1)) mod WINDOW) = history_byte ?h (d - 1)"
        using represents_byte [OF assms e(1,2)] by simp
      ultimately have "(ring s)[?a := v] ! ((?a + WINDOW - (d - 1)) mod WINDOW) = history_byte ?h (d - 1)"
        by (metis nth_list_update_neq)
      also have "\<dots> = history_byte (history (w @ [v])) d"
        using d False by (auto simp: history_byte_def history_def nth_append)
      finally show ?thesis unfolding pos .
    qed
  qed
  with assms next_at r show ?thesis
    by (simp add: represents_def emit_def)
qed

lemma initial_represents: "represents initial_state ([], 0)"
proof -
  have "ring initial_state ! ((207 + 4096 - d) mod 4096) = history_byte PRELOAD d" if d: "1 \<le> d" "d \<le> 4096" for d
    using d by (cases "d \<le> 207") (auto simp: initial_state_def history_byte_def preload_length mod_if nth_append WINDOW_def)
  then show ?thesis
    by (simp add: represents_def history_def initial_state_def preload_length WINDOW_def)
qed

lemma copy_back_represents:
  "represents s (w, c) \<Longrightarrow> 1 \<le> d \<Longrightarrow> d \<le> WINDOW \<Longrightarrow> read = (write_at s + WINDOW - d) mod WINDOW \<Longrightarrow>
     represents (copy_back k read s) (history_copy k d w, c)"
proof (induction k arbitrary: s w read)
  case (Suc k)
  have a: "write_at s < WINDOW" using Suc.prems(1) by (auto simp: represents_def WINDOW_def)
  have byte: "ring s ! read = history_byte (history w) d"
    using represents_byte [OF Suc.prems(1-3)] Suc.prems(4) by simp
  have "represents (emit (ring s ! read) s) (w @ [history_byte (history w) d], c)"
    unfolding byte by (rule emit_represents [OF Suc.prems(1)])
  moreover have "(read + 1) mod WINDOW = (write_at (emit (ring s ! read) s) + WINDOW - d) mod WINDOW"
    using Suc.prems(2-4) a by (auto simp: emit_def mod_if)
  ultimately show ?case using Suc.prems(2,3) Suc.IH by simp
qed simp

lemma and_then_related:
  "rel_sum (=) R x y \<Longrightarrow> (\<And>a b. R a b \<Longrightarrow> rel_sum (=) S (f a) (g b)) \<Longrightarrow>
     rel_sum (=) S (and_then x f) (and_then y g)"
  by (cases x; cases y) auto

lemma literal_represents:
  "represents s t \<Longrightarrow> rel_sum (=) represents (literal_token payload n p s) (history_literal payload n p t)"
proof (cases t)
  case (Pair w c)
  assume r: "represents s t"
  then have e: "written s = w" "cursor s = c" by (auto simp: represents_def Pair)
  have "represents (s\<lparr>cursor := Suc c\<rparr>) (w, Suc c)"
    using r unfolding Pair by (rule represents_cursor)
  then show ?thesis
    by (auto simp: literal_token_def history_literal_def Pair e intro: emit_represents split: option.splits)
qed

lemma offset_bound: "unat (x :: u8) * 16 + unat (y :: u8) div 16 < WINDOW"
proof -
  have "unat x < 256" "unat y < 256" using unsigned_less [of x] unsigned_less [of y] by simp_all
  then show ?thesis by (simp add: WINDOW_def)
qed

lemma distance_offset:
  assumes "represents s (w, c)" "off < WINDOW"
  shows "distance w off = 0 \<longleftrightarrow> off = write_at s"
    and "distance w off \<noteq> 0 \<Longrightarrow> off = (write_at s + WINDOW - distance w off) mod WINDOW"
    and "distance w off \<le> WINDOW"
proof -
  have a: "write_at s = length (history w) mod WINDOW" "write_at s < WINDOW"
    using assms(1) by (auto simp: represents_def WINDOW_def)
  have "(length (history w) + (WINDOW - off)) mod WINDOW = (write_at s + (WINDOW - off)) mod WINDOW"
    unfolding a(1) by presburger
  then have "distance w off = (write_at s + WINDOW - off) mod WINDOW"
    using assms(2) by (simp add: distance_def)
  then have d: "distance w off = (if off \<le> write_at s then write_at s - off else write_at s + WINDOW - off)"
    using a(2) assms(2) by (auto simp: mod_if)
  show "distance w off = 0 \<longleftrightarrow> off = write_at s" "distance w off \<le> WINDOW"
    using d a(2) assms(2) by auto
  show "off = (write_at s + WINDOW - distance w off) mod WINDOW" if "distance w off \<noteq> 0"
    using d a(2) assms(2) that by (auto simp: mod_if)
qed

lemma reference_represents:
  "represents s t \<Longrightarrow>
     rel_sum (=) (rel_option represents) (reference_token payload n p s) (history_reference payload n p t)"
proof (cases t)
  case (Pair w c)
  assume r: "represents s t"
  then have e: "written s = w" "cursor s = c" by (auto simp: represents_def Pair)
  have r2: "represents (s\<lparr>cursor := c + 2\<rparr>) (w, c + 2)"
    using r unfolding Pair by (rule represents_cursor)
  show ?thesis
  proof (cases "slice payload c 2")
    case (Some tk)
    define off where "off = unat (tk ! 0) * 16 + unat (tk ! 1) div 16"
    have bound: "off < WINDOW" by (simp add: off_def offset_bound)
    note d = distance_offset [OF r [unfolded Pair] bound]
    have "represents (copy_back k off (s\<lparr>cursor := c + 2\<rparr>)) (history_copy k (distance w off) w, c + 2)"
      if "distance w off \<noteq> 0" for k
      using d that by (intro copy_back_represents [OF r2]) auto
    then show ?thesis
      using d(1) unfolding reference_token_def history_reference_def Pair e Let_def prod.case Some option.case
        off_def [symmetric]
      by (auto simp del: copy_back.simps history_copy.simps)
  qed (simp add: reference_token_def history_reference_def Pair e)
qed

lemma tokens_represents:
  "represents s t \<Longrightarrow>
     rel_sum (=) (rel_sum (=) represents) (flag_tokens payload n p flags k s) (history_tokens payload n p flags k t)"
proof (induction k arbitrary: s t)
  case (Suc k)
  have end_case: "written s' = fst t'" if "represents s' t'" for s' t'
    using that by (simp add: represents_def)
  show ?case
  proof (cases "bit flags (7 - k)")
    case True
    then show ?thesis
      using Suc.IH end_case [OF Suc.prems]
      by (auto intro!: and_then_related [OF reference_represents [OF Suc.prems]] elim!: option.rel_cases)
  qed (use Suc.IH in \<open>auto intro!: and_then_related [OF literal_represents [OF Suc.prems]]\<close>)
qed simp

lemma flags_related:
  assumes "represents s t"
  shows "rel_sum (=) (rel_sum (=) represents)
     (case nth_opt payload (cursor s) of
         None \<Rightarrow> Inl (malformed p ''LZFu token flags are truncated'')
       | Some flags \<Rightarrow> flag_tokens payload n p flags 8 (s\<lparr>cursor := cursor s + 1\<rparr>))
     (case nth_opt payload (snd t) of
         None \<Rightarrow> Inl (malformed p ''LZFu token flags are truncated'')
       | Some flags \<Rightarrow> history_tokens payload n p flags 8 (fst t, snd t + 1))"
proof -
  have "cursor s = snd t" using assms by (simp add: represents_def)
  moreover from assms have "represents s (fst t, snd t)" by simp
  from represents_cursor [OF this] have "represents (s\<lparr>cursor := snd t + 1\<rparr>) (fst t, snd t + 1)" .
  ultimately show ?thesis
    by (auto split: option.split intro!: tokens_represents)
qed

text \<open>Each flag byte moves the cursor, so fuel for the bytes after the cursor is never used up.\<close>

lemma loop_represents:
  "represents s t \<Longrightarrow> length payload - cursor s \<le> fuel \<Longrightarrow>
     decode_loop payload n p s b = history_loop fuel payload n p t b"
proof (induction fuel arbitrary: s t b)
  case 0
  then have c: "cursor s = snd t" "length payload \<le> snd t" by (auto simp: represents_def)
  then show ?case
    by (simp add: decode_loop.simps [of payload n p s b] history_loop.simps nth_opt_def)
next
  case (Suc fuel)
  let ?m = "case nth_opt payload (cursor s) of
         None \<Rightarrow> Inl (malformed p ''LZFu token flags are truncated'')
       | Some flags \<Rightarrow> flag_tokens payload n p flags 8 (s\<lparr>cursor := cursor s + 1\<rparr>)"
  let ?h = "case nth_opt payload (snd t) of
         None \<Rightarrow> Inl (malformed p ''LZFu token flags are truncated'')
       | Some flags \<Rightarrow> history_tokens payload n p flags 8 (fst t, snd t + 1)"
  note rel = flags_related [OF Suc.prems(1), where payload = payload and n = n and p = p]
  have loop: "decode_loop payload n p s' b' = history_loop fuel payload n p t' b'"
    if "?m = Inr (Inr s')" "represents s' t'" for s' t' b'
  proof (rule Suc.IH [OF that(2)])
    from that(1) have "cursor s < cursor s'" "cursor s < length payload"
      by (auto simp: nth_opt_def split: if_splits dest!: flag_tokens_cursor)
    with Suc.prems(2) show "length payload - cursor s' \<le> fuel" by simp
  qed
  have "try_do (give ?m) (\<lambda>r b. case r of Inl out \<Rightarrow> (Inr out, b) | Inr s' \<Rightarrow> decode_loop payload n p s' b) b1 =
      try_do (give ?h) (\<lambda>r. case r of Inl out \<Rightarrow> give (Inr out)
        | Inr s' \<Rightarrow> history_loop fuel payload n p s') b1" for b1
    using rel loop by (cases ?m; cases ?h; cases b1) (auto simp: rel_sum.simps)
  then show ?case
    by (simp add: decode_loop.simps [of payload n p s b] history_loop.simps [of "Suc fuel" payload n p t]
        try_do_def [of "msg_work_units 1"] split: prod.splits sum.splits)
qed

lemma decode_tokens_history:
  "decode_tokens payload n p b = history_loop (length payload) payload n p ([], 0) b"
  using loop_represents [OF initial_represents, of payload "length payload" n p b]
  by (simp add: decode_tokens_def preload_length WINDOW_def)

section \<open>An encoder\<close>

text \<open>
  Groups of eight literals under a zero flag byte, and a last group of fewer with the end marker:
  the reference to the index written next.
\<close>

definition end_marker :: "nat \<Rightarrow> u8 list" where
  "end_marker n = (let off = (length PRELOAD + n) mod WINDOW in [of_nat (off div 16), of_nat (off mod 16 * 16)])"

function literal_groups :: "u8 list \<Rightarrow> nat \<Rightarrow> u8 list" where
  "literal_groups raw n =
     (if length raw < 8 then (2 ^ length raw) # raw @ end_marker (n + length raw)
      else 0 # take 8 raw @ literal_groups (drop 8 raw) (n + 8))"
  by pat_completeness auto
termination literal_groups
  by (relation "measure (\<lambda>(raw, n). length raw)") auto

declare literal_groups.simps [simp del]

fun le_bytes :: "nat \<Rightarrow> nat \<Rightarrow> u8 list" where
  "le_bytes 0 n = []"
| "le_bytes (Suc k) n = of_nat (n mod 256) # le_bytes k (n div 256)"

definition lz_encode :: "u8 list \<Rightarrow> u8 list" where
  "lz_encode raw =
     (let payload = literal_groups raw 0 in
      le_bytes 4 (length payload + 12) @ le_bytes 4 (length raw) @ le_bytes 4 (unat MAGIC_COMPRESSED)
        @ le_bytes 4 (unat (crc32 payload)) @ payload)"

text \<open>The charge for \<open>k\<close> flag bytes.\<close>

fun flag_charges :: "nat \<Rightarrow> (msg_state, unit) budgeted" where
  "flag_charges 0 = give (Inr ())"
| "flag_charges (Suc k) = try_do (msg_work_units 1) (\<lambda>_. flag_charges k)"

section \<open>Decoding what was encoded\<close>

lemma end_marker_offset:
  "length (end_marker n) = 2"
  "unat (end_marker n ! 0) * 16 + unat (end_marker n ! 1) div 16 = (length PRELOAD + n) mod WINDOW"
proof -
  define off where "off = (length PRELOAD + n) mod WINDOW"
  have "off < 4096" by (simp add: off_def WINDOW_def)
  then have "unat (of_nat (off div 16) :: u8) = off div 16" "unat (of_nat (off mod 16 * 16) :: u8) = off mod 16 * 16"
    by (intro unat_of_nat_small; simp add: less_mult_imp_div_less)+
  then show "unat (end_marker n ! 0) * 16 + unat (end_marker n ! 1) div 16 = (length PRELOAD + n) mod WINDOW"
    by (simp add: end_marker_def del: of_nat_mult flip: off_def)
qed (simp add: end_marker_def Let_def)

lemma tokens_literals:
  assumes "payload = pre @ xs @ rest" "length w + length xs \<le> n" "length xs + k \<le> 8"
    and "\<And>i. 8 - (length xs + k) \<le> i \<Longrightarrow> i < 8 - k \<Longrightarrow> \<not> bit flags i"
  shows "history_tokens payload n p flags (length xs + k) (w, length pre) =
     history_tokens payload n p flags k (w @ xs, length pre + length xs)"
  using assms
proof (induction xs arbitrary: pre w)
  case (Cons x xs)
  have lit: "history_literal payload n p (w, length pre) = Inr (w @ [x], length (pre @ [x]))"
    using Cons.prems(1,2) by (simp add: history_literal_def nth_opt_def)
  have "\<not> bit flags (7 - (length xs + k))"
    using Cons.prems(3) by (intro Cons.prems(4)) auto
  then have "history_tokens payload n p flags (length (x # xs) + k) (w, length pre) =
      history_tokens payload n p flags (length xs + k) (w @ [x], length (pre @ [x]))"
    by (simp add: lit)
  also have "\<dots> = history_tokens payload n p flags k ((w @ [x]) @ xs, length (pre @ [x]) + length xs)"
    using Cons.prems by (intro Cons.IH) auto
  finally show ?case by simp
qed simp

lemma reference_end:
  assumes "payload = pre @ end_marker (length w) @ rest"
  shows "history_reference payload (length w) p (w, length pre) = Inr None"
proof -
  have "slice payload (length pre) 2 = Some (end_marker (length w))"
    by (simp add: assms slice_def end_marker_offset)
  moreover have "distance w ((length PRELOAD + length w) mod WINDOW) = 0"
  proof -
    define m where "m = length PRELOAD + length w"
    define q r where "q = m div 4096" and "r = m mod 4096"
    then have "m = 4096 * q + r" by simp
    then have "m + 4096 - m mod 4096 = 4096 * (q + 1)"
      unfolding r_def [symmetric] by simp
    then show ?thesis
      by (simp only: distance_def history_def length_append WINDOW_def mod_mult_self1_is_0 flip: m_def)
  qed
  ultimately show ?thesis by (simp add: history_reference_def end_marker_offset(2) Let_def del: One_nat_def)
qed

lemma try_do_assoc: "try_do (try_do m f) g = try_do m (\<lambda>v. try_do (f v) g)"
  by (auto simp: try_do_def fun_eq_iff split: prod.split sum.split)

lemma loop_literals:
  "payload = pre @ literal_groups raw (length w) \<Longrightarrow> n = length w + length raw \<Longrightarrow> length raw \<le> fuel \<Longrightarrow>
     history_loop fuel payload n p (w, length pre) b =
       try_do (flag_charges (length raw div 8 + 1)) (\<lambda>_. give (Inr (w @ raw))) b"
proof (induction raw "length w" arbitrary: pre w fuel b rule: literal_groups.induct)
  case (1 raw)
  show ?case
  proof (cases "length raw < 8")
    case True
    then have pay: "payload = (pre @ [2 ^ length raw]) @ raw @ end_marker (length (w @ raw))"
      using "1.prems"(1) by (simp add: literal_groups.simps [of raw])
    have "history_tokens payload n p (2 ^ length raw) (length raw + (8 - length raw)) (w, length (pre @ [2 ^ length raw])) =
        history_tokens payload n p (2 ^ length raw) (8 - length raw) (w @ raw, length (pre @ [2 ^ length raw]) + length raw)"
      using True "1.prems"(2) by (intro tokens_literals [OF pay]) (auto simp: bit_exp_iff)
    moreover have "history_reference payload n p (w @ raw, length ((pre @ [2 ^ length raw]) @ raw)) = Inr None"
      using "1.prems"(2) reference_end [of payload "(pre @ [2 ^ length raw]) @ raw" "w @ raw" "[]"] pay by simp
    moreover have "8 - length raw = Suc (7 - length raw)" using True by simp
    ultimately have "history_tokens payload n p (2 ^ length raw) 8 (w, Suc (length pre)) = Inr (Inl (w @ raw))"
      using True by (simp add: bit_exp_iff)
    then show ?thesis
      using True pay by (simp add: history_loop.simps [of fuel] nth_opt_def nth_append try_do_def split: prod.splits sum.splits)
  next
    case False
    then have pay: "payload = (pre @ [0]) @ take 8 raw @ literal_groups (drop 8 raw) (length (w @ take 8 raw))"
      using "1.prems"(1) by (simp add: literal_groups.simps [of raw])
    have tok: "history_tokens payload n p 0 8 (w, Suc (length pre)) = Inr (Inr (w @ take 8 raw, length (pre @ [0] @ take 8 raw)))"
      using tokens_literals [OF pay, of w n 0 0 p] False "1.prems"(2) by simp
    obtain f where f: "fuel = Suc f" using False "1.prems"(3) by (cases fuel) auto
    have "history_loop f payload n p (w @ take 8 raw, length (pre @ [0] @ take 8 raw)) =
        try_do (flag_charges (length (drop 8 raw) div 8 + 1)) (\<lambda>_. give (Inr ((w @ take 8 raw) @ drop 8 raw)))"
      using False "1.prems" pay f by (intro ext "1.hyps") auto
    moreover have "length raw div 8 + 1 = Suc (length (drop 8 raw) div 8 + 1)"
      using False by (simp add: le_div_geq)
    ultimately show ?thesis
      using tok pay by (simp add: history_loop.simps [of "Suc f"] f nth_opt_def nth_append try_do_assoc)
  qed
qed

lemma le_bytes_length [simp]: "length (le_bytes k n) = k"
  by (induction k n rule: le_bytes.induct) auto

lemma from_le_bytes_le_bytes: "n < 256 ^ k \<Longrightarrow> from_le_bytes (le_bytes k n) = n"
proof (induction k n rule: le_bytes.induct)
  case (2 k n)
  then have "n div 256 < 256 ^ k" by (simp add: less_mult_imp_div_less mult.commute)
  with 2 have "from_le_bytes (le_bytes k (n div 256)) = n div 256" by simp
  then show ?case by (simp add: unat_of_nat_small del: of_nat_mod)
qed simp

lemma read_u32_encoded:
  assumes "bs = pre @ le_bytes 4 n @ rest" "length pre = offset" "n < 2 ^ 32"
  shows "read_u32 bs offset p = Inr (of_nat n)"
proof -
  have "from_le_bytes (le_bytes 4 n) = n"
    using assms(3) by (intro from_le_bytes_le_bytes) simp
  moreover have "slice bs offset 4 = Some (le_bytes 4 n)"
    using assms(1,2) by (auto simp: slice_def)
  ultimately show ?thesis by (simp add: read_u32_def)
qed

lemma literal_groups_length: "length (literal_groups raw n) = length raw + length raw div 8 + 3"
proof (induction raw n rule: literal_groups.induct)
  case (1 raw n)
  then show ?case
    by (cases "length raw < 8") (simp_all add: literal_groups.simps [of raw] end_marker_offset(1) le_div_geq)
qed

lemma decompress_lz_encode:
  assumes "length raw + length raw div 8 + 15 < 2 ^ 32"
  shows "decompress (lz_encode raw) p b =
     try_do (msg_expanded (of_nat (length raw))) (\<lambda>_.
     try_do (flag_charges (length raw div 8 + 1)) (\<lambda>_. give (Inr raw))) b"
proof -
  define payload where "payload = literal_groups raw 0"
  define a where "a = le_bytes 4 (length payload + 12)"
  define r where "r = le_bytes 4 (length raw)"
  define m where "m = le_bytes 4 (unat MAGIC_COMPRESSED)"
  define crc where "crc = le_bytes 4 (unat (crc32 payload))"
  have len: "length payload = length raw + length raw div 8 + 3"
    by (simp add: payload_def literal_groups_length)
  have enc: "lz_encode raw = a @ r @ m @ crc @ payload"
    by (simp add: lz_encode_def a_def r_def m_def crc_def payload_def Let_def)
  have fours: "length a = 4" "length r = 4" "length m = 4" "length crc = 4"
    by (simp_all add: a_def r_def m_def crc_def)
  let ?head = "a @ r @ m @ crc"
  have head: "take 16 (lz_encode raw) = ?head" "drop 16 (lz_encode raw) = payload" "\<not> length (lz_encode raw) < 16"
    by (simp_all add: enc fours)
  have "read_u32 ?head 0 p = Inr (of_nat (length payload + 12))"
    using assms len by (intro read_u32_encoded [where pre = "[]"]) (auto simp: a_def)
  moreover have "read_u32 ?head 4 p = Inr (of_nat (length raw))"
    using assms by (intro read_u32_encoded [where pre = a]) (auto simp: r_def fours)
  moreover have "read_u32 ?head 8 p = Inr MAGIC_COMPRESSED"
    using read_u32_encoded [of ?head "a @ r" "unat MAGIC_COMPRESSED" crc 8 p] unsigned_less [of MAGIC_COMPRESSED]
    by (simp add: m_def fours)
  moreover have "read_u32 ?head 12 p = Inr (crc32 payload)"
    using read_u32_encoded [of ?head "a @ r @ m" "unat (crc32 payload)" "[]" 12 p] unsigned_less [of "crc32 payload"]
    by (simp add: crc_def fours)
  moreover have "unat (of_nat (length payload + 12) :: u32) = length payload + 12"
    using assms len by (intro unat_of_nat_small) simp
  moreover have small: "unat (of_nat (length raw) :: u32) = length raw"
    using assms by (intro unat_of_nat_small) simp
  moreover have "ucast (of_nat (length raw) :: u32) = (of_nat (length raw) :: u64)"
  proof -
    have "(of_nat (unat (of_nat (length raw) :: u32)) :: u64) = ucast (of_nat (length raw) :: u32)"
      by (rule of_nat_unat)
    with small show ?thesis by simp
  qed
  moreover have "MAGIC_COMPRESSED \<noteq> MAGIC_UNCOMPRESSED"
    by (simp add: MAGIC_COMPRESSED_def MAGIC_UNCOMPRESSED_def)
  moreover have "decode_tokens payload (length raw) p =
      try_do (flag_charges (length raw div 8 + 1)) (\<lambda>_. give (Inr raw))"
    using loop_literals [of payload "[]" raw "[]" "length raw" "length payload" p] len
    by (intro ext) (simp add: decode_tokens_history payload_def)
  ultimately show ?thesis
    unfolding decompress_def head by (simp add: enc fours)
qed

section \<open>The properties\<close>

text \<open>
  Claim C34. The 4,096-byte ring with its wrapping write index implements the unbounded history: on
  every payload, declared size and budget, the decoder of compressed RTF returns the same output or
  error and leaves the same budget as one that resolves each reference by going back a distance in
  all that was written, the preloaded text first and zero bytes before it. The fuel of the latter
  is the length of the payload, so the equation also says that the decoder always returns.
\<close>

theorem lzfu_ring_refines_history:
  "decode_tokens payload raw_size p b = history_loop (length payload) payload raw_size p ([], 0) b"
  by (rule decode_tokens_history)

text \<open>
  Claim C35. Compressed RTF round trip: what the literal encoder wraps in an LZFu envelope is
  decoded to the very same bytes, whatever their number modulo eight, once the budget has accepted
  the declared size and one unit of work per flag byte; a refusal of the budget is the only error.
  The bound keeps the sizes of the envelope within its 32-bit fields.
\<close>

theorem compressed_rtf_round_trip:
  assumes "length raw + length raw div 8 + 15 < 2 ^ 32"
  shows "decompress (lz_encode raw) p b =
     try_do (msg_expanded (of_nat (length raw))) (\<lambda>_.
     try_do (flag_charges (length raw div 8 + 1)) (\<lambda>_. give (Inr raw))) b"
  using assms by (rule decompress_lz_encode)

definition fresh_msg_budget :: MsgBudget where
  "fresh_msg_budget = \<lparr>msg_limits = default_limits, msg_context = demo_context, msg_entries = 0,
     msg_expanded_bytes = 0, msg_asset_bytes = 0, msg_work = 0, diagnostics = []\<rparr>"

theorem compressed_rtf_round_trip_witness:
  "fst (decompress (lz_encode [104, 105]) ''rtf'' (fresh_msg_budget, demo_world)) = Inr [104, 105]"
proof -
  have ck: "checkpoint demo_context demo_world = (Inr (), demo_world)"
    by (simp add: checkpoint_def demo_defs is_cancelled_def)
  have "unat (- 1 :: u32) = 4294967295"
    by (simp add: unsigned_minus_1_eq_mask mask_eq_exp_minus_1)
  then have "msg_work_limit default_limits = 9024791440781311"
    by (simp add: msg_work_limit_def default_limits_def)
  then have "msg_work_units 1 (b, demo_world) = (Inr (), (b\<lparr>msg_work := 1\<rparr>, demo_world))"
    if "msg_work b = 0" "msg_limits b = default_limits" "msg_context b = demo_context" for b
    using that ck by (simp add: msg_work_units_def msg_checkpoint_def in_world_def checked_add_def Let_def)
  moreover have "\<not> max_decompressed_bytes default_limits < 2"
    by (simp add: default_limits_def)
  then have "msg_expanded 2 (fresh_msg_budget, demo_world) = (Inr (), (fresh_msg_budget\<lparr>msg_expanded_bytes := 2\<rparr>, demo_world))"
    using ck by (simp add: msg_expanded_def fresh_msg_budget_def msg_checkpoint_def in_world_def checked_add_def Let_def)
  ultimately show ?thesis
    using compressed_rtf_round_trip [of "[104, 105]" "''rtf''" "(fresh_msg_budget, demo_world)"]
    by (simp add: try_do_def fresh_msg_budget_def)
qed

end
