(* ===== verification/Gfm_Text.thy ===== *)
theory Gfm_Text
  imports IR_Blocks Options Http_Policy
begin

text \<open>
  The text layer of \<open>crates/render-markdown/src/lib.rs\<close>: line endings, escapes, percent encoding,
  code spans and fences, labels, link targets and media types. A replacement of an ASCII pattern
  in a UTF-8 string is a replacement in its bytes.
\<close>

section \<open>Parameters\<close>

text \<open>
  What the renderer takes from elsewhere: the \<open>sha2\<close>, \<open>base64\<close> and \<open>url\<close> crates, the Unicode table of
  \<open>char::is_alphanumeric\<close> above ASCII, the outcome of an allocation and the capacity that the
  allocator gives a growing string.
\<close>

record gfm_crates =
  sha256_digest :: "u8 list \<Rightarrow> u8 list"
  base64_encode :: "u8 list \<Rightarrow> string"
  urls :: url_crate
  unicode_alphanumeric :: "nat \<Rightarrow> bool"
  allocates :: "nat \<Rightarrow> bool"
  string_capacity :: "string \<Rightarrow> nat"

datatype AssetMode = Extract | Embed | Omit

record OutputOptions =
  flavor :: string
  asset_directory_suffix :: string
  include_provenance :: bool
  asset_mode :: AssetMode
  asset_uri_prefix :: "string option"

definition default_output_options :: OutputOptions where
  "default_output_options = \<lparr>flavor = ''gfm'', asset_directory_suffix = ''_assets'', include_provenance = True,
     asset_mode = Extract, asset_uri_prefix = None\<rparr>"

datatype InlineContext = Normal | TableCell

definition render_error :: "string \<Rightarrow> ConversionError" where
  "render_error d = Internal (''Markdown rendering failed: '' @ d)"

definition asset_plan_error :: "string \<Rightarrow> string \<Rightarrow> ConversionError" where
  "asset_plan_error cd d = Internal (''asset planning failed ('' @ cd @ ''): '' @ d)"

definition render_plan_overflow :: ConversionError where
  "render_plan_overflow = ConversionError.ResourceLimit ''max_memory_bytes'' ''Markdown renderer preflight plan overflowed''"

section \<open>Replacement\<close>

abbreviation LF :: char where "LF \<equiv> CHR 0x0A"
abbreviation CR :: char where "CR \<equiv> CHR 0x0D"
abbreviation BACKTICK :: char where "BACKTICK \<equiv> CHR 0x60"
abbreviation BACKSLASH :: char where "BACKSLASH \<equiv> CHR 0x5C"
abbreviation QUOTE :: char where "QUOTE \<equiv> CHR 0x22"

text \<open>\<open>str::replace\<close> of one and of two ASCII characters.\<close>

definition replace_char :: "char \<Rightarrow> string \<Rightarrow> string \<Rightarrow> string" where
  "replace_char c r s = concat (map (\<lambda>d. if d = c then r else [d]) s)"

fun replace_pair :: "char \<Rightarrow> char \<Rightarrow> string \<Rightarrow> string \<Rightarrow> string" where
  "replace_pair a b r (x # y # s) =
     (if x = a \<and> y = b then r @ replace_pair a b r s else x # replace_pair a b r (y # s))"
| "replace_pair a b r s = s"

definition normalize_lf :: "string \<Rightarrow> string" where
  "normalize_lf s = replace_char CR [LF] (replace_pair CR LF [LF] s)"

definition single_line :: "string \<Rightarrow> string" where
  "single_line s = replace_char LF '' '' (normalize_lf s)"

fun longest_loop :: "char \<Rightarrow> nat \<Rightarrow> nat \<Rightarrow> string \<Rightarrow> nat" where
  "longest_loop needle longest current [] = longest"
| "longest_loop needle longest current (c # s) =
     (if c = needle then longest_loop needle (max longest (current + 1)) (current + 1) s
      else longest_loop needle longest 0 s)"

definition longest_run :: "string \<Rightarrow> char \<Rightarrow> nat" where
  "longest_run s needle = longest_loop needle 0 0 s"

section \<open>Escapes\<close>

definition hex_digit :: "nat \<Rightarrow> bool \<Rightarrow> char" where
  "hex_digit v uppercase = (if uppercase then ''0123456789ABCDEF'' else ''0123456789abcdef'') ! v"

definition escaped_punctuation :: string where
  "escaped_punctuation = [BACKSLASH, BACKTICK] @ ''*_{}[]<>#+-.!|~''"

definition escape_text_char :: "char \<Rightarrow> string" where
  "escape_text_char c =
     (if c = CHR ''&'' then ''&amp;'' else if c \<in> set escaped_punctuation then [BACKSLASH, c] else [c])"

definition escape_text :: "string \<Rightarrow> InlineContext \<Rightarrow> string" where
  "escape_text s ctx = concat (map escape_text_char s)"

definition escape_image_alt :: "string \<Rightarrow> string" where
  "escape_image_alt s = replace_char QUOTE ''&quot;'' (escape_text s Normal)"

definition escape_html_char :: "char \<Rightarrow> string" where
  "escape_html_char c =
     (if c = CHR ''&'' then ''&amp;'' else if c = CHR ''<'' then ''&lt;'' else if c = CHR ''>'' then ''&gt;'' else [c])"

definition escape_html_text :: "string \<Rightarrow> string" where
  "escape_html_text s = concat (map escape_html_char s)"

definition escape_html_code :: "string \<Rightarrow> InlineContext \<Rightarrow> string" where
  "escape_html_code s ctx = concat (map escape_html_char s)"

definition escape_html_attribute :: "string \<Rightarrow> string" where
  "escape_html_attribute s = replace_char (CHR 0x27) ''&#39;'' (replace_char QUOTE ''&quot;'' (escape_html_text s))"

definition percent_byte :: "char \<Rightarrow> string" where
  "percent_byte c = [CHR ''%'', hex_digit (byte c div 16) True, hex_digit (byte c mod 16) True]"

definition encode_piece :: "(char \<Rightarrow> bool) \<Rightarrow> nat \<times> string \<Rightarrow> string" where
  "encode_piece safe p =
     (if fst p < 128 then (if list_all safe (snd p) then snd p else concat (map percent_byte (snd p)))
      else if \<not> is_whitespace (fst p) \<and> \<not> is_control (fst p) \<and> list_all safe (snd p) then snd p
      else concat (map percent_byte (snd p)))"

definition encode_bytes :: "string \<Rightarrow> (char \<Rightarrow> bool) \<Rightarrow> string" where
  "encode_bytes s safe = concat (map (encode_piece safe) (scalar_pieces s))"

definition destination_safe :: "char \<Rightarrow> bool" where
  "destination_safe b \<longleftrightarrow> \<not> is_ascii_control b \<and> b \<notin> {CHR '' '', CHR ''<'', CHR ''>'', BACKSLASH}"

definition escape_destination :: "string \<Rightarrow> InlineContext \<Rightarrow> string" where
  "escape_destination s ctx =
     encode_bytes (replace_char (CHR ''&'') ''&amp;'' (normalize_lf s))
       (\<lambda>b. destination_safe b \<and> (ctx \<noteq> TableCell \<or> b \<noteq> CHR ''|''))"

definition escape_generated_destination :: "string \<Rightarrow> string" where
  "escape_generated_destination s = encode_bytes s destination_safe"

section \<open>Code\<close>

definition starts_with_any :: "string \<Rightarrow> string \<Rightarrow> bool" where
  "starts_with_any cs s \<longleftrightarrow> s \<noteq> [] \<and> hd s \<in> set cs"

definition ends_with_any :: "string \<Rightarrow> string \<Rightarrow> bool" where
  "ends_with_any cs s \<longleftrightarrow> s \<noteq> [] \<and> last s \<in> set cs"

definition render_code_span :: "string \<Rightarrow> InlineContext \<Rightarrow> string" where
  "render_code_span v ctx =
     (let v = single_line v in
      if blank v then ''<code>'' @ escape_html_code v ctx @ ''</code>''
      else
        let v = (if ctx = TableCell then replace_char (CHR ''|'') [BACKSLASH, CHR ''|''] v else v);
            fence = replicate (max (longest_run v BACKTICK + 1) 1) BACKTICK;
            pad = [CHR '' '', BACKTICK] in
        if starts_with_any pad v \<or> ends_with_any pad v then fence @ '' '' @ v @ '' '' @ fence
        else fence @ v @ fence)"

definition render_fence :: "string \<Rightarrow> string option \<Rightarrow> string" where
  "render_fence v info =
     (let v = normalize_lf v;
          fence = replicate (max (longest_run v BACKTICK + 1) 3) BACKTICK in
      fence @ (case info of Some i \<Rightarrow> i | None \<Rightarrow> []) @ [LF] @ v
        @ (if v \<noteq> [] \<and> last v = LF then [] else [LF]) @ fence)"

definition sanitize_info_string :: "string \<Rightarrow> string" where
  "sanitize_info_string s =
     encode_bytes (trim s) (\<lambda>b. is_ascii_alphanumeric b \<or> b \<in> set ''_+-.#'')"

definition hex_byte :: "char \<Rightarrow> string" where
  "hex_byte b = [hex_digit (byte b div 16) False, hex_digit (byte b mod 16) False]"

definition footnote_label :: "string \<Rightarrow> string" where
  "footnote_label s = ''fn-'' @ concat (map hex_byte s)"

section \<open>Layout\<close>

definition indent_continuation :: "string \<Rightarrow> nat \<Rightarrow> string" where
  "indent_continuation s n = replace_char LF (LF # replicate n (CHR '' '')) s"

definition indent_all :: "string \<Rightarrow> nat \<Rightarrow> string" where
  "indent_all s n = replicate n (CHR '' '') @ indent_continuation s n"

definition with_body :: "string \<Rightarrow> string \<Rightarrow> string" where
  "with_body heading body = (if body = [] then heading else heading @ [LF, LF] @ body)"

definition pad_number :: "nat \<Rightarrow> nat \<Rightarrow> string" where
  "pad_number w n = (let s = show_nat n in replicate (w - length s) (CHR ''0'') @ s)"

definition timestamp :: "u64 \<Rightarrow> string" where
  "timestamp ms =
     pad_number 2 (unat ms div 3600000) @ '':'' @ pad_number 2 (unat ms div 60000 mod 60) @ '':''
       @ pad_number 2 (unat ms div 1000 mod 60) @ ''.'' @ pad_number 3 (unat ms mod 1000)"

definition trim_blank_lines :: "string \<Rightarrow> string" where
  "trim_blank_lines s = trim_end_char LF s"

text \<open>\<open>parse\<close> of an unsigned integer of \<open>w\<close> bits: an optional plus sign and digits.\<close>

definition parse_unsigned :: "nat \<Rightarrow> string \<Rightarrow> nat option" where
  "parse_unsigned w s =
     (let d = (if s \<noteq> [] \<and> hd s = CHR ''+'' then tl s else s);
          n = foldl (\<lambda>n c. 10 * n + (byte c - 48)) 0 d in
      if d \<noteq> [] \<and> list_all is_ascii_digit d \<and> n < 2 ^ w then Some n else None)"

text \<open>\<open>str::lines\<close>: a carriage return goes with the line feed after it.\<close>

definition str_lines :: "string \<Rightarrow> string list" where
  "str_lines s =
     (let ps = split_on LF s in
      map (\<lambda>p. if p \<noteq> [] \<and> last p = CR then butlast p else p) (butlast ps)
        @ (if last ps = [] then [] else [last ps]))"

end
