(* ===== verification/Gfm_Assets.thy ===== *)
theory Gfm_Assets
  imports Gfm_Text IR_WellFormed
begin

text \<open>
  The asset half of \<open>crates/render-markdown\<close>: link targets and media types, content-addressed file
  names, and \<open>plan_assets\<close>, which decides before rendering where every asset goes.
\<close>

section \<open>Link targets\<close>

definition entity_body :: "string \<Rightarrow> bool" where
  "entity_body body \<longleftrightarrow>
     list_all is_ascii_alphanumeric body
     \<or> (case strip_prefix ''#'' body of
          Some d \<Rightarrow> d \<noteq> [] \<and> list_all is_ascii_digit d | None \<Rightarrow> False)
     \<or> (case (case strip_prefix ''#x'' body of Some d \<Rightarrow> Some d | None \<Rightarrow> strip_prefix ''#X'' body) of
          Some d \<Rightarrow> d \<noteq> [] \<and> list_all is_ascii_hexdigit d | None \<Rightarrow> False)"

definition entity_after_ampersand :: "string \<Rightarrow> bool" where
  "entity_after_ampersand tail =
     (case split_once (CHR '';'') tail of
        None \<Rightarrow> False
      | Some (body, _) \<Rightarrow> body \<noteq> [] \<and> length body \<le> 32 \<and> entity_body body)"

fun contains_html_entity :: "string \<Rightarrow> bool" where
  "contains_html_entity [] = False"
| "contains_html_entity (c # s) = (c = CHR ''&'' \<and> entity_after_ampersand s \<or> contains_html_entity s)"

fun scheme_bytes :: "bool \<Rightarrow> string \<Rightarrow> bool" where
  "scheme_bytes first [] = True"
| "scheme_bytes first (c # s) =
     ((is_ascii_alphabetic c \<or> \<not> first \<and> c \<in> set ''+-.'') \<and> scheme_bytes False s)"

definition validate_link_target :: "string \<Rightarrow> unit outcome" where
  "validate_link_target v =
     (if has_control v then Inl (render_error ''link target contains a control character'')
      else if contains_html_entity v then Inl (render_error ''link target contains an HTML character reference'')
      else case split_once (CHR '':'') v of
        None \<Rightarrow> Inr ()
      | Some (sch, rest) \<Rightarrow>
          if sch = [] \<or> \<not> scheme_bytes True sch then Inr ()
          else if to_ascii_lowercase sch \<in> {''javascript'', ''vbscript'', ''data'', ''file''} then
            Inl (render_error (''link target uses disallowed scheme '' @ sch))
          else case strip_prefix ''//'' rest of
            None \<Rightarrow> Inr ()
          | Some r \<Rightarrow>
              if CHR ''@'' \<in> set (hd (split_on (CHR ''/'') r)) then
                Inl (render_error ''link target authority contains user information'')
              else Inr ())"

text \<open>\<open>canonical_external_asset_uri\<close> of \<open>crates/core/src/dto.rs\<close>.\<close>

fun broken_percent :: "string \<Rightarrow> bool" where
  "broken_percent [] = False"
| "broken_percent (c # s) =
     (c = CHR ''%'' \<and> (case s of a # b # _ \<Rightarrow> \<not> is_ascii_hexdigit a \<or> \<not> is_ascii_hexdigit b | _ \<Rightarrow> True)
      \<or> broken_percent s)"

definition canonical_external_asset_uri :: "url_crate \<Rightarrow> string \<Rightarrow> string option" where
  "canonical_external_asset_uri u v =
     (if broken_percent v then None
      else case url_parse u v of
        None \<Rightarrow> None
      | Some url \<Rightarrow>
          if scheme url \<notin> {''http'', ''https''} \<or> url_host url = None then None
          else Some (url_string u (url\<lparr>username := [], password := None, query := None, fragment := None\<rparr>)))"

definition validate_external_asset_uri :: "url_crate \<Rightarrow> string \<Rightarrow> unit outcome" where
  "validate_external_asset_uri u v =
     (if canonical_external_asset_uri u v \<noteq> Some v then
        Inl (render_error ''external asset URI is not canonical safe HTTP(S)'')
      else Inr ())"

definition validate_external_uri :: "url_crate \<Rightarrow> string option \<Rightarrow> string \<Rightarrow> unit outcome" where
  "validate_external_uri u ur i =
     (case ur of
        None \<Rightarrow> Inr ()
      | Some v \<Rightarrow>
          (case and_then (validate_link_target v) (\<lambda>_. validate_external_asset_uri u v) of
             Inr _ \<Rightarrow> Inr ()
           | Inl _ \<Rightarrow> Inl (asset_plan_error ''unsafeExternalAssetUri''
               (''asset '' @ i @ '' has an unsafe external URI''))))"

section \<open>Media types and file names\<close>

definition media_type_byte :: "char \<Rightarrow> bool" where
  "media_type_byte b \<longleftrightarrow> is_ascii_alphanumeric b \<or> b \<in> set ''!#$&^_.+-/''"

definition valid_media_type :: "string \<Rightarrow> bool" where
  "valid_media_type v =
     (case split_once (CHR ''/'') v of
        None \<Rightarrow> False
      | Some (kd, sub) \<Rightarrow> kd \<noteq> [] \<and> sub \<noteq> [] \<and> CHR ''/'' \<notin> set sub \<and> list_all media_type_byte v)"

definition normalize_media_type :: "string \<Rightarrow> string outcome" where
  "normalize_media_type v =
     (if valid_media_type v then Inr (to_ascii_lowercase v)
      else Inl (asset_plan_error ''invalidAssetMediaType'' (''invalid asset media type '' @ v)))"

definition media_type_extensions :: "(string \<times> string) list" where
  "media_type_extensions =
     [(''image/jpeg'', ''jpg''), (''image/png'', ''png''), (''image/tiff'', ''tiff''), (''image/bmp'', ''bmp''),
      (''image/gif'', ''gif''), (''image/webp'', ''webp''), (''image/svg+xml'', ''svg''), (''image/avif'', ''avif''),
      (''application/pdf'', ''pdf''), (''application/x-openoffice-gdimetafile'', ''svm''), (''text/plain'', ''txt''),
      (''text/csv'', ''csv''), (''application/json'', ''json''), (''application/zip'', ''zip''),
      (''application/msword'', ''doc''),
      (''application/vnd.openxmlformats-officedocument.wordprocessingml.document'', ''docx''),
      (''application/vnd.ms-powerpoint'', ''ppt''),
      (''application/vnd.openxmlformats-officedocument.presentationml.presentation'', ''pptx''),
      (''application/vnd.ms-excel'', ''xls''),
      (''application/vnd.ms-excel.sheet.binary.macroenabled.12'', ''xlsb''),
      (''application/vnd.openxmlformats-officedocument.spreadsheetml.sheet'', ''xlsx''),
      (''application/vnd.oasis.opendocument.text'', ''odt''),
      (''application/vnd.oasis.opendocument.spreadsheet'', ''ods''),
      (''application/vnd.oasis.opendocument.presentation'', ''odp''),
      (''application/rtf'', ''rtf''), (''text/rtf'', ''rtf''), (''application/epub+zip'', ''epub''),
      (''text/markdown'', ''md''), (''text/html'', ''html''), (''text/tab-separated-values'', ''tsv''),
      (''application/xml'', ''xml''), (''text/xml'', ''xml''), (''application/vnd.jgraph.mxfile'', ''drawio''),
      (''application/x-ipynb+json'', ''ipynb''), (''application/vnd.rar'', ''rar''),
      (''application/vnd.ms-outlook'', ''msg''), (''audio/wav'', ''wav''), (''audio/x-wav'', ''wav''),
      (''audio/flac'', ''flac''), (''audio/mpeg'', ''mp3''), (''audio/mp4'', ''m4a''), (''audio/ogg'', ''ogg''),
      (''video/mp4'', ''mp4''), (''video/quicktime'', ''mov''), (''video/x-matroska'', ''mkv''),
      (''video/webm'', ''webm'')]"

definition media_type_extension :: "string \<Rightarrow> string option" where
  "media_type_extension = map_of media_type_extensions"

definition hex_of_digest :: "u8 list \<Rightarrow> string" where
  "hex_of_digest d = concat (map (\<lambda>b. [hex_digit (unat b div 16) False, hex_digit (unat b mod 16) False]) d)"

definition sha256_hex :: "gfm_crates \<Rightarrow> u8 list \<Rightarrow> string" where
  "sha256_hex cr bs = hex_of_digest (sha256_digest cr bs)"

text \<open>\<open>rsplit(['/', '\\']).next()\<close> and \<open>rsplit_once('.')\<close>.\<close>

definition last_segment :: "string \<Rightarrow> string" where
  "last_segment s = rev (takeWhile (\<lambda>c. c \<noteq> CHR ''/'' \<and> c \<noteq> BACKSLASH) (rev s))"

definition rsplit_once :: "char \<Rightarrow> string \<Rightarrow> (string \<times> string) option" where
  "rsplit_once c s = map_option (\<lambda>(a, b). (rev b, rev a)) (split_once c (rev s))"

definition safe_extension :: "string option \<Rightarrow> string option" where
  "safe_extension v =
     Option.bind v (\<lambda>v. Option.bind (rsplit_once (CHR ''.'') (last_segment v)) (\<lambda>(_, e).
       if e \<noteq> [] \<and> length e \<le> 16 \<and> list_all is_ascii_alphanumeric e then Some (to_ascii_lowercase e) else None))"

definition asset_filename :: "gfm_crates \<Rightarrow> string \<Rightarrow> string option \<Rightarrow> string" where
  "asset_filename cr i suggested =
     ''asset-'' @ hex_of_digest (sha256_digest cr (map (\<lambda>c. of_nat (byte c)) i))
       @ (case safe_extension suggested of Some e \<Rightarrow> ''.'' @ e | None \<Rightarrow> [])"

definition asset_filename_from_sha256 :: "string \<Rightarrow> string \<Rightarrow> string outcome" where
  "asset_filename_from_sha256 sha mt =
     (if length sha \<noteq> 64 \<or> \<not> list_all (\<lambda>b. is_ascii_digit b \<or> (97 \<le> byte b \<and> byte b \<le> 102)) sha then
        Inl (render_error ''asset SHA-256 digest is not canonical lowercase hexadecimal'')
      else and_then (normalize_media_type mt) (\<lambda>mt.
        Inr (''asset-'' @ sha @ (case media_type_extension mt of Some e \<Rightarrow> ''.'' @ e | None \<Rightarrow> []))))"

definition join_uri_prefix :: "string option \<Rightarrow> string \<Rightarrow> string" where
  "join_uri_prefix p f = (case p of None \<Rightarrow> f | Some p \<Rightarrow> trim_end_char (CHR ''/'') p @ ''/'' @ f)"

definition validate_asset_uri_prefix :: "string option \<Rightarrow> unit outcome" where
  "validate_asset_uri_prefix p =
     (case p of
        None \<Rightarrow> Inr ()
      | Some p \<Rightarrow>
          (let p = trim_end_char (CHR ''/'') p in
           if p = [] \<or> starts_with_any [CHR ''/'', BACKSLASH] p \<or> strip_prefix ''//'' p \<noteq> None
              \<or> list_ex (\<lambda>c. c \<in> set [BACKSLASH, CHR ''?'', CHR ''#'']) p \<or> has_control p \<or> contains_html_entity p then
             Inl (asset_plan_error ''unsafeAssetUriPrefix'' ''unsafe asset URI prefix'')
           else if list_ex (\<lambda>seg. seg = [] \<or> seg = ''.'') (split_on (CHR ''/'') p) then
             Inl (asset_plan_error ''unsafeAssetUriPrefix'' ''asset URI prefix is not a portable relative path'')
           else if CHR '':'' \<in> set p then
             Inl (asset_plan_error ''unsafeAssetUriPrefix''
               ''absolute and scheme-bearing asset URI prefixes are not permitted'')
           else Inr ()))"

section \<open>Folds that may fail\<close>

fun try_fold :: "('a \<Rightarrow> 's \<Rightarrow> 'e + 's) \<Rightarrow> 'a list \<Rightarrow> 's \<Rightarrow> 'e + 's" where
  "try_fold f [] s = Inr s"
| "try_fold f (x # xs) s = and_then (f x s) (try_fold f xs)"

lemma try_fold_cong [fundef_cong]:
  "xs = ys \<Longrightarrow> s = t \<Longrightarrow> (\<And>x s. x \<in> set ys \<Longrightarrow> f x s = g x s) \<Longrightarrow> try_fold f xs s = try_fold g ys t"
proof (induction xs arbitrary: s t ys)
  case (Cons x xs)
  then show ?case by (cases "f x s") auto
qed simp

fun try_map :: "('a \<Rightarrow> 'e + 'b) \<Rightarrow> 'a list \<Rightarrow> 'e + 'b list" where
  "try_map f [] = Inr []"
| "try_map f (x # xs) = and_then (f x) (\<lambda>y. and_then (try_map f xs) (\<lambda>ys. Inr (y # ys)))"

section \<open>The plan\<close>

record PlannedAsset =
  pa_ids :: "string list"
  pa_source :: nat
  pa_filename :: string
  pa_uri :: string
  pa_media_type :: string
  pa_size :: u64
  pa_sha256 :: string

record PlannedAssetReference =
  entry_index :: "nat option"
  ref_source :: nat

record AssetPlan =
  plan_entries :: "PlannedAsset list"
  plan_by_id :: "(string, PlannedAssetReference) kv"

definition plan_reference :: "AssetPlan \<Rightarrow> string \<Rightarrow> PlannedAssetReference option" where
  "plan_reference plan i = kv_get (plan_by_id plan) i"

definition plan_uri :: "AssetPlan \<Rightarrow> string \<Rightarrow> string option" where
  "plan_uri plan i =
     map_option (\<lambda>k. pa_uri (plan_entries plan ! k)) (Option.bind (plan_reference plan i) entry_index)"

text \<open>A group of assets with equal bytes: its first asset, the media type, the extension, the IDs.\<close>

type_synonym asset_group = "nat \<times> string \<times> string option \<times> string list"

record planning =
  ids_planned :: "(string, PlannedAssetReference) kv"
  groups :: "(string, asset_group) kv"
  planned_bytes :: u64

definition check_asset_size :: "ResourceLimits \<Rightarrow> string \<Rightarrow> u8 list \<Rightarrow> u64 \<Rightarrow> u64 outcome" where
  "check_asset_size l i bs sofar =
     (if 2 ^ 64 \<le> length bs then
        Inl (ConversionError.ResourceLimit ''max_asset_bytes'' (''asset '' @ i @ '' size cannot be represented as u64''))
      else
        let size = of_nat (length bs) :: u64 in
        if size > max_asset_bytes l then
          Inl (ConversionError.ResourceLimit ''max_asset_bytes''
            (''asset '' @ i @ '': '' @ show_word size @ '' > '' @ show_word (max_asset_bytes l)))
        else case checked_add sofar size of
          None \<Rightarrow> Inl (ConversionError.ResourceLimit ''max_total_asset_bytes'' ''asset byte count overflowed'')
        | Some t \<Rightarrow>
            if t > max_total_asset_bytes l then
              Inl (ConversionError.ResourceLimit ''max_total_asset_bytes''
                (show_word t @ '' > '' @ show_word (max_total_asset_bytes l)))
            else Inr t)"

definition validate_empty_asset :: "url_crate \<Rightarrow> Asset \<Rightarrow> OutputOptions \<Rightarrow> string \<Rightarrow> unit outcome" where
  "validate_empty_asset u a opts i =
     (if asset_mode opts = Omit then Inr () else validate_external_uri u (external_uri a) i)"

definition group_asset ::
  "Asset list \<Rightarrow> (string, asset_group) kv \<Rightarrow> nat \<Rightarrow> Asset \<Rightarrow> string \<Rightarrow> string \<Rightarrow> (string, asset_group) kv outcome" where
  "group_asset all gs k a mt content_hash =
     (case kv_get gs content_hash of
        Some (source, mt0, e, ids) \<Rightarrow>
          if asset_bytes (all ! source) \<noteq> asset_bytes a then
            Inl (asset_plan_error ''contentHashCollision'' ''SHA-256 collision between distinct asset bytes'')
          else if mt0 \<noteq> mt then
            Inl (asset_plan_error ''assetMetadataConflict''
              (''identical asset bytes have conflicting media types '' @ mt0 @ '' and '' @ mt))
          else Inr (kv_put content_hash (source, mt0, e, ids @ [asset_id a]) gs)
      | None \<Rightarrow> Inr (kv_put content_hash (k, mt, media_type_extension mt, [asset_id a]) gs))"

definition plan_asset ::
  "gfm_crates \<Rightarrow> OutputOptions \<Rightarrow> ResourceLimits \<Rightarrow> Asset list \<Rightarrow> nat \<times> Asset \<Rightarrow> planning \<Rightarrow> planning outcome" where
  "plan_asset cr opts l all ka st =
     (let k = fst ka; a = snd ka; i = asset_id a; ref = \<lparr>entry_index = None, ref_source = k\<rparr> in
      if blank i then Inl (render_error ''asset inventory contains an empty asset ID'')
      else if kv_get (ids_planned st) i \<noteq> None then Inl (render_error (''duplicate asset ID '' @ i))
      else
        and_then (normalize_media_type (media_type a)) (\<lambda>mt.
        and_then (check_asset_size l i (asset_bytes a) (planned_bytes st)) (\<lambda>t.
        if asset_bytes a = [] then
          and_then (validate_empty_asset (urls cr) a opts i) (\<lambda>_.
          Inr (st\<lparr>ids_planned := kv_put i ref (ids_planned st), planned_bytes := t\<rparr>))
        else
          and_then (group_asset all (groups st) k a mt (sha256_hex cr (asset_bytes a))) (\<lambda>gs.
          Inr \<lparr>ids_planned = kv_put i ref (ids_planned st), groups = gs, planned_bytes = t\<rparr>))))"

definition plan_entry :: "OutputOptions \<Rightarrow> Asset list \<Rightarrow> string \<times> asset_group \<Rightarrow> PlannedAsset outcome" where
  "plan_entry opts all g =
     (case g of (sha, source, mt, e, ids) \<Rightarrow>
        and_then (asset_filename_from_sha256 sha mt) (\<lambda>f.
        Inr \<lparr>pa_ids = sort ids, pa_source = source, pa_filename = f,
             pa_uri = join_uri_prefix (asset_uri_prefix opts) f, pa_media_type = mt,
             pa_size = of_nat (length (asset_bytes (all ! source))), pa_sha256 = sha\<rparr>))"

definition index_entry ::
  "nat \<times> PlannedAsset \<Rightarrow> (string, PlannedAssetReference) kv \<Rightarrow> (string, PlannedAssetReference) kv outcome" where
  "index_entry ke =
     try_fold (\<lambda>i m. case kv_get m i of
         None \<Rightarrow> Inl (render_error (''planned asset ID disappeared: '' @ i))
       | Some r \<Rightarrow> Inr (kv_put i (r\<lparr>entry_index := Some (fst ke)\<rparr>) m)) (pa_ids (snd ke))"

text \<open>Every image names a planned asset; the names are collected in their order.\<close>

fun image_asset :: "Block \<Rightarrow> string option" where
  "image_asset (Image a _) = Some a"
| "image_asset _ = None"

lemma node_children_size: "cs \<in> set (child_lists (node_block n)) \<Longrightarrow> size_list size cs < size n"
  using child_lists_size [of cs "node_block n"] size_node_block [of n] by simp

function validate_planned_references :: "AssetPlan \<Rightarrow> BlockNode list \<Rightarrow> string list \<Rightarrow> string list outcome" where
  "validate_planned_references plan [] refs = Inr refs"
| "validate_planned_references plan (n # ns) refs =
     and_then
       (case image_asset (node_block n) of
          Some a \<Rightarrow>
            (if plan_reference plan a = None then Inl (render_error (''image references missing asset '' @ a))
             else Inr (List.insert a refs))
        | None \<Rightarrow> try_fold (validate_planned_references plan) (child_lists (node_block n)) refs)
       (validate_planned_references plan ns)"
  by pat_completeness auto
termination validate_planned_references
  by (relation "measure (\<lambda>(plan, ns, refs). size_list size ns)") (auto dest: node_children_size)

definition require_bytes :: "OutputOptions \<Rightarrow> Asset list \<Rightarrow> AssetPlan \<Rightarrow> string \<Rightarrow> unit \<Rightarrow> unit outcome" where
  "require_bytes opts all plan i u =
     (case plan_reference plan i of
        None \<Rightarrow> Inl (render_error (''planned image reference disappeared: '' @ i))
      | Some r \<Rightarrow>
          (let source = all ! ref_source r;
               external_only = (asset_bytes source = [] \<and> external_uri source \<noteq> None) in
           if asset_mode opts \<noteq> Omit \<and> plan_uri plan i = None \<and> \<not> external_only then
             Inl (render_error (''asset '' @ i @ '' has no bytes for ''
               @ (if asset_mode opts = Extract then ''extract'' else ''embed'') @ '' mode''))
           else Inr ()))"

definition validate_document :: "platform \<Rightarrow> ValidationLimits \<Rightarrow> Document \<Rightarrow> unit outcome" where
  "validate_document pf vl d =
     (case validate_with_limits pf vl d of
        Inr _ \<Rightarrow> Inr ()
      | Inl e \<Rightarrow> Inl (Internal (''asset planner received invalid document IR ('' @ ir_error_code_as_str (ir_code e)
          @ '' at '' @ ir_path e @ ''): '' @ ir_detail e)))"

definition plan_assets ::
  "gfm_crates \<Rightarrow> platform \<Rightarrow> ValidationLimits \<Rightarrow> Document \<Rightarrow> Asset list \<Rightarrow> OutputOptions \<Rightarrow> ResourceLimits \<Rightarrow> AssetPlan outcome" where
  "plan_assets cr pf vl d assets opts l =
     and_then (validate_document pf vl d) (\<lambda>_.
     and_then (validate_asset_uri_prefix (asset_uri_prefix opts)) (\<lambda>_.
     and_then (try_fold (plan_asset cr opts l assets) (enumerate 0 assets)
         \<lparr>ids_planned = [], groups = [], planned_bytes = 0\<rparr>) (\<lambda>st.
     and_then (try_map (plan_entry opts assets) (sort_key fst (groups st))) (\<lambda>es.
     let entries = sort_key pa_filename es in
     and_then (try_fold index_entry (enumerate 0 entries) (ids_planned st)) (\<lambda>ids.
     let plan = \<lparr>plan_entries = entries, plan_by_id = ids\<rparr> in
     and_then (validate_planned_references plan (blocks d) []) (\<lambda>refs.
     and_then (try_fold (require_bytes opts assets plan) (sort refs) ()) (\<lambda>_.
     Inr plan)))))))"

end
