(* ===== verification/Gfm_Inline.thy ===== *)
theory Gfm_Inline
  imports Gfm_Assets
begin

text \<open>
  Inline serialization: \<open>crates/render-markdown/src/inline.rs\<close>. Runs of text with equal marks are
  joined and rendered once, natively where the delimiters can open and close, as HTML otherwise.
\<close>

fun text_parts :: "Inline \<Rightarrow> (string \<times> InlineMark list) option" where
  "text_parts (Text v marks) = Some (v, marks)"
| "text_parts (SourceText v marks _) = Some (v, marks)"
| "text_parts (OcrText v marks _ _) = Some (v, marks)"
| "text_parts _ = None"

definition same_marks :: "InlineMark list \<Rightarrow> InlineMark list \<Rightarrow> bool" where
  "same_marks l r \<longleftrightarrow> length l = length r \<and> list_all (\<lambda>m. m \<in> set r) l"

section \<open>Marked text\<close>

definition first_char :: "string \<Rightarrow> nat option" where
  "first_char s = (case chars s of [] \<Rightarrow> None | v # _ \<Rightarrow> Some v)"

definition last_char :: "string \<Rightarrow> nat option" where
  "last_char s = (if chars s = [] then None else Some (last (chars s)))"

definition ascii_punctuation :: "nat \<Rightarrow> bool" where
  "ascii_punctuation v \<longleftrightarrow>
     33 \<le> v \<and> v \<le> 47 \<or> 58 \<le> v \<and> v \<le> 64 \<or> 91 \<le> v \<and> v \<le> 96 \<or> 123 \<le> v \<and> v \<le> 126"

definition is_alphanumeric :: "gfm_crates \<Rightarrow> nat \<Rightarrow> bool" where
  "is_alphanumeric cr v \<longleftrightarrow>
     (if v < 128 then 48 \<le> v \<and> v \<le> 57 \<or> 65 \<le> v \<and> v \<le> 90 \<or> 97 \<le> v \<and> v \<le> 122 else unicode_alphanumeric cr v)"

definition separating :: "nat option \<Rightarrow> bool" where
  "separating c = (case c of None \<Rightarrow> True | Some v \<Rightarrow> is_whitespace v \<or> ascii_punctuation v)"

definition native_boundaries :: "gfm_crates \<Rightarrow> string \<Rightarrow> nat option \<Rightarrow> nat option \<Rightarrow> bool" where
  "native_boundaries cr v previous next_char \<longleftrightarrow>
     holds_some (\<lambda>f. is_alphanumeric cr f \<or> separating previous) (first_char v)
     \<and> holds_some (\<lambda>l. is_alphanumeric cr l \<or> separating next_char) (last_char v)
     \<and> previous \<notin> {Some (byte (CHR ''*'')), Some (byte (CHR ''~''))}"

definition trim_start :: "string \<Rightarrow> string" where
  "trim_start s = concat (map snd (dropWhile (\<lambda>p. is_whitespace (fst p)) (scalar_pieces s)))"

definition trim_end :: "string \<Rightarrow> string" where
  "trim_end s = concat (map snd (rev (dropWhile (\<lambda>p. is_whitespace (fst p)) (rev (scalar_pieces s)))))"

definition or_else :: "'a option \<Rightarrow> 'a option \<Rightarrow> 'a option" where
  "or_else a b = (case a of None \<Rightarrow> b | Some _ \<Rightarrow> a)"

text \<open>The six wrappers, innermost first.\<close>

fun wrapper :: "InlineMark \<Rightarrow> bool \<Rightarrow> string \<times> string" where
  "wrapper Bold native = (if native then (''**'', ''**'') else (''<strong>'', ''</strong>''))"
| "wrapper Italic native = (if native then (''*'', ''*'') else (''<em>'', ''</em>''))"
| "wrapper Strikethrough native = (if native then (''~~'', ''~~'') else (''<del>'', ''</del>''))"
| "wrapper Underline native = (''<u>'', ''</u>'')"
| "wrapper Superscript native = (''<sup>'', ''</sup>'')"
| "wrapper Subscript native = (''<sub>'', ''</sub>'')"

definition wrapper_order :: "InlineMark list" where
  "wrapper_order = [Subscript, Superscript, Underline, Italic, Bold, Strikethrough]"

definition wrappers :: "InlineMark list \<Rightarrow> bool \<Rightarrow> (string \<times> string) list" where
  "wrappers marks native = map (\<lambda>m. if m \<in> set marks then wrapper m native else ([], [])) wrapper_order"

definition render_marked_text ::
  "gfm_crates \<Rightarrow> string \<Rightarrow> InlineMark list \<Rightarrow> InlineContext \<Rightarrow> nat option \<Rightarrow> nat option \<Rightarrow> string" where
  "render_marked_text cr v marks ctx previous next_char =
     (let v = single_line v; trimmed = trim v in
      if trimmed = [] \<or> marks = [] then escape_text v ctx
      else
        let leading = take (length v - length (trim_start v)) v;
            trailing = drop (length (trim_end v)) v;
            previous = or_else (last_char leading) previous;
            next_char = or_else (first_char trailing) next_char;
            html_marks = (Strikethrough \<in> set marks \<and> length marks > 1
              \<or> list_ex (\<lambda>m. m \<in> {Underline, Superscript, Subscript}) marks);
            native = (native_boundaries cr trimmed previous next_char
              \<and> (\<not> html_marks \<or> separating previous \<and> separating next_char));
            text = escape_text (if native then trimmed else v) ctx;
            ws = wrappers marks native in
        (if native then leading else []) @ concat (map fst (rev ws)) @ text @ concat (map snd ws)
          @ (if native then trailing else []))"

section \<open>Inlines\<close>

text \<open>The text of the following inlines whose marks agree, and the inlines after them.\<close>

fun text_run :: "InlineMark list \<Rightarrow> Inline list \<Rightarrow> string \<times> Inline list" where
  "text_run marks [] = ([], [])"
| "text_run marks (x # xs) =
     (case text_parts x of
        Some (v, ms) \<Rightarrow>
          if same_marks marks ms then (case text_run marks xs of (t, rest) \<Rightarrow> (v @ t, rest)) else ([], x # xs)
      | None \<Rightarrow> ([], x # xs))"

lemma text_run_size: "text_run marks xs = (t, rest) \<Longrightarrow> size_list size rest \<le> size_list size xs"
proof (induction xs arbitrary: t rest)
  case (Cons x xs)
  show ?case
  proof (cases "text_run marks xs")
    case (Pair t' rest')
    with Cons.IH [OF this] Cons.prems show ?thesis by (auto split: option.splits if_splits)
  qed
qed simp

definition following_char :: "Inline list \<Rightarrow> nat option" where
  "following_char xs = (case xs of [] \<Rightarrow> None | x # _ \<Rightarrow>
     (case text_parts x of None \<Rightarrow> None | Some (v, _) \<Rightarrow> first_char v))"

function render_inlines_from :: "gfm_crates \<Rightarrow> InlineContext \<Rightarrow> string \<Rightarrow> Inline list \<Rightarrow> string outcome" where
  "render_inlines_from cr ctx out [] = Inr out"
| "render_inlines_from cr ctx out (x # xs) =
     (case text_parts x of
        Some (v, marks) \<Rightarrow>
          (case text_run marks xs of (t, rest) \<Rightarrow>
             render_inlines_from cr ctx
               (out @ render_marked_text cr (v @ t) marks ctx (last_char out) (following_char rest)) rest)
      | None \<Rightarrow>
          and_then
            (case x of
               Code v \<Rightarrow> Inr (render_code_span v ctx)
             | Link target content \<Rightarrow>
                 and_then (validate_link_target target) (\<lambda>_.
                 and_then (render_inlines_from cr ctx [] content) (\<lambda>body.
                 Inr (''['' @ body @ ''](<'' @ escape_destination target ctx @ ''>)'')))
             | Formula v \<Rightarrow> Inr (''$'' @ render_code_span v ctx @ ''$'')
             | FootnoteReference lab \<Rightarrow> Inr (''[^'' @ footnote_label lab @ '']'')
             | _ \<Rightarrow> Inr (if ctx = Normal then ''  '' @ [LF] else ''<br>''))
            (\<lambda>s. render_inlines_from cr ctx (out @ s) xs))"
  by pat_completeness auto
termination render_inlines_from
  by (relation "measure (\<lambda>(cr, ctx, out, xs). size_list size xs)")
    (auto dest: text_run_size [OF sym])

definition render_inlines :: "gfm_crates \<Rightarrow> Inline list \<Rightarrow> InlineContext \<Rightarrow> string outcome" where
  "render_inlines cr xs ctx = render_inlines_from cr ctx [] xs"

section \<open>Paragraphs and header cells\<close>

definition protect_paragraph_indent :: "string \<Rightarrow> string" where
  "protect_paragraph_indent s =
     (let lead = takeWhile (\<lambda>c. c = CHR '' '' \<or> c = CHR 0x09) s in
      if \<not> blank s \<and> (CHR 0x09 \<in> set lead \<or> 4 \<le> length lead) then
        (if hd s = CHR 0x09 then ''&#9;'' else ''&#32;'') @ tl s
      else s)"

definition bold_cell :: "string \<Rightarrow> string" where
  "bold_cell s =
     (if blank s then s
      else if CHR ''*'' \<in> set s \<or> starts_with_any ''<'' s \<or> ends_with_any ''>'' s then
        ''<strong>'' @ s @ ''</strong>''
      else ''**'' @ trim s @ ''**'')"

section \<open>HTML inlines\<close>

fun html_tag :: "InlineMark \<Rightarrow> string" where
  "html_tag Bold = ''strong''"
| "html_tag Italic = ''em''"
| "html_tag Strikethrough = ''del''"
| "html_tag Underline = ''u''"
| "html_tag Superscript = ''sup''"
| "html_tag Subscript = ''sub''"

definition html_mark_order :: "InlineMark list" where
  "html_mark_order = [Subscript, Superscript, Underline, Strikethrough, Italic, Bold]"

definition html_text :: "string \<Rightarrow> InlineMark list \<Rightarrow> string" where
  "html_text v marks =
     fold (\<lambda>m s. if m \<in> set marks then ''<'' @ html_tag m @ ''>'' @ s @ ''</'' @ html_tag m @ ''>'' else s)
       html_mark_order (replace_char LF ''<br>'' (escape_html_text (normalize_lf v)))"

fun render_html_inlines :: "Inline list \<Rightarrow> string outcome" where
  "render_html_inlines [] = Inr []"
| "render_html_inlines (x # xs) =
     and_then
       (case x of
          Text v marks \<Rightarrow> Inr (html_text v marks)
        | SourceText v marks _ \<Rightarrow> Inr (html_text v marks)
        | OcrText v marks _ _ \<Rightarrow> Inr (html_text v marks)
        | Code v \<Rightarrow> Inr (''<code>'' @ escape_html_code v Normal @ ''</code>'')
        | Formula v \<Rightarrow> Inr (''<code>'' @ escape_html_code v Normal @ ''</code>'')
        | Link target content \<Rightarrow>
            and_then (validate_link_target target) (\<lambda>_.
            and_then (render_html_inlines content) (\<lambda>body.
            Inr (''<a href='' @ [QUOTE] @ escape_html_attribute target @ [QUOTE] @ ''>'' @ body @ ''</a>'')))
        | FootnoteReference lab \<Rightarrow> Inr (''[^'' @ escape_html_text lab @ '']'')
        | LineBreak \<Rightarrow> Inr ''<br>'')
       (\<lambda>s. and_then (render_html_inlines xs) (\<lambda>t. Inr (s @ t)))"

end
