(* ===== verification/Gfm_Tables.thy ===== *)
theory Gfm_Tables
  imports Gfm_Inline
begin

text \<open>
  Tables of \<open>crates/render-markdown/src/lib.rs\<close>: the shape of the grid, the exactly sized rows,
  the byte counts checked against the plan, and the HTML form. The rendering of a cell's blocks is
  an argument; the renderer of blocks closes the recursion.
\<close>

section \<open>Shape\<close>

definition MAX_TABLE_COLUMNS :: nat where "MAX_TABLE_COLUMNS = 16384"

text \<open>An array of occupied rows per column; only indexes below its length are read.\<close>

type_synonym occupancy = "nat \<Rightarrow> u32"

function next_free :: "nat \<Rightarrow> occupancy \<Rightarrow> nat \<Rightarrow> nat" where
  "next_free len occ column =
     (if column < len \<and> occ column > 0 then next_free len occ (column + 1) else column)"
  by pat_completeness auto
termination next_free by (relation "measure (\<lambda>(len, occ, column). len - column)") auto

declare next_free.simps [simp del]

definition fill :: "occupancy \<Rightarrow> nat \<Rightarrow> nat \<Rightarrow> u32 \<Rightarrow> occupancy" where
  "fill occ a b v = (\<lambda>i. if a \<le> i \<and> i < b then v else occ i)"

definition finish_row :: "nat \<Rightarrow> occupancy \<Rightarrow> occupancy" where
  "finish_row width occ = (\<lambda>i. if i < width then saturating_sub (occ i) 1 else occ i)"

fun shape_cells :: "occupancy \<Rightarrow> nat \<Rightarrow> nat \<Rightarrow> Cell list \<Rightarrow> (occupancy \<times> nat) outcome" where
  "shape_cells occ column width [] = Inr (occ, width)"
| "shape_cells occ column width (c # cs) =
     (let column = next_free MAX_TABLE_COLUMNS occ column; span = unat (column_span c); stop = column + span in
      if span = 0 then Inl (render_error ''table column span must be positive'')
      else if 2 ^ 64 \<le> stop then Inl render_plan_overflow
      else if stop > MAX_TABLE_COLUMNS then
        Inl (ConversionError.ResourceLimit ''max_table_columns''
          (''table renderer width '' @ show_nat stop @ '' exceeds '' @ show_nat MAX_TABLE_COLUMNS))
      else shape_cells (fill occ column stop (row_span c)) stop (max width stop) cs)"

fun shape_rows :: "occupancy \<Rightarrow> nat \<Rightarrow> TableRow list \<Rightarrow> nat outcome" where
  "shape_rows occ width [] = Inr width"
| "shape_rows occ width (r # rs) =
     and_then (shape_cells occ 0 width (cells r)) (\<lambda>(occ, width). shape_rows (finish_row width occ) width rs)"

fun html_cells :: "occupancy \<Rightarrow> nat \<Rightarrow> bool \<Rightarrow> Cell list \<Rightarrow> occupancy \<times> bool" where
  "html_cells occ column html [] = (occ, html)"
| "html_cells occ column html (c # cs) =
     (let column = next_free MAX_TABLE_COLUMNS occ column; stop = column + unat (column_span c) in
      html_cells (fill occ column stop (row_span c)) stop (html \<or> row_span c > 1 \<or> column_span c > 1) cs)"

fun html_rows :: "nat \<Rightarrow> occupancy \<Rightarrow> bool \<Rightarrow> TableRow list \<Rightarrow> bool" where
  "html_rows width occ html [] = html"
| "html_rows width occ html (r # rs) =
     (case html_cells occ 0 html (cells r) of (occ, html) \<Rightarrow>
        html_rows width (finish_row width occ) (html \<or> list_ex (\<lambda>i. occ i = 0) [0..<width]) rs)"

definition first_has_header :: "TableRow list \<Rightarrow> bool" where
  "first_has_header rows = (case rows of [] \<Rightarrow> False | r # _ \<Rightarrow> cells r \<noteq> [] \<and> list_all header_cell (cells r))"

definition table_shape :: "TableRow list \<Rightarrow> (nat \<times> bool \<times> bool) outcome" where
  "table_shape rows =
     and_then (shape_rows (\<lambda>_. 0) 0 rows) (\<lambda>width.
     Inr (width, first_has_header rows, html_rows width (\<lambda>_. 0) False rows))"

section \<open>Exact allocations\<close>

text \<open>Byte sizes of \<open>String\<close>, \<open>Vec<String>\<close> and \<open>u32\<close> on 64-bit targets.\<close>

definition STRING_SIZE :: nat where "STRING_SIZE = 24"
definition VEC_SIZE :: nat where "VEC_SIZE = 24"
definition U32_SIZE :: nat where "U32_SIZE = 4"

definition to_u64 :: "nat \<Rightarrow> u64 outcome" where
  "to_u64 n = (if 2 ^ 64 \<le> n then Inl render_plan_overflow else Inr (of_nat n))"

definition checked_product :: "nat \<Rightarrow> nat \<Rightarrow> u64 outcome" where
  "checked_product a b = to_u64 (a * b)"

definition plan_add :: "u64 \<Rightarrow> u64 \<Rightarrow> u64 outcome" where
  "plan_add a b = (case checked_add a b of None \<Rightarrow> Inl render_plan_overflow | Some c \<Rightarrow> Inr c)"

definition plan_mul :: "u64 \<Rightarrow> nat \<Rightarrow> u64 outcome" where
  "plan_mul a k = to_u64 (unat a * k)"

definition exact_uninit :: "gfm_crates \<Rightarrow> nat \<Rightarrow> string \<Rightarrow> unit outcome" where
  "exact_uninit cr n detail =
     (if n = 0 \<or> allocates cr n then Inr ()
      else Inl (ConversionError.ResourceLimit ''max_memory_bytes'' detail))"

text \<open>\<open>FixedSlots\<close>: what was pushed, and the number of slots.\<close>

definition slots_push :: "nat \<Rightarrow> 'a list \<Rightarrow> 'a \<Rightarrow> 'a list outcome" where
  "slots_push n xs x =
     (if length xs < n then Inr (xs @ [x])
      else Inl (Internal ''fixed allocation received more values than planned''))"

definition slots_into_vec :: "nat \<Rightarrow> 'a list \<Rightarrow> 'a list outcome" where
  "slots_into_vec n xs =
     (if length xs \<noteq> n then Inl (Internal ''fixed allocation received fewer values than planned'') else Inr xs)"

text \<open>\<open>ExactString\<close>: the bytes written into a buffer of \<open>n\<close> bytes.\<close>

definition exact_push :: "nat \<Rightarrow> string \<Rightarrow> string \<Rightarrow> string outcome" where
  "exact_push n t s =
     (if length s + length t \<le> n then Inr (s @ t)
      else Inl (Internal ''exact string received more bytes than planned''))"

definition exact_finish :: "nat \<Rightarrow> string \<Rightarrow> string outcome" where
  "exact_finish n s =
     (if length s \<noteq> n then Inl (Internal ''exact string received fewer bytes than planned'')
      else if \<not> valid_utf8 s then Inl (Internal ''validated exact string stopped being UTF-8'')
      else Inr s)"

definition exact_string :: "gfm_crates \<Rightarrow> string \<Rightarrow> string \<Rightarrow> string outcome" where
  "exact_string cr v detail =
     and_then (exact_uninit cr (length v) detail) (\<lambda>_.
     and_then (exact_push (length v) v []) (exact_finish (length v)))"

definition exact_values :: "gfm_crates \<Rightarrow> nat \<Rightarrow> nat \<Rightarrow> 'a list \<Rightarrow> string \<Rightarrow> 'a list outcome" where
  "exact_values cr n item_size vs detail =
     and_then (exact_uninit cr (n * item_size) detail) (\<lambda>_.
     and_then (try_fold (\<lambda>v xs. slots_push n xs v) vs []) (slots_into_vec n))"

definition exact_zero_occupancy :: "gfm_crates \<Rightarrow> nat \<Rightarrow> occupancy outcome" where
  "exact_zero_occupancy cr width =
     and_then (exact_values cr width U32_SIZE (replicate width 0) ''table occupancy allocation failed'') (\<lambda>vs.
     Inr (\<lambda>i. vs ! i))"

definition exact_empty_strings :: "gfm_crates \<Rightarrow> nat \<Rightarrow> string \<Rightarrow> string list outcome" where
  "exact_empty_strings cr width detail = exact_values cr width STRING_SIZE (replicate width []) detail"

definition separator :: "TableAlignment \<Rightarrow> string" where
  "separator a = (case a of AlignNone \<Rightarrow> ''---'' | AlignLeft \<Rightarrow> '':---'' | AlignCenter \<Rightarrow> '':---:'' | AlignRight \<Rightarrow> ''---:'')"

definition exact_separators :: "gfm_crates \<Rightarrow> nat \<Rightarrow> TableAlignment list \<Rightarrow> string list outcome" where
  "exact_separators cr width alignments =
     and_then (exact_uninit cr (width * STRING_SIZE) ''table separator allocation failed'') (\<lambda>_.
     and_then (try_fold (\<lambda>k xs.
         and_then (exact_string cr (separator (if k < length alignments then alignments ! k else AlignNone))
             ''table separator string allocation failed'') (slots_push width xs)) [0..<width] []) (slots_into_vec width))"

definition table_row_length :: "string list \<Rightarrow> nat outcome" where
  "table_row_length cs =
     try_fold (\<lambda>c n. if 2 ^ 64 \<le> n + 3 + length c then Inl render_plan_overflow else Inr (n + 3 + length c)) cs 2"

definition write_exact_table_row :: "nat \<Rightarrow> string list \<Rightarrow> bool \<Rightarrow> string \<Rightarrow> string outcome" where
  "write_exact_table_row n cs newline out =
     and_then (exact_push n ''|'' out) (\<lambda>out.
     and_then (try_fold (\<lambda>c out.
         and_then (exact_push n '' '' out) (\<lambda>out.
         and_then (exact_push n c out) (exact_push n '' |''))) cs out) (\<lambda>out.
     if newline then exact_push n [LF] out else Inr out))"

section \<open>The byte plan of a table\<close>

record TablePlanOwners =
  occupancy_bytes :: u64
  grid_rows :: u64
  grid_slots :: u64
  fallback_header :: u64
  separator_slots :: u64
  separator_strings :: u64
  cell_strings :: u64
  cell_block_joins :: u64
  output_bytes :: u64

definition no_owners :: TablePlanOwners where
  "no_owners = \<lparr>occupancy_bytes = 0, grid_rows = 0, grid_slots = 0, fallback_header = 0, separator_slots = 0,
     separator_strings = 0, cell_strings = 0, cell_block_joins = 0, output_bytes = 0\<rparr>"

definition owner_list :: "TablePlanOwners \<Rightarrow> (string \<times> u64) list" where
  "owner_list p =
     [(''occupancy'', occupancy_bytes p), (''grid rows'', grid_rows p), (''grid slots'', grid_slots p),
      (''fallback header'', fallback_header p), (''separator slots'', separator_slots p),
      (''separator strings'', separator_strings p), (''cell strings'', cell_strings p),
      (''cell temporaries'', cell_block_joins p), (''output'', output_bytes p)]"

definition owners_total :: "TablePlanOwners \<Rightarrow> u64 outcome" where
  "owners_total p = try_fold (\<lambda>v t. plan_add t v) (map snd (owner_list p)) 0"

definition verify_within :: "TablePlanOwners \<Rightarrow> TablePlanOwners \<Rightarrow> unit outcome" where
  "verify_within actual planned =
     try_fold (\<lambda>((owner, a), (_, b)) _.
       if a > b then
         Inl (Internal (''table renderer '' @ owner @ '' allocation '' @ show_word a @ '' exceeded its ''
           @ show_word b @ ''-byte plan''))
       else Inr ()) (zip (owner_list actual) (owner_list planned)) ()"

definition table_plan_owners ::
  "TableRow list \<Rightarrow> nat \<Rightarrow> bool \<Rightarrow> u64 \<Rightarrow> u64 \<Rightarrow> TablePlanOwners outcome" where
  "table_plan_owners rows width has_header strings joins =
     (let rendered_rows = length rows + 2 in
      and_then (checked_product width 5) (\<lambda>separators.
      and_then (checked_product rendered_rows width) (\<lambda>p.
      and_then (plan_mul p 4) (\<lambda>p.
      and_then (to_u64 (unat p + rendered_rows * 2)) (\<lambda>row_overhead.
      and_then (to_u64 (sum_list (map (\<lambda>r. length (cells r)) rows))) (\<lambda>cell_count.
      and_then (plan_mul cell_count 128) (\<lambda>h.
      and_then (plan_add h (if length rows * 32 < 2 ^ 64 then of_nat (length rows * 32) else - 1)) (\<lambda>h.
      and_then (plan_add h 32) (\<lambda>html_overhead.
      and_then (checked_product width U32_SIZE) (\<lambda>occ.
      and_then (checked_product (length rows) VEC_SIZE) (\<lambda>gr.
      and_then (checked_product (length rows * width) STRING_SIZE) (\<lambda>gs.
      and_then (checked_product width STRING_SIZE) (\<lambda>ss.
      and_then (plan_add strings separators) (\<lambda>o1.
      and_then (plan_add o1 row_overhead) (\<lambda>o2.
      and_then (plan_add o2 html_overhead) (\<lambda>o3.
      Inr \<lparr>occupancy_bytes = occ, grid_rows = gr, grid_slots = gs, fallback_header = (if has_header then 0 else ss),
           separator_slots = ss, separator_strings = separators, cell_strings = strings, cell_block_joins = joins,
           output_bytes = o3\<rparr>))))))))))))))))"

end
