(* ===== verification/Gfm_Blocks.thy ===== *)
theory Gfm_Blocks
  imports Gfm_Tables
begin

text \<open>
  Blocks of \<open>crates/render-markdown\<close> (\<open>lib.rs\<close>, \<open>list.rs\<close>) and the speaker-notes rules of
  \<open>crates/core/src/speaker_notes.rs\<close>. Each operation takes the renderer of nested blocks as its
  argument \<open>rec\<close>; \<open>render_blocks_in\<close> closes the recursion.
\<close>

record RenderContext =
  crates :: gfm_crates
  asset_plan :: AssetPlan
  inventory :: "Asset list"
  output_options :: OutputOptions
  document :: Document

type_synonym block_renderer = "BlockNode list \<Rightarrow> InlineContext \<Rightarrow> string outcome"

section \<open>Cells and grids\<close>

definition capacity64 :: "RenderContext \<Rightarrow> string \<Rightarrow> u64 outcome" where
  "capacity64 rc s = to_u64 (string_capacity (crates rc) s)"

definition quoted_number :: "u32 \<Rightarrow> string" where
  "quoted_number n = [QUOTE] @ show_word n @ [QUOTE]"

definition flatten_cell :: "string \<Rightarrow> string" where
  "flatten_cell s = replace_char LF ''<br>'' (replace_pair LF LF ''<br><br>'' (normalize_lf s))"

definition cell_text :: "Cell \<Rightarrow> string \<Rightarrow> string" where
  "cell_text c flattened =
     (let spanned = (if row_span c > 1 \<or> column_span c > 1 then
          ''<span data-rowspan='' @ quoted_number (row_span c) @ '' data-colspan='' @ quoted_number (column_span c)
            @ ''>'' @ flattened @ ''</span>'' else flattened)
      in if header_cell c then bold_cell spanned else spanned)"

text \<open>The bytes alive while a cell is rendered: three buffers, then the wrapper and its source.\<close>

definition cell_temporary :: "RenderContext \<Rightarrow> Cell \<Rightarrow> string \<Rightarrow> u64 outcome" where
  "cell_temporary rc c rendered =
     (let normalized = normalize_lf rendered; paragraphs = replace_pair LF LF ''<br><br>'' normalized;
          flattened = replace_char LF ''<br>'' paragraphs;
          spanned = cell_text (Cell (row_span c) (column_span c) False []) flattened;
          final = cell_text c flattened in
      and_then (try_fold (\<lambda>s t. and_then (capacity64 rc s) (plan_add t)) [rendered, normalized, paragraphs] 0) (\<lambda>base.
      and_then (capacity64 rc flattened) (\<lambda>peak.
      and_then (if header_cell c then
          and_then (capacity64 rc spanned) (\<lambda>l. and_then (capacity64 rc final) (\<lambda>r.
          and_then (plan_add l r) (\<lambda>b. Inr (max peak b)))) else Inr peak) (\<lambda>peak.
      and_then (capacity64 rc final) (\<lambda>l. and_then (to_u64 (length final)) (\<lambda>r.
      and_then (plan_add l r) (\<lambda>b. plan_add base (max peak b))))))))"

definition render_cell :: "RenderContext \<Rightarrow> block_renderer \<Rightarrow> Cell \<Rightarrow> (string \<times> u64) outcome" where
  "render_cell rc rec c =
     and_then (rec (cell_blocks c) TableCell) (\<lambda>rendered.
     and_then (cell_temporary rc c rendered) (\<lambda>temporary.
     and_then (exact_string (crates rc) (cell_text c (flatten_cell rendered)) ''table cell string allocation failed'')
       (\<lambda>exact. Inr (exact, temporary))))"

fun grid_cells ::
  "RenderContext \<Rightarrow> block_renderer \<Rightarrow> nat \<Rightarrow> occupancy \<Rightarrow> nat \<Rightarrow> string list \<Rightarrow> TablePlanOwners \<Rightarrow> Cell list
     \<Rightarrow> (occupancy \<times> string list \<times> TablePlanOwners) outcome" where
  "grid_cells rc rec width occ column row own [] = Inr (occ, row, own)"
| "grid_cells rc rec width occ column row own (c # cs) =
     (let column = next_free width occ column; stop = column + unat (column_span c) in
      if 2 ^ 64 \<le> stop then Inl (render_error ''table width overflowed'')
      else if stop > width then Inl (render_error ''table width changed after deterministic preflight'')
      else
        and_then (render_cell rc rec c) (\<lambda>(v, temporary).
        and_then (to_u64 (length v)) (\<lambda>n.
        and_then (plan_add (cell_strings own) n) (\<lambda>t.
        grid_cells rc rec width (fill occ column stop (row_span c)) stop (row[column := v])
          (own\<lparr>cell_strings := t, cell_block_joins := max (cell_block_joins own) temporary\<rparr>) cs))))"

fun grid_loop ::
  "RenderContext \<Rightarrow> block_renderer \<Rightarrow> nat \<Rightarrow> nat \<Rightarrow> occupancy \<Rightarrow> string list list \<Rightarrow> TablePlanOwners \<Rightarrow> TableRow list
     \<Rightarrow> (string list list \<times> TablePlanOwners) outcome" where
  "grid_loop rc rec width n occ done_rows own [] =
     and_then (slots_into_vec n done_rows) (\<lambda>grid. Inr (grid, own))"
| "grid_loop rc rec width n occ done_rows own (r # rs) =
     and_then (exact_empty_strings (crates rc) width ''table cell-slot allocation failed'') (\<lambda>row.
     and_then (checked_product width STRING_SIZE) (\<lambda>slots.
     and_then (plan_add (grid_slots own) slots) (\<lambda>t.
     and_then (grid_cells rc rec width occ 0 row (own\<lparr>grid_slots := t\<rparr>) (cells r)) (\<lambda>(occ, row, own).
     and_then (slots_push n done_rows row) (\<lambda>rows.
     grid_loop rc rec width n (finish_row width occ) rows own rs)))))"

definition table_grid ::
  "RenderContext \<Rightarrow> block_renderer \<Rightarrow> TableRow list \<Rightarrow> nat \<Rightarrow> (string list list \<times> TablePlanOwners) outcome" where
  "table_grid rc rec rows width =
     and_then (exact_zero_occupancy (crates rc) width) (\<lambda>occ.
     and_then (exact_uninit (crates rc) (length rows * VEC_SIZE) ''table row allocation failed'') (\<lambda>_.
     and_then (checked_product width U32_SIZE) (\<lambda>ob.
     and_then (checked_product (length rows) VEC_SIZE) (\<lambda>gr.
     grid_loop rc rec width (length rows) occ [] (no_owners\<lparr>occupancy_bytes := ob, grid_rows := gr\<rparr>) rows))))"

section \<open>Markdown tables\<close>

definition strings_total :: "string list \<Rightarrow> u64 outcome" where
  "strings_total ss = try_fold (\<lambda>s t. and_then (to_u64 (length s)) (plan_add t)) ss 0"

text \<open>The output length: the header, the separators and the body rows, less the last line feed.\<close>

definition table_output_length :: "string list \<Rightarrow> string list \<Rightarrow> string list list \<Rightarrow> nat outcome" where
  "table_output_length hd_row separators body =
     and_then (table_row_length hd_row) (\<lambda>h.
     and_then (table_row_length separators) (\<lambda>s.
     if 2 ^ 64 \<le> h + s then Inl render_plan_overflow
     else and_then (try_fold (\<lambda>row n. and_then (table_row_length row) (\<lambda>l.
         if 2 ^ 64 \<le> n + l then Inl render_plan_overflow else Inr (n + l))) body (h + s)) (\<lambda>n.
     if n = 0 then Inl render_plan_overflow else Inr (n - 1))))"

fun write_body_rows :: "nat \<Rightarrow> string list list \<Rightarrow> string \<Rightarrow> string outcome" where
  "write_body_rows n [] out = Inr out"
| "write_body_rows n (row # rows) out =
     and_then (write_exact_table_row n row (rows \<noteq> []) out) (write_body_rows n rows)"

definition write_table :: "gfm_crates \<Rightarrow> string list \<Rightarrow> string list \<Rightarrow> string list list \<Rightarrow> string outcome" where
  "write_table cr hd_row separators body =
     and_then (table_output_length hd_row separators body) (\<lambda>n.
     and_then (exact_uninit cr n ''table output allocation failed'') (\<lambda>_.
     and_then (write_exact_table_row n hd_row True []) (\<lambda>out.
     and_then (write_exact_table_row n separators (body \<noteq> []) out) (\<lambda>out.
     and_then (write_body_rows n body out) (exact_finish n)))))"

definition render_markdown_table ::
  "RenderContext \<Rightarrow> block_renderer \<Rightarrow> TableRow list \<Rightarrow> TableAlignment list \<Rightarrow> nat \<Rightarrow> bool
     \<Rightarrow> (string \<times> TablePlanOwners) outcome" where
  "render_markdown_table rc rec rows alignments width has_header =
     and_then (table_grid rc rec rows width) (\<lambda>(grid, own).
     and_then (if has_header then Inr [] else
         exact_empty_strings (crates rc) width ''table fallback header allocation failed'') (\<lambda>fallback.
     and_then (if has_header then Inr 0 else checked_product width STRING_SIZE) (\<lambda>fb.
     and_then (exact_separators (crates rc) width alignments) (\<lambda>separators.
     and_then (checked_product width STRING_SIZE) (\<lambda>ss.
     and_then (strings_total separators) (\<lambda>st.
     let hd_row = (if has_header then hd grid else fallback); body = (if has_header then tl grid else grid) in
     and_then (write_table (crates rc) hd_row separators body) (\<lambda>out.
     and_then (to_u64 (length out)) (\<lambda>ob.
     let actual = own\<lparr>fallback_header := fb, separator_slots := ss, separator_strings := st, output_bytes := ob\<rparr> in
     and_then (table_plan_owners rows width has_header (cell_strings actual) (cell_block_joins actual)) (\<lambda>planned.
     and_then (verify_within actual planned) (\<lambda>_. Inr (out, actual)))))))))))"

section \<open>HTML tables\<close>

definition html_cell_block :: "RenderContext \<Rightarrow> block_renderer \<Rightarrow> BlockNode \<Rightarrow> u64 \<Rightarrow> (string \<times> u64) outcome" where
  "html_cell_block rc rec node temporary =
     (case node_block node of
        Paragraph xs \<Rightarrow> and_then (render_html_inlines xs) (\<lambda>s. Inr (s, temporary))
      | Heading _ xs \<Rightarrow> and_then (render_html_inlines xs) (\<lambda>s. Inr (s, temporary))
      | CodeBlock _ t \<Rightarrow> Inr (''<pre><code>'' @ escape_html_code t Normal @ ''</code></pre>'', temporary)
      | BlockFormula v \<Rightarrow> Inr (''<code>'' @ escape_html_code v Normal @ ''</code>'', temporary)
      | _ \<Rightarrow>
          and_then (rec [node] TableCell) (\<lambda>s.
          and_then (capacity64 rc s) (\<lambda>n.
          and_then (plan_add temporary n) (\<lambda>t. Inr (escape_html_text s, t)))))"

fun html_cell_loop ::
  "RenderContext \<Rightarrow> block_renderer \<Rightarrow> BlockNode list \<Rightarrow> bool \<Rightarrow> string \<Rightarrow> u64 \<Rightarrow> (string \<times> u64) outcome" where
  "html_cell_loop rc rec [] first out temporary = Inr (out, temporary)"
| "html_cell_loop rc rec (node # ns) first out temporary =
     and_then (html_cell_block rc rec node temporary) (\<lambda>(s, t).
     html_cell_loop rc rec ns False (out @ (if first then [] else ''<br>'') @ s) t)"

definition render_html_cell :: "RenderContext \<Rightarrow> block_renderer \<Rightarrow> Cell \<Rightarrow> (string \<times> u64) outcome" where
  "render_html_cell rc rec c =
     and_then (html_cell_loop rc rec (cell_blocks c) True [] 0) (\<lambda>(out, temporary).
     and_then (exact_string (crates rc) out ''HTML table cell allocation failed'') (\<lambda>exact.
     and_then (capacity64 rc out) (\<lambda>n.
     and_then (plan_add temporary n) (\<lambda>t. Inr (exact, t)))))"

definition html_cell_open :: "Cell \<Rightarrow> string" where
  "html_cell_open c =
     ''    <'' @ (if header_cell c then ''th'' else ''td'')
       @ (if row_span c > 1 then '' rowspan='' @ quoted_number (row_span c) else [])
       @ (if column_span c > 1 then '' colspan='' @ quoted_number (column_span c) else []) @ ''>''"

definition html_table_cell ::
  "RenderContext \<Rightarrow> block_renderer \<Rightarrow> Cell \<Rightarrow> string \<times> TablePlanOwners \<Rightarrow> (string \<times> TablePlanOwners) outcome" where
  "html_table_cell rc rec c st =
     and_then (render_html_cell rc rec c) (\<lambda>(v, temporary).
     and_then (to_u64 (length v)) (\<lambda>n.
     and_then (plan_add (cell_strings (snd st)) n) (\<lambda>t.
     Inr (fst st @ html_cell_open c @ v @ ''</'' @ (if header_cell c then ''th'' else ''td'') @ ''>'' @ [LF],
          (snd st)\<lparr>cell_strings := t, cell_block_joins := max (cell_block_joins (snd st)) temporary\<rparr>))))"

definition html_table_row ::
  "RenderContext \<Rightarrow> block_renderer \<Rightarrow> TableRow \<Rightarrow> string \<times> TablePlanOwners \<Rightarrow> (string \<times> TablePlanOwners) outcome" where
  "html_table_row rc rec r st =
     and_then (try_fold (html_table_cell rc rec) (cells r) (fst st @ ''  <tr>'' @ [LF], snd st)) (\<lambda>st.
     Inr (fst st @ ''  </tr>'' @ [LF], snd st))"

definition render_html_table ::
  "RenderContext \<Rightarrow> block_renderer \<Rightarrow> TableRow list \<Rightarrow> nat \<Rightarrow> bool \<Rightarrow> (string \<times> TablePlanOwners) outcome" where
  "render_html_table rc rec rows width has_header =
     and_then (try_fold (html_table_row rc rec) rows (''<table>'' @ [LF], no_owners)) (\<lambda>st.
     and_then (exact_string (crates rc) (fst st @ ''</table>'') ''HTML table output allocation failed'') (\<lambda>out.
     and_then (to_u64 (length out)) (\<lambda>ob.
     let actual = (snd st)\<lparr>output_bytes := ob\<rparr> in
     and_then (table_plan_owners rows width has_header (cell_strings actual) (cell_block_joins actual)) (\<lambda>planned.
     and_then (verify_within actual planned) (\<lambda>_. Inr (out, actual))))))"

definition uses_spreadsheetml_html_tables :: "RenderContext \<Rightarrow> bool" where
  "uses_spreadsheetml_html_tables rc \<longleftrightarrow>
     kv_get (properties (metadata (document rc))) ''spreadsheet.encoding'' = Some ''spreadsheetml''"

definition render_table_measured ::
  "RenderContext \<Rightarrow> block_renderer \<Rightarrow> TableRow list \<Rightarrow> TableAlignment list \<Rightarrow> (string \<times> TablePlanOwners) outcome" where
  "render_table_measured rc rec rows alignments =
     and_then (table_shape rows) (\<lambda>(width, has_header, html).
     if html \<and> uses_spreadsheetml_html_tables rc then render_html_table rc rec rows width has_header
     else render_markdown_table rc rec rows alignments width has_header)"

definition render_table :: "RenderContext \<Rightarrow> block_renderer \<Rightarrow> TableRow list \<Rightarrow> TableAlignment list \<Rightarrow> string outcome" where
  "render_table rc rec rows alignments = and_then (render_table_measured rc rec rows alignments) (\<lambda>r. Inr (fst r))"

end
