(* ===== verification/Gfm_Render.thy ===== *)
theory Gfm_Render
  imports Gfm_Blocks
begin

text \<open>
  The renderer of \<open>crates/render-markdown\<close>: lists, images, merged ranges, every block and
  \<open>render\<close> itself, with the speaker-notes rules of \<open>crates/core/src/speaker_notes.rs\<close>.
\<close>

section \<open>Speaker notes\<close>

definition HEADING_MARK :: string where "HEADING_MARK = ''::speaker-notes-heading''"
definition BODY_MARK :: string where "BODY_MARK = ''::speaker-note''"

definition mark :: "gfm_crates \<Rightarrow> string \<Rightarrow> BlockNode \<Rightarrow> BlockNode outcome" where
  "mark cr suffix n =
     (if \<not> allocates cr (length suffix) then
        Inl (ConversionError.ResourceLimit ''max_memory_bytes'' ''cannot reserve speaker notes identity'')
      else case n of BlockNode i b p \<Rightarrow> Inr (BlockNode (i @ suffix) b p))"

definition mark_heading :: "gfm_crates \<Rightarrow> BlockNode \<Rightarrow> BlockNode outcome" where
  "mark_heading cr n = mark cr HEADING_MARK n"

definition mark_body :: "gfm_crates \<Rightarrow> BlockNode \<Rightarrow> BlockNode outcome" where
  "mark_body cr n = mark cr BODY_MARK n"

definition ends_with :: "string \<Rightarrow> string \<Rightarrow> bool" where
  "ends_with suffix s \<longleftrightarrow> strip_suffix suffix s \<noteq> None"

definition starts_with :: "string \<Rightarrow> string \<Rightarrow> bool" where
  "starts_with prefix s \<longleftrightarrow> strip_prefix prefix s \<noteq> None"

definition is_notes_heading :: "BlockNode \<Rightarrow> bool" where
  "is_notes_heading n \<longleftrightarrow> ends_with HEADING_MARK (node_id n)
     \<and> (case node_block n of Heading level _ \<Rightarrow> level = 3 | _ \<Rightarrow> False)"

text \<open>\<open>split("::ocr::").next()\<close>: what precedes the first occurrence.\<close>

fun before_pattern :: "string \<Rightarrow> string \<Rightarrow> string" where
  "before_pattern p [] = []"
| "before_pattern p (c # s) = (if starts_with p (c # s) then [] else c # before_pattern p s)"

definition is_notes_body :: "BlockNode \<Rightarrow> bool" where
  "is_notes_body n \<longleftrightarrow> ends_with BODY_MARK (before_pattern ''::ocr::'' (node_id n))"

fun visible_inlines :: "Inline list \<Rightarrow> bool" where
  "visible_inlines [] = False"
| "visible_inlines (x # xs) =
     ((case x of
         Text v _ \<Rightarrow> \<not> blank v | SourceText v _ _ \<Rightarrow> \<not> blank v | OcrText v _ _ _ \<Rightarrow> \<not> blank v
       | Code v \<Rightarrow> \<not> blank v | Formula v \<Rightarrow> \<not> blank v | FootnoteReference v \<Rightarrow> \<not> blank v
       | Link _ content \<Rightarrow> visible_inlines content
       | LineBreak \<Rightarrow> False) \<or> visible_inlines xs)"

function has_visible_content :: "AssetMode \<Rightarrow> BlockNode list \<Rightarrow> bool" where
  "has_visible_content mode [] = False"
| "has_visible_content mode (n # ns) =
     ((case node_block n of
         Paragraph xs \<Rightarrow> visible_inlines xs
       | Heading _ xs \<Rightarrow> visible_inlines xs
       | TimedSegment _ _ _ _ xs \<Rightarrow> visible_inlines xs
       | Image _ alt \<Rightarrow> mode \<noteq> Omit \<or> holds_some (\<lambda>v. \<not> blank v) alt
       | BlockList _ _ items \<Rightarrow>
           list_ex (\<lambda>item. checked item \<noteq> None \<or> has_visible_content mode (item_blocks item)) items
       | Table rows _ \<Rightarrow> list_ex (\<lambda>r. list_ex (\<lambda>c. has_visible_content mode (cell_blocks c)) (cells r)) rows
       | CodeBlock _ t \<Rightarrow> \<not> blank t
       | BlockFormula t \<Rightarrow> \<not> blank t
       | Footnote _ bs \<Rightarrow> has_visible_content mode bs
       | Slide _ _ bs \<Rightarrow> has_visible_content mode bs
       | Page _ bs \<Rightarrow> has_visible_content mode bs
       | Sheet _ bs \<Rightarrow> has_visible_content mode bs
       | Rule \<Rightarrow> True) \<or> has_visible_content mode ns)"
  by pat_completeness auto

lemma child_in_node:
  "cs \<in> set (child_lists b) \<Longrightarrow> node_block n = b \<Longrightarrow> size_list size cs < Suc (size n + size_list size ns)"
  using node_children_size [of cs n] by simp

termination has_visible_content
  by (relation "measure (\<lambda>(mode, ns). size_list size ns)") (auto intro!: child_in_node, blast)

section \<open>Merged spreadsheet ranges\<close>

definition merge_letter :: "char \<Rightarrow> nat option \<Rightarrow> nat option" where
  "merge_letter b acc = Option.bind acc (\<lambda>t.
     let u = byte (ascii_upper b); n = t * 26 + (u - 65 + 1) in
     if u < 65 \<or> 2 ^ 32 \<le> n then None else Some n)"

definition parse_merge_cell :: "string \<Rightarrow> (nat \<times> nat) option" where
  "parse_merge_cell v =
     (let col = takeWhile (\<lambda>b. \<not> is_ascii_digit b) v; row = dropWhile (\<lambda>b. \<not> is_ascii_digit b) v in
      if row = [] \<or> col = [] then None
      else Option.bind (parse_unsigned 32 row) (\<lambda>row.
        if row = 0 then None
        else Option.bind (fold merge_letter col (Some 0)) (\<lambda>col.
          if col = 0 then None else Some (row - 1, col - 1))))"

definition parse_merge_span :: "string \<Rightarrow> (nat \<times> nat) option" where
  "parse_merge_span v =
     Option.bind (split_once (CHR '':'') v) (\<lambda>(a, b).
     Option.bind (parse_merge_cell a) (\<lambda>(r0, c0).
     Option.bind (parse_merge_cell b) (\<lambda>(r1, c1).
       if r1 < r0 \<or> 2 ^ 32 \<le> r1 - r0 + 1 \<or> c1 < c0 \<or> 2 ^ 32 \<le> c1 - c0 + 1 then None
       else Some (r1 - r0 + 1, c1 - c0 + 1))))"

definition merge_row :: "string \<Rightarrow> string \<Rightarrow> string outcome" where
  "merge_row line out =
     (case parse_merge_span line of
        None \<Rightarrow> Inl (render_error ''invalid prepared XLSX merge range'')
      | Some (rows, cols) \<Rightarrow>
          Inr (out @ ''<tr><th scope='' @ [QUOTE] @ ''row'' @ [QUOTE] @ ''>'' @ escape_html_text line @ ''</th><td''
            @ (if rows > 1 then '' rowspan='' @ [QUOTE] @ show_nat rows @ [QUOTE] else [])
            @ (if cols > 1 then '' colspan='' @ [QUOTE] @ show_nat cols @ [QUOTE] else [])
            @ ''></td></tr>'' @ [LF]))"

definition render_merge_html :: "gfm_crates \<Rightarrow> string \<Rightarrow> string outcome" where
  "render_merge_html cr v =
     (if \<not> allocates cr (min (length v * 4) (2 ^ 64 - 1)) then
        Inl (render_error ''merge HTML output allocation failed'')
      else and_then (try_fold merge_row (str_lines v) (''<table>'' @ [LF] @ ''<tbody>'' @ [LF])) (\<lambda>out.
        Inr (out @ ''</tbody>'' @ [LF] @ ''</table>'')))"

section \<open>Identities and labels\<close>

definition epub_heading_anchor :: "BlockNode \<Rightarrow> string option" where
  "epub_heading_anchor n =
     (if provider (node_provenance n) \<noteq> ''builtin.converter.epub'' then None
      else Option.bind (strip_prefix ''epub-spine-'' (node_id n)) (\<lambda>s.
           Option.bind (strip_suffix ''-heading'' s) (\<lambda>sequence.
             if sequence \<noteq> [] \<and> list_all is_ascii_digit sequence then Some (node_id n) else None)))"

definition page_render_identity :: "BlockNode \<Rightarrow> string \<times> string" where
  "page_render_identity n =
     (if provider (node_provenance n) = ''builtin.converter.image'' \<or> starts_with ''image-page-'' (node_id n)
      then (''image-frame'', ''Image frame'') else (''pdf-page'', ''Page''))"

definition anchor :: "string \<Rightarrow> string" where
  "anchor i = ''<a id='' @ [QUOTE] @ i @ [QUOTE] @ ''></a>'' @ [LF, LF]"

definition property_label :: "string \<Rightarrow> string \<times> string \<Rightarrow> string option" where
  "property_label speaker kv =
     Option.bind (strip_prefix ''media.speaker.'' (fst kv)) (\<lambda>k.
     Option.bind (strip_suffix ''.label'' k) (\<lambda>i. if i = speaker then Some (snd kv) else None))"

fun find_map :: "('a \<Rightarrow> 'b option) \<Rightarrow> 'a list \<Rightarrow> 'b option" where
  "find_map f [] = None"
| "find_map f (x # xs) = or_else (f x) (find_map f xs)"

definition speaker_label :: "RenderContext \<Rightarrow> string \<Rightarrow> string" where
  "speaker_label rc speaker =
     (case find_map (property_label speaker) (properties (metadata (document rc))) of
        Some v \<Rightarrow> v
      | None \<Rightarrow>
          (case Option.bind (strip_prefix ''speaker-'' speaker) (parse_unsigned 8) of
             Some k \<Rightarrow> if 1 \<le> k \<and> k \<le> 64 then ''Speaker '' @ show_nat k else speaker
           | None \<Rightarrow> speaker))"

section \<open>Images\<close>

definition image_target :: "RenderContext \<Rightarrow> string \<Rightarrow> Asset \<Rightarrow> string outcome" where
  "image_target rc i a =
     (if asset_bytes a = [] then
        (case external_uri a of
           None \<Rightarrow> Inl (render_error (''asset '' @ i @ '' has neither bytes nor URI'')) | Some u \<Rightarrow> Inr u)
      else if asset_mode (output_options rc) = Embed then
        Inr (''data:'' @ media_type a @ '';base64,'' @ base64_encode (crates rc) (asset_bytes a))
      else
        (case plan_uri (asset_plan rc) i of
           None \<Rightarrow> Inl (render_error (''asset '' @ i @ '' has no extracted URI'')) | Some u \<Rightarrow> Inr u))"

definition image_destination :: "RenderContext \<Rightarrow> Asset \<Rightarrow> string \<Rightarrow> string outcome" where
  "image_destination rc a target =
     (if asset_mode (output_options rc) = Embed \<and> asset_bytes a \<noteq> [] then Inr (escape_generated_destination target)
      else and_then (validate_link_target target) (\<lambda>_. Inr (escape_destination target Normal)))"

definition render_image :: "RenderContext \<Rightarrow> string \<Rightarrow> string option \<Rightarrow> u32 option \<Rightarrow> string outcome" where
  "render_image rc i alt page_number =
     (let alt = escape_image_alt (single_line (case alt of None \<Rightarrow> [] | Some v \<Rightarrow> v)) in
      if asset_mode (output_options rc) = Omit then Inr alt
      else case plan_reference (asset_plan rc) i of
        None \<Rightarrow> Inl (render_error (''image references missing asset '' @ i))
      | Some r \<Rightarrow>
          (let a = inventory rc ! ref_source r in
           and_then (image_target rc i a) (\<lambda>target.
           and_then (image_destination rc a target) (\<lambda>destination.
           let prefix = (if starts_with ''image/'' (media_type a) then ''!'' else []);
               alt = (if prefix = [] \<and> blank alt then ''Original image'' else alt);
               fragment = (if media_type a = ''application/pdf'' \<and> CHR ''#'' \<notin> set destination then
                 (case page_number of None \<Rightarrow> [] | Some p \<Rightarrow> ''#page='' @ show_word p) else []) in
           Inr (prefix @ ''['' @ alt @ ''](<'' @ destination @ fragment @ ''>)'')))))"

section \<open>Lists\<close>

definition list_marker :: "ListKind \<Rightarrow> u64 \<Rightarrow> nat \<Rightarrow> ListItem \<Rightarrow> string outcome" where
  "list_marker k first index item =
     (case k of
        Bullet \<Rightarrow> Inr ''-''
      | Task \<Rightarrow> Inr (if checked item = Some True then ''- [x]'' else ''- [ ]'')
      | Ordered \<Rightarrow>
          if unat first + index < 2 ^ 64 then Inr (show_nat (unat first + index) @ ''.'')
          else Inl (render_error ''ordered-list marker overflowed u64''))"

definition starts_with_paragraph :: "ListItem \<Rightarrow> bool" where
  "starts_with_paragraph item =
     (case item_blocks item of [] \<Rightarrow> False | n # _ \<Rightarrow> (case node_block n of Paragraph _ \<Rightarrow> True | _ \<Rightarrow> False))"

definition list_line :: "bool \<Rightarrow> ListKind \<Rightarrow> string \<Rightarrow> ListItem \<Rightarrow> string \<Rightarrow> string" where
  "list_line html k marker item body =
     (if html then ''<li>'' @ [LF, LF] @ body @ [LF, LF] @ ''</li>''
      else
        let indentation = (if k = Ordered then max (length marker + 1) 4 else 4) in
        if body = [] then marker
        else if starts_with_paragraph item then marker @ '' '' @ indent_continuation body indentation
        else marker @ [LF] @ indent_all body indentation)"

fun list_lines :: "block_renderer \<Rightarrow> bool \<Rightarrow> ListKind \<Rightarrow> u64 \<Rightarrow> InlineContext \<Rightarrow> nat \<Rightarrow> ListItem list \<Rightarrow> string list outcome" where
  "list_lines rec html k first ctx index [] = Inr []"
| "list_lines rec html k first ctx index (item # items) =
     and_then (list_marker k first index item) (\<lambda>marker.
     and_then (rec (item_blocks item) ctx) (\<lambda>body.
     and_then (list_lines rec html k first ctx (Suc index) items) (\<lambda>rest.
     Inr (list_line html k marker item body # rest))))"

fun join_with :: "string \<Rightarrow> string list \<Rightarrow> string" where
  "join_with sep [] = []"
| "join_with sep [s] = s"
| "join_with sep (s # t # ss) = s @ sep @ join_with sep (t # ss)"

definition list_needs_html :: "ListKind \<Rightarrow> u64 \<Rightarrow> ListItem list \<Rightarrow> bool" where
  "list_needs_html k first items \<longleftrightarrow>
     k = Ordered \<and> min (unat first + (length items - 1)) (2 ^ 64 - 1) > 999999999"

definition render_list :: "block_renderer \<Rightarrow> ListKind \<Rightarrow> u64 \<Rightarrow> ListItem list \<Rightarrow> InlineContext \<Rightarrow> string outcome" where
  "render_list rec k first items ctx =
     (if items = [] then Inr []
      else
        let html = list_needs_html k first items in
        and_then (list_lines rec html k first ctx 0 items) (\<lambda>lines.
        let body = join_with [LF] lines in
        Inr (if html then ''<ol start='' @ [QUOTE] @ show_word first @ [QUOTE] @ ''>'' @ [LF, LF] @ body @ [LF, LF] @ ''</ol>''
             else body)))"

end
