(* ===== verification/Gfm_Document.thy ===== *)
theory Gfm_Document
  imports Gfm_Render
begin

text \<open>
  Blocks and documents: \<open>RenderContext::render_block\<close>, \<open>render_blocks_in\<close> and \<open>render\<close> of
  \<open>crates/render-markdown/src/lib.rs\<close>.
\<close>

section \<open>One block\<close>

definition render_heading :: "RenderContext \<Rightarrow> BlockNode \<Rightarrow> u8 \<Rightarrow> Inline list \<Rightarrow> InlineContext \<Rightarrow> string outcome" where
  "render_heading rc node level content ctx =
     (let prefix = (case epub_heading_anchor node of None \<Rightarrow> [] | Some i \<Rightarrow> anchor i) in
      and_then (render_inlines (crates rc) content ctx) (\<lambda>s.
      Inr (prefix @ replicate (unat level) (CHR ''#'') @ '' '' @ s)))"

definition render_code :: "RenderContext \<Rightarrow> string option \<Rightarrow> string \<Rightarrow> string outcome" where
  "render_code rc language t =
     (if language = Some ''xlsx-merge-html'' then render_merge_html (crates rc) t
      else Inr (render_fence t (map_option sanitize_info_string language)))"

definition render_footnote :: "block_renderer \<Rightarrow> string \<Rightarrow> BlockNode list \<Rightarrow> InlineContext \<Rightarrow> string outcome" where
  "render_footnote rec lab bs ctx =
     and_then (rec bs ctx) (\<lambda>body.
     let lab = footnote_label lab in
     Inr (if body = [] then ''[^'' @ lab @ '']:'' else ''[^'' @ lab @ '']: '' @ indent_continuation body 4))"

definition render_page :: "block_renderer \<Rightarrow> BlockNode \<Rightarrow> u32 \<Rightarrow> BlockNode list \<Rightarrow> InlineContext \<Rightarrow> string outcome" where
  "render_page rec node n bs ctx =
     and_then (rec bs ctx) (\<lambda>body.
     case page_render_identity node of (anchor_prefix, heading) \<Rightarrow>
     Inr (with_body (anchor (anchor_prefix @ ''-'' @ show_word n) @ ''## '' @ heading @ '' '' @ show_word n) body))"

definition render_slide :: "block_renderer \<Rightarrow> u32 \<Rightarrow> string option \<Rightarrow> BlockNode list \<Rightarrow> InlineContext \<Rightarrow> string outcome" where
  "render_slide rec n heading bs ctx =
     and_then (rec bs ctx) (\<lambda>body.
     Inr (with_body (''## Slide '' @ show_word n
       @ (case heading of None \<Rightarrow> [] | Some t \<Rightarrow> '': '' @ escape_text (single_line t) Normal)) body))"

definition render_sheet :: "block_renderer \<Rightarrow> string \<Rightarrow> BlockNode list \<Rightarrow> InlineContext \<Rightarrow> string outcome" where
  "render_sheet rec n bs ctx =
     and_then (rec bs ctx) (\<lambda>body. Inr (with_body (''## Sheet: '' @ escape_text (single_line n) Normal) body))"

text \<open>The dash between the times is U+2013, three bytes.\<close>

definition render_timed_segment ::
  "RenderContext \<Rightarrow> TimeRange \<Rightarrow> string option \<Rightarrow> Inline list \<Rightarrow> InlineContext \<Rightarrow> string outcome" where
  "render_timed_segment rc r speaker content ctx =
     and_then (render_inlines (crates rc) content ctx) (\<lambda>s.
     Inr ([BACKTICK] @ timestamp (start_ms r) @ '' '' @ [CHR 0xE2, CHR 0x80, CHR 0x93] @ '' '' @ timestamp (end_ms r)
       @ [BACKTICK]
       @ (case speaker of None \<Rightarrow> []
          | Some v \<Rightarrow> '' **'' @ escape_text (single_line (speaker_label rc v)) Normal @ '':**'')
       @ (if s = [] then [] else '' '' @ s)))"

definition render_block :: "RenderContext \<Rightarrow> block_renderer \<Rightarrow> BlockNode \<Rightarrow> InlineContext \<Rightarrow> string outcome" where
  "render_block rc rec node ctx =
     (case node_block node of
        Paragraph content \<Rightarrow> and_then (render_inlines (crates rc) content ctx) (\<lambda>s. Inr (protect_paragraph_indent s))
      | Heading level content \<Rightarrow> render_heading rc node level content ctx
      | BlockList k first items \<Rightarrow> render_list rec k first items ctx
      | Table rows alignments \<Rightarrow> render_table rc rec rows alignments
      | CodeBlock language t \<Rightarrow> render_code rc language t
      | BlockFormula v \<Rightarrow> Inr (render_fence v (Some ''math''))
      | Footnote lab bs \<Rightarrow> render_footnote rec lab bs ctx
      | Image i alt \<Rightarrow> render_image rc i alt (page (locator (node_provenance node)))
      | Page n bs \<Rightarrow> render_page rec node n bs ctx
      | Slide n heading bs \<Rightarrow> render_slide rec n heading bs ctx
      | Sheet n bs \<Rightarrow> render_sheet rec n bs ctx
      | TimedSegment r speaker _ _ content \<Rightarrow> render_timed_segment rc r speaker content ctx
      | Rule \<Rightarrow> Inr ''---'')"

section \<open>Sequences of blocks\<close>

definition hidden_heading :: "AssetMode \<Rightarrow> BlockNode \<Rightarrow> BlockNode list \<Rightarrow> bool" where
  "hidden_heading mode node rest \<longleftrightarrow>
     is_notes_heading node \<and> \<not> list_ex (\<lambda>n. has_visible_content mode [n]) (takeWhile is_notes_body rest)"

definition is_list :: "BlockNode \<Rightarrow> bool" where
  "is_list node = (case node_block node of BlockList _ _ _ \<Rightarrow> True | _ \<Rightarrow> False)"

definition LIST_BREAK :: string where
  "LIST_BREAK = ''<!-- -->'' @ [LF, LF]"

fun block_strings ::
  "RenderContext \<Rightarrow> (BlockNode \<Rightarrow> string outcome) \<Rightarrow> bool \<Rightarrow> bool \<Rightarrow> BlockNode list \<Rightarrow> string list outcome" where
  "block_strings rc f previous_list hidden [] = Inr []"
| "block_strings rc f previous_list hidden (n # ns) =
     (if hidden_heading (asset_mode (output_options rc)) n ns then block_strings rc f previous_list True ns
      else if hidden \<and> is_notes_body n then block_strings rc f previous_list hidden ns
      else
        and_then (f n) (\<lambda>b.
        if b = [] then block_strings rc f previous_list False ns
        else and_then (block_strings rc f (is_list n) False ns) (\<lambda>bs.
             Inr ((if previous_list \<and> is_list n then LIST_BREAK @ b else b) # bs))))"

lemma block_strings_cong [fundef_cong]:
  "rc = rc' \<Longrightarrow> p = p' \<Longrightarrow> h = h' \<Longrightarrow> ns = ns' \<Longrightarrow> (\<And>n. n \<in> set ns' \<Longrightarrow> f n = g n) \<Longrightarrow>
     block_strings rc f p h ns = block_strings rc' g p' h' ns'"
proof (induction ns arbitrary: p h p' h' ns')
  case (Cons n ns)
  then have "f n = g n" "\<And>p h. block_strings rc f p h ns = block_strings rc g p h ns" by auto
  with Cons.prems show ?case by (cases "g n") auto
qed auto

text \<open>What a block may render: its child lists and, in HTML cells, single nodes of them.\<close>

definition parts_below :: "BlockNode \<Rightarrow> BlockNode list set" where
  "parts_below n = (let cs = set (child_lists (node_block n)) in cs \<union> {[m] |m bs. bs \<in> cs \<and> m \<in> set bs})"

lemma parts_below_size: "bs \<in> parts_below n \<Longrightarrow> size_list size bs < Suc (size n + size_list size ns)"
  using size_list_mem [where f = size and 'a = BlockNode]
  by (fastforce simp: parts_below_def Let_def dest: node_children_size)

text \<open>Each operation depends on the nested renderer only through the parts of its block.\<close>

lemma list_lines_agree:
  "(\<And>item. item \<in> set items \<Longrightarrow> f (item_blocks item) = g (item_blocks item)) \<Longrightarrow>
     list_lines f html k first ctx index items = list_lines g html k first ctx index items"
  by (induction items arbitrary: index) simp_all

lemma grid_cells_agree:
  "(\<And>c. c \<in> set cs \<Longrightarrow> f (cell_blocks c) = g (cell_blocks c)) \<Longrightarrow>
     grid_cells rc f width occ column row own cs = grid_cells rc g width occ column row own cs"
proof (induction cs arbitrary: occ column row own)
  case (Cons c cs)
  then have "render_cell rc f c = render_cell rc g c" by (simp add: render_cell_def)
  moreover from Cons have "\<And>occ column row own. grid_cells rc f width occ column row own cs = grid_cells rc g width occ column row own cs"
    by simp
  ultimately show ?case by (simp only: grid_cells.simps)
qed simp

lemma grid_loop_agree:
  "(\<And>r c. r \<in> set rs \<Longrightarrow> c \<in> set (cells r) \<Longrightarrow> f (cell_blocks c) = g (cell_blocks c)) \<Longrightarrow>
     grid_loop rc f width n occ rows own rs = grid_loop rc g width n occ rows own rs"
proof (induction rs arbitrary: occ rows own)
  case (Cons r rs)
  then have "\<And>occ column row own. grid_cells rc f width occ column row own (cells r) = grid_cells rc g width occ column row own (cells r)"
    by (intro grid_cells_agree Cons.prems [of r]) simp_all
  moreover have "grid_loop rc f width n occ rows own rs = grid_loop rc g width n occ rows own rs" for occ rows own
    by (intro Cons.IH Cons.prems) simp_all
  ultimately show ?case by (simp only: grid_loop.simps)
qed simp

lemma html_cell_loop_agree:
  "(\<And>n. n \<in> set ns \<Longrightarrow> f [n] = g [n]) \<Longrightarrow>
     html_cell_loop rc f ns first out t = html_cell_loop rc g ns first out t"
proof (induction ns arbitrary: first out t)
  case (Cons n ns)
  then have "\<And>t. html_cell_block rc f n t = html_cell_block rc g n t"
    by (simp add: html_cell_block_def split: Block.split)
  moreover have "html_cell_loop rc f ns = html_cell_loop rc g ns"
    by (intro ext Cons.IH Cons.prems) simp
  ultimately show ?case by (simp only: html_cell_loop.simps)
qed simp

lemma render_html_table_agree:
  assumes "\<And>r c n. r \<in> set rows \<Longrightarrow> c \<in> set (cells r) \<Longrightarrow> n \<in> set (cell_blocks c) \<Longrightarrow> f [n] = g [n]"
  shows "render_html_table rc f rows width h = render_html_table rc g rows width h"
proof -
  have "html_table_cell rc f c st = html_table_cell rc g c st" if "r \<in> set rows" "c \<in> set (cells r)" for r c st
    using html_cell_loop_agree [of "cell_blocks c" f g] assms that by (simp add: html_table_cell_def render_html_cell_def)
  then have "html_table_row rc f r st = html_table_row rc g r st" if "r \<in> set rows" for r st
    using that unfolding html_table_row_def by (intro arg_cong2 [where f = and_then] try_fold_cong) auto
  then have "try_fold (html_table_row rc f) rows st = try_fold (html_table_row rc g) rows st" for st
    by (intro try_fold_cong) auto
  then show ?thesis by (simp only: render_html_table_def)
qed

lemma render_table_agree:
  assumes "\<And>r c. r \<in> set rows \<Longrightarrow> c \<in> set (cells r) \<Longrightarrow> f (cell_blocks c) = g (cell_blocks c)"
    and "\<And>r c n. r \<in> set rows \<Longrightarrow> c \<in> set (cells r) \<Longrightarrow> n \<in> set (cell_blocks c) \<Longrightarrow> f [n] = g [n]"
  shows "render_table rc f rows al = render_table rc g rows al"
proof -
  have "table_grid rc f rows width = table_grid rc g rows width" for width
    using grid_loop_agree [of rows f g] assms(1) by (simp add: table_grid_def)
  moreover have "render_html_table rc f rows width h = render_html_table rc g rows width h" for width h
    using assms(2) by (rule render_html_table_agree)
  ultimately show ?thesis
    by (simp only: render_table_def render_table_measured_def render_markdown_table_def)
qed

lemma render_block_agree:
  assumes "\<And>bs. bs \<in> parts_below n \<Longrightarrow> f bs = g bs"
  shows "render_block rc f n ctx = render_block rc g n ctx"
proof (cases "node_block n")
  case (BlockList k first items)
  with assms have "\<And>item. item \<in> set items \<Longrightarrow> f (item_blocks item) = g (item_blocks item)"
    by (auto simp: parts_below_def Let_def)
  with BlockList list_lines_agree [of items f g] show ?thesis by (simp add: render_block_def render_list_def)
next
  case (Table rows al)
  have "f (cell_blocks c) = g (cell_blocks c)" if "r \<in> set rows" "c \<in> set (cells r)" for r c
    using that Table by (intro assms) (auto simp: parts_below_def Let_def)
  moreover have "f [m] = g [m]" if "r \<in> set rows" "c \<in> set (cells r)" "m \<in> set (cell_blocks c)" for r c m
    using that Table by (intro assms) (auto simp: parts_below_def Let_def, blast)
  ultimately have "render_table rc f rows al = render_table rc g rows al" by (rule render_table_agree)
  with Table show ?thesis by (simp add: render_block_def)
qed (use assms in \<open>auto simp: render_block_def parts_below_def Let_def render_footnote_def render_page_def
       render_slide_def render_sheet_def\<close>)

lemma render_block_cong [fundef_cong]:
  "rc = rc' \<Longrightarrow> n = n' \<Longrightarrow> ctx = ctx' \<Longrightarrow> (\<And>bs c. bs \<in> parts_below n' \<Longrightarrow> f bs c = g bs c) \<Longrightarrow>
     render_block rc f n ctx = render_block rc' g n' ctx'"
  using render_block_agree [of n' f g rc' ctx'] by auto

function render_blocks_in :: "RenderContext \<Rightarrow> BlockNode list \<Rightarrow> InlineContext \<Rightarrow> string outcome" where
  "render_blocks_in rc nodes ctx =
     and_then (block_strings rc (\<lambda>n. render_block rc (render_blocks_in rc) n ctx) False False nodes) (\<lambda>bs.
     Inr (join_with [LF, LF] bs))"
  by pat_completeness auto

lemma node_in_size: "n \<in> set ns \<Longrightarrow> bs \<in> parts_below n \<Longrightarrow> size_list size bs < size_list size ns"
proof (induction ns)
  case (Cons m ns)
  then show ?case using parts_below_size [of bs m ns] by (cases "n = m") auto
qed simp

termination render_blocks_in
  by (relation "measure (\<lambda>(rc, ns, ctx). size_list size ns)") (auto intro: node_in_size)

declare render_blocks_in.simps [simp del]

section \<open>A document\<close>

definition render_document ::
  "gfm_crates \<Rightarrow> platform \<Rightarrow> ValidationLimits \<Rightarrow> Document \<Rightarrow> Asset list \<Rightarrow> OutputOptions \<Rightarrow> ResourceLimits \<Rightarrow> string outcome" where
  "render_document cr pf vl d assets opts l =
     (if \<not> eq_ignore_ascii_case (flavor opts) ''gfm'' then
        Inl (ConversionError.Unsupported (''renderer builtin.gfm does not support flavor '' @ flavor opts))
      else
        and_then (plan_assets cr pf vl d assets opts l) (\<lambda>plan.
        and_then (render_blocks_in \<lparr>crates = cr, asset_plan = plan, inventory = assets, output_options = opts,
            document = d\<rparr> (blocks d) Normal) (\<lambda>out.
        let out = trim_blank_lines out in Inr (if out = [] then [] else out @ [LF]))))"

end
