(* ===== verification/Gfm_Grid.thy ===== *)
theory Gfm_Grid
  imports Gfm_Document
begin

text \<open>
  What the exactly sized buffers of a Markdown table hold when they are filled: rows of cells
  between bars, joined by line feeds, with no byte missing or left over.
\<close>

section \<open>Slots and strings\<close>

lemma try_fold_invariant:
  "try_fold f xs s = Inr t \<Longrightarrow> Q s \<Longrightarrow> (\<And>x s s'. x \<in> set xs \<Longrightarrow> f x s = Inr s' \<Longrightarrow> Q s \<Longrightarrow> Q s') \<Longrightarrow> Q t"
proof (induction xs arbitrary: s)
  case (Cons x xs)
  then obtain s' where "f x s = Inr s'" "try_fold f xs s' = Inr t" by (auto simp: and_then_Inr)
  with Cons show ?case by (metis list.set_intros(1,2))
qed simp

lemma try_fold_fold: "try_fold f xs s = Inr t \<Longrightarrow> (\<And>x s t. f x s = Inr t \<Longrightarrow> t = g x s) \<Longrightarrow> t = fold g xs s"
proof (induction xs arbitrary: s)
  case (Cons x xs)
  then obtain s' where "f x s = Inr s'" "try_fold f xs s' = Inr t" by (auto simp: and_then_Inr)
  with Cons.IH Cons.prems(2) show ?case by (metis fold_simps(2))
qed simp

lemma fold_snoc: "fold (\<lambda>x ys. ys @ [f x]) xs ys = ys @ map f xs"
  by (induction xs arbitrary: ys) simp_all

lemma fold_plus: "fold (\<lambda>x n. n + f x) xs k = k + sum_list (map f xs)" for k :: nat
  by (induction xs arbitrary: k) simp_all

lemma slots_push_Inr: "slots_push n xs x = Inr ys \<longleftrightarrow> length xs < n \<and> ys = xs @ [x]"
  by (auto simp: slots_push_def)

lemma slots_into_vec_Inr: "slots_into_vec n xs = Inr ys \<longleftrightarrow> length xs = n \<and> ys = xs"
  by (auto simp: slots_into_vec_def)

lemma fold_slots: "try_fold (\<lambda>v xs. slots_push n xs v) vs acc = Inr r \<Longrightarrow> r = acc @ vs"
  using fold_snoc [of "\<lambda>v. v" vs acc] by (auto simp: slots_push_Inr dest!: try_fold_fold [where g = "\<lambda>v xs. xs @ [v]"])

lemma exact_values_Inr: "exact_values cr n k vs d = Inr xs \<Longrightarrow> xs = vs \<and> length vs = n"
  by (auto simp: exact_values_def and_then_Inr slots_into_vec_Inr dest: fold_slots)

lemma exact_empty_strings_Inr: "exact_empty_strings cr n d = Inr xs \<Longrightarrow> xs = replicate n []"
  by (auto simp: exact_empty_strings_def dest: exact_values_Inr)

lemma exact_string_Inr: "exact_string cr v d = Inr s \<Longrightarrow> s = v"
  by (auto simp: exact_string_def exact_push_def exact_finish_def and_then_Inr split: if_splits)

lemma exact_separators_Inr:
  assumes "exact_separators cr width al = Inr ss"
  shows "ss = map (\<lambda>k. separator (if k < length al then al ! k else AlignNone)) [0..<width]"
proof -
  define sep where "sep k = separator (if k < length al then al ! k else AlignNone)" for k
  have "ss = fold (\<lambda>k xs. xs @ [sep k]) [0..<width] []"
    using assms unfolding exact_separators_def sep_def [symmetric]
    by (auto simp: and_then_Inr slots_into_vec_Inr slots_push_Inr dest!: exact_string_Inr
        intro!: try_fold_fold)
  then show ?thesis by (simp add: fold_snoc sep_def)
qed

lemma grid_loop_length: "grid_loop rc rec width n occ rows own rs = Inr (grid, own') \<Longrightarrow> length grid = n"
  by (induction rs arbitrary: occ rows own) (auto simp: and_then_Inr slots_into_vec_Inr)

section \<open>Rows\<close>

definition row_text :: "string list \<Rightarrow> string" where
  "row_text cs = ''|'' @ concat (map (\<lambda>c. '' '' @ c @ '' |'') cs)"

lemma exact_push_Inr: "exact_push n t s = Inr r \<longleftrightarrow> length s + length t \<le> n \<and> r = s @ t"
  by (auto simp: exact_push_def)

lemma length_row_text: "length (row_text cs) = 1 + sum_list (map (\<lambda>c. length c + 3) cs)"
  by (induction cs) (auto simp: row_text_def)

lemma write_cells_Inr:
  "try_fold (\<lambda>c out. and_then (exact_push n '' '' out) (\<lambda>out. and_then (exact_push n c out) (exact_push n '' |''))) cs out
     = Inr r \<longleftrightarrow> r = out @ concat (map (\<lambda>c. '' '' @ c @ '' |'') cs) \<and> (cs = [] \<or> length r \<le> n)"
proof (induction cs arbitrary: out)
  case (Cons c cs)
  have cell: "and_then (exact_push n '' '' out) (\<lambda>out. and_then (exact_push n c out) (exact_push n '' |'')) = Inr s \<longleftrightarrow>
      s = out @ '' '' @ c @ '' |'' \<and> length s \<le> n" for s
    by (auto simp: and_then_Inr exact_push_Inr)
  have "try_fold (\<lambda>c out. and_then (exact_push n '' '' out) (\<lambda>out. and_then (exact_push n c out) (exact_push n '' |''))) (c # cs) out = Inr r
      \<longleftrightarrow> (\<exists>s. (s = out @ '' '' @ c @ '' |'' \<and> length s \<le> n) \<and> r = s @ concat (map (\<lambda>c. '' '' @ c @ '' |'') cs)
        \<and> (cs = [] \<or> length r \<le> n))"
    unfolding try_fold.simps and_then_Inr [where f = "try_fold g xs" for g xs] cell Cons.IH by (rule refl)
  then show ?case by (cases cs) auto
qed auto

lemma write_row_Inr:
  "write_exact_table_row n cs newline out = Inr r \<longleftrightarrow>
     r = out @ row_text cs @ (if newline then [LF] else []) \<and> length r \<le> n"
proof -
  have "write_exact_table_row n cs newline out = Inr r \<longleftrightarrow>
      (\<exists>s. (length out + 1 \<le> n \<and> s = out @ ''|'') \<and> (\<exists>t. (t = s @ concat (map (\<lambda>c. '' '' @ c @ '' |'') cs)
        \<and> (cs = [] \<or> length t \<le> n)) \<and> (if newline then exact_push n [LF] t else Inr t) = Inr r))"
    unfolding write_exact_table_row_def and_then_Inr [where f = "\<lambda>out. and_then (h out) k" for h k]
      and_then_Inr [where f = "\<lambda>out. if newline then exact_push n [LF] out else Inr out"] write_cells_Inr exact_push_Inr [of n "''|''"]
    by simp
  then show ?thesis by (cases cs) (auto simp: row_text_def exact_push_Inr)
qed

lemma table_row_length_Inr: "table_row_length cs = Inr n \<Longrightarrow> n = length (row_text cs) + 1"
proof -
  assume "table_row_length cs = Inr n"
  then have "n = fold (\<lambda>c n. n + (length c + 3)) cs 2"
    unfolding table_row_length_def by (rule try_fold_fold) (auto split: if_splits)
  then show ?thesis by (simp add: fold_plus length_row_text)
qed

section \<open>Tables\<close>

lemma join_with_Cons: "join_with sep (s # ss) = s @ (if ss = [] then [] else sep @ join_with sep ss)"
  by (cases ss) simp_all

lemma write_body_Inr:
  "write_body_rows n rows out = Inr r \<longleftrightarrow> r = out @ join_with [LF] (map row_text rows) \<and> (rows = [] \<or> length r \<le> n)"
proof (induction rows arbitrary: out)
  case (Cons row rows)
  have "write_body_rows n (row # rows) out = Inr r \<longleftrightarrow>
      (\<exists>s. s = out @ row_text row @ (if rows \<noteq> [] then [LF] else []) \<and> length s \<le> n
        \<and> r = s @ join_with [LF] (map row_text rows) \<and> (rows = [] \<or> length r \<le> n))"
    unfolding write_body_rows.simps and_then_Inr write_row_Inr Cons.IH by blast
  then show ?case by (auto simp: join_with_Cons)
qed auto

definition table_text :: "string list \<Rightarrow> string list \<Rightarrow> string list list \<Rightarrow> string" where
  "table_text hd_row separators body = join_with [LF] (map row_text (hd_row # separators # body))"

lemma length_join_lines: "ss \<noteq> [] \<Longrightarrow> length (join_with [LF] ss) + 1 = sum_list (map (\<lambda>s. length s + 1) ss)"
  by (induction ss rule: induct_list012) auto

lemma table_output_length_Inr:
  assumes "table_output_length h s body = Inr n"
  shows "n = length (table_text h s body)"
proof -
  have rows: "m = k + sum_list (map (\<lambda>r. length (row_text r) + 1) body)"
    if "try_fold (\<lambda>row n. and_then (table_row_length row) (\<lambda>l.
         if 2 ^ 64 \<le> n + l then Inl render_plan_overflow else Inr (n + l))) body k = Inr m" for k m
  proof -
    from that have "m = fold (\<lambda>r n. n + (length (row_text r) + 1)) body k"
      by (rule try_fold_fold) (auto simp: and_then_Inr split: if_splits dest!: table_row_length_Inr)
    then show ?thesis by (simp only: fold_plus)
  qed
  from assms obtain a b m where ab: "table_row_length h = Inr a" "table_row_length s = Inr b" "n = m - 1" "m \<noteq> 0"
    and m: "try_fold (\<lambda>row n. and_then (table_row_length row) (\<lambda>l.
         if 2 ^ 64 \<le> n + l then Inl render_plan_overflow else Inr (n + l))) body (a + b) = Inr m"
    unfolding table_output_length_def by (auto simp: and_then_Inr split: if_splits)
  from rows [OF m] ab have "n + 1 = sum_list (map (\<lambda>s. length s + 1) (map row_text (h # s # body)))"
    by (auto dest!: table_row_length_Inr simp: comp_def)
  with length_join_lines [of "map row_text (h # s # body)"] show ?thesis
    unfolding table_text_def by simp
qed

lemma write_table_Inr: "write_table cr h s body = Inr out \<Longrightarrow> out = table_text h s body"
  by (auto simp: write_table_def and_then_Inr write_row_Inr write_body_Inr exact_finish_def table_text_def
      join_with_Cons split: if_splits)

section \<open>The cells of a grid\<close>

text \<open>Every slot of the grid is empty or holds a rendered cell.\<close>

definition rendered_cells :: "RenderContext \<Rightarrow> block_renderer \<Rightarrow> Cell list \<Rightarrow> string set" where
  "rendered_cells rc rec cs = {v. \<exists>c \<in> set cs. \<exists>t. render_cell rc rec c = Inr (v, t)}"

lemma rendered_cells_append: "rendered_cells rc rec (a @ b) = rendered_cells rc rec a \<union> rendered_cells rc rec b"
  by (auto simp: rendered_cells_def)

lemma grid_cells_entries:
  "grid_cells rc rec width occ column row own cs = Inr (occ', row', own') \<Longrightarrow>
     length row' = length row \<and> set row' \<subseteq> set row \<union> rendered_cells rc rec cs"
proof (induction cs arbitrary: occ column row own)
  case (Cons c cs)
  define k where "k = next_free width occ column"
  from Cons.prems obtain v t own2 where cell: "render_cell rc rec c = Inr (v, t)"
    and rest: "grid_cells rc rec width (fill occ k (k + unat (column_span c)) (row_span c)) (k + unat (column_span c))
       (row[k := v]) own2 cs = Inr (occ', row', own')"
    by (auto simp: and_then_Inr Let_def k_def split: if_splits)
  from Cons.IH [OF rest] cell set_update_subset_insert [of row k v] show ?case
    by (fastforce simp: rendered_cells_def)
qed simp

lemma grid_loop_entries:
  "grid_loop rc rec width n occ rows own rs = Inr (grid, own') \<Longrightarrow> row \<in> set grid \<Longrightarrow>
     row \<in> set rows \<or> length row = width \<and> set row \<subseteq> insert [] (rendered_cells rc rec (concat (map cells rs)))"
proof (induction rs arbitrary: occ rows own)
  case Nil
  then show ?case by (auto simp: and_then_Inr slots_into_vec_Inr)
next
  case (Cons r rs)
  from Cons.prems(1) obtain row0 own1 occ2 row2 own2 where
    row0: "exact_empty_strings (crates rc) width ''table cell-slot allocation failed'' = Inr row0"
    and cells: "grid_cells rc rec width occ 0 row0 own1 (cells r) = Inr (occ2, row2, own2)"
    and rest: "grid_loop rc rec width n (finish_row width occ2) (rows @ [row2]) own2 rs = Inr (grid, own')"
    by (auto simp: and_then_Inr slots_push_Inr)
  have "length row2 = width \<and> set row2 \<subseteq> insert [] (rendered_cells rc rec (cells r))"
    using grid_cells_entries [OF cells] exact_empty_strings_Inr [OF row0] by auto
  with Cons.IH [OF rest Cons.prems(2)] show ?case by (auto simp: rendered_cells_append)
qed

definition cells_of :: "RenderContext \<Rightarrow> block_renderer \<Rightarrow> TableRow list \<Rightarrow> string set" where
  "cells_of rc rec rows = insert [] (rendered_cells rc rec (concat (map cells rows)))"

lemma markdown_table_text:
  assumes "render_markdown_table rc rec rows al width h = Inr (out, own)" and "h \<Longrightarrow> rows \<noteq> []"
  obtains hd_row body where
    "out = table_text hd_row (map (\<lambda>k. separator (if k < length al then al ! k else AlignNone)) [0..<width]) body"
    "\<And>row. row \<in> set (hd_row # body) \<Longrightarrow> length row = width \<and> set row \<subseteq> cells_of rc rec rows"
    "length body = (if h then length rows - 1 else length rows)"
proof -
  from assms(1) obtain grid own1 fallback seps where grid: "table_grid rc rec rows width = Inr (grid, own1)"
    and fb: "(if h then Inr [] else exact_empty_strings (crates rc) width ''table fallback header allocation failed'') = Inr fallback"
    and seps: "exact_separators (crates rc) width al = Inr seps"
    and out: "write_table (crates rc) (if h then hd grid else fallback) seps (if h then tl grid else grid) = Inr out"
    unfolding render_markdown_table_def by (auto simp: and_then_Inr Let_def)
  have g: "length row = width \<and> set row \<subseteq> cells_of rc rec rows" if "row \<in> set grid" for row
  proof -
    from grid obtain occ own0 where "grid_loop rc rec width (length rows) occ [] own0 rows = Inr (grid, own1)"
      unfolding table_grid_def by (auto simp: and_then_Inr)
    from grid_loop_entries [OF this that] show ?thesis by (simp add: cells_of_def)
  qed
  have n: "length grid = length rows"
    using grid by (auto simp: table_grid_def and_then_Inr dest: grid_loop_length)
  show thesis
  proof (rule that)
    show "out = table_text (if h then hd grid else fallback)
        (map (\<lambda>k. separator (if k < length al then al ! k else AlignNone)) [0..<width]) (if h then tl grid else grid)"
      using write_table_Inr [OF out] exact_separators_Inr [OF seps] by simp
    show "length row = width \<and> set row \<subseteq> cells_of rc rec rows"
      if "row \<in> set ((if h then hd grid else fallback) # (if h then tl grid else grid))" for row
    proof (cases h)
      case True
      with assms(2) n have "grid \<noteq> []" by auto
      with that True g show ?thesis by (cases grid) auto
    next
      case False
      then have "fallback = replicate width []" using fb exact_empty_strings_Inr by simp
      with that False g show ?thesis by (auto simp: cells_of_def)
    qed
    show "length (if h then tl grid else grid) = (if h then length rows - 1 else length rows)"
      using n by simp
  qed
qed

section \<open>The blocks of a sequence\<close>

text \<open>What is written for a sequence is one block's text each, after a break between two lists.\<close>

lemma block_strings_origin:
  "block_strings rc f prev hidden ns = Inr bs \<Longrightarrow> b \<in> set bs \<Longrightarrow>
     \<exists>n \<in> set ns. \<exists>s. f n = Inr s \<and> (b = s \<or> is_list n \<and> b = LIST_BREAK @ s)"
proof (induction ns arbitrary: prev hidden bs)
  case (Cons n ns)
  have IH: "block_strings rc f prev hidden ns = Inr cs \<Longrightarrow> b \<in> set cs \<Longrightarrow> ?case" for prev hidden cs
    using Cons.IH by fastforce
  show ?case
  proof (cases "hidden_heading (asset_mode (output_options rc)) n ns \<or> hidden \<and> is_notes_body n")
    case False
    with Cons.prems(1) obtain s where s: "f n = Inr s"
      and rest: "(if s = [] then block_strings rc f prev False ns
        else and_then (block_strings rc f (is_list n) False ns) (\<lambda>bs.
          Inr ((if prev \<and> is_list n then LIST_BREAK @ s else s) # bs))) = Inr bs"
      by (auto simp: and_then_Inr)
    show ?thesis
    proof (cases "s = []")
      case True
      with rest IH Cons.prems(2) show ?thesis by simp
    next
      case False
      with rest obtain cs where cs: "block_strings rc f (is_list n) False ns = Inr cs"
        "bs = (if prev \<and> is_list n then LIST_BREAK @ s else s) # cs"
        by (auto simp: and_then_Inr)
      from Cons.prems(2) cs(2) consider "b = (if prev \<and> is_list n then LIST_BREAK @ s else s)" | "b \<in> set cs" by auto
      then show ?thesis
      proof cases
        case 1
        with s show ?thesis by (intro bexI [of _ n] exI [of _ s]) auto
      qed (rule IH [OF cs(1)])
    qed
  qed (use Cons.prems IH in \<open>auto split: if_splits\<close>)
qed simp

end
