(* ===== verification/Utf8.thy ===== *)
theory Utf8
  imports Gfm_Text
begin

text \<open>
  UTF-8 strings as sequences of encoded scalar values: a string is valid iff it is a concatenation
  of encodings, so it may be cut and joined at their borders.
\<close>

definition encodes :: "string \<Rightarrow> nat \<Rightarrow> bool" where
  "encodes p v \<longleftrightarrow> decode_scalar p = Some (v, length p)"

inductive utf8 :: "string \<Rightarrow> bool" where
  utf8_Nil: "utf8 []"
| utf8_piece: "encodes p v \<Longrightarrow> utf8 s \<Longrightarrow> utf8 (p @ s)"

lemma decode_scalar_take: "decode_scalar s = Some (v, n) \<Longrightarrow> encodes (take n s) v"
  by (cases s) (auto simp: encodes_def Let_def split: if_splits list.splits)

lemma decode_scalar_append: "encodes p v \<Longrightarrow> decode_scalar (p @ s) = Some (v, length p)"
  by (cases p) (auto simp: encodes_def Let_def split: if_splits list.splits)

lemma encodes_cases:
  "encodes p v \<Longrightarrow> (\<exists>c. p = [c] \<and> byte c < 128 \<and> v = byte c) \<or> v \<ge> 128 \<and> (\<forall>c \<in> set p. 128 \<le> byte c)"
  by (cases p) (auto simp: encodes_def Let_def continuation_def split: if_splits list.splits)

lemma encodes_not_Nil: "encodes p v \<Longrightarrow> p \<noteq> []"
  by (auto simp: encodes_def)

lemma encodes_ascii: "byte c < 128 \<Longrightarrow> encodes [c] (byte c)"
  by (simp add: encodes_def)

section \<open>Pieces\<close>

lemma scalar_pieces_append: "encodes p v \<Longrightarrow> scalar_pieces (p @ s) = (v, p) # scalar_pieces s"
  using decode_scalar_append [of p v s] encodes_not_Nil [of p v]
  by (simp add: scalar_pieces.simps [of "p @ s"])

lemma scalar_piece_encodes: "(v, p) \<in> set (scalar_pieces s) \<Longrightarrow> encodes p v \<and> set p \<subseteq> set s"
proof (induction s rule: scalar_pieces.induct)
  case (1 s)
  show ?case
  proof (cases "decode_scalar s")
    case None
    with "1.prems" show ?thesis by (simp add: scalar_pieces.simps [of s] split: if_splits)
  next
    case (Some q)
    obtain w n where q: "q = (w, n)" by (cases q)
    have ne: "s \<noteq> []" using Some by auto
    from "1.prems" Some ne q consider "(v, p) = (w, take n s)" | "(v, p) \<in> set (scalar_pieces (drop n s))"
      by (auto simp: scalar_pieces.simps [of s])
    then show ?thesis
    proof cases
      case 1
      with decode_scalar_take [of s w n] Some q show ?thesis by (auto dest: in_set_takeD)
    next
      case 2
      from "1.IH" [OF ne Some q [symmetric] this] q show ?thesis by (auto dest: in_set_dropD)
    qed
  qed
qed

lemma utf8_concat: "(\<And>p. p \<in> set ps \<Longrightarrow> utf8 p) \<Longrightarrow> utf8 (concat ps)"
proof -
  have append: "utf8 a \<Longrightarrow> utf8 b \<Longrightarrow> utf8 (a @ b)" for a b
    by (induction rule: utf8.induct) (auto intro: utf8_piece)
  show "(\<And>p. p \<in> set ps \<Longrightarrow> utf8 p) \<Longrightarrow> utf8 (concat ps)"
    by (induction ps) (auto intro: append utf8_Nil)
qed

lemma utf8_append [intro]: "utf8 a \<Longrightarrow> utf8 b \<Longrightarrow> utf8 (a @ b)"
  using utf8_concat [of "[a, b]"] by auto

lemma utf8_encodes: "encodes p v \<Longrightarrow> utf8 p"
  using utf8_piece [of p v "[]"] utf8_Nil by simp

lemma utf8_ascii: "list_all (\<lambda>c. byte c < 128) s \<Longrightarrow> utf8 s"
proof (induction s)
  case (Cons c s)
  then show ?case using utf8_piece [OF encodes_ascii [of c]] by simp
qed (simp add: utf8_Nil)

lemma utf8_pieces: "set ps \<subseteq> set (scalar_pieces s) \<Longrightarrow> utf8 (concat (map snd ps))"
  by (rule utf8_concat) (use scalar_piece_encodes utf8_encodes in fastforce)

lemma utf8_scalar_pieces: "utf8 s \<Longrightarrow> concat (map snd (scalar_pieces s)) = s"
  by (induction rule: utf8.induct) (simp_all add: scalar_pieces_append)

lemma utf8_iff_pieces: "utf8 s \<longleftrightarrow> concat (map snd (scalar_pieces s)) = s"
  using utf8_scalar_pieces utf8_pieces [of "scalar_pieces s" s] by auto

lemma valid_utf8_iff: "valid_utf8 s \<longleftrightarrow> utf8 s"
proof
  have "utf8 s" if "char_indices_from i s = Some r" for i r
    using that
  proof (induction i s arbitrary: r rule: char_indices_from.induct)
    case (1 i s)
    show ?case
    proof (cases "s = []")
      case False
      with "1.prems" obtain v n r' where d: "decode_scalar s = Some (v, n)"
        and "char_indices_from (i + n) (drop n s) = Some r'"
        by (auto simp: char_indices_from.simps [of i s] split: option.splits)
      then have "utf8 (drop n s)" using "1.IH" False by auto
      from utf8_piece [OF decode_scalar_take [OF d] this] show ?thesis by simp
    qed (simp add: utf8_Nil)
  qed
  then show "valid_utf8 s \<Longrightarrow> utf8 s"
    by (auto simp: valid_utf8_def from_utf8_def)
next
  have "\<exists>r. char_indices_from i s = Some r" if "utf8 s" for i
    using that
  proof (induction arbitrary: i rule: utf8.induct)
    case (utf8_piece p v s)
    then obtain r where "char_indices_from (i + length p) s = Some r" by blast
    then show ?case
      using decode_scalar_append [OF utf8_piece.hyps(1), of s]
      by (simp add: char_indices_from.simps [of i "p @ s"])
  qed simp
  then show "utf8 s \<Longrightarrow> valid_utf8 s"
    by (auto simp: valid_utf8_def from_utf8_def)
qed

section \<open>Replacement keeps UTF-8\<close>

lemma utf8_concat_map:
  assumes "utf8 s" and "\<And>c. f c = [c] \<or> byte c < 128 \<and> list_all (\<lambda>d. byte d < 128) (f c)"
  shows "utf8 (concat (map f s))"
  using assms(1)
proof (induction rule: utf8.induct)
  case (utf8_piece p v s)
  have "utf8 (concat (map f p))"
  proof (cases "\<exists>c. p = [c] \<and> byte c < 128")
    case True
    then obtain c where "p = [c]" "byte c < 128" by blast
    then show ?thesis using assms(2) [of c] utf8_ascii [of "f c"] utf8_ascii [of "[c]"] by auto
  next
    case False
    with encodes_cases [OF utf8_piece.hyps(1)] have high: "\<forall>c \<in> set p. 128 \<le> byte c" by auto
    have "f c = [c]" if "c \<in> set p" for c
      using assms(2) [of c] high that by fastforce
    then have "concat (map f p) = p" by (induction p) auto
    with utf8_encodes [OF utf8_piece.hyps(1)] show ?thesis by simp
  qed
  with utf8_piece show ?case by auto
qed (simp add: utf8_Nil)

lemma utf8_tl: "utf8 (c # s) \<Longrightarrow> byte c < 128 \<Longrightarrow> utf8 s"
proof (induction "c # s" rule: utf8.induct)
  case (utf8_piece p v t)
  then show ?case using encodes_cases [OF utf8_piece.hyps(1)] by (cases p) (auto simp: encodes_def)
qed

lemma utf8_suffix: "utf8 (a @ c # s) \<Longrightarrow> byte c < 128 \<Longrightarrow> utf8 a \<and> utf8 s"
proof (induction "a @ c # s" arbitrary: a rule: utf8.induct)
  case (utf8_piece p v t)
  show ?case
  proof (cases "length p \<le> length a")
    case True
    with utf8_piece.hyps(4) obtain a' where a: "a = p @ a'" "t = a' @ c # s"
      by (metis append_eq_append_conv_if append_take_drop_id)
    with utf8_piece.hyps(3) utf8_piece.prems have "utf8 a' \<and> utf8 s" by blast
    with a utf8_encodes [OF utf8_piece.hyps(1)] show ?thesis by auto
  next
    case False
    then have "(p @ t) ! length a = p ! length a" by (simp add: nth_append)
    moreover have "(a @ c # s) ! length a = c" by simp
    ultimately have "p ! length a = c" using utf8_piece.hyps(4) by simp
    with False have "c \<in> set p" by (metis not_le nth_mem)
    with utf8_piece.prems encodes_cases [OF utf8_piece.hyps(1)] obtain d where "p = [d]" by fastforce
    moreover from False this have "a = []" by (cases a) auto
    ultimately show ?thesis using utf8_piece.hyps by (simp add: utf8_Nil)
  qed
qed simp

end
