(* ===== verification/Gfm_Invariant.thy ===== *)
theory Gfm_Invariant
  imports Gfm_Grid Utf8
begin

text \<open>
  What the renderer keeps of its text, as an interface: a predicate on strings that the text layer
  establishes for its results is kept by every inline, block and document. It is interpreted below
  for line endings and for UTF-8.
\<close>

section \<open>Plain text\<close>

definition plain :: "string \<Rightarrow> bool" where
  "plain s \<longleftrightarrow> list_all (\<lambda>c. byte c < 128 \<and> c \<noteq> CR) s"

lemma plain_simps [simp]:
  "plain []" "plain (c # s) \<longleftrightarrow> byte c < 128 \<and> c \<noteq> CR \<and> plain s" "plain (s @ t) \<longleftrightarrow> plain s \<and> plain t"
  by (auto simp: plain_def)

lemma plain_replicate [simp]: "plain (replicate n c) \<longleftrightarrow> n = 0 \<or> byte c < 128 \<and> c \<noteq> CR"
  by (induction n) auto

lemma plain_concat: "list_all plain ss \<Longrightarrow> plain (concat ss)"
  by (induction ss) auto

lemma plain_show_nat [simp]: "plain (show_nat n)"
proof (induction n rule: show_nat.induct)
  case (1 n)
  have "plain [digit_char d]" if "d < 10" for d
  proof -
    have "byte (digit_char d) = 48 + d" using that by (simp add: digit_char_def)
    then show ?thesis using that char_eq_byte [of "digit_char d" CR] by auto
  qed
  with 1 show ?case by (cases "n < 10") (auto simp: show_nat.simps [of n])
qed

lemma plain_show_word [simp]: "plain (show_word w)"
  by (simp add: show_word_def)

lemma plain_hex_digit: "v < 16 \<Longrightarrow> plain [hex_digit v b]"
proof -
  assume "v < 16"
  then have "hex_digit v b \<in> set ''0123456789ABCDEFabcdef''"
    by (auto simp: hex_digit_def nth_Cons' split: if_splits)
  then show ?thesis by auto
qed

lemma byte_halves: "byte c div 16 < 16" "byte c mod 16 < (16 :: nat)"
  by (rule less_mult_imp_div_less) simp_all

lemma plain_percent_byte: "plain (percent_byte c)"
  using plain_hex_digit [OF byte_halves(1)] plain_hex_digit [OF byte_halves(2)] by (simp add: percent_byte_def)

lemma plain_hex_byte: "plain (hex_byte c)"
  using plain_hex_digit [OF byte_halves(1)] plain_hex_digit [OF byte_halves(2)] by (simp add: hex_byte_def)

lemma plain_footnote_label [simp]: "plain (footnote_label s)"
  by (auto simp: footnote_label_def list_all_iff plain_hex_byte intro!: plain_concat)

lemma plain_timestamp [simp]: "plain (timestamp t)"
  by (simp add: timestamp_def pad_number_def Let_def)

lemma plain_quoted_number [simp]: "plain (quoted_number n)"
  by (simp add: quoted_number_def)

lemma plain_separator [simp]: "plain (separator a)"
  by (cases a) (simp_all add: separator_def)

section \<open>The strings of a document\<close>

fun inline_strings :: "Inline list \<Rightarrow> string list" where
  "inline_strings [] = []"
| "inline_strings (x # xs) =
     (case x of
        Text v _ \<Rightarrow> [v] | SourceText v _ _ \<Rightarrow> [v] | OcrText v _ _ _ \<Rightarrow> [v] | Code v \<Rightarrow> [v] | Formula v \<Rightarrow> [v]
      | Link target content \<Rightarrow> target # inline_strings content
      | FootnoteReference v \<Rightarrow> [v] | LineBreak \<Rightarrow> []) @ inline_strings xs"

fun block_strings_of :: "Block \<Rightarrow> string list" where
  "block_strings_of (Paragraph xs) = inline_strings xs"
| "block_strings_of (Heading _ xs) = inline_strings xs"
| "block_strings_of (CodeBlock language t) = t # (case language of None \<Rightarrow> [] | Some v \<Rightarrow> [v])"
| "block_strings_of (BlockFormula v) = [v]"
| "block_strings_of (Image _ alt) = (case alt of None \<Rightarrow> [] | Some v \<Rightarrow> [v])"
| "block_strings_of (Slide _ heading _) = (case heading of None \<Rightarrow> [] | Some v \<Rightarrow> [v])"
| "block_strings_of (Sheet v _) = [v]"
| "block_strings_of (TimedSegment _ speaker _ _ xs) = (case speaker of None \<Rightarrow> [] | Some v \<Rightarrow> [v]) @ inline_strings xs"
| "block_strings_of _ = []"

definition nodes_satisfy :: "(string \<Rightarrow> bool) \<Rightarrow> BlockNode list \<Rightarrow> bool" where
  "nodes_satisfy ok ns \<longleftrightarrow> (\<forall>n \<in> set (all_nodes ns). \<forall>s \<in> set (block_strings_of (node_block n)). ok s)"

lemma all_nodes_member: "n \<in> set ns \<Longrightarrow> n \<in> set (all_nodes ns)"
  by (induction ns) auto

lemma all_nodes_children: "n \<in> set ns \<Longrightarrow> cs \<in> set (child_lists (node_block n)) \<Longrightarrow> set (all_nodes cs) \<subseteq> set (all_nodes ns)"
  by (induction ns) auto

lemma all_nodes_single: "m \<in> set ns \<Longrightarrow> set (all_nodes [m]) \<subseteq> set (all_nodes ns)"
  by (induction ns) auto

definition asset_satisfies :: "(string \<Rightarrow> bool) \<Rightarrow> Asset \<Rightarrow> bool" where
  "asset_satisfies ok a \<longleftrightarrow> ok (media_type a) \<and> (\<forall>u. external_uri a = Some u \<longrightarrow> ok u)"

text \<open>What the assets, the plan and the metadata contribute to the output.\<close>

definition context_satisfies :: "(string \<Rightarrow> bool) \<Rightarrow> RenderContext \<Rightarrow> bool" where
  "context_satisfies ok rc \<longleftrightarrow>
     (\<forall>kv \<in> set (properties (metadata (document rc))). ok (snd kv))
     \<and> (\<forall>bs. ok (base64_encode (crates rc) bs))
     \<and> (\<forall>i r. plan_reference (asset_plan rc) i = Some r \<longrightarrow> asset_satisfies ok (inventory rc ! ref_source r))
     \<and> (\<forall>i u. plan_uri (asset_plan rc) i = Some u \<longrightarrow> ok u)"

lemma inline_strings_text_run:
  "text_run marks xs = (t, rest) \<Longrightarrow> \<exists>ts. t = concat ts \<and> set ts \<subseteq> set (inline_strings xs)
     \<and> set (inline_strings rest) \<subseteq> set (inline_strings xs)"
proof (induction xs arbitrary: t rest)
  case (Cons x xs)
  show ?case
  proof (cases "\<exists>v ms. text_parts x = Some (v, ms) \<and> same_marks marks ms")
    case True
    then obtain v ms where x: "text_parts x = Some (v, ms)" "same_marks marks ms" by blast
    obtain t' rest' where run: "text_run marks xs = (t', rest')" by (cases "text_run marks xs")
    from Cons.IH [OF this] obtain ts where ts: "t' = concat ts" "set ts \<subseteq> set (inline_strings xs)"
      "set (inline_strings rest') \<subseteq> set (inline_strings xs)" by blast
    have "v \<in> set (inline_strings (x # xs))" using x(1) by (cases x) auto
    moreover have "t = concat (v # ts)" "rest = rest'" using Cons.prems x run ts(1) by auto
    ultimately show ?thesis using ts(2,3) by (intro exI [of _ "v # ts"]) auto
  next
    case False
    with Cons.prems have "t = []" "rest = x # xs" by (auto split: option.splits prod.splits if_splits)
    then show ?thesis by (intro exI [of _ "[]"]) simp
  qed
qed simp

section \<open>Inlines\<close>

text \<open>
  What inlines need of a predicate on rendered text: \<open>ok\<close> is what is known of the document's strings,
  \<open>P\<close> what is kept of rendered text in the context \<open>ctx\<close>.
\<close>

definition inline_literals :: "string set" where
  "inline_literals = {''['', ''](<'', ''>)'', ''$'', ''[^'', '']''}"

locale inline_invariant =
  fixes ok P :: "string \<Rightarrow> bool" and ctx :: InlineContext
  assumes P_Nil: "P []"
    and P_append: "P a \<Longrightarrow> P b \<Longrightarrow> P (a @ b)"
    and ok_Nil: "ok []"
    and ok_append: "ok a \<Longrightarrow> ok b \<Longrightarrow> ok (a @ b)"
    and P_literals: "s \<in> inline_literals \<Longrightarrow> P s"
    and P_break: "P (if ctx = Normal then ''  '' @ [LF] else ''<br>'')"
    and P_label: "P (footnote_label v)"
    and P_code_span: "ok v \<Longrightarrow> P (render_code_span v ctx)"
    and P_destination: "ok v \<Longrightarrow> P (escape_destination v ctx)"
    and P_marked: "ok v \<Longrightarrow> P (render_marked_text cr v marks ctx previous next_char)"
begin

lemma ok_concat: "(\<And>s. s \<in> set ss \<Longrightarrow> ok s) \<Longrightarrow> ok (concat ss)"
  by (induction ss) (auto intro: ok_append ok_Nil)

lemma P_inlines_from:
  "c = ctx \<Longrightarrow> render_inlines_from cr c out xs = Inr r \<Longrightarrow> P out \<Longrightarrow> (\<And>s. s \<in> set (inline_strings xs) \<Longrightarrow> ok s) \<Longrightarrow> P r"
proof (induction cr c out xs arbitrary: r rule: render_inlines_from.induct)
  case (2 cr c out x xs)
  note [simp] = "2.prems"(1)
  show ?case
  proof (cases "text_parts x")
    case (Some vm)
    obtain v marks where vm: "vm = (v, marks)" by (cases vm)
    obtain t rest where run: "text_run marks xs = (t, rest)" by (cases "text_run marks xs")
    from inline_strings_text_run [OF this] obtain ts where ts: "t = concat ts" "set ts \<subseteq> set (inline_strings xs)"
      "set (inline_strings rest) \<subseteq> set (inline_strings xs)" by blast
    have "ok t" unfolding ts(1) using "2.prems"(4) ts(2) by (intro ok_concat) (auto split: Inline.splits)
    moreover have "ok v" using Some vm by (intro "2.prems"(4)) (cases x; auto)
    ultimately have "P (out @ render_marked_text cr (v @ t) marks c (last_char out) (following_char rest))"
      unfolding "2.prems"(1) using "2.prems"(3) by (intro P_append P_marked ok_append)
    from "2.IH"(3) [OF Some vm [symmetric] run [symmetric] "2.prems"(1) _ this] show ?thesis
      using "2.prems"(2,4) Some vm run ts(3) by auto
  next
    case None
    have "P s" if "(case x of Code v \<Rightarrow> Inr (render_code_span v ctx)
        | Link target content \<Rightarrow> and_then (validate_link_target target) (\<lambda>_.
            and_then (render_inlines_from cr ctx [] content) (\<lambda>body.
            Inr (''['' @ body @ ''](<'' @ escape_destination target ctx @ ''>)'')))
        | Formula v \<Rightarrow> Inr (''$'' @ render_code_span v ctx @ ''$'')
        | FootnoteReference lab \<Rightarrow> Inr (''[^'' @ footnote_label lab @ '']'')
        | _ \<Rightarrow> Inr (if ctx = Normal then ''  '' @ [LF] else ''<br>'')) = Inr s" for s
    proof (cases x)
      case (Link target content)
      with that obtain body where body: "render_inlines_from cr ctx [] content = Inr body"
        and v: "validate_link_target target = Inr ()"
        and s: "s = ''['' @ body @ ''](<'' @ escape_destination target ctx @ ''>)''"
        by (auto simp: and_then_Inr)
      have "P body" using "2.IH"(1) [OF None Link] v body "2.prems"(4) Link P_Nil by auto
      moreover have "P (escape_destination target ctx)" using "2.prems"(4) Link by (intro P_destination) auto
      ultimately show ?thesis unfolding s
        by - (assumption | rule P_append | (rule P_literals, simp add: inline_literals_def))+
    next
      case (Formula v)
      with that have s: "s = ''$'' @ render_code_span v ctx @ ''$''" by simp
      show ?thesis unfolding s using "2.prems"(4) Formula by (intro P_append P_literals P_code_span) (simp_all add: inline_literals_def)
    next
      case (FootnoteReference v)
      with that have s: "s = ''[^'' @ footnote_label v @ '']''" by simp
      show ?thesis unfolding s by (intro P_append P_literals P_label) (simp_all add: inline_literals_def)
    qed (use that "2.prems"(4) P_break None in \<open>auto intro!: P_code_span\<close>)
    moreover obtain s where "(case x of Code v \<Rightarrow> Inr (render_code_span v ctx)
        | Link target content \<Rightarrow> and_then (validate_link_target target) (\<lambda>_.
            and_then (render_inlines_from cr ctx [] content) (\<lambda>body.
            Inr (''['' @ body @ ''](<'' @ escape_destination target ctx @ ''>)'')))
        | Formula v \<Rightarrow> Inr (''$'' @ render_code_span v ctx @ ''$'')
        | FootnoteReference lab \<Rightarrow> Inr (''[^'' @ footnote_label lab @ '']'')
        | _ \<Rightarrow> Inr (if ctx = Normal then ''  '' @ [LF] else ''<br>'')) = Inr s"
      and "render_inlines_from cr ctx (out @ s) xs = Inr r"
      using "2.prems"(2) None by (auto simp: and_then_Inr)
    ultimately show ?thesis
      using "2.IH"(2) [OF None, of s r] "2.prems"(3,4) P_append by (cases x) auto
  qed
qed simp

lemma P_inlines: "render_inlines cr xs ctx = Inr r \<Longrightarrow> (\<And>s. s \<in> set (inline_strings xs) \<Longrightarrow> ok s) \<Longrightarrow> P r"
  unfolding render_inlines_def by (erule P_inlines_from [OF refl]) (simp_all add: P_Nil)

end

section \<open>The interface\<close>

text \<open>
  \<open>ok\<close> is what is known of the document's strings, \<open>P\<close> what is kept of rendered text; \<open>raw\<close> says
  whether an input string may be written as it is, as HTML tables do with code.
\<close>

locale text_invariant =
  fixes ok P :: "string \<Rightarrow> bool" and raw :: bool
  assumes P_plain: "plain s \<Longrightarrow> P s"
    and P_append: "P a \<Longrightarrow> P b \<Longrightarrow> P (a @ b)"
    and P_dash: "P [CHR 0xE2, CHR 0x80, CHR 0x93]"
    and P_ok: "P s \<Longrightarrow> ok s"
    and ok_append: "ok a \<Longrightarrow> ok b \<Longrightarrow> ok (a @ b)"
    and ok_trim: "ok s \<Longrightarrow> ok (trim s)"
    and P_normalize: "ok s \<Longrightarrow> P (normalize_lf s)"
    and P_map: "P s \<Longrightarrow> (\<And>c. f c = [c] \<or> byte c < 128 \<and> plain (f c)) \<Longrightarrow> P (concat (map f s))"
    and P_line_pairs: "P s \<Longrightarrow> P (replace_pair LF LF ''<br><br>'' s)"
    and P_trim: "P s \<Longrightarrow> P (trim s)"
    and P_leading: "P s \<Longrightarrow> P (take (length s - length (trim_start s)) s)"
    and P_trailing: "P s \<Longrightarrow> P (drop (length (trim_end s)) s)"
    and P_encode: "ok s \<Longrightarrow> \<not> safe CR \<Longrightarrow> P (encode_bytes s safe)"
    and P_tl: "P (c # s) \<Longrightarrow> byte c < 128 \<Longrightarrow> P s"
    and P_trim_end: "P s \<Longrightarrow> P (trim_end_char LF s)"
    and P_merge: "ok v \<Longrightarrow> line \<in> set (str_lines v) \<Longrightarrow> parse_merge_span line \<noteq> None \<Longrightarrow> P line"
    and P_raw: "raw \<Longrightarrow> ok s \<Longrightarrow> P s"
begin

lemma P_Cons: "byte c < 128 \<Longrightarrow> c \<noteq> CR \<Longrightarrow> P s \<Longrightarrow> P (c # s)"
  using P_append [OF P_plain [of "[c]"], of s] by simp

lemma P_Nil [simp]: "P []"
  by (rule P_plain) simp

lemmas P_parts = P_append P_Cons

lemma P_replace_char: "P s \<Longrightarrow> byte c < 128 \<Longrightarrow> plain r \<Longrightarrow> P (replace_char c r s)"
  unfolding replace_char_def by (rule P_map) auto

lemma P_single_line: "ok s \<Longrightarrow> P (single_line s)"
  unfolding single_line_def by (intro P_replace_char P_normalize) auto

lemma P_escape_text: "P s \<Longrightarrow> P (escape_text s ctx)"
  unfolding escape_text_def
  by (rule P_map) (auto simp: escape_text_char_def escaped_punctuation_def)

lemma P_escape_html: "P s \<Longrightarrow> P (escape_html_text s)" "P s \<Longrightarrow> P (escape_html_code s ctx)"
  unfolding escape_html_text_def escape_html_code_def
  by (auto intro!: P_map simp: escape_html_char_def split: if_splits)

lemma P_image_alt: "P s \<Longrightarrow> P (escape_image_alt s)"
  unfolding escape_image_alt_def by (intro P_replace_char P_escape_text) auto

lemma P_indent: "P s \<Longrightarrow> P (indent_continuation s n)" "P s \<Longrightarrow> P (indent_all s n)"
  unfolding indent_all_def indent_continuation_def
  by (auto intro!: P_replace_char P_append intro: P_plain)

lemma P_with_body: "P h \<Longrightarrow> P b \<Longrightarrow> P (with_body h b)"
  unfolding with_body_def by (auto intro!: P_parts)

lemma P_destination: "ok s \<Longrightarrow> P (escape_destination s ctx)"
  unfolding escape_destination_def
  by (rule P_encode, rule P_ok, rule P_replace_char, rule P_normalize)
    (auto simp: destination_safe_def is_ascii_control_def)

lemma P_generated: "ok s \<Longrightarrow> P (escape_generated_destination s)"
  unfolding escape_generated_destination_def
  by (intro P_encode) (auto simp: destination_safe_def is_ascii_control_def)

lemma P_info: "ok s \<Longrightarrow> P (sanitize_info_string s)"
  unfolding sanitize_info_string_def
  by (intro P_encode ok_trim) (auto simp: is_ascii_alphanumeric_def is_ascii_alphabetic_def is_ascii_digit_def
      is_ascii_uppercase_def is_ascii_lowercase_def)

lemma P_fence: "ok v \<Longrightarrow> (\<And>i. info = Some i \<Longrightarrow> P i) \<Longrightarrow> P (render_fence v info)"
  unfolding render_fence_def Let_def
  by (auto intro!: P_parts P_normalize P_plain [of "replicate n c" for n c] split: option.split)

lemma P_code_span: "ok v \<Longrightarrow> P (render_code_span v ctx)"
  unfolding render_code_span_def Let_def
  by (auto intro!: P_parts P_single_line P_escape_html P_replace_char P_plain [of "replicate n c" for n c])

lemma plain_wrappers:
  "plain (concat (map fst (rev (wrappers marks native))))" "plain (concat (map snd (wrappers marks native)))"
  by (simp_all add: wrappers_def wrapper_order_def)

lemma P_marked: "ok v \<Longrightarrow> P (render_marked_text cr v marks ctx pr nx)"
  unfolding render_marked_text_def Let_def
  by (auto intro!: P_append P_escape_text P_single_line P_trim P_leading P_trailing P_plain [OF plain_wrappers(1)]
      P_plain [OF plain_wrappers(2)])

end

sublocale text_invariant \<subseteq> inline: inline_invariant ok P ctx for ctx
proof (unfold_locales, goal_cases)
  case (5 s)
  then show ?case by (auto simp: inline_literals_def intro!: P_plain)
qed (auto intro: P_append ok_append P_plain P_code_span P_destination P_marked P_ok)

context text_invariant
begin

lemma P_tagged:
  assumes "P s"
  shows "P (if m \<in> set marks then ''<'' @ html_tag m @ ''>'' @ s @ ''</'' @ html_tag m @ ''>'' else s)"
proof -
  have "plain (html_tag m)" by (cases m) simp_all
  then have "P (html_tag m)" by (rule P_plain)
  with assms show ?thesis by (simp add: P_append P_plain P_Cons)
qed

lemma P_fold: "(\<And>x s. P s \<Longrightarrow> P (f x s)) \<Longrightarrow> P s \<Longrightarrow> P (fold f xs s)"
  by (induction xs arbitrary: s) simp_all

lemma P_html_text: "ok v \<Longrightarrow> P (html_text v marks)"
  unfolding html_text_def by (intro P_fold P_tagged P_replace_char P_escape_html P_normalize) auto

lemma P_html_inlines:
  assumes raw
  shows "render_html_inlines xs = Inr r \<Longrightarrow> (\<And>s. s \<in> set (inline_strings xs) \<Longrightarrow> ok s) \<Longrightarrow> P r"
proof (induction xs arbitrary: r rule: render_html_inlines.induct)
  case (2 x xs)
  from "2.prems"(1) obtain s t where
    x: "(case x of Text v marks \<Rightarrow> Inr (html_text v marks)
        | SourceText v marks _ \<Rightarrow> Inr (html_text v marks)
        | OcrText v marks _ _ \<Rightarrow> Inr (html_text v marks)
        | Code v \<Rightarrow> Inr (''<code>'' @ escape_html_code v Normal @ ''</code>'')
        | Formula v \<Rightarrow> Inr (''<code>'' @ escape_html_code v Normal @ ''</code>'')
        | Link target content \<Rightarrow>
            and_then (validate_link_target target) (\<lambda>_.
            and_then (render_html_inlines content) (\<lambda>body.
            Inr (''<a href='' @ [QUOTE] @ escape_html_attribute target @ [QUOTE] @ ''>'' @ body @ ''</a>'')))
        | FootnoteReference lab \<Rightarrow> Inr (''[^'' @ escape_html_text lab @ '']'')
        | LineBreak \<Rightarrow> Inr ''<br>'') = Inr s"
    and xs: "render_html_inlines xs = Inr t" and r: "r = s @ t"
    by (auto simp: and_then_Inr)
  have "P s"
  proof (cases x)
    case (Link target content)
    with x obtain body where body: "render_html_inlines content = Inr body"
      and s: "s = ''<a href='' @ [QUOTE] @ escape_html_attribute target @ [QUOTE] @ ''>'' @ body @ ''</a>''"
      and v: "validate_link_target target = Inr ()"
      by (auto simp: and_then_Inr)
    have "P body" using "2.IH" Link v body "2.prems"(2) by auto
    moreover have "P (escape_html_attribute target)"
      using "2.prems"(2) Link unfolding escape_html_attribute_def
      by (intro P_replace_char P_escape_html P_raw [OF assms]) auto
    ultimately show ?thesis unfolding s by (auto intro!: P_parts)
  qed (use x "2.prems"(2) in \<open>auto intro!: P_parts P_html_text P_escape_html intro: P_raw [OF assms]\<close>)
  moreover have "P t" using "2.IH"(2) x xs "2.prems"(2) by (cases x) auto
  ultimately show ?case unfolding r by (rule P_append)
qed simp

lemma P_protect: "P s \<Longrightarrow> P (protect_paragraph_indent s)"
proof (cases s)
  case (Cons c t)
  assume s: "P s"
  have "P t" if "c = CHR '' '' \<or> c = CHR 0x09" using s Cons that by (auto intro: P_tl)
  with s Cons show ?thesis by (auto simp: protect_paragraph_indent_def Let_def intro!: P_parts)
qed (simp add: protect_paragraph_indent_def blank_def chars_def from_utf8_def)

section \<open>Cells\<close>

lemma P_flatten: "P s \<Longrightarrow> P (flatten_cell s)"
  unfolding flatten_cell_def by (intro P_replace_char P_line_pairs P_normalize P_ok) auto

lemma P_bold_cell: "P s \<Longrightarrow> P (bold_cell s)"
  unfolding bold_cell_def by (auto intro!: P_parts P_trim)

lemma P_cell_text:
  assumes "P s"
  shows "P (cell_text c s)"
proof -
  have "P (''<span data-rowspan='' @ quoted_number (row_span c) @ '' data-colspan='' @ quoted_number (column_span c)
            @ ''>'' @ s @ ''</span>'')"
    using assms by (intro P_append P_plain [OF plain_quoted_number]) (simp_all add: P_plain)
  with assms show ?thesis by (simp add: cell_text_def Let_def P_bold_cell)
qed

lemma P_render_cell: "render_cell rc rec c = Inr (v, t) \<Longrightarrow> (\<And>s. rec (cell_blocks c) TableCell = Inr s \<Longrightarrow> P s) \<Longrightarrow> P v"
  by (auto simp: render_cell_def and_then_Inr dest!: exact_string_Inr intro: P_cell_text P_flatten)

section \<open>Tables\<close>

text \<open>What a nested renderer must give: \<open>P\<close> of all it returns for these blocks.\<close>

definition gives :: "block_renderer \<Rightarrow> BlockNode list \<Rightarrow> bool" where
  "gives rec bs \<longleftrightarrow> (\<forall>ctx s. rec bs ctx = Inr s \<longrightarrow> P s)"

lemma P_join: "(\<And>s. s \<in> set ss \<Longrightarrow> P s) \<Longrightarrow> P sep \<Longrightarrow> P (join_with sep ss)"
  by (induction sep ss rule: join_with.induct) (auto intro!: P_append)

lemma P_row_text: "(\<And>c. c \<in> set cs \<Longrightarrow> P c) \<Longrightarrow> P (row_text cs)"
  unfolding row_text_def by (induction cs) (auto intro!: P_parts simp: P_plain)

lemma P_table_text:
  "(\<And>row c. row \<in> set (h # ss # body) \<Longrightarrow> c \<in> set row \<Longrightarrow> P c) \<Longrightarrow> P (table_text h ss body)"
  unfolding table_text_def by (rule P_join) (auto intro: P_row_text P_Cons)

lemma P_markdown_table:
  assumes "render_markdown_table rc rec rows al width h = Inr (out, own)"
    and "\<And>r c. r \<in> set rows \<Longrightarrow> c \<in> set (cells r) \<Longrightarrow> gives rec (cell_blocks c)"
    and "h \<Longrightarrow> rows \<noteq> []"
  shows "P out"
proof -
  obtain hd_row body where out: "out = table_text hd_row (map (\<lambda>k. separator (if k < length al then al ! k else AlignNone)) [0..<width]) body"
    and body: "\<And>row. row \<in> set (hd_row # body) \<Longrightarrow> length row = width \<and> set row \<subseteq> cells_of rc rec rows"
    using markdown_table_text [OF assms(1,3)] by metis
  have "P s" if "s \<in> cells_of rc rec rows" for s
    using that P_render_cell assms(2) by (fastforce simp: cells_of_def rendered_cells_def gives_def)
  with body have "P s" if "row \<in> set (hd_row # body)" "s \<in> set row" for row s using that by blast
  moreover have "P (separator a)" for a by (rule P_plain) simp
  ultimately show ?thesis unfolding out by (intro P_table_text) auto
qed

definition own_ok :: "BlockNode \<Rightarrow> bool" where
  "own_ok n \<longleftrightarrow> (\<forall>s \<in> set (block_strings_of (node_block n)). ok s)"

lemma P_html_cell_block:
  assumes raw "html_cell_block rc rec n t = Inr (s, t')" "own_ok n" "gives rec [n]"
  shows "P s"
  using assms(2-4) P_html_inlines [OF assms(1)]
  by (cases "node_block n")
    (auto simp: html_cell_block_def own_ok_def gives_def and_then_Inr intro!: P_parts P_escape_html intro: P_raw [OF assms(1)])

lemma P_html_cell_loop:
  "raw \<Longrightarrow> html_cell_loop rc rec ns first out t = Inr (r, t') \<Longrightarrow> P out \<Longrightarrow>
     (\<And>n. n \<in> set ns \<Longrightarrow> own_ok n \<and> gives rec [n]) \<Longrightarrow> P r"
proof (induction ns arbitrary: first out t)
  case (Cons n ns)
  from Cons.prems(2) obtain s t2 where s: "html_cell_block rc rec n t = Inr (s, t2)"
    and rest: "html_cell_loop rc rec ns False (out @ (if first then [] else ''<br>'') @ s) t2 = Inr (r, t')"
    by (auto simp: and_then_Inr)
  have "P s" using P_html_cell_block [OF Cons.prems(1) s] Cons.prems(4) by simp
  then have "P (out @ (if first then [] else ''<br>'') @ s)" using Cons.prems(3) by (auto intro!: P_parts)
  from Cons.IH [OF Cons.prems(1) rest this] Cons.prems(4) show ?case by simp
qed simp

lemma P_html_table:
  assumes raw "render_html_table rc rec rows width h = Inr (out, own)"
    and "\<And>r c n. r \<in> set rows \<Longrightarrow> c \<in> set (cells r) \<Longrightarrow> n \<in> set (cell_blocks c) \<Longrightarrow> own_ok n \<and> gives rec [n]"
  shows "P out"
proof -
  have cell: "P (fst st')" if "html_table_cell rc rec c st = Inr st'" "P (fst st)"
    "\<And>n. n \<in> set (cell_blocks c) \<Longrightarrow> own_ok n \<and> gives rec [n]" for c st st'
  proof -
    from that(1) obtain v t out0 where loop: "html_cell_loop rc rec (cell_blocks c) True [] 0 = Inr (v, t)"
      and st': "fst st' = fst st @ html_cell_open c @ v @ ''</'' @ (if header_cell c then ''th'' else ''td'') @ ''>'' @ [LF]"
      unfolding html_table_cell_def render_html_cell_def by (auto simp: and_then_Inr dest!: exact_string_Inr)
    have "P v" by (rule P_html_cell_loop [OF assms(1) loop]) (use that(3) in auto)
    moreover have "plain (html_cell_open c)" by (simp add: html_cell_open_def)
    ultimately show ?thesis unfolding st' using that(2) by (auto intro!: P_parts P_plain [of "html_cell_open c"])
  qed
  have row: "P (fst st')" if r: "html_table_row rc rec r st = Inr st'" "P (fst st)" "r \<in> set rows" for r st st'
  proof -
    from r(1) obtain st1 where fold: "try_fold (html_table_cell rc rec) (cells r) (fst st @ ''  <tr>'' @ [LF], snd st) = Inr st1"
      and st': "fst st' = fst st1 @ ''  </tr>'' @ [LF]"
      by (auto simp: html_table_row_def and_then_Inr)
    have "P (fst st1)"
      by (rule try_fold_invariant [OF fold, where Q = "\<lambda>st. P (fst st)"])
        (use r(2,3) assms(3) cell in \<open>auto intro!: P_parts\<close>)
    then show ?thesis unfolding st' by (auto intro!: P_parts)
  qed
  from assms(2) obtain st where fold: "try_fold (html_table_row rc rec) rows (''<table>'' @ [LF], no_owners) = Inr st"
    and out: "out = fst st @ ''</table>''"
    unfolding render_html_table_def by (auto simp: and_then_Inr Let_def dest!: exact_string_Inr)
  have "P (fst st)"
    by (rule try_fold_invariant [OF fold, where Q = "\<lambda>st. P (fst st)"]) (use row in \<open>auto intro!: P_parts\<close>)
  then show ?thesis unfolding out by (auto intro!: P_parts)
qed

lemma P_table:
  assumes "render_table rc rec rows al = Inr out" "raw \<or> \<not> uses_spreadsheetml_html_tables rc"
    and "\<And>r c. r \<in> set rows \<Longrightarrow> c \<in> set (cells r) \<Longrightarrow> gives rec (cell_blocks c)"
    and "\<And>r c n. r \<in> set rows \<Longrightarrow> c \<in> set (cells r) \<Longrightarrow> n \<in> set (cell_blocks c) \<Longrightarrow> own_ok n \<and> gives rec [n]"
  shows "P out"
proof -
  from assms(1) obtain width h html own where shape: "table_shape rows = Inr (width, h, html)"
    and t: "(if html \<and> uses_spreadsheetml_html_tables rc then render_html_table rc rec rows width h
      else render_markdown_table rc rec rows al width h) = Inr (out, own)"
    by (auto simp: render_table_def render_table_measured_def and_then_Inr)
  have "h \<Longrightarrow> rows \<noteq> []" using shape by (auto simp: table_shape_def first_has_header_def and_then_Inr)
  then show ?thesis
    using t assms(2) P_html_table [OF _ _ assms(4)] P_markdown_table [OF _ assms(3)] by (auto split: if_splits)
qed

section \<open>Blocks\<close>

lemma P_list:
  assumes "render_list rec k first items ctx = Inr out" "\<And>item. item \<in> set items \<Longrightarrow> gives rec (item_blocks item)"
  shows "P out"
proof -
  have line: "P (list_line html k marker item body)" if "plain marker" "P body" for html marker item body
    using that by (auto simp: list_line_def Let_def intro!: P_parts P_indent P_plain [OF that(1)])
  have marker: "plain m" if "list_marker k first index item = Inr m" for index item m
    using that by (auto simp: list_marker_def split: ListKind.splits if_splits)
  have lines: "P l" if "list_lines rec html k first ctx index items = Inr ls" "l \<in> set ls"
    "\<And>item. item \<in> set items \<Longrightarrow> gives rec (item_blocks item)" for html index items ls l
    using that
  proof (induction items arbitrary: index ls)
    case (Cons item items)
    then obtain m body rest where m: "list_marker k first index item = Inr m" "rec (item_blocks item) ctx = Inr body"
      "list_lines rec html k first ctx (Suc index) items = Inr rest" "ls = list_line html k m item body # rest"
      by (auto simp: and_then_Inr)
    have "P body" using Cons.prems(3) [of item] m(2) by (simp add: gives_def)
    with line [OF marker [OF m(1)]] Cons.IH [OF m(3)] Cons.prems(2,3) m(4) show ?case by auto
  qed simp
  show ?thesis
    using assms(1) lines [OF _ _ assms(2)]
    by (auto simp: render_list_def Let_def and_then_Inr intro!: P_parts P_join P_plain [OF plain_show_word] split: if_splits)
qed

lemma P_merge_html:
  assumes "render_merge_html cr v = Inr out" "ok v"
  shows "P out"
proof -
  from assms(1) obtain t where fold: "try_fold merge_row (str_lines v) (''<table>'' @ [LF] @ ''<tbody>'' @ [LF]) = Inr t"
    and out: "out = t @ ''</tbody>'' @ [LF] @ ''</table>''"
    by (auto simp: render_merge_html_def and_then_Inr split: if_splits)
  have row: "P s'" if m: "merge_row line s = Inr s'" "P s" "line \<in> set (str_lines v)" for line s s'
  proof -
    have "P line" using P_merge [OF assms(2) m(3)] m(1) by (auto simp: merge_row_def split: option.splits)
    with m(1,2) show ?thesis
      by (auto simp: merge_row_def intro!: P_parts P_escape_html P_plain [OF plain_show_nat] split: option.splits)
  qed
  have "P t" by (rule try_fold_invariant [OF fold, where Q = P]) (use row in \<open>auto intro!: P_parts\<close>)
  then show ?thesis unfolding out by (auto intro!: P_parts)
qed

lemma P_image:
  assumes "render_image rc i alt pg = Inr out" "context_satisfies ok rc" "\<And>v. alt = Some v \<Longrightarrow> ok v"
  shows "P out"
proof -
  define label where "label = escape_image_alt (single_line (case alt of None \<Rightarrow> [] | Some v \<Rightarrow> v))"
  have label: "P label"
    using assms(3) unfolding label_def by (intro P_image_alt P_single_line) (auto split: option.split intro: P_ok)
  show ?thesis
  proof (cases "asset_mode (output_options rc) = Omit")
    case True
    with assms(1) label show ?thesis by (simp add: render_image_def label_def Let_def)
  next
    case False
    with assms(1) obtain r target dest where r: "plan_reference (asset_plan rc) i = Some r"
      and t: "image_target rc i (inventory rc ! ref_source r) = Inr target"
      and d: "image_destination rc (inventory rc ! ref_source r) target = Inr dest"
      and out: "out = (if starts_with ''image/'' (media_type (inventory rc ! ref_source r)) then ''!'' else []) @ ''['' @
        (if (if starts_with ''image/'' (media_type (inventory rc ! ref_source r)) then ''!'' else []) = [] \<and> blank label
         then ''Original image'' else label) @ ''](<'' @ dest @
        (if media_type (inventory rc ! ref_source r) = ''application/pdf'' \<and> CHR ''#'' \<notin> set dest then
           (case pg of None \<Rightarrow> [] | Some p \<Rightarrow> ''#page='' @ show_word p) else []) @ ''>)''"
      unfolding render_image_def label_def [symmetric] Let_def
      by (simp only: if_False and_then_Inr sum.inject split: option.splits) auto
    have a: "asset_satisfies ok (inventory rc ! ref_source r)"
      using assms(2) r by (auto simp: context_satisfies_def)
    have data: "ok (''data:'' @ mt @ '';base64,'' @ b64)" if "ok mt" "ok b64" for mt b64
      using that by (intro ok_append) (simp_all add: P_ok P_plain)
    have "ok target"
      using t a assms(2) data by (auto simp: image_target_def asset_satisfies_def context_satisfies_def
          split: if_splits option.splits)
    then have "P dest"
      using d by (auto simp: image_destination_def and_then_Inr intro: P_generated P_destination split: if_splits)
    with label show ?thesis
      unfolding out by (intro P_append) (auto intro!: P_parts P_plain [OF plain_show_word] split: option.split)
  qed
qed

lemma find_map_Some: "find_map f xs = Some v \<Longrightarrow> \<exists>x \<in> set xs. f x = Some v"
  by (induction xs) (auto simp: or_else_def split: option.splits)

lemma ok_speaker_label:
  assumes "context_satisfies ok rc" "ok speaker"
  shows "ok (speaker_label rc speaker)"
proof (cases "find_map (property_label speaker) (properties (metadata (document rc)))")
  case (Some v)
  then obtain kv where "kv \<in> set (properties (metadata (document rc)))" "property_label speaker kv = Some v"
    by (auto dest: find_map_Some)
  then have "v = snd kv" by (auto simp: property_label_def split: Option.bind_splits if_splits)
  with Some assms(1) \<open>kv \<in> _\<close> show ?thesis by (auto simp: speaker_label_def context_satisfies_def)
next
  case None
  with assms(2) show ?thesis
    by (auto simp: speaker_label_def intro!: P_ok [OF P_plain] split: option.split)
qed

lemma P_anchor: "plain i \<Longrightarrow> plain (anchor i)"
  by (simp add: anchor_def)

lemma plain_epub: "epub_heading_anchor n = Some i \<Longrightarrow> plain i"
proof -
  assume "epub_heading_anchor n = Some i"
  then obtain d where "node_id n = ''epub-spine-'' @ d @ ''-heading''" "list_all is_ascii_digit d" "i = node_id n"
    by (auto simp: epub_heading_anchor_def strip_prefix_Some strip_suffix_Some split: if_splits Option.bind_splits)
  moreover from this(2) have "plain d" by (auto simp: plain_def list_all_iff is_ascii_digit_def)
  ultimately show ?thesis by simp
qed

lemma P_block:
  assumes "render_block rc rec n ctx = Inr out" "context_satisfies ok rc" "raw \<or> \<not> uses_spreadsheetml_html_tables rc"
    and "own_ok n" and sub: "\<And>bs. bs \<in> parts_below n \<Longrightarrow> gives rec bs"
    and inner: "\<And>bs m. bs \<in> set (child_lists (node_block n)) \<Longrightarrow> m \<in> set bs \<Longrightarrow> own_ok m"
  shows "P out"
proof (cases "node_block n")
  case (Paragraph xs)
  with assms(1,4) show ?thesis
    by (auto simp: render_block_def own_ok_def and_then_Inr intro: P_protect inline.P_inlines)
next
  case (Heading level xs)
  with assms(1) obtain s where s: "render_inlines (crates rc) xs ctx = Inr s"
    and out: "out = (case epub_heading_anchor n of None \<Rightarrow> [] | Some i \<Rightarrow> anchor i) @ replicate (unat level) (CHR ''#'') @ '' '' @ s"
    by (auto simp: render_block_def render_heading_def and_then_Inr Let_def)
  have "P s" using inline.P_inlines [OF s] assms(4) Heading by (auto simp: own_ok_def)
  moreover have "P (case epub_heading_anchor n of None \<Rightarrow> [] | Some i \<Rightarrow> anchor i)"
    by (auto intro: P_plain P_anchor plain_epub split: option.split)
  moreover have "P (replicate (unat level) (CHR ''#''))" by (rule P_plain) simp
  ultimately show ?thesis unfolding out by (auto intro!: P_parts)
next
  case (BlockList k first items)
  with assms(1) show ?thesis
    by (intro P_list [of rec k first items ctx] sub) (auto simp: render_block_def parts_below_def Let_def)
next
  case (Table rows al)
  have "gives rec (cell_blocks c)" if "r \<in> set rows" "c \<in> set (cells r)" for r c
    using that Table by (intro sub) (auto simp: parts_below_def Let_def)
  moreover have "own_ok m \<and> gives rec [m]" if "r \<in> set rows" "c \<in> set (cells r)" "m \<in> set (cell_blocks c)" for r c m
    using that Table by (intro conjI inner [of "cell_blocks c"] sub) (auto simp: parts_below_def Let_def, blast+)
  ultimately show ?thesis
    using Table assms(1,3) by (intro P_table [of rc rec rows al]) (auto simp: render_block_def)
next
  case (CodeBlock language t)
  with assms(1,4) show ?thesis
    by (auto simp: render_block_def render_code_def own_ok_def intro: P_merge_html intro!: P_fence P_info split: if_splits)
next
  case (BlockFormula v)
  with assms(1,4) show ?thesis
    by (auto simp: render_block_def own_ok_def intro!: P_fence P_plain [of "''math''"])
next
  case (Footnote lab bs)
  then have "gives rec bs" by (intro sub) (simp add: parts_below_def)
  with Footnote assms(1) show ?thesis
    by (auto simp: render_block_def render_footnote_def and_then_Inr Let_def gives_def
        intro!: P_parts P_indent P_plain [OF plain_footnote_label] split: if_splits)
next
  case (Image i alt)
  with assms(1,2,4) show ?thesis
    by (intro P_image [of rc i alt]) (auto simp: render_block_def own_ok_def)
next
  case (Page k bs)
  then have "gives rec bs" by (intro sub) (simp add: parts_below_def)
  with Page assms(1) show ?thesis
    by (auto simp: render_block_def render_page_def and_then_Inr gives_def page_render_identity_def anchor_def
        intro!: P_with_body P_parts P_plain [OF plain_show_word] split: if_splits)
next
  case (Slide k heading bs)
  then have "gives rec bs" by (intro sub) (simp add: parts_below_def)
  with Slide assms(1,4) show ?thesis
    by (auto simp: render_block_def render_slide_def and_then_Inr gives_def own_ok_def
        intro!: P_with_body P_parts P_escape_text P_single_line P_plain [OF plain_show_word] split: option.splits)
next
  case (Sheet k bs)
  then have "gives rec bs" by (intro sub) (simp add: parts_below_def)
  with Sheet assms(1,4) show ?thesis
    by (auto simp: render_block_def render_sheet_def and_then_Inr gives_def own_ok_def
        intro!: P_with_body P_parts P_escape_text P_single_line)
next
  case (TimedSegment r speaker conf tokens xs)
  with assms(1) obtain s where s: "render_inlines (crates rc) xs ctx = Inr s"
    and out: "out = [BACKTICK] @ timestamp (start_ms r) @ '' '' @ [CHR 0xE2, CHR 0x80, CHR 0x93] @ '' '' @ timestamp (end_ms r)
       @ [BACKTICK]
       @ (case speaker of None \<Rightarrow> []
          | Some v \<Rightarrow> '' **'' @ escape_text (single_line (speaker_label rc v)) Normal @ '':**'')
       @ (if s = [] then [] else '' '' @ s)"
    by (auto simp: render_block_def render_timed_segment_def and_then_Inr)
  have "P s" using inline.P_inlines [OF s] assms(4) TimedSegment by (auto simp: own_ok_def)
  moreover have "P (case speaker of None \<Rightarrow> [] | Some v \<Rightarrow> '' **'' @ escape_text (single_line (speaker_label rc v)) Normal @ '':**'')"
    using assms(2,4) TimedSegment by (auto simp: own_ok_def intro!: P_parts P_escape_text P_single_line ok_speaker_label split: option.split)
  ultimately show ?thesis
    unfolding out by (intro P_append P_dash) (auto intro!: P_parts intro: P_plain)
next
  case Rule
  with assms(1) show ?thesis by (auto simp: render_block_def intro!: P_parts)
qed

section \<open>Documents\<close>

lemma P_block_strings:
  "block_strings rc f prev hidden ns = Inr bs \<Longrightarrow> (\<And>n s. n \<in> set ns \<Longrightarrow> f n = Inr s \<Longrightarrow> P s) \<Longrightarrow> b \<in> set bs \<Longrightarrow> P b"
  by (drule (1) block_strings_origin) (auto simp: LIST_BREAK_def intro!: P_parts)

lemma P_blocks_in:
  "render_blocks_in rc ns ctx = Inr out \<Longrightarrow> context_satisfies ok rc \<Longrightarrow> raw \<or> \<not> uses_spreadsheetml_html_tables rc \<Longrightarrow>
     nodes_satisfy ok ns \<Longrightarrow> P out"
proof (induction "size_list size ns" arbitrary: ns ctx out rule: less_induct)
  case less
  from less.prems(1) obtain bs where bs: "block_strings rc (\<lambda>n. render_block rc (render_blocks_in rc) n ctx) False False ns = Inr bs"
    and out: "out = join_with [LF, LF] bs"
    by (auto simp: render_blocks_in.simps [of rc ns] and_then_Inr)
  have "P s" if n: "n \<in> set ns" and s: "render_block rc (render_blocks_in rc) n ctx = Inr s" for n s
  proof (rule P_block [OF s less.prems(2,3)])
    have sub: "nodes_satisfy ok cs" if "cs \<in> set (child_lists (node_block n))" for cs
      using less.prems(4) all_nodes_children [OF n that] by (auto simp: nodes_satisfy_def)
    show "own_ok n"
      using less.prems(4) all_nodes_member [OF n] by (auto simp: nodes_satisfy_def own_ok_def)
    show "gives (render_blocks_in rc) cs" if cs: "cs \<in> parts_below n" for cs
      unfolding gives_def
    proof (intro allI impI)
      fix c t assume "render_blocks_in rc cs c = Inr t"
      moreover have "nodes_satisfy ok cs"
      proof -
        from cs consider "cs \<in> set (child_lists (node_block n))"
          | m bs where "cs = [m]" "bs \<in> set (child_lists (node_block n))" "m \<in> set bs"
          unfolding parts_below_def Let_def by blast
        then show ?thesis
        proof cases
          case 1 then show ?thesis by (rule sub)
        next
          case 2
          from sub [OF 2(2)] all_nodes_single [OF 2(3)] show ?thesis
            unfolding nodes_satisfy_def 2(1) by (meson subsetD)
        qed
      qed
      ultimately show "P t" using less.hyps [OF node_in_size [OF n cs]] less.prems(2,3) by blast
    qed
    show "own_ok m" if "cs \<in> set (child_lists (node_block n))" "m \<in> set cs" for cs m
      using sub [OF that(1)] all_nodes_member [OF that(2)] by (auto simp: nodes_satisfy_def own_ok_def)
  qed
  then have "P b" if "b \<in> set bs" for b
    using P_block_strings [OF bs _ that] by blast
  then show ?case unfolding out by (intro P_join) (auto intro: P_plain)
qed

end

end
