(* ===== verification/Gfm_Output.thy ===== *)
theory Gfm_Output
  imports Gfm_Invariant
begin

text \<open>
  The two invariants of rendered text: it contains no carriage return outside HTML tables, and it
  is UTF-8 whenever the strings of the document are.
\<close>

section \<open>Line feeds\<close>

lemma CR_concat_map: "CR \<in> set (concat (map f s)) \<longleftrightarrow> (\<exists>x \<in> set s. CR \<in> set (f x))"
  by auto

lemma CR_normalize: "CR \<notin> set (normalize_lf s)"
  by (auto simp: normalize_lf_def replace_char_def split: if_splits)

lemma plain_CR: "plain s \<Longrightarrow> CR \<notin> set s"
  by (auto simp: plain_def list_all_iff)

lemma replace_pair_CR: "CR \<notin> set s \<Longrightarrow> CR \<notin> set r \<Longrightarrow> CR \<notin> set (replace_pair a b r s)"
  by (induction a b r s rule: replace_pair.induct) auto

lemma set_pieces: "set (concat (map snd ps)) \<subseteq> set s" if "set ps \<subseteq> set (scalar_pieces s)"
  using that scalar_piece_encodes [of _ _ s] by fastforce

lemma encode_piece_CR: "\<not> safe CR \<Longrightarrow> encodes (snd p) (fst p) \<Longrightarrow> CR \<notin> set (encode_piece safe p)"
  using plain_CR [OF plain_percent_byte] by (auto simp: encode_piece_def list_all_iff split: if_splits)

lemma encode_bytes_CR: "\<not> safe CR \<Longrightarrow> CR \<notin> set (encode_bytes s safe)"
  unfolding encode_bytes_def CR_concat_map
  using scalar_piece_encodes [of _ _ s] encode_piece_CR [of safe] by force

lemma parse_unsigned_CR: "parse_unsigned w s = Some n \<Longrightarrow> CR \<notin> set s"
  by (cases s) (auto simp: parse_unsigned_def Let_def list_all_iff is_ascii_digit_def split: if_splits)

lemma merge_letters_CR:
  assumes "fold merge_letter col acc = Some k"
  shows "CR \<notin> set col"
proof
  have none: "fold merge_letter col None = None" for col
    by (induction col) (simp_all add: merge_letter_def)
  have "merge_letter CR t = None" for t
    by (cases t) (simp_all add: merge_letter_def ascii_upper_def is_ascii_lowercase_def Let_def)
  then have "fold merge_letter (a @ CR # b) acc = None" for a b
    by (simp only: fold_append fold_simps comp_apply none)
  moreover assume "CR \<in> set col"
  ultimately show False using assms by (metis option.distinct(1) split_list)
qed

lemma parse_merge_cell_CR: "parse_merge_cell s = Some q \<Longrightarrow> CR \<notin> set s"
proof -
  assume "parse_merge_cell s = Some q"
  then obtain r k where "parse_unsigned 32 (dropWhile (\<lambda>b. \<not> is_ascii_digit b) s) = Some r"
    and "fold merge_letter (takeWhile (\<lambda>b. \<not> is_ascii_digit b) s) (Some 0) = Some k"
    by (auto simp: parse_merge_cell_def Let_def split: if_splits Option.bind_splits)
  from parse_unsigned_CR [OF this(1)] merge_letters_CR [OF this(2)] show ?thesis
    by (metis Un_iff set_append takeWhile_dropWhile_id)
qed

lemma parse_merge_span_CR: "parse_merge_span s \<noteq> None \<Longrightarrow> CR \<notin> set s"
proof -
  assume "parse_merge_span s \<noteq> None"
  then obtain a b p q where "split_once (CHR '':'') s = Some (a, b)" "parse_merge_cell a = Some p" "parse_merge_cell b = Some q"
    by (auto simp: parse_merge_span_def split: Option.bind_splits)
  then show ?thesis using parse_merge_cell_CR by (auto simp: split_once_Some)
qed

interpretation lf: text_invariant "\<lambda>_. True" "\<lambda>s. CR \<notin> set s" False
proof (unfold_locales, goal_cases)
  case (8 s f)
  then show ?case using plain_CR by (force simp: CR_concat_map)
next
  case (9 s)
  then show ?case by (rule replace_pair_CR) simp
next
  case (10 s)
  then show ?case using set_pieces [of "rev (dropWhile (\<lambda>p. is_whitespace (fst p)) (rev (dropWhile (\<lambda>p. is_whitespace (fst p)) (scalar_pieces s))))" s]
    by (force simp: trim_def Let_def dest: set_dropWhileD)
next
  case (13 s safe)
  then show ?case by (intro encode_bytes_CR)
next
  case (15 s)
  then show ?case by (auto simp: trim_end_char_def dest: set_dropWhileD)
next
  case (16 v line)
  then show ?case by (rule_tac parse_merge_span_CR)
qed (auto dest: plain_CR in_set_takeD in_set_dropD simp: CR_normalize)

section \<open>UTF-8\<close>

lemma plain_ascii: "plain s \<Longrightarrow> list_all (\<lambda>c. byte c < 128) s"
  by (auto simp: plain_def list_all_iff)

lemma utf8_plain: "plain s \<Longrightarrow> utf8 s"
  by (rule utf8_ascii) (rule plain_ascii)

lemma replace_pair_skip: "a \<notin> set p \<Longrightarrow> replace_pair a b r (p @ s) = p @ replace_pair a b r s"
proof (induction p)
  case (Cons c p)
  then show ?case by (cases "p @ s") auto
qed simp

lemma utf8_replace_pair:
  assumes "byte a < 128" "byte b < 128" "utf8 r"
  shows "utf8 s \<Longrightarrow> utf8 (replace_pair a b r s)"
proof (induction "length s" arbitrary: s rule: less_induct)
  case less
  from less.prems show ?case
  proof (cases rule: utf8.cases)
    case (utf8_piece p v t)
    show ?thesis
    proof (cases "a \<in> set p")
      case False
      have "utf8 (replace_pair a b r t)"
        using less.hyps utf8_piece encodes_not_Nil by simp
      with utf8_encodes [OF utf8_piece(2)] show ?thesis
        unfolding utf8_piece(1) replace_pair_skip [OF False] by (rule utf8_append)
    next
      case True
      with encodes_cases [OF utf8_piece(2)] assms(1) have p: "p = [a]" by fastforce
      show ?thesis
      proof (cases t)
        case (Cons c u)
        show ?thesis
        proof (cases "c = b")
          case True
          then have "utf8 u" using utf8_tl [of b u] utf8_piece(3) Cons assms(2) by simp
          then have "utf8 (replace_pair a b r u)" using less.hyps [of u] utf8_piece(1) p Cons by simp
          then show ?thesis using True Cons p utf8_piece(1) assms(3) by (auto intro: utf8_append)
        next
          case False
          have "utf8 (replace_pair a b r t)" using less.hyps [of t] utf8_piece p by simp
          then have "utf8 ([a] @ replace_pair a b r t)"
            using utf8_encodes [OF utf8_piece(2)] p by (intro utf8_append) simp_all
          then show ?thesis using False Cons p utf8_piece(1) by simp
        qed
      qed (use p utf8_piece less.prems in simp)
    qed
  qed (simp add: utf8_Nil)
qed

lemma utf8_split_on: "byte c < 128 \<Longrightarrow> utf8 s \<Longrightarrow> p \<in> set (split_on c s) \<Longrightarrow> utf8 p"
proof (induction "length s" arbitrary: s rule: less_induct)
  case less
  show ?case
  proof (cases "c \<in> set s")
    case False
    then have "split_on c s = [s]" by (induction s) (auto split: list.splits)
    with less.prems show ?thesis by simp
  next
    case True
    then obtain a b where s: "s = a @ c # b" "c \<notin> set a" by (meson split_list_first)
    have "split_on c (a @ c # b) = a # split_on c b" using s(2) by (induction a) auto
    moreover have "utf8 a" "utf8 b" using utf8_suffix [of a c b] less.prems(1,2) s(1) by auto
    ultimately show ?thesis using less.hyps [of b] less.prems s(1) by auto
  qed
qed

lemma utf8_str_lines:
  assumes "utf8 s" "l \<in> set (str_lines s)"
  shows "utf8 l"
proof -
  have p: "utf8 q" if "q \<in> set (split_on LF s)" for q
    using utf8_split_on [OF _ assms(1) that] by simp
  have "utf8 (butlast q)" if "utf8 q" "q \<noteq> []" "last q = CR" for q
    using utf8_suffix [of "butlast q" CR "[]"] that append_butlast_last_id [of q] by auto
  with p assms(2) show ?thesis
    by (auto simp: str_lines_def Let_def dest!: in_set_butlastD split: if_splits)
qed

lemma utf8_trim_end_char: "byte c < 128 \<Longrightarrow> utf8 s \<Longrightarrow> utf8 (trim_end_char c s)"
proof (induction s rule: rev_induct)
  case (snoc d s)
  then show ?case using utf8_suffix [of s c "[]"] by (auto simp: trim_end_char_def)
qed (simp add: trim_end_char_def utf8_Nil)

text \<open>Text is its leading whitespace, its trimmed part and its trailing whitespace.\<close>

abbreviation white_piece :: "nat \<times> string \<Rightarrow> bool" where
  "white_piece p \<equiv> is_whitespace (fst p)"

lemma trimmed_parts:
  assumes "utf8 s"
  shows "s = concat (map snd (takeWhile white_piece (scalar_pieces s))) @ trim_start s"
    and "s = trim_end s @ concat (map snd (rev (takeWhile white_piece (rev (scalar_pieces s)))))"
proof -
  let ?ps = "scalar_pieces s"
  have s: "s = concat (map snd ?ps)" using utf8_scalar_pieces [OF assms] by simp
  show "s = concat (map snd (takeWhile white_piece ?ps)) @ trim_start s"
    unfolding trim_start_def concat_append [symmetric] map_append [symmetric] takeWhile_dropWhile_id by (rule s)
  have "?ps = rev (dropWhile white_piece (rev ?ps)) @ rev (takeWhile white_piece (rev ?ps))"
    by (metis rev_append rev_rev_ident takeWhile_dropWhile_id)
  then show "s = trim_end s @ concat (map snd (rev (takeWhile white_piece (rev ?ps))))"
    unfolding trim_end_def concat_append [symmetric] map_append [symmetric] using s by simp
qed

lemma leading_pieces:
  assumes "utf8 s"
  shows "take (length s - length (trim_start s)) s = concat (map snd (takeWhile white_piece (scalar_pieces s)))"
    and "drop (length (trim_end s)) s = concat (map snd (rev (takeWhile white_piece (rev (scalar_pieces s)))))"
  using trimmed_parts [OF assms] by (metis append_eq_conv_conj diff_add_inverse2 length_append)+

lemma utf8_leading:
  assumes "utf8 s"
  shows "utf8 (take (length s - length (trim_start s)) s)" "utf8 (drop (length (trim_end s)) s)"
  unfolding leading_pieces [OF assms] by (rule utf8_pieces [of _ s], use set_takeWhileD in fastforce)+

lemma utf8_encode_bytes: "utf8 (encode_bytes s safe)"
  unfolding encode_bytes_def
proof (rule utf8_concat)
  fix q assume "q \<in> set (map (encode_piece safe) (scalar_pieces s))"
  then obtain v p where q: "q = encode_piece safe (v, p)" "encodes p v"
    using scalar_piece_encodes by fastforce
  have "utf8 (concat (map percent_byte p))"
    by (rule utf8_plain) (simp add: plain_concat list_all_iff plain_percent_byte)
  with utf8_encodes [OF q(2)] show "utf8 q" by (auto simp: q(1) encode_piece_def)
qed

lemma utf8_normalize_lf:
  assumes "utf8 s"
  shows "utf8 (normalize_lf s)"
proof -
  have "utf8 (replace_pair CR LF [LF] s)"
    by (rule utf8_replace_pair [OF _ _ _ assms]) (auto intro: utf8_ascii)
  then show ?thesis
    unfolding normalize_lf_def replace_char_def by (rule utf8_concat_map) auto
qed

lemma utf8_trim: "utf8 s \<Longrightarrow> utf8 (trim s)"
proof -
  have sub: "set (dropWhile w ps) \<subseteq> set ps" for w and ps :: "(nat \<times> string) list"
    by (auto dest: set_dropWhileD)
  show "utf8 (trim s)"
    unfolding trim_def Let_def
    by (rule utf8_pieces [of _ s]) (metis set_rev sub subset_trans)
qed

interpretation unicode: text_invariant utf8 utf8 True
proof (unfold_locales, goal_cases)
  case (3)
  have "encodes [CHR 0xE2, CHR 0x80, CHR 0x93] 8211" by (simp add: encodes_def continuation_def)
  then show ?case by (rule utf8_encodes)
next
  case (5 s)
  then show ?case by (rule utf8_trim)
next
  case (6 s)
  then show ?case by (rule utf8_normalize_lf)
next
  case (7 s f)
  then show ?case using plain_ascii by (intro utf8_concat_map) blast+
next
  case (8 s)
  have "utf8 ''<br><br>''" by (rule utf8_ascii) simp
  with 8 show ?case by (simp add: utf8_replace_pair)
next
  case (14 v line)
  then show ?case by (blast intro: utf8_str_lines)
next
  case (1 s)
  then show ?case by (rule utf8_plain)
next
  case (2 a b)
  then show ?case by (rule utf8_append)
qed (simp_all add: utf8_leading utf8_encode_bytes utf8_trim_end_char, (erule utf8_tl, assumption)?)

end
