(* ===== verification/Gfm_Fences.thy ===== *)
theory Gfm_Fences
  imports Gfm_Invariant
begin

text \<open>
  Fenced code blocks against a reader of fences: the opening line ends before its information string,
  and the first line that closes the block is the one the renderer wrote.
\<close>

section \<open>Runs\<close>

lemma longest_loop_ge_longest: "longest \<le> longest_loop c longest current s"
  by (induction c longest current s rule: longest_loop.induct) auto

lemma longest_loop_ge_current: "longest_loop c longest current (replicate k c @ s) \<ge> (if k = 0 then 0 else current + k)"
proof (induction k arbitrary: longest current)
  case (Suc k)
  show ?case
  proof (cases "k = 0")
    case True
    then show ?thesis using longest_loop_ge_longest [of "max longest (current + 1)" c "current + 1" s] by simp
  next
    case False
    with Suc [of "current + 1" "max longest (current + 1)"] show ?thesis by simp
  qed
qed simp

lemma longest_loop_run: "k \<le> longest_loop c longest current (a @ replicate k c @ b)"
proof (induction a arbitrary: longest current)
  case Nil
  show ?case using longest_loop_ge_current [of k current c longest b] by (simp split: if_splits)
qed simp

lemma longest_run_ge: "k \<le> longest_run (a @ replicate k c @ b) c"
  unfolding longest_run_def by (rule longest_loop_run)

section \<open>A reader of fences\<close>

text \<open>
  CommonMark's rule: a line closes a fence of \<open>n\<close> backticks when it has at most three spaces, at
  least \<open>n\<close> backticks and then only spaces. Without such a line the block has no end.
\<close>

definition closes_fence :: "nat \<Rightarrow> string \<Rightarrow> bool" where
  "closes_fence n line =
     (let lead = takeWhile (\<lambda>c. c = CHR '' '') line; rest = dropWhile (\<lambda>c. c = CHR '' '') line in
      length lead \<le> 3 \<and> n \<le> length (takeWhile (\<lambda>c. c = BACKTICK) rest)
      \<and> list_all (\<lambda>c. c = CHR '' '') (dropWhile (\<lambda>c. c = BACKTICK) rest))"

fun code_lines :: "nat \<Rightarrow> string list \<Rightarrow> (string list \<times> string list) option" where
  "code_lines n [] = None"
| "code_lines n (l # ls) =
     (if closes_fence n l then Some ([], ls)
      else map_option (\<lambda>(code, rest). (l # code, rest)) (code_lines n ls))"

definition read_fence :: "string \<Rightarrow> (string \<times> string list \<times> string list) option" where
  "read_fence s =
     (let ls = split_on LF s; n = length (takeWhile (\<lambda>c. c = BACKTICK) (hd ls)) in
      if n < 3 then None else map_option (\<lambda>r. (drop n (hd ls), r)) (code_lines n (tl ls)))"

lemma split_on_append: "split_on d (a @ d # b) = split_on d a @ split_on d b"
proof (induction a)
  case (Cons c a)
  then show ?case by (cases "split_on d a") auto
qed simp

lemma split_on_absent: "d \<notin> set s \<Longrightarrow> split_on d s = [s]"
  by (induction s) auto

lemma split_on_piece: "p \<in> set (split_on d s) \<Longrightarrow> \<exists>a b. s = a @ p @ b"
proof (induction s arbitrary: p)
  case (Cons c s)
  show ?case
  proof (cases "c = d")
    case True
    with Cons.prems consider "p = []" | "p \<in> set (split_on d s)" by auto
    then show ?thesis
    proof cases
      case 2
      from Cons.IH [OF this] obtain a b where "s = a @ p @ b" by blast
      then have "c # s = (c # a) @ p @ b" by simp
      then show ?thesis by blast
    qed auto
  next
    case False
    obtain q qs where q: "split_on d s = q # qs" by (cases "split_on d s") simp_all
    have s: "\<exists>b. s = q @ b"
      using q
    proof (induction s arbitrary: q qs)
      case (Cons e s)
      then show ?case by (cases "split_on d s") (auto split: if_splits)
    qed simp
    from Cons.prems False q consider "p = c # q" | "p \<in> set (split_on d s)" by auto
    then show ?thesis
    proof cases
      case 1
      with s obtain b where "c # s = [] @ p @ b" by auto
      then show ?thesis by blast
    next
      case 2
      from Cons.IH [OF this] obtain a b where "s = a @ p @ b" by blast
      then have "c # s = (c # a) @ p @ b" by simp
      then show ?thesis by blast
    qed
  qed
qed simp

lemma closing_line_has_run: "closes_fence n l \<Longrightarrow> \<exists>a b. l = a @ replicate n BACKTICK @ b"
proof -
  assume l: "closes_fence n l"
  let ?lead = "takeWhile (\<lambda>c. c = CHR '' '') l" and ?rest = "dropWhile (\<lambda>c. c = CHR '' '') l"
  let ?run = "takeWhile (\<lambda>c. c = BACKTICK) ?rest"
  have "\<forall>c \<in> set ?run. c = BACKTICK" using set_takeWhileD by fast
  then have "replicate (length ?run) BACKTICK = ?run" by (rule replicate_length_same)
  moreover obtain k where "length ?run = n + k" using l by (auto simp: closes_fence_def Let_def le_iff_add)
  ultimately have "?run = replicate n BACKTICK @ replicate k BACKTICK" by (simp add: replicate_add)
  then have "l = ?lead @ replicate n BACKTICK @ (replicate k BACKTICK @ dropWhile (\<lambda>c. c = BACKTICK) ?rest)"
    by (metis append.assoc takeWhile_dropWhile_id)
  then show ?thesis by blast
qed

lemma code_lines_append: "list_all (\<lambda>l. \<not> closes_fence n l) ls \<Longrightarrow> closes_fence n l \<Longrightarrow> code_lines n (ls @ l # rest) = Some (ls, rest)"
  by (induction ls) auto

text \<open>The lines of the text: a line feed at its end belongs to its last line.\<close>

definition text_lines :: "string \<Rightarrow> string list" where
  "text_lines s = (if s \<noteq> [] \<and> last s = LF then butlast (split_on LF s) else split_on LF s)"

lemma replicate_fence [simp]:
  "takeWhile (\<lambda>c. c = x) (replicate n x) = replicate n x" "dropWhile (\<lambda>c. c = x) (replicate n x) = []"
  by (induction n) simp_all

lemma rendered_fence_reads_back:
  assumes "LF \<notin> set info" and "\<not> starts_with_any [BACKTICK] info"
  shows "read_fence (render_fence v (Some info) @ LF # rest) = Some (info, text_lines (normalize_lf v), split_on LF rest)"
proof -
  let ?v = "normalize_lf v"
  define n where "n = max (longest_run ?v BACKTICK + 1) 3"
  define fence where "fence = replicate n BACKTICK"
  obtain w where w: "?v @ (if ?v \<noteq> [] \<and> last ?v = LF then [] else [LF]) = w @ [LF]" and lines: "text_lines ?v = split_on LF w"
  proof (cases "?v \<noteq> [] \<and> last ?v = LF")
    case True
    then obtain u where u: "?v = u @ [LF]" by (metis append_butlast_last_id)
    then have "text_lines ?v = split_on LF u" using True by (simp add: text_lines_def split_on_append)
    with u True that [of u] show thesis by simp
  next
    case False
    with that [of ?v] show thesis by (auto simp: text_lines_def)
  qed
  have n: "longest_run ?v BACKTICK < n" "3 \<le> n" by (auto simp: n_def)
  have fence: "LF \<notin> set fence" "takeWhile (\<lambda>c. c = BACKTICK) (fence @ info) = fence"
    using assms(2) by (auto simp: fence_def starts_with_any_def takeWhile_append takeWhile_eq_Nil_iff)
  have rendered: "render_fence v (Some info) = (fence @ info) @ LF # w @ LF # fence"
    unfolding render_fence_def Let_def using w by (simp add: fence_def n_def)
  have split: "split_on LF (render_fence v (Some info) @ LF # rest) = (fence @ info) # text_lines ?v @ fence # split_on LF rest"
  proof -
    have "split_on LF ((fence @ info) @ LF # w @ LF # fence @ LF # rest) = split_on LF (fence @ info) @ split_on LF w @ split_on LF fence
        @ split_on LF rest"
      by (simp only: split_on_append)
    then show ?thesis using fence(1) assms(1) by (simp add: rendered lines split_on_absent)
  qed
  have "\<not> closes_fence n l" if "l \<in> set (text_lines ?v)" for l
  proof
    assume "closes_fence n l"
    then obtain a b where "l = a @ replicate n BACKTICK @ b" using closing_line_has_run by blast
    moreover have "l \<in> set (split_on LF ?v)"
      using that by (auto simp: text_lines_def split: if_splits dest: in_set_butlastD)
    then obtain c d where "?v = c @ l @ d" using split_on_piece by blast
    ultimately have "?v = (c @ a) @ replicate n BACKTICK @ (b @ d)" by simp
    with longest_run_ge [of n "c @ a" BACKTICK "b @ d"] n(1) show False by simp
  qed
  moreover have "closes_fence n fence" using n(2) by (simp add: closes_fence_def Let_def fence_def)
  ultimately have "code_lines n (text_lines ?v @ fence # split_on LF rest) = Some (text_lines ?v, split_on LF rest)"
    by (intro code_lines_append) (auto simp: list_all_iff)
  then show ?thesis
    using n(2) fence(2) by (simp add: read_fence_def Let_def split fence_def)
qed

text \<open>An information string that was sanitised satisfies both conditions.\<close>

lemma percent_byte_chars: "list_all (\<lambda>c. is_ascii_alphanumeric c \<or> c = CHR ''%'') (percent_byte b)"
proof -
  have digit: "is_ascii_alphanumeric (hex_digit v True)" if "v < 16" for v
  proof -
    have "list_all (\<lambda>v. is_ascii_alphanumeric (hex_digit v True)) [0..<16]"
      by (simp add: upt_rec hex_digit_def is_ascii_alphanumeric_def is_ascii_alphabetic_def is_ascii_uppercase_def
          is_ascii_lowercase_def is_ascii_digit_def)
    with that show ?thesis by (simp add: list_all_iff)
  qed
  show ?thesis using digit [OF byte_halves(1)] digit [OF byte_halves(2)] by (simp add: percent_byte_def)
qed

lemma sanitized_chars: "list_all (\<lambda>c. is_ascii_alphanumeric c \<or> c \<in> set ''_+-.#%'') (sanitize_info_string s)"
proof -
  let ?ok = "\<lambda>c. is_ascii_alphanumeric c \<or> c \<in> set ''_+-.#''"
  let ?all = "\<lambda>c. is_ascii_alphanumeric c \<or> c \<in> set ''_+-.#%''"
  have "list_all ?all (percent_byte b)" for b
    using percent_byte_chars [of b] by (rule list.pred_mono_strong) auto
  then have "list_all ?all (concat (map percent_byte xs))" for xs by (induction xs) simp_all
  moreover have "list_all ?ok xs \<Longrightarrow> list_all ?all xs" for xs by (erule list.pred_mono_strong) auto
  ultimately have "list_all ?all (encode_piece ?ok p)" for p by (simp only: encode_piece_def split: if_split) blast
  then show ?thesis by (simp add: sanitize_info_string_def encode_bytes_def list_all_iff)
qed

lemma sanitized_info: "LF \<notin> set (sanitize_info_string s)" "\<not> starts_with_any [BACKTICK] (sanitize_info_string s)"
proof -
  have "\<not> is_ascii_alphanumeric LF" "\<not> is_ascii_alphanumeric BACKTICK"
    by (simp_all add: is_ascii_alphanumeric_def is_ascii_alphabetic_def is_ascii_uppercase_def is_ascii_lowercase_def is_ascii_digit_def)
  with sanitized_chars [of s] have "LF \<notin> set (sanitize_info_string s)" "BACKTICK \<notin> set (sanitize_info_string s)"
    by (auto simp: list_all_iff)
  then show "LF \<notin> set (sanitize_info_string s)" "\<not> starts_with_any [BACKTICK] (sanitize_info_string s)"
    using hd_in_set by (fastforce simp: starts_with_any_def)+
qed

definition code_info :: "string option \<Rightarrow> string" where
  "code_info language = (case language of None \<Rightarrow> [] | Some v \<Rightarrow> sanitize_info_string v)"

lemma render_fence_None: "render_fence v None = render_fence v (Some [])"
  by (simp add: render_fence_def)

lemma rendered_code_reads_back:
  assumes "render_code rc language t = Inr s" and "language \<noteq> Some ''xlsx-merge-html''"
  shows "read_fence (s @ LF # rest) = Some (code_info language, text_lines (normalize_lf t), split_on LF rest)"
proof (cases language)
  case None
  then have "s = render_fence t (Some [])" using assms(1) by (simp add: render_code_def render_fence_None)
  with rendered_fence_reads_back [of "[]" t rest] None show ?thesis by (simp add: code_info_def starts_with_any_def)
next
  case (Some v)
  then have "s = render_fence t (Some (sanitize_info_string v))" using assms by (simp add: render_code_def)
  with rendered_fence_reads_back [OF sanitized_info] Some show ?thesis by (simp add: code_info_def)
qed

text \<open>
  Claim C40: a rendered code block reads back: a CommonMark reader finds its information string, the
  lines of the code with line feeds, and what follows the block, whatever backticks the code holds.
\<close>

theorem rendered_code_blocks_read_back:
  assumes "render_code rc language t = Inr s" and "language \<noteq> Some ''xlsx-merge-html''"
  shows "read_fence (s @ LF # rest) = Some (code_info language, text_lines (normalize_lf t), split_on LF rest)"
  by (rule rendered_code_reads_back [OF assms])

theorem rendered_code_blocks_read_back_witness:
  "\<exists>s. render_code undefined None (''a'' @ [LF, BACKTICK, BACKTICK, BACKTICK, LF]) = Inr s
     \<and> read_fence (s @ [LF]) = Some ([], [''a'', [BACKTICK, BACKTICK, BACKTICK]], [[]])"
proof -
  let ?t = "''a'' @ [LF, BACKTICK, BACKTICK, BACKTICK, LF]"
  have s: "render_code undefined None ?t = Inr (render_fence ?t None)" by (simp add: render_code_def)
  have "text_lines (normalize_lf ?t) = [''a'', [BACKTICK, BACKTICK, BACKTICK]]"
    by (simp add: text_lines_def normalize_lf_def replace_char_def)
  with rendered_code_blocks_read_back [OF s, of "[]"] s show ?thesis by (simp add: code_info_def)
qed

end
