(* ===== verification/Gfm_Rows.thy ===== *)
theory Gfm_Rows
  imports Gfm_Output Gfm_Fences
begin

text \<open>
  Markdown tables against a reader of table rows: no text of a cell ends the cell, so every line of a
  rendered table reads back as one cell per column.
\<close>

abbreviation BAR :: char where "BAR \<equiv> CHR ''|''"

section \<open>Bars\<close>

text \<open>Every bar follows a backslash; \<open>p\<close> is the character before the text.\<close>

fun bars_after :: "char \<Rightarrow> string \<Rightarrow> bool" where
  "bars_after p [] = True"
| "bars_after p (c # s) = ((c = BAR \<longrightarrow> p = BACKSLASH) \<and> bars_after c s)"

definition bars_escaped :: "string \<Rightarrow> bool" where
  "bars_escaped s \<longleftrightarrow> bars_after (CHR '' '') s"

lemma bars_after_mono: "bars_after p s \<Longrightarrow> p \<noteq> BACKSLASH \<Longrightarrow> bars_after q s"
  by (cases s) auto

lemma bars_after_append: "bars_after p (a @ b) \<longleftrightarrow> bars_after p a \<and> bars_after (if a = [] then p else last a) b"
  by (induction a arbitrary: p) auto

lemma bars_after_absent: "BAR \<notin> set s \<Longrightarrow> bars_after p s"
  by (induction s arbitrary: p) auto

lemma bars_escaped_absent: "BAR \<notin> set s \<Longrightarrow> bars_escaped s"
  unfolding bars_escaped_def by (rule bars_after_absent)

lemma bars_escaped_after: "bars_escaped s \<Longrightarrow> bars_after p s"
  unfolding bars_escaped_def by (erule bars_after_mono) simp

lemma bars_escaped_append: "bars_escaped a \<Longrightarrow> bars_escaped b \<Longrightarrow> bars_escaped (a @ b)"
  using bars_escaped_after [of b] by (simp add: bars_escaped_def bars_after_append)

lemma bars_escaped_Cons: "c \<noteq> BAR \<Longrightarrow> bars_escaped s \<Longrightarrow> bars_escaped (c # s)"
  using bars_escaped_after [of s c] by (simp add: bars_escaped_def)

lemma bars_escaped_concat: "(\<And>s. s \<in> set ss \<Longrightarrow> bars_escaped s) \<Longrightarrow> bars_escaped (concat ss)"
  by (induction ss) (auto intro: bars_escaped_append bars_escaped_absent)

lemma bars_escaped_suffix: "bars_escaped (a @ b) \<Longrightarrow> BACKSLASH \<notin> set a \<Longrightarrow> bars_escaped b"
  unfolding bars_escaped_def bars_after_append
  using bars_after_mono [of "last a" b] by (cases "a = []") (simp, metis last_in_set)

lemma bars_escaped_prefix: "bars_escaped (a @ b) \<Longrightarrow> bars_escaped a"
  by (simp add: bars_escaped_def bars_after_append)

text \<open>Replacing other characters by text without bars keeps the bars escaped.\<close>

lemma bars_after_replace_char:
  assumes "bars_after p s" "c \<notin> {BAR, BACKSLASH}" "BAR \<notin> set r"
  shows "bars_after p (replace_char c r s)"
  using assms(1)
proof (induction s arbitrary: p)
  case (Cons d s)
  show ?case
  proof (cases "d = c")
    case True
    with Cons assms(2) have "bars_after (if r = [] then p else last r) (replace_char c r s)"
      by (auto intro: bars_after_mono)
    with True assms(3) show ?thesis by (simp add: replace_char_def bars_after_append bars_after_absent)
  next
    case False
    with Cons show ?thesis by (simp add: replace_char_def)
  qed
qed (simp add: replace_char_def)

lemma bars_after_replace_pair:
  "bars_after p s \<Longrightarrow> {a, b} \<inter> {BAR, BACKSLASH} = {} \<Longrightarrow> BAR \<notin> set r \<Longrightarrow> bars_after p (replace_pair a b r s)"
proof (induction a b r s arbitrary: p rule: replace_pair.induct)
  case (1 a b r x y s)
  show ?case
  proof (cases "x = a \<and> y = b")
    case True
    with "1.prems" have "bars_after b s" "b \<noteq> BACKSLASH" by auto
    from bars_after_mono [OF this] have "bars_after q (replace_pair a b r s)" for q
      using "1.IH"(1) [OF True] "1.prems"(2,3) by blast
    with True "1.prems"(3) show ?thesis by (simp add: bars_after_append bars_after_absent)
  next
    case False
    with "1.IH"(2) [OF False] "1.prems" show ?thesis by auto
  qed
qed simp_all

lemma bars_escaped_replace:
  "bars_escaped s \<Longrightarrow> c \<notin> {BAR, BACKSLASH} \<Longrightarrow> BAR \<notin> set r \<Longrightarrow> bars_escaped (replace_char c r s)"
  "bars_escaped s \<Longrightarrow> {a, b} \<inter> {BAR, BACKSLASH} = {} \<Longrightarrow> BAR \<notin> set r \<Longrightarrow> bars_escaped (replace_pair a b r s)"
  unfolding bars_escaped_def by (blast intro: bars_after_replace_char bars_after_replace_pair)+

section \<open>Inlines in a cell\<close>

lemma escape_text_bars: "bars_escaped (escape_text s ctx)"
  unfolding escape_text_def
  by (rule bars_escaped_concat) (auto simp: bars_escaped_def escape_text_char_def escaped_punctuation_def)

lemma single_line_bars: "bars_escaped s \<Longrightarrow> bars_escaped (single_line s)"
  unfolding single_line_def normalize_lf_def by (intro bars_escaped_replace) simp_all

lemma escaped_bars: "bars_escaped (replace_char BAR [BACKSLASH, BAR] v)"
  unfolding replace_char_def by (rule bars_escaped_concat) (auto simp: bars_escaped_def)

lemma white_bytes: "encodes p v \<Longrightarrow> is_whitespace v \<Longrightarrow> BAR \<notin> set p \<and> BACKSLASH \<notin> set p"
  using encodes_cases [of p v] by (fastforce simp: is_whitespace_def)

lemma white_pieces:
  assumes "set ps \<subseteq> set (scalar_pieces s)" "\<And>p. p \<in> set ps \<Longrightarrow> white_piece p"
  shows "BAR \<notin> set (concat (map snd ps))" "BACKSLASH \<notin> set (concat (map snd ps))"
  using assms white_bytes scalar_piece_encodes [of _ _ s] by fastforce+

lemma utf8_chars: "utf8 s \<Longrightarrow> chars s = map fst (scalar_pieces s)"
proof -
  have "\<exists>r. char_indices_from i s = Some r \<and> map snd r = map fst (scalar_pieces s)" if "utf8 s" for i
    using that
  proof (induction arbitrary: i rule: utf8.induct)
    case (utf8_piece p v s)
    then obtain r where "char_indices_from (i + length p) s = Some r" "map snd r = map fst (scalar_pieces s)" by blast
    then show ?case
      using decode_scalar_append [OF utf8_piece.hyps(1), of s] encodes_not_Nil [OF utf8_piece.hyps(1)]
      by (simp add: char_indices_from.simps [of i "p @ s"] scalar_pieces_append [OF utf8_piece.hyps(1)])
  qed simp
  then show "utf8 s \<Longrightarrow> chars s = map fst (scalar_pieces s)"
    unfolding chars_def from_utf8_def by (metis (no_types, lifting) option.simps(5) option.map(2))
qed

lemma blank_bars: "utf8 s \<Longrightarrow> blank s \<Longrightarrow> BAR \<notin> set s"
  using white_pieces(1) [of "scalar_pieces s" s] by (simp add: blank_def utf8_chars utf8_scalar_pieces list_all_iff)

lemma escape_html_bars: "BAR \<notin> set s \<Longrightarrow> BAR \<notin> set (escape_html_code s ctx)"
  by (auto simp: escape_html_code_def escape_html_char_def split: if_splits)

lemma utf8_single_line: "utf8 s \<Longrightarrow> utf8 (single_line s)"
  by (rule unicode.P_single_line)

lemma code_span_bars: "utf8 v \<Longrightarrow> bars_escaped (render_code_span v TableCell)"
proof -
  assume v: "utf8 v"
  have wrap: "bars_escaped (replicate n BACKTICK)" for n by (rule bars_escaped_absent) simp
  have "bars_escaped (''<code>'' @ escape_html_code (single_line v) TableCell @ ''</code>'')" if "blank (single_line v)"
    using escape_html_bars [OF blank_bars [OF utf8_single_line [OF v] that]] by (intro bars_escaped_absent) simp
  moreover have "bars_escaped '' ''" by (rule bars_escaped_absent) simp
  ultimately show ?thesis
    unfolding render_code_span_def Let_def using wrap escaped_bars by (auto intro!: bars_escaped_append bars_escaped_Cons)
qed

lemma hex_digit_bar: "v < 16 \<Longrightarrow> hex_digit v b \<noteq> BAR"
proof -
  assume "v < 16"
  then have "hex_digit v b \<in> set ''0123456789ABCDEFabcdef''"
    by (auto simp: hex_digit_def nth_Cons' split: if_splits)
  then show ?thesis by auto
qed

lemma percent_byte_bar: "BAR \<notin> set (percent_byte c)"
  using hex_digit_bar [OF byte_halves(1), of c True] hex_digit_bar [OF byte_halves(2), of c True] by (simp add: percent_byte_def)

lemma destination_bars: "BAR \<notin> set (escape_destination v TableCell)"
proof -
  have "BAR \<notin> set (encode_piece (\<lambda>b. destination_safe b \<and> (TableCell \<noteq> TableCell \<or> b \<noteq> BAR)) p)" for p
    unfolding encode_piece_def using percent_byte_bar by (simp add: list_all_iff) blast
  then show ?thesis by (simp add: escape_destination_def encode_bytes_def)
qed

lemma label_bars: "BAR \<notin> set (footnote_label v)"
  using hex_digit_bar [OF byte_halves(1)] hex_digit_bar [OF byte_halves(2)]
  by (fastforce simp: footnote_label_def hex_byte_def)

lemma marked_bars: "utf8 v \<Longrightarrow> bars_escaped (render_marked_text cr v marks TableCell previous next_char)"
proof -
  assume v: "utf8 v"
  let ?v = "single_line v"
  have lead: "bars_escaped (take (length ?v - length (trim_start ?v)) ?v)" "bars_escaped (drop (length (trim_end ?v)) ?v)"
    unfolding leading_pieces [OF utf8_single_line [OF v]]
    by (rule bars_escaped_absent, rule white_pieces(1) [of _ ?v], use set_takeWhileD in fastforce, use set_takeWhileD in fastforce)+
  have "bars_escaped (concat (map fst (rev (wrappers marks native))))" "bars_escaped (concat (map snd (wrappers marks native)))"
    for native
    by (rule bars_escaped_absent, simp add: wrappers_def wrapper_order_def)+
  with lead show ?thesis
    unfolding render_marked_text_def Let_def
    by (auto intro!: bars_escaped_append escape_text_bars bars_escaped_absent [of "[]"])
qed

interpretation bars: inline_invariant utf8 bars_escaped TableCell
proof (unfold_locales, goal_cases)
  case (5 s)
  then show ?case by (intro bars_escaped_absent) (auto simp: inline_literals_def)
qed (auto intro: bars_escaped_absent bars_escaped_append utf8_Nil code_span_bars marked_bars
    bars_escaped_absent [OF label_bars] bars_escaped_absent [OF destination_bars])

section \<open>Cells\<close>

lemma protect_bars: "bars_escaped s \<Longrightarrow> bars_escaped (protect_paragraph_indent s)"
proof -
  assume s: "bars_escaped s"
  have tl: "bars_escaped (tl s)" if "takeWhile (\<lambda>c. c = CHR '' '' \<or> c = CHR 0x09) s \<noteq> []"
  proof (cases s)
    case (Cons c t)
    with that have "c = CHR '' '' \<or> c = CHR 0x09" by (auto split: if_splits)
    with bars_after_mono [of c t] s Cons show ?thesis by (auto simp: bars_escaped_def)
  qed (use s in simp)
  have "takeWhile (\<lambda>c. c = CHR '' '' \<or> c = CHR 0x09) s \<noteq> []"
    if "CHR 0x09 \<in> set (takeWhile (\<lambda>c. c = CHR '' '' \<or> c = CHR 0x09) s)
      \<or> 4 \<le> length (takeWhile (\<lambda>c. c = CHR '' '' \<or> c = CHR 0x09) s)"
    using that by auto
  with s tl show ?thesis
    unfolding protect_paragraph_indent_def Let_def by (auto intro!: bars_escaped_append bars_escaped_Cons)
qed

text \<open>The cells that hold paragraphs only; other blocks are not written for a cell.\<close>

definition paragraph_cell :: "Cell \<Rightarrow> bool" where
  "paragraph_cell c \<longleftrightarrow> list_all (\<lambda>n. case node_block n of Paragraph _ \<Rightarrow> True | _ \<Rightarrow> False) (cell_blocks c)"

lemma paragraphs_bars:
  assumes "render_blocks_in rc ns TableCell = Inr out" and "nodes_satisfy utf8 ns"
    and "list_all (\<lambda>n. case node_block n of Paragraph _ \<Rightarrow> True | _ \<Rightarrow> False) ns"
  shows "bars_escaped out"
proof -
  from assms(1) obtain bs where bs: "block_strings rc (\<lambda>n. render_block rc (render_blocks_in rc) n TableCell) False False ns = Inr bs"
    and out: "out = join_with [LF, LF] bs"
    by (auto simp: render_blocks_in.simps [of rc ns] and_then_Inr)
  have "bars_escaped b" if "b \<in> set bs" for b
  proof -
    from block_strings_origin [OF bs, of b] that
    obtain n s where n: "n \<in> set ns" "render_block rc (render_blocks_in rc) n TableCell = Inr s" "b = s \<or> is_list n"
      by blast
    from n(1) assms(3) have "case node_block n of Paragraph _ \<Rightarrow> True | _ \<Rightarrow> False" by (simp add: list_all_iff)
    then obtain xs where xs: "node_block n = Paragraph xs" by (cases "node_block n") auto
    have "\<forall>s \<in> set (inline_strings xs). utf8 s"
      using assms(2) all_nodes_member [OF n(1)] xs by (auto simp: nodes_satisfy_def)
    moreover obtain t where t: "render_inlines (crates rc) xs TableCell = Inr t" "s = protect_paragraph_indent t"
      using n(2) xs by (auto simp: render_block_def and_then_Inr)
    ultimately have "bars_escaped t" by (blast intro: bars.P_inlines)
    with n(3) xs t(2) show ?thesis by (auto simp: is_list_def protect_bars)
  qed
  moreover have "bars_escaped [LF, LF]" by (rule bars_escaped_absent) simp
  ultimately show ?thesis
    unfolding out by (induction bs) (auto simp: join_with_Cons intro!: bars_escaped_append bars_escaped_Cons bars_escaped_absent [of "[]"])
qed

lemma flatten_bars: "bars_escaped s \<Longrightarrow> bars_escaped (flatten_cell s)"
  unfolding flatten_cell_def normalize_lf_def by (intro bars_escaped_replace) simp_all

lemma trim_suffix: "utf8 s \<Longrightarrow> \<exists>a b. s = a @ trim s @ b \<and> BACKSLASH \<notin> set a"
proof -
  assume s: "utf8 s"
  let ?ps = "scalar_pieces s"
  define qs where "qs = dropWhile white_piece ?ps"
  have "qs = rev (dropWhile white_piece (rev qs)) @ rev (takeWhile white_piece (rev qs))"
    by (metis rev_append rev_rev_ident takeWhile_dropWhile_id)
  then have "concat (map snd qs) = trim s @ concat (map snd (rev (takeWhile white_piece (rev qs))))"
    unfolding trim_def Let_def qs_def [symmetric] concat_append [symmetric] map_append [symmetric] by simp
  moreover have "s = concat (map snd (takeWhile white_piece ?ps)) @ concat (map snd qs)"
    using trimmed_parts(1) [OF s] by (simp add: trim_start_def qs_def)
  moreover have "BACKSLASH \<notin> set (concat (map snd (takeWhile white_piece ?ps)))"
    by (rule white_pieces(2) [of _ s]) (use set_takeWhileD in fastforce)+
  ultimately show ?thesis by metis
qed

lemma trim_bars: "utf8 s \<Longrightarrow> bars_escaped s \<Longrightarrow> bars_escaped (trim s)"
  using trim_suffix [of s] bars_escaped_suffix bars_escaped_prefix by metis

lemma bold_bars: "utf8 s \<Longrightarrow> bars_escaped s \<Longrightarrow> bars_escaped (bold_cell s)"
  unfolding bold_cell_def by (auto intro!: bars_escaped_append bars_escaped_Cons trim_bars bars_escaped_absent [of "[]"])

lemma show_word_bar: "BAR \<notin> set (show_word n)"
  using show_nat_digits [of BAR "unat n"] by (auto simp: show_word_def)

lemma cell_text_bars:
  assumes "utf8 s" "bars_escaped s"
  shows "bars_escaped (cell_text c s)"
proof -
  have q: "bars_escaped (quoted_number n)" for n
    by (rule bars_escaped_absent) (simp add: quoted_number_def show_word_bar)
  let ?span = "''<span data-rowspan='' @ quoted_number (row_span c) @ '' data-colspan='' @ quoted_number (column_span c)
            @ ''>'' @ s @ ''</span>''"
  have span: "bars_escaped ?span"
    using q assms(2) by (auto intro!: bars_escaped_append bars_escaped_Cons bars_escaped_absent [of "[]"])
  have "utf8 (quoted_number n)" for n by (rule utf8_plain) simp
  then have "utf8 ?span"
    using assms(1) utf8_plain by (intro utf8_append) simp_all
  with span assms show ?thesis unfolding cell_text_def Let_def by (auto intro: bold_bars)
qed

section \<open>Rows\<close>

text \<open>
  GFM's rule: a bar ends a cell unless a backslash is before it. A row starts and ends with a bar, and
  a space pads each side of a cell.
\<close>

fun split_bars :: "char \<Rightarrow> string \<Rightarrow> string list" where
  "split_bars p [] = [[]]"
| "split_bars p (c # s) =
     (if c = BAR \<and> p \<noteq> BACKSLASH then [] # split_bars c s
      else (case split_bars c s of q # qs \<Rightarrow> (c # q) # qs | [] \<Rightarrow> [[c]]))"

definition read_row :: "string \<Rightarrow> string list" where
  "read_row line = map (\<lambda>c. butlast (tl c)) (butlast (tl (split_bars (CHR '' '') line)))"

lemma split_bars_cell:
  "bars_after p a \<Longrightarrow> split_bars p (a @ CHR '' '' # BAR # s) = (a @ '' '') # split_bars BAR s"
  by (induction a arbitrary: p) auto

lemma split_bars_row:
  "(\<And>c. c \<in> set cs \<Longrightarrow> bars_escaped c) \<Longrightarrow>
     split_bars BAR (concat (map (\<lambda>c. '' '' @ c @ '' |'') cs)) = map (\<lambda>c. '' '' @ c @ '' '') cs @ [[]]"
proof (induction cs)
  case (Cons c cs)
  have "bars_after (CHR '' '') c" using Cons.prems [of c] by (simp add: bars_escaped_def)
  from split_bars_cell [OF this] Cons show ?case by simp
qed simp

lemma read_row_text: "(\<And>c. c \<in> set cs \<Longrightarrow> bars_escaped c) \<Longrightarrow> read_row (row_text cs) = cs"
  using split_bars_row [of cs] by (simp add: read_row_def row_text_def comp_def)

lemma split_lines: "ls \<noteq> [] \<Longrightarrow> (\<And>l. l \<in> set ls \<Longrightarrow> LF \<notin> set l) \<Longrightarrow> split_on LF (join_with [LF] ls) = ls"
proof (induction ls)
  case (Cons l ls)
  then show ?case
    using split_on_append [of LF l] by (cases "ls = []") (simp_all add: join_with_Cons split_on_absent)
qed simp

lemma flatten_line: "LF \<notin> set (flatten_cell s)"
  by (auto simp: flatten_cell_def replace_char_def split: if_splits)

lemma cell_text_line: "LF \<notin> set s \<Longrightarrow> LF \<notin> set (cell_text c s)"
proof -
  have digits: "LF \<notin> set (quoted_number n)" for n
    using show_nat_digits [of LF "unat n"] by (auto simp: quoted_number_def show_word_def)
  have trim: "LF \<notin> set t \<Longrightarrow> LF \<notin> set (trim t)" for t
    using set_pieces [of "rev (dropWhile white_piece (rev (dropWhile white_piece (scalar_pieces t))))" t]
    by (force simp: trim_def Let_def dest: set_dropWhileD)
  have bold: "LF \<notin> set t \<Longrightarrow> LF \<notin> set (bold_cell t)" for t
    using trim [of t] by (auto simp: bold_cell_def)
  show "LF \<notin> set s \<Longrightarrow> LF \<notin> set (cell_text c s)"
    using digits by (simp add: cell_text_def Let_def bold)
qed

section \<open>Tables\<close>

definition table_nodes :: "TableRow list \<Rightarrow> BlockNode list" where
  "table_nodes rows = concat (map (\<lambda>r. concat (map cell_blocks (cells r))) rows)"

definition grid_cell :: "string \<Rightarrow> bool" where
  "grid_cell s \<longleftrightarrow> bars_escaped s \<and> LF \<notin> set s"

lemma set_all_nodes: "set (all_nodes ns) = (\<Union>m \<in> set ns. set (all_nodes [m]))"
  by (induction ns) auto

lemma cells_of_grid_cell:
  assumes "context_satisfies utf8 rc" "nodes_satisfy utf8 (table_nodes rows)"
    and "\<And>r c. r \<in> set rows \<Longrightarrow> c \<in> set (cells r) \<Longrightarrow> paragraph_cell c"
    and "s \<in> cells_of rc (render_blocks_in rc) rows"
  shows "grid_cell s"
proof (cases "s = []")
  case False
  with assms(4) obtain r c t where rc: "r \<in> set rows" "c \<in> set (cells r)"
    and cell: "render_cell rc (render_blocks_in rc) c = Inr (s, t)"
    by (auto simp: cells_of_def rendered_cells_def)
  then obtain out where out: "render_blocks_in rc (cell_blocks c) TableCell = Inr out" "s = cell_text c (flatten_cell out)"
    by (auto simp: render_cell_def and_then_Inr dest: exact_string_Inr)
  have nodes: "nodes_satisfy utf8 (cell_blocks c)"
  proof -
    have "set (all_nodes (cell_blocks c)) \<subseteq> set (all_nodes (table_nodes rows))"
    proof
      fix n assume "n \<in> set (all_nodes (cell_blocks c))"
      then obtain m where m: "m \<in> set (cell_blocks c)" "n \<in> set (all_nodes [m])"
        by (auto simp: set_all_nodes [of "cell_blocks c"])
      have "m \<in> set (table_nodes rows)" using m(1) rc by (auto simp: table_nodes_def)
      with m(2) all_nodes_single show "n \<in> set (all_nodes (table_nodes rows))" by blast
    qed
    with assms(2) show ?thesis by (auto simp: nodes_satisfy_def)
  qed
  have "utf8 out" by (rule unicode.P_blocks_in [OF out(1) assms(1) _ nodes]) simp
  moreover have "bars_escaped out"
    using paragraphs_bars [OF out(1) nodes] assms(3) [OF rc] by (simp add: paragraph_cell_def)
  ultimately show ?thesis
    by (simp add: out(2) grid_cell_def cell_text_bars flatten_bars cell_text_line flatten_line unicode.P_flatten)
qed (simp add: grid_cell_def bars_escaped_absent)

lemma separator_cell: "grid_cell (separator a)"
  by (cases a) (simp_all add: separator_def grid_cell_def bars_escaped_absent)

lemma row_text_line: "(\<And>c. c \<in> set cs \<Longrightarrow> grid_cell c) \<Longrightarrow> LF \<notin> set (row_text cs)"
  by (auto simp: row_text_def grid_cell_def)

lemma table_reads_back:
  assumes "\<And>row c. row \<in> set (h # s # body) \<Longrightarrow> c \<in> set row \<Longrightarrow> grid_cell c"
  shows "map read_row (split_on LF (table_text h s body)) = h # s # body"
proof -
  have "split_on LF (table_text h s body) = map row_text (h # s # body)"
    unfolding table_text_def
  proof (rule split_lines)
    fix l assume "l \<in> set (map row_text (h # s # body))"
    then obtain cs where "cs \<in> set (h # s # body)" "l = row_text cs" by auto
    with row_text_line [of cs] assms show "LF \<notin> set l" by blast
  qed simp
  moreover have "read_row (row_text cs) = cs" if "cs \<in> set (h # s # body)" for cs
    by (rule read_row_text) (use assms [OF that] in \<open>auto simp: grid_cell_def\<close>)
  ultimately show ?thesis by (simp add: map_idI)
qed

lemma rendered_table_reads_back:
  assumes table: "render_table rc (render_blocks_in rc) rows alignments = Inr out" "table_shape rows = Inr (width, h, html)"
    and plain_table: "\<not> uses_spreadsheetml_html_tables rc"
    and utf8_input: "context_satisfies utf8 rc" "nodes_satisfy utf8 (table_nodes rows)"
    and paragraphs: "\<And>r c. r \<in> set rows \<Longrightarrow> c \<in> set (cells r) \<Longrightarrow> paragraph_cell c"
  shows "\<exists>hd_row body. map read_row (split_on LF out)
      = hd_row # map (\<lambda>k. separator (if k < length alignments then alignments ! k else AlignNone)) [0..<width] # body
    \<and> (\<forall>row \<in> set (hd_row # body). length row = width \<and> set row \<subseteq> cells_of rc (render_blocks_in rc) rows)
    \<and> length body = (if h then length rows - 1 else length rows)"
proof -
  let ?seps = "map (\<lambda>k. separator (if k < length alignments then alignments ! k else AlignNone)) [0..<width]"
  from table plain_table obtain own where md: "render_markdown_table rc (render_blocks_in rc) rows alignments width h = Inr (out, own)"
    by (auto simp: render_table_def render_table_measured_def and_then_Inr)
  have "h \<Longrightarrow> rows \<noteq> []" using table(2) by (auto simp: table_shape_def first_has_header_def and_then_Inr)
  from markdown_table_text [OF md this] obtain hd_row body where out: "out = table_text hd_row ?seps body"
    and rows: "\<And>row. row \<in> set (hd_row # body) \<Longrightarrow> length row = width \<and> set row \<subseteq> cells_of rc (render_blocks_in rc) rows"
    and n: "length body = (if h then length rows - 1 else length rows)"
    by metis
  have cell: "grid_cell c" if "row \<in> set (hd_row # ?seps # body)" "c \<in> set row" for row c
    using that rows cells_of_grid_cell [OF utf8_input paragraphs] separator_cell by fastforce
  have reads: "map read_row (split_on LF out) = hd_row # ?seps # body"
    unfolding out by (rule table_reads_back) (rule cell)
  show ?thesis by (intro exI conjI, rule reads) (use rows n in auto)
qed

section \<open>A concrete table\<close>

definition demo_rows :: "TableRow list" where
  "demo_rows = [TableRow [Cell 1 1 False [BlockNode ''a'' (Paragraph [Text ''x|y'' []]) demo_provenance]]]"

definition demo_crates :: gfm_crates where
  "demo_crates = \<lparr>sha256_digest = \<lambda>bs. replicate 32 (hd bs), base64_encode = \<lambda>_. ''AA=='',
     urls = \<lparr>url_parse = \<lambda>_. None, url_join = \<lambda>_ _. None, url_string = \<lambda>_. [], host_parse = \<lambda>_. None,
       ip_parse = \<lambda>_. None, show_ipv6 = \<lambda>_. []\<rparr>,
     unicode_alphanumeric = \<lambda>_. False, allocates = \<lambda>_. True, string_capacity = length\<rparr>"

definition demo_rc :: RenderContext where
  "demo_rc = \<lparr>crates = demo_crates, asset_plan = \<lparr>plan_entries = [], plan_by_id = []\<rparr>, inventory = [],
     output_options = default_output_options, document = default_document\<rparr>"

lemma demo_row_shape: "table_shape demo_rows = Inr (1, False, False)"
  by (simp add: demo_rows_def table_shape_def next_free.simps MAX_TABLE_COLUMNS_def first_has_header_def fill_def)

lemma demo_row_cell: "render_blocks_in demo_rc (cell_blocks (Cell 1 1 False [BlockNode ''a'' (Paragraph [Text ''x|y'' []]) q])) TableCell = Inr [CHR ''x'', BACKSLASH, BAR, CHR ''y'']"
  by (simp add: render_blocks_in.simps render_block_def render_inlines_def render_marked_text_def single_line_def normalize_lf_def
      replace_char_def escape_text_def escape_text_char_def escaped_punctuation_def Let_def protect_paragraph_indent_def
      hidden_heading_def is_notes_heading_def ends_with_def HEADING_MARK_def strip_suffix_def is_list_def)


definition demo_cell :: string where "demo_cell = [CHR ''x'', BACKSLASH, BAR, CHR ''y'']"

lemma demo_cell_facts: "length demo_cell = 4" "normalize_lf demo_cell = demo_cell" "flatten_cell demo_cell = demo_cell"
  "replace_pair LF LF ''<br><br>'' demo_cell = demo_cell" "replace_char LF ''<br>'' demo_cell = demo_cell"
  "valid_utf8 demo_cell" "cell_text (Cell 1 1 False bs) demo_cell = demo_cell"
  by (simp_all add: demo_cell_def normalize_lf_def flatten_cell_def replace_char_def cell_text_def valid_utf8_def from_utf8_def Let_def)

lemma demo_rendered_cell:
  "render_cell demo_rc (render_blocks_in demo_rc) (Cell 1 1 False [BlockNode ''a'' (Paragraph [Text ''x|y'' []]) q]) = Inr (demo_cell, 20)"
  using demo_row_cell [of q]
  by (simp add: render_cell_def flip: demo_cell_def)
   (simp add: cell_temporary_def demo_cell_facts exact_string_def exact_uninit_def exact_push_def exact_finish_def demo_rc_def
     demo_crates_def capacity64_def to_u64_def plan_add_def checked_add_def Let_def)

lemma demo_grid:
  "table_grid demo_rc (render_blocks_in demo_rc) demo_rows 1 =
     Inr ([[demo_cell]], no_owners\<lparr>occupancy_bytes := 4, grid_rows := 24, grid_slots := 24, cell_strings := 4, cell_block_joins := 20\<rparr>)"
  by (simp add: demo_rows_def table_grid_def exact_zero_occupancy_def exact_values_def exact_uninit_def
    slots_push_def slots_into_vec_def checked_product_def to_u64_def exact_empty_strings_def plan_add_def checked_add_def next_free.simps
    demo_rendered_cell U32_SIZE_def STRING_SIZE_def VEC_SIZE_def no_owners_def demo_cell_facts)
   (simp add: demo_rc_def demo_crates_def)

definition demo_table :: string where
  "demo_table = ''|  |'' @ [LF] @ ''| --- |'' @ [LF] @ ''| '' @ demo_cell @ '' |''"

lemma demo_written: "write_table demo_crates [[]] [''---''] [[demo_cell]] = Inr demo_table"
  by (simp add: write_table_def table_output_length_def table_row_length_def write_exact_table_row_def exact_uninit_def demo_cell_facts
     exact_push_def exact_finish_def demo_table_def valid_utf8_def from_utf8_def) (simp add: demo_crates_def demo_cell_def)


lemma demo_row_table: "render_table demo_rc (render_blocks_in demo_rc) demo_rows [] = Inr demo_table"
proof -
  have fallback: "exact_empty_strings demo_crates (Suc 0) d = Inr [[]]" for d
    by (simp add: exact_empty_strings_def exact_values_def exact_uninit_def slots_push_def slots_into_vec_def demo_crates_def)
  have seps: "exact_separators demo_crates (Suc 0) [] = Inr [''---'']"
    by (simp add: exact_separators_def exact_uninit_def slots_push_def slots_into_vec_def separator_def exact_string_def
        exact_push_def exact_finish_def demo_crates_def valid_utf8_def from_utf8_def)
  have crates: "crates demo_rc = demo_crates" "\<not> uses_spreadsheetml_html_tables demo_rc"
    by (simp_all add: demo_rc_def uses_spreadsheetml_html_tables_def default_document_def)
  have length: "length demo_table = 21" by (simp add: demo_table_def demo_cell_def)
  have "\<exists>own. render_markdown_table demo_rc (render_blocks_in demo_rc) demo_rows [] 1 False = Inr (demo_table, own)"
    using demo_grid demo_written
    by (simp add: render_markdown_table_def fallback seps crates length strings_total_def checked_product_def to_u64_def plan_add_def
        checked_add_def STRING_SIZE_def table_plan_owners_def demo_rows_def plan_mul_def U32_SIZE_def VEC_SIZE_def verify_within_def
        owner_list_def no_owners_def Let_def word_less_nat_alt)
  then show ?thesis using crates by (auto simp: render_table_def render_table_measured_def demo_row_shape)
qed
text \<open>
  Claim C39: a Markdown table keeps its grid. When the strings are UTF-8 and the cells hold paragraphs,
  every line of the table reads back, by GFM's rule for bars, as exactly \<open>width\<close> cells: the header, the
  separators of the alignments, and one line per remaining row, each cell empty or the rendering of a
  cell of the table.
\<close>

theorem table_rows_read_back:
  assumes "render_table rc (render_blocks_in rc) rows alignments = Inr out" "table_shape rows = Inr (width, h, html)"
    and "\<not> uses_spreadsheetml_html_tables rc"
    and "context_satisfies utf8 rc" "nodes_satisfy utf8 (table_nodes rows)"
    and "\<And>r c. r \<in> set rows \<Longrightarrow> c \<in> set (cells r) \<Longrightarrow> paragraph_cell c"
  shows "\<exists>hd_row body. map read_row (split_on LF out)
      = hd_row # map (\<lambda>k. separator (if k < length alignments then alignments ! k else AlignNone)) [0..<width] # body
    \<and> (\<forall>row \<in> set (hd_row # body). length row = width \<and> set row \<subseteq> cells_of rc (render_blocks_in rc) rows)
    \<and> length body = (if h then length rows - 1 else length rows)"
  by (rule rendered_table_reads_back [OF assms])

theorem table_rows_read_back_witness:
  "\<exists>hd_row row. map read_row (split_on LF demo_table) = [hd_row, [''---''], row] \<and> length row = 1"
proof -
  have spreadsheet: "\<not> uses_spreadsheetml_html_tables demo_rc"
    by (simp add: demo_rc_def uses_spreadsheetml_html_tables_def default_document_def)
  have rc: "context_satisfies utf8 demo_rc"
    by (simp add: context_satisfies_def demo_rc_def default_document_def plan_reference_def plan_uri_def demo_crates_def utf8_ascii)
  have nodes: "nodes_satisfy utf8 (table_nodes demo_rows)"
    by (simp add: nodes_satisfy_def table_nodes_def demo_rows_def utf8_ascii)
  have cells: "paragraph_cell c" if "r \<in> set demo_rows" "c \<in> set (cells r)" for r c
    using that by (auto simp: demo_rows_def paragraph_cell_def)
  have "\<exists>hd_row body. map read_row (split_on LF demo_table)
      = hd_row # map (\<lambda>k. separator (if k < length ([] :: TableAlignment list) then [] ! k else AlignNone)) [0..<1] # body
    \<and> (\<forall>row \<in> set (hd_row # body). length row = 1 \<and> set row \<subseteq> cells_of demo_rc (render_blocks_in demo_rc) demo_rows)
    \<and> length body = (if False then length demo_rows - 1 else length demo_rows)"
    by (rule table_rows_read_back [OF demo_row_table demo_row_shape spreadsheet rc nodes]) (erule (1) cells)
  then obtain hd_row body where "map read_row (split_on LF demo_table) = hd_row # [''---''] # body" "length body = 1"
    "\<forall>row \<in> set (hd_row # body). length row = 1"
    by (auto simp: demo_rows_def separator_def)
  then show ?thesis by (cases body) auto
qed

text \<open>
  The restriction to paragraphs is needed: a code block is written into a cell without escaping its
  bars, so a cell with the code \<open>a|b\<close> reads back as two.
\<close>

lemma code_in_a_cell_splits_it:
  "\<exists>s. render_blocks_in demo_rc [BlockNode ''c'' (CodeBlock None ''a|b'') demo_provenance] TableCell = Inr s
     \<and> length (read_row (row_text [flatten_cell s])) = 2"
  by (simp add: render_blocks_in.simps render_block_def render_code_def render_fence_def normalize_lf_def longest_run_def
      replace_char_def hidden_heading_def is_notes_heading_def ends_with_def HEADING_MARK_def strip_suffix_def Let_def
      flatten_cell_def row_text_def read_row_def numeral_3_eq_3)

end
