(* ===== verification/Gfm_Plan.thy ===== *)
theory Gfm_Plan
  imports Gfm_Grid
begin

text \<open>
  What an accepted asset plan says: every planned identifier names its own asset, equal bytes share
  one content-addressed file, and different bytes never do.
\<close>

section \<open>Folds over numbered lists\<close>

lemma try_fold_numbered:
  "try_fold f (enumerate m xs) s = Inr t \<Longrightarrow> Q m s \<Longrightarrow>
     (\<And>k s s'. m \<le> k \<Longrightarrow> k < m + length xs \<Longrightarrow> f (k, xs ! (k - m)) s = Inr s' \<Longrightarrow> Q k s \<Longrightarrow> Q (Suc k) s') \<Longrightarrow>
     Q (m + length xs) t"
proof (induction xs arbitrary: m s)
  case (Cons x xs)
  from Cons.prems(1) obtain s' where s': "f (m, x) s = Inr s'" "try_fold f (enumerate (Suc m) xs) s' = Inr t"
    by (auto simp: and_then_Inr)
  have "Q (Suc m) s'" using Cons.prems(3) [of m s s'] s'(1) Cons.prems(2) by simp
  from Cons.IH [OF s'(2) this] show ?case
    using Cons.prems(3) by (simp add: nth_Cons' Suc_le_eq)
qed simp

lemma try_map_Inr: "try_map f xs = Inr ys \<Longrightarrow> list_all2 (\<lambda>x y. f x = Inr y) xs ys"
  by (induction xs arbitrary: ys) (auto simp: and_then_Inr)

section \<open>Grouping the inventory\<close>

text \<open>The plan after the first \<open>n\<close> assets.\<close>

definition same_bytes :: "Asset list \<Rightarrow> nat \<Rightarrow> nat \<Rightarrow> nat set" where
  "same_bytes all n s = {k. k < n \<and> asset_bytes (all ! k) = asset_bytes (all ! s)}"

definition group_ok :: "gfm_crates \<Rightarrow> Asset list \<Rightarrow> nat \<Rightarrow> string \<Rightarrow> asset_group \<Rightarrow> bool" where
  "group_ok cr all n h g \<longleftrightarrow> (case g of (source, mt, e, ids) \<Rightarrow>
     source < n \<and> asset_bytes (all ! source) \<noteq> [] \<and> h = sha256_hex cr (asset_bytes (all ! source))
     \<and> set ids = (\<lambda>k. asset_id (all ! k)) ` same_bytes all n source)"

definition planned_to :: "gfm_crates \<Rightarrow> Asset list \<Rightarrow> nat \<Rightarrow> planning \<Rightarrow> bool" where
  "planned_to cr all n st \<longleftrightarrow>
     (\<forall>i r. kv_get (ids_planned st) i = Some r \<longrightarrow>
        entry_index r = None \<and> ref_source r < n \<and> asset_id (all ! ref_source r) = i)
     \<and> (\<forall>k < n. kv_get (ids_planned st) (asset_id (all ! k)) = Some \<lparr>entry_index = None, ref_source = k\<rparr>)
     \<and> kv_ok (groups st) \<and> (\<forall>h g. kv_get (groups st) h = Some g \<longrightarrow> group_ok cr all n h g)
     \<and> (\<forall>k < n. asset_bytes (all ! k) \<noteq> [] \<longrightarrow>
          (\<exists>g. kv_get (groups st) (sha256_hex cr (asset_bytes (all ! k))) = Some g
             \<and> asset_bytes (all ! fst g) = asset_bytes (all ! k)))"

lemma same_bytes_Suc:
  "same_bytes all (Suc n) s =
     (if asset_bytes (all ! n) = asset_bytes (all ! s) then insert n (same_bytes all n s) else same_bytes all n s)"
  by (auto simp: same_bytes_def less_Suc_eq)

lemma group_ok_other:
  "group_ok cr all n h g \<Longrightarrow> asset_bytes (all ! n) \<noteq> asset_bytes (all ! fst g) \<Longrightarrow> group_ok cr all (Suc n) h g"
  by (auto simp: group_ok_def same_bytes_Suc split: prod.splits)

lemma group_ok_hash: "group_ok cr all n h g \<Longrightarrow> h = sha256_hex cr (asset_bytes (all ! fst g))"
  by (auto simp: group_ok_def split: prod.splits)

lemma group_ok_member:
  "group_ok cr all n h (s, mt, e, ids) \<Longrightarrow> asset_bytes (all ! s) = asset_bytes (all ! n) \<Longrightarrow>
     group_ok cr all (Suc n) h (s, mt', e', ids @ [asset_id (all ! n)])"
  by (auto simp: group_ok_def same_bytes_Suc)

lemma group_ok_new:
  assumes "asset_bytes (all ! n) \<noteq> []" and "same_bytes all n n = {}"
  shows "group_ok cr all (Suc n) (sha256_hex cr (asset_bytes (all ! n))) (n, mt, e, [asset_id (all ! n)])"
  using assms by (simp add: group_ok_def same_bytes_Suc)

lemma plan_asset_Inr:
  assumes "plan_asset cr opts l all (k, a) st = Inr st'"
  obtains t mt gs where "kv_get (ids_planned st) (asset_id a) = None" "\<not> blank (asset_id a)"
    "st' = \<lparr>ids_planned = kv_put (asset_id a) \<lparr>entry_index = None, ref_source = k\<rparr> (ids_planned st),
       groups = gs, planned_bytes = t\<rparr>"
    "if asset_bytes a = [] then gs = groups st
     else group_asset all (groups st) k a mt (sha256_hex cr (asset_bytes a)) = Inr gs"
proof -
  let ?ids = "kv_put (asset_id a) \<lparr>entry_index = None, ref_source = k\<rparr> (ids_planned st)"
  from assms have fresh: "kv_get (ids_planned st) (asset_id a) = None" "\<not> blank (asset_id a)"
    by (auto simp: plan_asset_def Let_def split: if_splits)
  with assms obtain mt t where rest: "(if asset_bytes a = [] then
          and_then (validate_empty_asset (urls cr) a opts (asset_id a)) (\<lambda>_.
          Inr (st\<lparr>ids_planned := ?ids, planned_bytes := t\<rparr>))
        else
          and_then (group_asset all (groups st) k a mt (sha256_hex cr (asset_bytes a))) (\<lambda>gs.
          Inr \<lparr>ids_planned = ?ids, groups = gs, planned_bytes = t\<rparr>)) = Inr st'"
    unfolding plan_asset_def Let_def fst_conv snd_conv and_then_Inr [of "normalize_media_type _"]
      and_then_Inr [of "check_asset_size _ _ _ _"]
    by (simp only: simp_thms if_False and_then_Inr) blast
  show thesis
  proof (cases "asset_bytes a = []")
    case True
    with rest have "st' = \<lparr>ids_planned = ?ids, groups = groups st, planned_bytes = t\<rparr>"
      by (auto simp: and_then_Inr)
    with that [OF fresh] True show ?thesis by simp
  next
    case False
    with rest obtain gs where "group_asset all (groups st) k a mt (sha256_hex cr (asset_bytes a)) = Inr gs"
      "st' = \<lparr>ids_planned = ?ids, groups = gs, planned_bytes = t\<rparr>"
      by (auto simp: and_then_Inr)
    with that [OF fresh] False show ?thesis by simp
  qed
qed

lemma group_asset_step:
  assumes "group_asset all (groups st) n (all ! n) mt (sha256_hex cr (asset_bytes (all ! n))) = Inr gs"
    and "planned_to cr all n st" and "asset_bytes (all ! n) \<noteq> []"
  shows "kv_ok gs" "kv_get gs h = Some g \<Longrightarrow> group_ok cr all (Suc n) h g"
    "k < Suc n \<Longrightarrow> asset_bytes (all ! k) \<noteq> [] \<Longrightarrow>
       \<exists>g. kv_get gs (sha256_hex cr (asset_bytes (all ! k))) = Some g \<and> asset_bytes (all ! fst g) = asset_bytes (all ! k)"
proof -
  let ?h = "sha256_hex cr (asset_bytes (all ! n))"
  from assms(1) obtain s mt' e ids where gs: "gs = kv_put ?h (s, mt', e, ids) (groups st)"
    and s: "asset_bytes (all ! s) = asset_bytes (all ! n)"
    and new: "kv_get (groups st) ?h = None \<and> s = n \<and> ids = [asset_id (all ! n)]
      \<or> (\<exists>ids0. kv_get (groups st) ?h = Some (s, mt', e, ids0) \<and> ids = ids0 @ [asset_id (all ! n)])"
    by (auto simp: group_asset_def split: option.splits if_splits)
  from assms(2) show "kv_ok gs" by (simp add: gs planned_to_def)
  from assms(2) have groups: "\<And>h g. kv_get (groups st) h = Some g \<Longrightarrow> group_ok cr all n h g"
    and known: "\<And>k. k < n \<Longrightarrow> asset_bytes (all ! k) \<noteq> [] \<Longrightarrow>
      \<exists>g. kv_get (groups st) (sha256_hex cr (asset_bytes (all ! k))) = Some g \<and> asset_bytes (all ! fst g) = asset_bytes (all ! k)"
    by (auto simp: planned_to_def)
  have "group_ok cr all (Suc n) ?h (s, mt', e, ids)"
    using new
  proof
    assume new: "kv_get (groups st) ?h = None \<and> s = n \<and> ids = [asset_id (all ! n)]"
    with known assms(3) have "same_bytes all n n = {}" by (fastforce simp: same_bytes_def)
    with new assms(3) show ?thesis by (simp add: group_ok_new)
  next
    assume "\<exists>ids0. kv_get (groups st) ?h = Some (s, mt', e, ids0) \<and> ids = ids0 @ [asset_id (all ! n)]"
    then obtain ids0 where "kv_get (groups st) ?h = Some (s, mt', e, ids0)" "ids = ids0 @ [asset_id (all ! n)]" by blast
    with group_ok_member [OF groups s] show ?thesis by simp
  qed
  moreover have "group_ok cr all (Suc n) h g" if "kv_get (groups st) h = Some g" "h \<noteq> ?h" for h g
    using groups [OF that(1)] group_ok_hash [OF groups [OF that(1)]] that(2) by (auto intro: group_ok_other)
  ultimately show "group_ok cr all (Suc n) h g" if "kv_get gs h = Some g"
    using that by (auto simp: gs split: if_splits)
  show "\<exists>g. kv_get gs (sha256_hex cr (asset_bytes (all ! k))) = Some g \<and> asset_bytes (all ! fst g) = asset_bytes (all ! k)"
    if k: "k < Suc n" "asset_bytes (all ! k) \<noteq> []"
  proof (cases "sha256_hex cr (asset_bytes (all ! k)) = ?h")
    case True
    have "asset_bytes (all ! k) = asset_bytes (all ! n)"
    proof (cases "k = n")
      case False
      with known [of k] k True obtain g where "kv_get (groups st) ?h = Some g" "asset_bytes (all ! fst g) = asset_bytes (all ! k)"
        by auto
      with new s show ?thesis by auto
    qed simp
    with True s show ?thesis by (simp add: gs)
  next
    case False
    with known [of k] k show ?thesis by (auto simp: gs less_Suc_eq)
  qed
qed

lemma plan_asset_step:
  assumes "plan_asset cr opts l all (n, all ! n) st = Inr st'" and "planned_to cr all n st"
  shows "planned_to cr all (Suc n) st'"
proof -
  obtain t mt gs where fresh: "kv_get (ids_planned st) (asset_id (all ! n)) = None"
    and st': "st' = \<lparr>ids_planned = kv_put (asset_id (all ! n)) \<lparr>entry_index = None, ref_source = n\<rparr> (ids_planned st),
       groups = gs, planned_bytes = t\<rparr>"
    and gs: "if asset_bytes (all ! n) = [] then gs = groups st
     else group_asset all (groups st) n (all ! n) mt (sha256_hex cr (asset_bytes (all ! n))) = Inr gs"
    using plan_asset_Inr [OF assms(1)] by metis
  from assms(2) have ids: "\<And>i r. kv_get (ids_planned st) i = Some r \<Longrightarrow>
      entry_index r = None \<and> ref_source r < n \<and> asset_id (all ! ref_source r) = i"
    "\<And>k. k < n \<Longrightarrow> kv_get (ids_planned st) (asset_id (all ! k)) = Some \<lparr>entry_index = None, ref_source = k\<rparr>"
    by (auto simp: planned_to_def)
  have "kv_ok gs \<and> (\<forall>h g. kv_get gs h = Some g \<longrightarrow> group_ok cr all (Suc n) h g)
     \<and> (\<forall>k < Suc n. asset_bytes (all ! k) \<noteq> [] \<longrightarrow>
          (\<exists>g. kv_get gs (sha256_hex cr (asset_bytes (all ! k))) = Some g
             \<and> asset_bytes (all ! fst g) = asset_bytes (all ! k)))"
  proof (cases "asset_bytes (all ! n) = []")
    case True
    then have "gs = groups st" using gs by simp
    moreover have "group_ok cr all (Suc n) h g" if "kv_get (groups st) h = Some g" for h g
    proof (rule group_ok_other)
      show "group_ok cr all n h g" using assms(2) that unfolding planned_to_def by blast
      then show "asset_bytes (all ! n) \<noteq> asset_bytes (all ! fst g)" using True by (auto simp: group_ok_def split: prod.splits)
    qed
    ultimately show ?thesis using assms(2) True by (auto simp: planned_to_def less_Suc_eq)
  next
    case False
    with gs have "group_asset all (groups st) n (all ! n) mt (sha256_hex cr (asset_bytes (all ! n))) = Inr gs" by simp
    from group_asset_step [OF this assms(2) False] show ?thesis by blast
  qed
  moreover have "asset_id (all ! k) \<noteq> asset_id (all ! n)" if "k < n" for k
    using ids(2) [OF that] fresh by auto
  ultimately show ?thesis
    using ids by (fastforce simp: planned_to_def st' less_Suc_eq)
qed

lemma planned_all:
  assumes "try_fold (plan_asset cr opts l all) (enumerate 0 all) \<lparr>ids_planned = [], groups = [], planned_bytes = 0\<rparr> = Inr st"
  shows "planned_to cr all (length all) st"
proof -
  have "planned_to cr all 0 \<lparr>ids_planned = [], groups = [], planned_bytes = 0\<rparr>"
    by (simp add: planned_to_def kv_ok_def)
  from try_fold_numbered [OF assms, where Q = "planned_to cr all", OF this] show ?thesis
    using plan_asset_step by simp
qed

section \<open>Entries\<close>

definition entry_ok :: "gfm_crates \<Rightarrow> OutputOptions \<Rightarrow> Asset list \<Rightarrow> PlannedAsset \<Rightarrow> bool" where
  "entry_ok cr opts all e \<longleftrightarrow>
     pa_source e < length all \<and> asset_bytes (all ! pa_source e) \<noteq> []
     \<and> pa_sha256 e = sha256_hex cr (asset_bytes (all ! pa_source e))
     \<and> set (pa_ids e) = (\<lambda>k. asset_id (all ! k)) ` same_bytes all (length all) (pa_source e)
     \<and> (\<exists>mt. asset_filename_from_sha256 (pa_sha256 e) mt = Inr (pa_filename e))
     \<and> pa_uri e = join_uri_prefix (asset_uri_prefix opts) (pa_filename e)"

lemma plan_entry_ok:
  "plan_entry opts all (h, g) = Inr e \<Longrightarrow> group_ok cr all (length all) h g \<Longrightarrow> entry_ok cr opts all e"
  by (auto simp: plan_entry_def group_ok_def entry_ok_def and_then_Inr split: prod.splits)

lemma plan_entry_source: "plan_entry opts all (h, g) = Inr e \<Longrightarrow> pa_source e = fst g \<and> pa_sha256 e = h"
  by (auto simp: plan_entry_def and_then_Inr split: prod.splits)

text \<open>The index of an identifier after the first \<open>n\<close> entries.\<close>

definition indexed_to ::
  "(string, PlannedAssetReference) kv \<Rightarrow> PlannedAsset list \<Rightarrow> nat \<Rightarrow> (string, PlannedAssetReference) kv \<Rightarrow> bool" where
  "indexed_to m0 es n m \<longleftrightarrow> (\<forall>i.
     map_option ref_source (kv_get m i) = map_option ref_source (kv_get m0 i)
     \<and> (\<forall>r. kv_get m i = Some r \<longrightarrow> (case entry_index r of
           None \<Rightarrow> \<forall>k < n. i \<notin> set (pa_ids (es ! k))
         | Some k \<Rightarrow> k < n \<and> i \<in> set (pa_ids (es ! k)))))"

lemma index_entry_get:
  assumes "index_entry (k, e) m = Inr m'"
  shows "kv_get m' i = (if i \<in> set (pa_ids e) then map_option (\<lambda>r. r\<lparr>entry_index := Some k\<rparr>) (kv_get m i) else kv_get m i)"
proof -
  have "kv_get m' i = (if i \<in> set is then map_option (\<lambda>r. r\<lparr>entry_index := Some k\<rparr>) (kv_get m i) else kv_get m i)"
    if "try_fold (\<lambda>i m. case kv_get m i of
         None \<Rightarrow> Inl (render_error (''planned asset ID disappeared: '' @ i))
       | Some r \<Rightarrow> Inr (kv_put i (r\<lparr>entry_index := Some k\<rparr>) m)) is m = Inr m'" for "is" m
    using that
  proof (induction "is" arbitrary: m)
    case (Cons j js)
    then obtain r where r: "kv_get m j = Some r"
      and rest: "kv_get m' i = (if i \<in> set js then map_option (\<lambda>r. r\<lparr>entry_index := Some k\<rparr>)
          (kv_get (kv_put j (r\<lparr>entry_index := Some k\<rparr>) m) i) else kv_get (kv_put j (r\<lparr>entry_index := Some k\<rparr>) m) i)"
      by (auto split: option.splits)
    then show ?case by (auto simp: r)
  qed simp
  from this [OF assms [unfolded index_entry_def fst_conv snd_conv]] show ?thesis .
qed

lemma index_entry_step:
  assumes "index_entry (n, es ! n) m = Inr m'" and "indexed_to m0 es n m"
  shows "indexed_to m0 es (Suc n) m'"
  unfolding indexed_to_def
proof (intro allI conjI impI)
  fix i
  show "map_option ref_source (kv_get m' i) = map_option ref_source (kv_get m0 i)"
    using assms(2) by (auto simp: index_entry_get [OF assms(1)] indexed_to_def option.map_comp comp_def)
  fix r assume r: "kv_get m' i = Some r"
  show "case entry_index r of None \<Rightarrow> \<forall>k < Suc n. i \<notin> set (pa_ids (es ! k))
      | Some k \<Rightarrow> k < Suc n \<and> i \<in> set (pa_ids (es ! k))"
  proof (cases "i \<in> set (pa_ids (es ! n))")
    case True
    with r show ?thesis by (auto simp: index_entry_get [OF assms(1)])
  next
    case False
    with r have "kv_get m i = Some r" by (simp add: index_entry_get [OF assms(1)])
    with assms(2) have "case entry_index r of None \<Rightarrow> \<forall>k < n. i \<notin> set (pa_ids (es ! k))
      | Some k \<Rightarrow> k < n \<and> i \<in> set (pa_ids (es ! k))" unfolding indexed_to_def by blast
    with False show ?thesis by (auto simp: less_Suc_eq split: option.splits)
  qed
qed

section \<open>The accepted plan\<close>

lemma plan_assets_facts:
  assumes "plan_assets cr pf vl d all opts l = Inr plan"
  shows "validate_document pf vl d = Inr ()" "validate_asset_uri_prefix (asset_uri_prefix opts) = Inr ()"
    "\<And>e. e \<in> set (plan_entries plan) \<Longrightarrow> entry_ok cr opts all e"
    "\<And>i r. plan_reference plan i = Some r \<Longrightarrow> ref_source r < length all \<and> asset_id (all ! ref_source r) = i"
    "\<And>i r k. plan_reference plan i = Some r \<Longrightarrow> entry_index r = Some k \<Longrightarrow>
       k < length (plan_entries plan) \<and> i \<in> set (pa_ids (plan_entries plan ! k))"
    "\<And>k. k < length all \<Longrightarrow> \<exists>r. plan_reference plan (asset_id (all ! k)) = Some r \<and> ref_source r = k
       \<and> (asset_bytes (all ! k) \<noteq> [] \<longrightarrow> entry_index r \<noteq> None)"
    "\<And>j k. j < length all \<Longrightarrow> k < length all \<Longrightarrow> asset_bytes (all ! j) \<noteq> [] \<Longrightarrow> asset_bytes (all ! k) \<noteq> [] \<Longrightarrow>
       sha256_hex cr (asset_bytes (all ! j)) = sha256_hex cr (asset_bytes (all ! k)) \<Longrightarrow>
       asset_bytes (all ! j) = asset_bytes (all ! k)"
    "\<And>a b. a \<in> set (plan_entries plan) \<Longrightarrow> b \<in> set (plan_entries plan) \<Longrightarrow> pa_sha256 a = pa_sha256 b \<Longrightarrow> a = b"
proof -
  from assms obtain st es where doc: "validate_document pf vl d = Inr ()"
    and prefix: "validate_asset_uri_prefix (asset_uri_prefix opts) = Inr ()"
    and st: "try_fold (plan_asset cr opts l all) (enumerate 0 all) \<lparr>ids_planned = [], groups = [], planned_bytes = 0\<rparr> = Inr st"
    and es: "try_map (plan_entry opts all) (sort_key fst (groups st)) = Inr es"
    and ids: "try_fold index_entry (enumerate 0 (plan_entries plan)) (ids_planned st) = Inr (plan_by_id plan)"
    and entries: "plan_entries plan = sort_key pa_filename es"
    by (auto simp: plan_assets_def Let_def and_then_Inr)
  show "validate_document pf vl d = Inr ()" by (rule doc)
  show "validate_asset_uri_prefix (asset_uri_prefix opts) = Inr ()" by (rule prefix)
  from planned_all [OF st] have planned: "planned_to cr all (length all) st" .
  have groups: "kv_ok (groups st)" "\<And>h g. kv_get (groups st) h = Some g \<Longrightarrow> group_ok cr all (length all) h g"
    using planned unfolding planned_to_def by blast+
  have rel: "list_all2 (\<lambda>g e. plan_entry opts all g = Inr e) (sort_key fst (groups st)) es"
    by (rule try_map_Inr [OF es])
  have origin: "\<exists>h g. kv_get (groups st) h = Some g \<and> plan_entry opts all (h, g) = Inr e"
    if "e \<in> set (plan_entries plan)" for e
  proof -
    from that obtain n where n: "n < length es" "es ! n = e" by (auto simp: entries in_set_conv_nth)
    with rel have "sort_key fst (groups st) ! n \<in> set (sort_key fst (groups st))"
      "plan_entry opts all (sort_key fst (groups st) ! n) = Inr e"
      by (auto simp: list_all2_conv_all_nth simp del: set_sort)
    then have "sort_key fst (groups st) ! n \<in> set (groups st)" "plan_entry opts all (sort_key fst (groups st) ! n) = Inr e"
      by simp_all
    then show ?thesis using groups(1) by (metis kv_get_in surj_pair)
  qed
  show entry: "entry_ok cr opts all e" if "e \<in> set (plan_entries plan)" for e
    using origin [OF that] plan_entry_ok groups(2) by blast
  show "a = b" if "a \<in> set (plan_entries plan)" "b \<in> set (plan_entries plan)" "pa_sha256 a = pa_sha256 b" for a b
    using origin [OF that(1)] origin [OF that(2)] plan_entry_source that(3) by (metis Inr_inject option.inject)
  show "asset_bytes (all ! j) = asset_bytes (all ! k)"
    if "j < length all" "k < length all" "asset_bytes (all ! j) \<noteq> []" "asset_bytes (all ! k) \<noteq> []"
      "sha256_hex cr (asset_bytes (all ! j)) = sha256_hex cr (asset_bytes (all ! k))" for j k
    using planned that unfolding planned_to_def by (metis option.inject)
  have "indexed_to (ids_planned st) (plan_entries plan) 0 (ids_planned st)"
    using planned by (auto simp: indexed_to_def planned_to_def split: option.splits)
  from try_fold_numbered [OF ids, where Q = "indexed_to (ids_planned st) (plan_entries plan)", OF this]
  have indexed: "indexed_to (ids_planned st) (plan_entries plan) (length (plan_entries plan)) (plan_by_id plan)"
    using index_entry_step by simp
  then have source: "map_option ref_source (plan_reference plan i) = map_option ref_source (kv_get (ids_planned st) i)" for i
    by (simp add: indexed_to_def plan_reference_def)
  show "ref_source r < length all \<and> asset_id (all ! ref_source r) = i" if "plan_reference plan i = Some r" for i r
  proof -
    from source [of i] that obtain r0 where "kv_get (ids_planned st) i = Some r0" "ref_source r0 = ref_source r"
      by (cases "kv_get (ids_planned st) i") auto
    with planned show ?thesis unfolding planned_to_def by metis
  qed
  show "k < length (plan_entries plan) \<and> i \<in> set (pa_ids (plan_entries plan ! k))"
    if "plan_reference plan i = Some r" "entry_index r = Some k" for i r k
    using indexed that by (auto simp: indexed_to_def plan_reference_def split: option.splits)
  show "\<exists>r. plan_reference plan (asset_id (all ! k)) = Some r \<and> ref_source r = k
       \<and> (asset_bytes (all ! k) \<noteq> [] \<longrightarrow> entry_index r \<noteq> None)" if k: "k < length all" for k
  proof -
    from planned k have "kv_get (ids_planned st) (asset_id (all ! k)) = Some \<lparr>entry_index = None, ref_source = k\<rparr>"
      by (simp add: planned_to_def)
    with source [of "asset_id (all ! k)"] obtain r where r: "plan_reference plan (asset_id (all ! k)) = Some r" "ref_source r = k"
      by (cases "plan_reference plan (asset_id (all ! k))") auto
    moreover have "entry_index r \<noteq> None" if bytes: "asset_bytes (all ! k) \<noteq> []"
    proof -
      from planned k bytes obtain g where g: "kv_get (groups st) (sha256_hex cr (asset_bytes (all ! k))) = Some g"
        "asset_bytes (all ! fst g) = asset_bytes (all ! k)"
        unfolding planned_to_def by blast
      then have "(sha256_hex cr (asset_bytes (all ! k)), g) \<in> set (sort_key fst (groups st))"
        using groups(1) by (simp add: kv_get_in)
      then obtain n where "n < length (sort_key fst (groups st))"
        "sort_key fst (groups st) ! n = (sha256_hex cr (asset_bytes (all ! k)), g)"
        by (auto simp only: in_set_conv_nth)
      with rel have "es ! n \<in> set es" "plan_entry opts all (sha256_hex cr (asset_bytes (all ! k)), g) = Inr (es ! n)"
        by (auto simp: list_all2_conv_all_nth)
      then obtain e where e: "e \<in> set (plan_entries plan)" "plan_entry opts all (sha256_hex cr (asset_bytes (all ! k)), g) = Inr e"
        unfolding entries by auto
      from entry [OF e(1)] plan_entry_source [OF e(2)] g(2) k have "asset_id (all ! k) \<in> set (pa_ids e)"
        by (auto simp: entry_ok_def same_bytes_def)
      moreover obtain j where "j < length (plan_entries plan)" "plan_entries plan ! j = e"
        using e(1) by (auto simp: in_set_conv_nth)
      ultimately show ?thesis
        using indexed r(1) by (fastforce simp: indexed_to_def plan_reference_def split: option.splits)
    qed
    ultimately show ?thesis by blast
  qed
qed

lemma asset_filename_Inr:
  "asset_filename_from_sha256 h mt = Inr f \<Longrightarrow> length h = 64
     \<and> (\<exists>v. f = ''asset-'' @ h @ (case media_type_extension v of Some e \<Rightarrow> ''.'' @ e | None \<Rightarrow> []))"
  by (auto simp: asset_filename_from_sha256_def and_then_Inr split: if_splits)

lemma entry_names:
  assumes "entry_ok cr opts all a" "entry_ok cr opts all b" "pa_uri a = pa_uri b"
  shows "pa_sha256 a = pa_sha256 b"
proof -
  have "\<exists>t. pa_filename e = ''asset-'' @ pa_sha256 e @ t \<and> length (pa_sha256 e) = 64" if "entry_ok cr opts all e" for e
    using that asset_filename_Inr unfolding entry_ok_def by metis
  with assms(1,2) obtain t u where t: "pa_filename a = ''asset-'' @ pa_sha256 a @ t" "length (pa_sha256 a) = 64"
    and u: "pa_filename b = ''asset-'' @ pa_sha256 b @ u" "length (pa_sha256 b) = 64" by blast
  have "pa_filename a = pa_filename b"
    using assms unfolding entry_ok_def join_uri_prefix_def by (auto split: option.splits)
  then have "pa_sha256 a @ t = pa_sha256 b @ u" unfolding t(1) u(1) by simp
  with t(2) u(2) show ?thesis by simp
qed

lemma planned_entry:
  assumes "plan_assets cr pf vl d all opts l = Inr plan" "plan_uri plan i = Some u"
  obtains e where "e \<in> set (plan_entries plan)" "entry_ok cr opts all e" "pa_uri e = u" "i \<in> set (pa_ids e)"
proof -
  from assms(2) obtain r k where r: "plan_reference plan i = Some r" "entry_index r = Some k"
    and u: "u = pa_uri (plan_entries plan ! k)"
    by (cases "plan_reference plan i") (auto simp: plan_uri_def)
  from plan_assets_facts(5) [OF assms(1) r] have "k < length (plan_entries plan)" "i \<in> set (pa_ids (plan_entries plan ! k))"
    by auto
  then show thesis using plan_assets_facts(3) [OF assms(1)] u by (intro that [of "plan_entries plan ! k"]) simp_all
qed

lemma asset_ids_distinct:
  assumes "plan_assets cr pf vl d all opts l = Inr plan" "j < length all" "k < length all"
    and "asset_id (all ! j) = asset_id (all ! k)"
  shows "j = k"
  using plan_assets_facts(6) [OF assms(1,2)] plan_assets_facts(6) [OF assms(1,3)] assms(4) by (metis option.inject)

lemma planned_entry_bytes:
  assumes "plan_assets cr pf vl d all opts l = Inr plan" "j < length all"
    and "entry_ok cr opts all e" "asset_id (all ! j) \<in> set (pa_ids e)"
  shows "asset_bytes (all ! pa_source e) = asset_bytes (all ! j)"
proof -
  from assms(3,4) obtain k where "k < length all" "asset_id (all ! j) = asset_id (all ! k)"
    "asset_bytes (all ! k) = asset_bytes (all ! pa_source e)"
    by (auto simp: entry_ok_def same_bytes_def)
  with asset_ids_distinct [OF assms(1,2)] show ?thesis by metis
qed

lemma planned_uri:
  assumes "plan_assets cr pf vl d all opts l = Inr plan" "k < length all" "asset_bytes (all ! k) \<noteq> []"
  shows "\<exists>u. plan_uri plan (asset_id (all ! k)) = Some u"
  using plan_assets_facts(6) [OF assms(1,2)] assms(3) by (auto simp: plan_uri_def)

lemma planned_uris_agree:
  assumes plan: "plan_assets cr pf vl d all opts l = Inr plan"
    and j: "j < length all" "asset_bytes (all ! j) \<noteq> []" and k: "k < length all" "asset_bytes (all ! k) \<noteq> []"
  shows "plan_uri plan (asset_id (all ! j)) = plan_uri plan (asset_id (all ! k)) \<longleftrightarrow> asset_bytes (all ! j) = asset_bytes (all ! k)"
proof -
  obtain u where u: "plan_uri plan (asset_id (all ! j)) = Some u" using planned_uri [OF plan j] by blast
  obtain v where v: "plan_uri plan (asset_id (all ! k)) = Some v" using planned_uri [OF plan k] by blast
  obtain a where a: "a \<in> set (plan_entries plan)" "entry_ok cr opts all a" "pa_uri a = u" "asset_id (all ! j) \<in> set (pa_ids a)"
    using planned_entry [OF plan u] by blast
  obtain b where b: "b \<in> set (plan_entries plan)" "entry_ok cr opts all b" "pa_uri b = v" "asset_id (all ! k) \<in> set (pa_ids b)"
    using planned_entry [OF plan v] by blast
  have sha: "pa_sha256 a = sha256_hex cr (asset_bytes (all ! j))" "pa_sha256 b = sha256_hex cr (asset_bytes (all ! k))"
    using a(2) b(2) planned_entry_bytes [OF plan j(1) a(2,4)] planned_entry_bytes [OF plan k(1) b(2,4)]
    by (simp_all add: entry_ok_def)
  show ?thesis
  proof
    assume "plan_uri plan (asset_id (all ! j)) = plan_uri plan (asset_id (all ! k))"
    with entry_names [OF a(2) b(2)] u v a(3) b(3) sha have "sha256_hex cr (asset_bytes (all ! j)) = sha256_hex cr (asset_bytes (all ! k))"
      by simp
    from plan_assets_facts(7) [OF plan j(1) k(1) j(2) k(2) this] show "asset_bytes (all ! j) = asset_bytes (all ! k)" .
  next
    assume "asset_bytes (all ! j) = asset_bytes (all ! k)"
    with plan_assets_facts(8) [OF plan a(1) b(1)] sha have "a = b" by simp
    with a(3) b(3) u v show "plan_uri plan (asset_id (all ! j)) = plan_uri plan (asset_id (all ! k))" by simp
  qed
qed

end
