(* ===== verification/Gfm_Properties.thy ===== *)
theory Gfm_Properties
  imports Gfm_Rows Gfm_Plan
begin

text \<open>
  Properties of the Markdown renderer: line endings and UTF-8 of the whole output, and the files that
  the asset plan assigns.
\<close>

section \<open>A concrete document\<close>

definition demo_assets :: "Asset list" where
  "demo_assets =
     [\<lparr>asset_id = ''a'', filename = None, media_type = ''image/png'', asset_bytes = [1, 2], external_uri = None\<rparr>,
      \<lparr>asset_id = ''b'', filename = None, media_type = ''image/PNG'', asset_bytes = [1, 2], external_uri = None\<rparr>]"

definition demo_markdown :: Document where
  "demo_markdown = default_document\<lparr>blocks :=
     [BlockNode ''h'' (Heading 2 [Text ''A*'' []]) demo_provenance,
      BlockNode ''p'' (Paragraph [Text (''x'' @ [CR, LF] @ ''y'' @ [CR]) [], Code ''c'']) demo_provenance,
      BlockNode ''i'' (Image ''b'' (Some ''Alt'')) demo_provenance]\<rparr>"

lemma demo_markdown_ok: "validate_with_limits pf demo_limits demo_markdown = Inr ()"
  by (simp add: validate_with_limits_def demo_markdown_def default_document_def default_validation_limits_def
      DOCUMENT_SCHEMA_VERSION_def new_state_def enter_nodes_def enter_node_def consume_structural_node_def
      consume_inlines_def blank_ascii is_whitespace_def demo_provenance_def validate_provenance_def default_locator_def
      validate_locator_def validate_geometry_def validate_inline_marks_def nonempty_def enter_footnote_def
      undefined_reference_def saturating_add_def word_less_nat_alt Let_def)

definition demo_sha :: string where "demo_sha = concat (replicate 32 ''01'')"

lemma demo_hash: "sha256_hex demo_crates [1, 2] = demo_sha"
proof -
  have "hex_of_digest (replicate n 1) = concat (replicate n ''01'')" for n
    by (simp add: hex_of_digest_def hex_digit_def)
  then show ?thesis by (simp add: sha256_hex_def demo_crates_def demo_sha_def)
qed

definition demo_plan :: AssetPlan where
  "demo_plan =
     (let f = ''asset-'' @ demo_sha @ ''.png'' in
      \<lparr>plan_entries = [\<lparr>pa_ids = [''a'', ''b''], pa_source = 0, pa_filename = f, pa_uri = ''files/'' @ f,
         pa_media_type = ''image/png'', pa_size = 2, pa_sha256 = demo_sha\<rparr>],
       plan_by_id = [(''b'', \<lparr>entry_index = Some 0, ref_source = 1\<rparr>), (''a'', \<lparr>entry_index = Some 0, ref_source = 0\<rparr>)]\<rparr>)"

definition demo_options :: OutputOptions where
  "demo_options = default_output_options\<lparr>asset_mode := Omit, asset_uri_prefix := Some ''files/''\<rparr>"

lemma demo_media_types: "normalize_media_type ''image/png'' = Inr ''image/png''" "normalize_media_type ''image/PNG'' = Inr ''image/png''"
  by (simp_all add: normalize_media_type_def valid_media_type_def media_type_byte_def is_ascii_alphanumeric_def
      is_ascii_alphabetic_def is_ascii_lowercase_def is_ascii_uppercase_def is_ascii_digit_def to_ascii_lowercase_def ascii_lower_def char_of_def bit_Suc bit_0)

lemma demo_prefix: "validate_asset_uri_prefix (Some ''files/'') = Inr ()"
  by (simp add: validate_asset_uri_prefix_def trim_end_char_def starts_with_any_def has_control_def Let_def chars_ascii is_control_def)

lemma demo_planning:
  "try_fold (plan_asset demo_crates demo_options default_limits demo_assets) (enumerate 0 demo_assets)
     \<lparr>ids_planned = [], groups = [], planned_bytes = 0\<rparr> =
   Inr \<lparr>ids_planned = [(''b'', \<lparr>entry_index = None, ref_source = 1\<rparr>), (''a'', \<lparr>entry_index = None, ref_source = 0\<rparr>)],
        groups = [(demo_sha, (0, ''image/png'', Some ''png'', [''a'', ''b'']))], planned_bytes = 4\<rparr>"
  by (simp add: demo_assets_def plan_asset_def Let_def blank_ascii is_whitespace_def demo_media_types demo_hash check_asset_size_def
       default_limits_def checked_add_def group_asset_def kv_put_def kv_del_def kv_get_def media_type_extension_def
       media_type_extensions_def)

lemma demo_sha_canonical: "length demo_sha = 64" "list_all (\<lambda>b. is_ascii_digit b \<or> (97 \<le> byte b \<and> byte b \<le> 102)) demo_sha"
proof -
  have "list_all P (concat (replicate n xs))" if "list_all P xs" for P n and xs :: string
    using that by (induction n) auto
  then show "list_all (\<lambda>b. is_ascii_digit b \<or> (97 \<le> byte b \<and> byte b \<le> 102)) demo_sha"
    unfolding demo_sha_def by (simp add: is_ascii_digit_def)
qed (simp add: demo_sha_def length_concat sum_list_replicate)

lemma demo_entry:
  "try_map (plan_entry demo_options demo_assets) [(demo_sha, (0, ''image/png'', Some ''png'', [''a'', ''b'']))] =
   Inr (plan_entries demo_plan)"
  using demo_sha_canonical
  by (simp add: plan_entry_def asset_filename_from_sha256_def demo_media_types media_type_extension_def
      media_type_extensions_def demo_options_def default_output_options_def join_uri_prefix_def trim_end_char_def
      demo_assets_def demo_plan_def Let_def)

lemma demo_plan_ok: "plan_assets demo_crates pf demo_limits demo_markdown demo_assets demo_options default_limits = Inr demo_plan"
proof -
  have prefix: "asset_uri_prefix demo_options = Some ''files/''" by (simp add: demo_options_def)
  have index: "try_fold index_entry (enumerate 0 (plan_entries demo_plan))
      [(''b'', \<lparr>entry_index = None, ref_source = 1\<rparr>), (''a'', \<lparr>entry_index = None, ref_source = 0\<rparr>)] =
    Inr (plan_by_id demo_plan)"
    by (simp add: demo_plan_def index_entry_def kv_get_def kv_put_def kv_del_def Let_def)
  have refs: "validate_planned_references demo_plan (blocks demo_markdown) [] = Inr [''b'']"
    by (simp add: demo_markdown_def default_document_def plan_reference_def demo_plan_def kv_get_def Let_def)
  have bytes: "require_bytes demo_options demo_assets demo_plan ''b'' u = Inr ()" for u
    by (simp add: require_bytes_def plan_reference_def plan_uri_def demo_plan_def kv_get_def Let_def)
  have sorted: "sort_key pa_filename (plan_entries demo_plan) = plan_entries demo_plan"
    by (simp add: demo_plan_def Let_def)
  have demo_groups: "sort_key fst [x] = [x]" for x :: "string \<times> asset_group" by simp
  have demo_sort: "sort [x] = [x]" for x :: string by simp
  have plan: "\<lparr>plan_entries = plan_entries demo_plan, plan_by_id = plan_by_id demo_plan\<rparr> = demo_plan" by simp
  show ?thesis
    unfolding plan_assets_def validate_document_def demo_markdown_ok prefix demo_prefix demo_planning Let_def
    by (simp only: and_then_simps sum.case planning.simps demo_groups demo_entry sorted index refs plan demo_sort try_fold.simps bytes)
qed

definition demo_context :: RenderContext where
  "demo_context = \<lparr>crates = demo_crates, asset_plan = demo_plan, inventory = demo_assets, output_options = demo_options,
     document = demo_markdown\<rparr>"

definition demo_output :: string where
  "demo_output = ''## A'' @ [BACKSLASH] @ ''*'' @ [LF, LF] @ ''x y '' @ [BACKTICK] @ ''c'' @ [BACKTICK] @ [LF, LF]
     @ ''Alt'' @ [LF]"

lemma demo_heading:
  "render_block demo_context rec (BlockNode ''h'' (Heading 2 [Text ''A*'' []]) demo_provenance) Normal =
     Inr (''## A'' @ [BACKSLASH] @ ''*'')"
  by (simp add: render_block_def render_heading_def epub_heading_anchor_def demo_provenance_def default_locator_def
      render_inlines_def render_marked_text_def single_line_def normalize_lf_def replace_char_def escape_text_def
      escape_text_char_def escaped_punctuation_def Let_def demo_context_def)
    (simp add: numeral_2_eq_2)

lemma demo_paragraph:
  "render_block demo_context rec (BlockNode ''p'' (Paragraph [Text (''x'' @ [CR, LF] @ ''y'' @ [CR]) [], Code ''c'']) demo_provenance) Normal =
     Inr (''x y '' @ [BACKTICK] @ ''c'' @ [BACKTICK])"
  by (simp add: render_block_def protect_paragraph_indent_def render_code_span_def longest_run_def
      render_inlines_def render_marked_text_def single_line_def normalize_lf_def replace_char_def escape_text_def
      escape_text_char_def escaped_punctuation_def Let_def demo_context_def blank_ascii is_whitespace_def
      starts_with_any_def ends_with_any_def)

lemma demo_image:
  "render_block demo_context rec (BlockNode ''i'' (Image ''b'' (Some ''Alt'')) demo_provenance) Normal = Inr ''Alt''"
  by (simp add: render_block_def render_image_def escape_image_alt_def demo_context_def demo_options_def
      single_line_def normalize_lf_def replace_char_def escape_text_def
      escape_text_char_def escaped_punctuation_def Let_def default_output_options_def)

lemma demo_rendered: "render_document demo_crates pf demo_limits demo_markdown demo_assets demo_options default_limits = Inr demo_output"
proof -
  have strings: "block_strings demo_context (\<lambda>n. render_block demo_context (render_blocks_in demo_context) n Normal) False False
      (blocks demo_markdown) =
    Inr [''## A'' @ [BACKSLASH] @ ''*'', ''x y '' @ [BACKTICK] @ ''c'' @ [BACKTICK], ''Alt'']"
    using demo_heading demo_paragraph demo_image
    by (simp add: demo_markdown_def default_document_def hidden_heading_def is_notes_heading_def ends_with_def
        HEADING_MARK_def strip_suffix_def is_list_def)
  have "flavor demo_options = ''gfm''" by (simp add: demo_options_def default_output_options_def)
  then show ?thesis
    by (simp add: render_document_def demo_plan_ok render_blocks_in.simps strings flip: demo_context_def)
      (simp add: demo_output_def trim_blank_lines_def trim_end_char_def Let_def eq_ignore_ascii_case_def)
qed

section \<open>Asset files\<close>

text \<open>
  Claim C38: in an accepted plan every asset with bytes has a file, and two assets have the same file
  exactly when their bytes are equal, whatever the digest is: a collision is refused.
\<close>

theorem asset_files_are_content_addressed:
  assumes "plan_assets cr pf vl d assets opts l = Inr plan"
    and "j < length assets" "asset_bytes (assets ! j) \<noteq> []" "k < length assets" "asset_bytes (assets ! k) \<noteq> []"
  shows "plan_uri plan (asset_id (assets ! j)) \<noteq> None
    \<and> (plan_uri plan (asset_id (assets ! j)) = plan_uri plan (asset_id (assets ! k)) \<longleftrightarrow>
      asset_bytes (assets ! j) = asset_bytes (assets ! k))"
  using planned_uri [OF assms(1-3)] planned_uris_agree [OF assms] by blast

theorem asset_files_are_content_addressed_witness:
  "plan_uri demo_plan ''a'' \<noteq> None \<and> plan_uri demo_plan ''a'' = plan_uri demo_plan ''b''"
  using asset_files_are_content_addressed [OF demo_plan_ok [of undefined], of 0 1]
  by (simp add: demo_assets_def del: not_None_eq) metis

section \<open>Line endings\<close>

lemma last_trim_end: "trim_end_char c s \<noteq> [] \<Longrightarrow> last (trim_end_char c s) \<noteq> c"
  using hd_dropWhile [of "\<lambda>d. d = c" "rev s"] by (simp add: trim_end_char_def last_rev)

lemma lf_context: "context_satisfies (\<lambda>_. True) rc"
  by (auto simp: context_satisfies_def asset_satisfies_def)

lemma render_document_Inr:
  assumes "render_document cr pf vl d assets opts l = Inr out"
  obtains plan body where "plan_assets cr pf vl d assets opts l = Inr plan"
    "render_blocks_in \<lparr>crates = cr, asset_plan = plan, inventory = assets, output_options = opts, document = d\<rparr> (blocks d) Normal
       = Inr body"
    "out = (if trim_blank_lines body = [] then [] else trim_blank_lines body @ [LF])"
  using assms by (auto simp: render_document_def and_then_Inr Let_def split: if_splits)

lemma rendered_has_no_CR:
  assumes "render_document cr pf vl d assets opts l = Inr out"
    and "kv_get (properties (metadata d)) ''spreadsheet.encoding'' \<noteq> Some ''spreadsheetml''"
  shows "CR \<notin> set out \<and> (out = [] \<or> (\<exists>body. out = body @ [LF] \<and> body \<noteq> [] \<and> last body \<noteq> LF))"
proof -
  obtain plan body where body: "render_blocks_in \<lparr>crates = cr, asset_plan = plan, inventory = assets, output_options = opts,
      document = d\<rparr> (blocks d) Normal = Inr body"
    and out: "out = (if trim_blank_lines body = [] then [] else trim_blank_lines body @ [LF])"
    using render_document_Inr [OF assms(1)] by metis
  have "CR \<notin> set body"
    by (rule lf.P_blocks_in [OF body lf_context])
      (simp_all add: uses_spreadsheetml_html_tables_def assms(2) nodes_satisfy_def)
  with out last_trim_end [of LF body] lf.P_trim_end [of body] show ?thesis by (auto simp: trim_blank_lines_def)
qed

text \<open>
  Claim C37: unless the document is a SpreadsheetML workbook, whose merged tables are HTML, rendered
  Markdown has no carriage return and is empty or ends with exactly one line feed.
\<close>

theorem rendered_markdown_uses_line_feeds:
  assumes "render_document cr pf vl d assets opts l = Inr out"
    and "kv_get (properties (metadata d)) ''spreadsheet.encoding'' \<noteq> Some ''spreadsheetml''"
  shows "CR \<notin> set out \<and> (out = [] \<or> (\<exists>body. out = body @ [LF] \<and> body \<noteq> [] \<and> last body \<noteq> LF))"
  by (rule rendered_has_no_CR [OF assms])

theorem rendered_markdown_uses_line_feeds_witness:
  "CR \<notin> set demo_output \<and> (\<exists>body. demo_output = body @ [LF] \<and> body \<noteq> [] \<and> last body \<noteq> LF)"
proof -
  have "kv_get (properties (metadata demo_markdown)) ''spreadsheet.encoding'' \<noteq> Some ''spreadsheetml''"
    by (simp add: demo_markdown_def default_document_def)
  from rendered_markdown_uses_line_feeds [OF demo_rendered [of undefined] this] show ?thesis
    by (simp add: demo_output_def)
qed

text \<open>
  The restriction is needed: the HTML form of a cell writes code as it is, carriage returns included.
\<close>

lemma html_cells_keep_carriage_returns:
  "\<exists>s t. render_html_cell demo_rc rec (Cell 2 1 False [BlockNode ''c'' (CodeBlock None [CR]) demo_provenance]) = Inr (s, t)
     \<and> CR \<in> set s"
  by (simp add: render_html_cell_def html_cell_block_def escape_html_code_def escape_html_char_def exact_string_def
      exact_uninit_def exact_push_def exact_finish_def demo_rc_def demo_crates_def capacity64_def to_u64_def plan_add_def
      checked_add_def valid_utf8_def from_utf8_def)

section \<open>UTF-8\<close>

definition asset_is_utf8 :: "Asset \<Rightarrow> bool" where
  "asset_is_utf8 a \<longleftrightarrow> valid_utf8 (media_type a) \<and> (case external_uri a of None \<Rightarrow> True | Some u \<Rightarrow> valid_utf8 u)"

text \<open>That every string of the input is a Rust \<open>String\<close>.\<close>

definition input_is_utf8 :: "Document \<Rightarrow> Asset list \<Rightarrow> OutputOptions \<Rightarrow> bool" where
  "input_is_utf8 d assets opts \<longleftrightarrow>
     list_all (\<lambda>n. list_all valid_utf8 (block_strings_of (node_block n))) (all_nodes (blocks d))
     \<and> list_all (\<lambda>kv. valid_utf8 (snd kv)) (properties (metadata d))
     \<and> list_all asset_is_utf8 assets
     \<and> (case asset_uri_prefix opts of None \<Rightarrow> True | Some p \<Rightarrow> valid_utf8 p)"

lemma media_type_extension_ascii: "media_type_extension v = Some e \<Longrightarrow> list_all (\<lambda>c. byte c < 128) e"
  unfolding media_type_extension_def
  by (drule map_of_SomeD) (auto simp: media_type_extensions_def)

lemma asset_filename_utf8: "asset_filename_from_sha256 h mt = Inr f \<Longrightarrow> utf8 f"
proof -
  assume f: "asset_filename_from_sha256 h mt = Inr f"
  from asset_filename_Inr [OF f] obtain v
    where v: "f = ''asset-'' @ h @ (case media_type_extension v of Some e \<Rightarrow> ''.'' @ e | None \<Rightarrow> [])" by blast
  have "list_all (\<lambda>c. byte c < 128) h"
    using f by (auto simp: asset_filename_from_sha256_def list_all_iff is_ascii_digit_def split: if_splits)
  then have "list_all (\<lambda>c. byte c < 128) f"
    using media_type_extension_ascii [of v] by (auto simp: v split: option.splits)
  then show "utf8 f" by (rule utf8_ascii)
qed

lemma planned_uri_utf8:
  assumes "plan_assets cr pf vl d assets opts l = Inr plan" "plan_uri plan i = Some u"
    and "\<And>p. asset_uri_prefix opts = Some p \<Longrightarrow> utf8 p"
  shows "utf8 u"
proof -
  obtain e where e: "entry_ok cr opts assets e" "pa_uri e = u"
    using planned_entry [OF assms(1,2)] by blast
  then have "utf8 (pa_filename e)" using asset_filename_utf8 by (auto simp: entry_ok_def)
  moreover have "utf8 ''/''" by (rule utf8_ascii) simp
  ultimately show ?thesis
    using e assms(3) utf8_trim_end_char [of "CHR ''/''"] utf8_append [of "''/''" "pa_filename e"]
    by (auto simp: entry_ok_def join_uri_prefix_def split: option.splits)
qed

lemma rendered_is_utf8:
  assumes "render_document cr pf vl d assets opts l = Inr out"
    and "input_is_utf8 d assets opts" and "\<And>bs. valid_utf8 (base64_encode cr bs)"
  shows "valid_utf8 out"
proof -
  obtain plan body where plan: "plan_assets cr pf vl d assets opts l = Inr plan"
    and body: "render_blocks_in \<lparr>crates = cr, asset_plan = plan, inventory = assets, output_options = opts,
      document = d\<rparr> (blocks d) Normal = Inr body"
    and out: "out = (if trim_blank_lines body = [] then [] else trim_blank_lines body @ [LF])"
    using render_document_Inr [OF assms(1)] by metis
  have input: "nodes_satisfy utf8 (blocks d)" "\<And>kv. kv \<in> set (properties (metadata d)) \<Longrightarrow> utf8 (snd kv)"
    "\<And>a. a \<in> set assets \<Longrightarrow> asset_satisfies utf8 a" "\<And>p. asset_uri_prefix opts = Some p \<Longrightarrow> utf8 p"
    using assms(2) by (auto simp: input_is_utf8_def nodes_satisfy_def list_all_iff valid_utf8_iff asset_is_utf8_def asset_satisfies_def)
  have "context_satisfies utf8 \<lparr>crates = cr, asset_plan = plan, inventory = assets, output_options = opts, document = d\<rparr>"
    using input(2,3) assms(3) plan_assets_facts(4) [OF plan] planned_uri_utf8 [OF plan _ input(4)]
    by (auto simp: context_satisfies_def valid_utf8_iff)
  then have "utf8 body" by (rule unicode.P_blocks_in [OF body]) (simp_all add: input(1))
  moreover have "utf8 [LF]" by (rule utf8_ascii) simp
  ultimately show ?thesis using unicode.P_trim_end [of body] by (auto simp: out valid_utf8_iff trim_blank_lines_def utf8_Nil)
qed

text \<open>
  Claim C36: when the strings of the document, the assets and the options are UTF-8 and Base64 text
  is, the rendered Markdown is UTF-8: no escape, trim or split breaks a character.
\<close>

theorem rendered_markdown_is_utf8:
  assumes "render_document cr pf vl d assets opts l = Inr out"
    and "input_is_utf8 d assets opts" and "\<And>bs. valid_utf8 (base64_encode cr bs)"
  shows "valid_utf8 out"
  by (rule rendered_is_utf8 [OF assms])

theorem rendered_markdown_is_utf8_witness: "valid_utf8 demo_output"
proof (rule rendered_markdown_is_utf8 [OF demo_rendered [of undefined]])
  have ascii: "valid_utf8 s" if "list_all (\<lambda>c. byte c < 128) s" for s
    using utf8_ascii [OF that] by (simp add: valid_utf8_iff)
  then show "valid_utf8 (base64_encode demo_crates bs)" for bs by (simp add: demo_crates_def)
  show "input_is_utf8 demo_markdown demo_assets demo_options"
    by (simp add: input_is_utf8_def demo_markdown_def default_document_def demo_assets_def asset_is_utf8_def
        demo_options_def ascii)
qed

end
