(* ===== verification/Spec2Isabelle.thy ===== *)
theory Spec2Isabelle
  imports Adaptation IR_Safety IR_Preflight Http_Client Http_Request Http_Round_Trip Compound_Ownership Lzfu_History Gfm_Properties
begin

text \<open>
  A verification library of into-markdown, a Rust program that converts documents to Markdown. A
  conversion runs in an \<open>ExecutionContext\<close> that meters memory, temporary bytes and time; a converter
  parses its input into a typed \<open>Document\<close>; the document is validated and rendered as GitHub
  flavoured Markdown. The library models these parts, the compound-file reader under the MSG and
  binary Office converters, and the HTTP transport that fetches remote inputs.

  \<^bold>\<open>How code is modelled.\<close> A Rust integer is a word of its width with the source's checked, saturating
  or wrapping operation; \<open>usize\<close> counts of things in memory are natural numbers with the source's
  conversions to \<open>u64\<close> written out. A \<open>str\<close> is its UTF-8 byte sequence (\<open>Strings\<close>). A \<open>Result\<close> is a
  sum, \<open>Inl\<close> the error; \<open>and_then\<close> and, where state is threaded, \<open>try_do\<close> are the \<open>?\<close> operator.
  Structs are records, enums datatypes, loops recursive functions. A \<open>Drop\<close> implementation is an
  explicit operation. What another thread, the operating system or a server does is an explicit
  sequence of events or an argument; what a crate outside \<open>src/\<close> computes is an argument.

  \<^bold>\<open>Foundations.\<close> \<open>Prelude\<close> (machine integers, results, key-value stores), \<open>Strings\<close> (UTF-8, ASCII
  classes, splitting, trimming), \<open>Floats\<close> (the bits of \<open>f32\<close>), \<open>Utf8\<close> (strings as sequences of
  encoded scalars), \<open>Conversion_Error\<close> (\<open>core/src/error.rs\<close>), \<open>Input_Format\<close> (\<open>format.rs\<close>),
  \<open>Options\<close> (\<open>options.rs\<close>).

  \<^bold>\<open>Execution\<close> (\<open>core/src/execution.rs\<close>, \<open>execution/adaptation.rs\<close>). \<open>Execution\<close> has the world (pools,
  backings, credits, reservations, clock, cancellation) and one definition per call: \<open>reserve\<close>,
  \<open>grow\<close>, \<open>shrink\<close>, \<open>drop_reservation\<close>, \<open>with_memory_credit\<close>, \<open>checkpoint\<close> and the others;
  \<open>Temporary_File\<close> the accounted files; \<open>Progress\<close> the ordered mailbox and its worker;
  \<open>Adaptation\<close> soft limits and OCR counters. \<open>Execution_Steps\<close> makes every call a step of one
  relation, so that a reachable world is any interleaving of calls of any contexts. \<open>Accounting\<close> and
  \<open>Guard_Lifecycle\<close> prove the invariant: both pools are exactly the sums of what is held, nothing is
  released twice and nothing leaks; \<open>Execution_Properties\<close>, \<open>Execution_Controls\<close> and
  \<open>File_Properties\<close> draw the properties from it. \<open>Metering\<close> states as a locale what a component that
  buffers under a budget needs of a lease and interprets it on the reservations of \<open>Execution\<close>.

  \<^bold>\<open>Documents\<close> (\<open>core/src/ir.rs\<close>, \<open>ir/locator.rs\<close>). \<open>Document_IR\<close> has the types, \<open>IR_Validation\<close> and
  \<open>IR_Blocks\<close> the validator \<open>validate_with_limits\<close> with its state and every rejection,
  \<open>IR_Wire_Table\<close> and \<open>IR_Preflight\<close> the stack-driven preflight of parsed JSON (\<open>Json\<close>) before typed
  decoding, with a layout of tables that does not use its occupancy vector. What an accepted
  document is, is stated without the validator: \<open>IR_Tree\<close> reads the tree, \<open>IR_Local\<close> says what each
  node satisfies by itself, \<open>IR_Inline_Count\<close> counts the inlines, and \<open>IR_WellFormed\<close> puts them together;
  \<open>IR_Tables\<close> shows that accepted tables tile their grid, \<open>IR_Safety\<close> that part names stay inside a
  container and that timed tokens reproduce their segment.

  \<^bold>\<open>HTTP\<close> (\<open>http-transport/src/\<close>). \<open>Http_Policy\<close> (addresses, hosts, URLs, \<open>authorized_addresses\<close>),
  \<open>Http_Headers\<close> (\<open>policy.rs\<close>, \<open>http1.rs\<close>: media types, file names, response heads), \<open>Http_Request\<close>,
  \<open>Http_Body\<close> (\<open>body.rs\<close>: the chunk chain, metered reads, chunked decoding), \<open>Http_Client\<close> (redirects,
  deadlines). The public addresses are those of the code's list; the special-purpose blocks it
  leaves out are named with the property. \<open>Http_Body_Properties\<close> and \<open>Http_Round_Trip\<close> show that the
  chain refines a byte string and that decoding inverts the encoding, whose sizes are numerals of
  base sixteen, for every segmentation of the network's reads.

  \<^bold>\<open>Compound files\<close> (\<open>converters/src/msg/ole/\<close>, \<open>msg/budget.rs\<close>, \<open>legacy_office/budget.rs\<close>,
  \<open>msg/body/lzfu.rs\<close>). \<open>Compound_Budget\<close> has the trait \<open>CompoundBudget\<close> as a record, its laws as the
  locale \<open>compound_budget\<close>, and both implementations with their interpretations. \<open>Cfb_Chain\<close> walks
  and owns sectors, \<open>Cfb_Directory\<close> and \<open>Cfb_Paths\<close> build the tree of entries and its paths,
  \<open>Cfb_Stream\<close> reads streams, \<open>Compound_File\<close> opens the file. \<open>Compound_Leases\<close> proves, for every
  budget with the laws, that opening leaks no lease and stays below the expansion limit;
  \<open>Compound_Layout\<close> reads the parts of a file off its bytes without the reader, and \<open>Compound_Ownership\<close>
  shows that an opened file consists of exactly these parts and that no sector is used twice.
  \<open>Lzfu\<close> decodes compressed RTF; \<open>Lzfu_History\<close> shows that its ring refines an unbounded history and that decoding inverts an encoder.

  \<^bold>\<open>Renderer\<close> (\<open>render-markdown/src/\<close>). \<open>Gfm_Text\<close> (escapes, fences), \<open>Gfm_Assets\<close> (\<open>plan_assets\<close>),
  \<open>Gfm_Inline\<close> (\<open>inline.rs\<close>), \<open>Gfm_Tables\<close> and \<open>Gfm_Blocks\<close> (grids, exact buffers, byte plans, HTML
  tables), \<open>Gfm_Render\<close> (lists, images, speaker notes) and \<open>Gfm_Document\<close> (\<open>render_block\<close>,
  \<open>render_blocks_in\<close>, \<open>render\<close>). \<open>Gfm_Invariant\<close> has two locales: what inlines need of a predicate on
  rendered text, and what a whole document needs; \<open>Gfm_Output\<close> interprets them for line feeds and
  UTF-8, \<open>Gfm_Rows\<close> for escaped bars. \<open>Gfm_Rows\<close> and \<open>Gfm_Fences\<close> read tables and code blocks back with
  the rules of GFM and CommonMark; \<open>Gfm_Plan\<close> characterises accepted asset plans; \<open>Gfm_Properties\<close>
  holds the properties of the whole output.

  \<^bold>\<open>Termination and fuel.\<close> Every function is total. Nested walks (\<open>visit_tree\<close>, \<open>render_blocks_in\<close>, the
  validator) carry termination proofs: the unseen entries or the size of the tree decreases. The LZFu
  loop consumes its payload; chain walks and the redirect loop carry the bound of the source.
  Temporary file creation tries the source's 128 names; no fuel is invented.

  \<^bold>\<open>Parameters.\<close> The \<open>url\<close> crate (\<open>url_crate\<close>), Unicode NFC and the alphanumeric table above ASCII,
  SHA-256 and Base64 (\<open>gfm_crates\<close>), serde parsing and typed decoding, the \<open>f32\<close> division and the
  pointer width of the platform (\<open>platform\<close>), the outcome of an allocation and the capacity a growing
  string gets, the sizes of Rust types in the directory plan, the exchange with a server and the
  results of system calls. Hypotheses on them are stated in the theorem that uses them.

  \<^bold>\<open>Not modelled.\<close> Wakers, threads and asynchronous scheduling; sockets, TLS, proxies and DNS threads;
  serde itself; the property and attachment layers of MSG; every other converter (they rest on
  third-party parsers, codecs and \<open>encoding_rs\<close>); PDF layout (tuned floating point geometry); OCR,
  speech, AI, FFmpeg, PDFium and ONNX boundaries; plugins; the SQLite task store; the engine's
  scheduling, the command line and the web interface; the renderer's memory forecast before
  rendering. The recursion of \<open>visit_tree\<close> has no stack in the model, so running out of it is not seen.
\<close>

end
